(* ===== verification/Prelude.thy ===== *)
theory Prelude
  imports Main "HOL-Library.Word" "HOL-Library.Sublist" "HOL-Library.Monad_Syntax"
begin

text \<open>
  Prelude of the development: the C vocabulary the components share.  C strings are HOL
  strings without their terminating NUL (a \<^typ>\<open>char\<close> is a byte); a pointer into a string
  is the suffix that starts there.  The \<^verbatim>\<open>ctype.h\<close> predicates are those of the C locale
  (the program never calls \<^verbatim>\<open>setlocale\<close>).  The collections below gather the facts that
  \<open>simp\<close> and \<open>auto\<close> use in the component theories.
\<close>

named_theorems lex_simps \<open>rewriting the scanner's primitives on their results\<close>
named_theorems lex_step \<open>what one scanner procedure keeps of the input\<close>
named_theorems proc_intros \<open>parser procedures that return and make progress\<close>

section \<open>Characters and C strings\<close>

abbreviation NUL :: char where "NUL \<equiv> CHR 0x00"
abbreviation TAB :: char where "TAB \<equiv> CHR 0x09"
abbreviation NL :: char where "NL \<equiv> CHR 0x0A"
abbreviation CR :: char where "CR \<equiv> CHR 0x0D"
abbreviation SPACE :: char where "SPACE \<equiv> CHR 0x20"
abbreviation DQUOTE :: char where "DQUOTE \<equiv> CHR 0x22"
abbreviation BACKSLASH :: char where "BACKSLASH \<equiv> CHR 0x5C"

definition code :: "char \<Rightarrow> nat" where
  "code c = of_char c"

definition isdigit :: "char \<Rightarrow> bool" where
  "isdigit c \<longleftrightarrow> 48 \<le> code c \<and> code c \<le> 57"

definition isalpha :: "char \<Rightarrow> bool" where
  "isalpha c \<longleftrightarrow> (65 \<le> code c \<and> code c \<le> 90) \<or> (97 \<le> code c \<and> code c \<le> 122)"

definition isalnum :: "char \<Rightarrow> bool" where
  "isalnum c \<longleftrightarrow> isalpha c \<or> isdigit c"

definition isspace :: "char \<Rightarrow> bool" where
  "isspace c \<longleftrightarrow> code c = 32 \<or> (9 \<le> code c \<and> code c \<le> 13)"

text \<open>The text of a C string: the bytes before the first NUL.\<close>

definition cstr :: "string \<Rightarrow> string" where
  "cstr s = takeWhile (\<lambda>c. c \<noteq> NUL) s"

definition nul_free :: "string \<Rightarrow> bool" where
  "nul_free s \<longleftrightarrow> NUL \<notin> set s"

lemma isdigit_NUL [simp]: "\<not> isdigit NUL"
  by (simp add: isdigit_def code_def)

lemma isalpha_NUL [simp]: "\<not> isalpha NUL"
  by (simp add: isalpha_def code_def)

lemma isalnum_NUL [simp]: "\<not> isalnum NUL"
  by (simp add: isalnum_def)

lemma isdigit_not_alpha: "isdigit c \<Longrightarrow> \<not> isalpha c"
  by (auto simp: isdigit_def isalpha_def)

lemma nul_free_Nil [simp]: "nul_free []"
  by (simp add: nul_free_def)

lemma nul_free_Cons [simp]: "nul_free (c # s) \<longleftrightarrow> c \<noteq> NUL \<and> nul_free s"
  by (auto simp: nul_free_def)

lemma nul_free_append [simp]: "nul_free (s @ t) \<longleftrightarrow> nul_free s \<and> nul_free t"
  by (auto simp: nul_free_def)

section \<open>Lists\<close>

lemma dropWhile_neq_self:
  "length (dropWhile P xs) < length xs \<longleftrightarrow> xs \<noteq> [] \<and> P (hd xs)"
  by (cases xs) (auto simp: le_imp_less_Suc length_dropWhile_le)

lemma takeWhile_append_stop:
  "\<forall>x \<in> set xs. P x \<Longrightarrow> ys = [] \<or> \<not> P (hd ys) \<Longrightarrow> takeWhile P (xs @ ys) = xs"
  by (cases ys) (auto simp: takeWhile_append)

lemma dropWhile_append_stop:
  "\<forall>x \<in> set xs. P x \<Longrightarrow> ys = [] \<or> \<not> P (hd ys) \<Longrightarrow> dropWhile P (xs @ ys) = ys"
  by (cases ys) (auto simp: dropWhile_append)

lemma take_length_diff_suffix:
  "suffix s t \<Longrightarrow> take (length t - length s) t @ s = t"
  by (auto simp: suffix_def)

lemma suffix_tl [simp, intro]: "suffix (tl s) s"
  by (cases s) (auto simp: suffix_def)

section \<open>C integers\<close>

text \<open>\<^verbatim>\<open>long long\<close> is a 64-bit two's complement word, read with \<^const>\<open>sint\<close>.\<close>

type_synonym llong = "64 word"

definition LLONG_MAX :: int where "LLONG_MAX = 9223372036854775807"
definition LLONG_MIN :: int where "LLONG_MIN = - 9223372036854775808"

text \<open>
  Where the code computes with \<^verbatim>\<open>int\<close> or \<^verbatim>\<open>long long\<close> and the result could be out of range, which is
  undefined in C, the models ask whether it fits.
\<close>

definition INT_MAX :: int where "INT_MAX = 2147483647"
definition INT_MIN :: int where "INT_MIN = - 2147483648"

definition fits_int :: "int \<Rightarrow> bool" where
  "fits_int n \<longleftrightarrow> INT_MIN \<le> n \<and> n \<le> INT_MAX"

definition fits_llong :: "int \<Rightarrow> bool" where
  "fits_llong n \<longleftrightarrow> LLONG_MIN \<le> n \<and> n \<le> LLONG_MAX"

lemma fits_int_nonneg [simp]: "0 \<le> n \<Longrightarrow> fits_int n \<longleftrightarrow> n \<le> INT_MAX"
  by (auto simp: fits_int_def INT_MIN_def)

definition digit_val :: "char \<Rightarrow> nat" where
  "digit_val c = code c - 48"

fun digits_val :: "nat \<Rightarrow> string \<Rightarrow> nat" where
  "digits_val acc [] = acc"
| "digits_val acc (c # cs) = digits_val (10 * acc + digit_val c) cs"

text \<open>
  \<^verbatim>\<open>atoll\<close> on a string of decimal digits with an optional sign, as the C library reads it:
  the longest prefix of digits, clamped to the range of \<^verbatim>\<open>long long\<close> (what \<^verbatim>\<open>strtoll\<close>,
  which the C library calls for it, returns out of range).
\<close>

definition clamp_llong :: "int \<Rightarrow> llong" where
  "clamp_llong n = word_of_int (max LLONG_MIN (min LLONG_MAX n))"

definition atoll :: "string \<Rightarrow> llong" where
  "atoll s =
     (if s \<noteq> [] \<and> hd s = CHR ''-''
      then clamp_llong (- int (digits_val 0 (takeWhile isdigit (tl s))))
      else clamp_llong (int (digits_val 0 (takeWhile isdigit s))))"

lemma sint_clamp_llong:
  assumes "LLONG_MIN \<le> n" and "n \<le> LLONG_MAX"
  shows "sint (clamp_llong n) = n"
proof -
  have "signed_take_bit 63 n = n"
    using assms by (simp add: signed_take_bit_int_eq_self_iff LLONG_MIN_def LLONG_MAX_def)
  with assms show ?thesis
    by (simp add: clamp_llong_def sint_sbintrunc')
qed

section \<open>Numbers in decimal\<close>

definition digit_char :: "nat \<Rightarrow> char" where
  "digit_char d = char_of (if d < 10 then 48 + d else 87 + d)"

text \<open>\<^verbatim>\<open>%d\<close> of a natural number, and of an integer.\<close>

fun show_nat :: "nat \<Rightarrow> string" where
  "show_nat n = (if n < 10 then [digit_char n] else show_nat (n div 10) @ [digit_char (n mod 10)])"

declare show_nat.simps [simp del]

definition show_int :: "int \<Rightarrow> string" where
  "show_int n = (if n < 0 then CHR ''-'' # show_nat (nat (- n)) else show_nat (nat n))"

end
