(* ===== verification/Lexer.thy ===== *)
theory Lexer
  imports Prelude
begin

text \<open>
  The scanner: \<^verbatim>\<open>include/token.h\<close>, \<^verbatim>\<open>include/lexer.h\<close> and \<^verbatim>\<open>src/lexer/lexer.c\<close>.
  A \<^verbatim>\<open>Lexer\<close> is the record \<open>lexer\<close>; its pointer \<^verbatim>\<open>cur\<close> is the suffix of the source
  that starts there, so that the difference of two pointers is a difference of lengths.  A
  \<^verbatim>\<open>Token\<close> is the record \<open>token\<close>, its \<^verbatim>\<open>start\<close> again a suffix of the source.  The extra
  field \<open>lx_oob\<close> records a cursor moved past the terminating NUL, which no scanner
  procedure does (\<open>lexer_next_in_bounds\<close>).
\<close>

section \<open>Tokens\<close>

text \<open>
  \<^verbatim>\<open>TokenType\<close>, grouped as the sections of the enum are: the literals, the type keywords,
  the other keywords, and punctuation with the operators.  Every enumerator has its own
  name below; \<^verbatim>\<open>TOK_COUNT\<close> only counts them.
\<close>

datatype (plugins only: code size) type_kw =
    TY_STRING | TY_NUM | TY_DECIMAL | TY_BOOL | TY_SCIFI | TY_DATA | TY_LIST | TY_MIXEDLIST
   | TY_ENUM | TY_STRUCT | TY_VECTOR | TY_MATRIX | TY_TASK | TY_WORKER | TY_SOCKET

datatype (plugins only: code size) keyword =
    KW_VAR | KW_FIXED | KW_FUN | KW_ASYNC | KW_AWAIT | KW_RETURN | KW_IF | KW_ELIF | KW_ELSE
   | KW_LOOP | KW_DO | KW_WHILE | KW_FOR | KW_IN | KW_ITERATE | KW_CLASS | KW_PUBLIC
   | KW_PRIVATE | KW_IMPORT | KW_EXPORT | KW_TRY | KW_CATCH | KW_LIVE | KW_NEW | KW_THIS
   | KW_EXTENDS | KW_SUPER

datatype (plugins only: code size) punct =
    P_LPAREN | P_RPAREN | P_LBRACE | P_RBRACE | P_LBRACKET | P_RBRACKET | P_SEMI | P_COLON
   | P_COMMA | P_DOT | P_QUESTION | P_ASSIGN | P_PLUS | P_MINUS | P_STAR | P_SLASH
   | P_PERCENT | P_POW | P_PLUS_EQ | P_MINUS_EQ | P_STAR_EQ | P_SLASH_EQ | P_PERCENT_EQ
   | P_POW_EQ | P_GT | P_LT | P_GE | P_LE | P_EQ | P_NE | P_SHL | P_SHR | P_BETWEEN | P_AND
   | P_OR | P_NOT

datatype (plugins only: code size) token_type =
    TOK_EOF | TOK_ERROR
  | TOK_NUM_LIT | TOK_DECIMAL_LIT | TOK_SCIFI_LIT | TOK_STRING_LIT
  | TOK_TRUE | TOK_FALSE | TOK_IDENT
  | TypeKw type_kw | Keyword keyword | Punct punct

abbreviation TOK_TYPE_STRING where "TOK_TYPE_STRING \<equiv> TypeKw TY_STRING"
abbreviation TOK_TYPE_NUM where "TOK_TYPE_NUM \<equiv> TypeKw TY_NUM"
abbreviation TOK_TYPE_DECIMAL where "TOK_TYPE_DECIMAL \<equiv> TypeKw TY_DECIMAL"
abbreviation TOK_TYPE_BOOL where "TOK_TYPE_BOOL \<equiv> TypeKw TY_BOOL"
abbreviation TOK_TYPE_SCIFI where "TOK_TYPE_SCIFI \<equiv> TypeKw TY_SCIFI"
abbreviation TOK_TYPE_DATA where "TOK_TYPE_DATA \<equiv> TypeKw TY_DATA"
abbreviation TOK_TYPE_LIST where "TOK_TYPE_LIST \<equiv> TypeKw TY_LIST"
abbreviation TOK_TYPE_MIXEDLIST where "TOK_TYPE_MIXEDLIST \<equiv> TypeKw TY_MIXEDLIST"
abbreviation TOK_TYPE_ENUM where "TOK_TYPE_ENUM \<equiv> TypeKw TY_ENUM"
abbreviation TOK_TYPE_STRUCT where "TOK_TYPE_STRUCT \<equiv> TypeKw TY_STRUCT"
abbreviation TOK_TYPE_VECTOR where "TOK_TYPE_VECTOR \<equiv> TypeKw TY_VECTOR"
abbreviation TOK_TYPE_MATRIX where "TOK_TYPE_MATRIX \<equiv> TypeKw TY_MATRIX"
abbreviation TOK_TYPE_TASK where "TOK_TYPE_TASK \<equiv> TypeKw TY_TASK"
abbreviation TOK_TYPE_WORKER where "TOK_TYPE_WORKER \<equiv> TypeKw TY_WORKER"
abbreviation TOK_TYPE_SOCKET where "TOK_TYPE_SOCKET \<equiv> TypeKw TY_SOCKET"

abbreviation TOK_VAR where "TOK_VAR \<equiv> Keyword KW_VAR"
abbreviation TOK_FIXED where "TOK_FIXED \<equiv> Keyword KW_FIXED"
abbreviation TOK_FUN where "TOK_FUN \<equiv> Keyword KW_FUN"
abbreviation TOK_ASYNC where "TOK_ASYNC \<equiv> Keyword KW_ASYNC"
abbreviation TOK_AWAIT where "TOK_AWAIT \<equiv> Keyword KW_AWAIT"
abbreviation TOK_RETURN where "TOK_RETURN \<equiv> Keyword KW_RETURN"
abbreviation TOK_IF where "TOK_IF \<equiv> Keyword KW_IF"
abbreviation TOK_ELIF where "TOK_ELIF \<equiv> Keyword KW_ELIF"
abbreviation TOK_ELSE where "TOK_ELSE \<equiv> Keyword KW_ELSE"
abbreviation TOK_LOOP where "TOK_LOOP \<equiv> Keyword KW_LOOP"
abbreviation TOK_DO where "TOK_DO \<equiv> Keyword KW_DO"
abbreviation TOK_WHILE where "TOK_WHILE \<equiv> Keyword KW_WHILE"
abbreviation TOK_FOR where "TOK_FOR \<equiv> Keyword KW_FOR"
abbreviation TOK_IN where "TOK_IN \<equiv> Keyword KW_IN"
abbreviation TOK_ITERATE where "TOK_ITERATE \<equiv> Keyword KW_ITERATE"
abbreviation TOK_CLASS where "TOK_CLASS \<equiv> Keyword KW_CLASS"
abbreviation TOK_PUBLIC where "TOK_PUBLIC \<equiv> Keyword KW_PUBLIC"
abbreviation TOK_PRIVATE where "TOK_PRIVATE \<equiv> Keyword KW_PRIVATE"
abbreviation TOK_IMPORT where "TOK_IMPORT \<equiv> Keyword KW_IMPORT"
abbreviation TOK_EXPORT where "TOK_EXPORT \<equiv> Keyword KW_EXPORT"
abbreviation TOK_TRY where "TOK_TRY \<equiv> Keyword KW_TRY"
abbreviation TOK_CATCH where "TOK_CATCH \<equiv> Keyword KW_CATCH"
abbreviation TOK_LIVE where "TOK_LIVE \<equiv> Keyword KW_LIVE"
abbreviation TOK_NEW where "TOK_NEW \<equiv> Keyword KW_NEW"
abbreviation TOK_THIS where "TOK_THIS \<equiv> Keyword KW_THIS"
abbreviation TOK_EXTENDS where "TOK_EXTENDS \<equiv> Keyword KW_EXTENDS"
abbreviation TOK_SUPER where "TOK_SUPER \<equiv> Keyword KW_SUPER"

abbreviation TOK_LPAREN where "TOK_LPAREN \<equiv> Punct P_LPAREN"
abbreviation TOK_RPAREN where "TOK_RPAREN \<equiv> Punct P_RPAREN"
abbreviation TOK_LBRACE where "TOK_LBRACE \<equiv> Punct P_LBRACE"
abbreviation TOK_RBRACE where "TOK_RBRACE \<equiv> Punct P_RBRACE"
abbreviation TOK_LBRACKET where "TOK_LBRACKET \<equiv> Punct P_LBRACKET"
abbreviation TOK_RBRACKET where "TOK_RBRACKET \<equiv> Punct P_RBRACKET"
abbreviation TOK_SEMI where "TOK_SEMI \<equiv> Punct P_SEMI"
abbreviation TOK_COLON where "TOK_COLON \<equiv> Punct P_COLON"
abbreviation TOK_COMMA where "TOK_COMMA \<equiv> Punct P_COMMA"
abbreviation TOK_DOT where "TOK_DOT \<equiv> Punct P_DOT"
abbreviation TOK_QUESTION where "TOK_QUESTION \<equiv> Punct P_QUESTION"
abbreviation TOK_ASSIGN where "TOK_ASSIGN \<equiv> Punct P_ASSIGN"
abbreviation TOK_PLUS where "TOK_PLUS \<equiv> Punct P_PLUS"
abbreviation TOK_MINUS where "TOK_MINUS \<equiv> Punct P_MINUS"
abbreviation TOK_STAR where "TOK_STAR \<equiv> Punct P_STAR"
abbreviation TOK_SLASH where "TOK_SLASH \<equiv> Punct P_SLASH"
abbreviation TOK_PERCENT where "TOK_PERCENT \<equiv> Punct P_PERCENT"
abbreviation TOK_POW where "TOK_POW \<equiv> Punct P_POW"
abbreviation TOK_PLUS_EQ where "TOK_PLUS_EQ \<equiv> Punct P_PLUS_EQ"
abbreviation TOK_MINUS_EQ where "TOK_MINUS_EQ \<equiv> Punct P_MINUS_EQ"
abbreviation TOK_STAR_EQ where "TOK_STAR_EQ \<equiv> Punct P_STAR_EQ"
abbreviation TOK_SLASH_EQ where "TOK_SLASH_EQ \<equiv> Punct P_SLASH_EQ"
abbreviation TOK_PERCENT_EQ where "TOK_PERCENT_EQ \<equiv> Punct P_PERCENT_EQ"
abbreviation TOK_POW_EQ where "TOK_POW_EQ \<equiv> Punct P_POW_EQ"
abbreviation TOK_GT where "TOK_GT \<equiv> Punct P_GT"
abbreviation TOK_LT where "TOK_LT \<equiv> Punct P_LT"
abbreviation TOK_GE where "TOK_GE \<equiv> Punct P_GE"
abbreviation TOK_LE where "TOK_LE \<equiv> Punct P_LE"
abbreviation TOK_EQ where "TOK_EQ \<equiv> Punct P_EQ"
abbreviation TOK_NE where "TOK_NE \<equiv> Punct P_NE"
abbreviation TOK_SHL where "TOK_SHL \<equiv> Punct P_SHL"
abbreviation TOK_SHR where "TOK_SHR \<equiv> Punct P_SHR"
abbreviation TOK_BETWEEN where "TOK_BETWEEN \<equiv> Punct P_BETWEEN"
abbreviation TOK_AND where "TOK_AND \<equiv> Punct P_AND"
abbreviation TOK_OR where "TOK_OR \<equiv> Punct P_OR"
abbreviation TOK_NOT where "TOK_NOT \<equiv> Punct P_NOT"

record token =
  tk_type :: token_type
  tk_start :: string
  tk_length :: nat
  tk_line :: nat

definition token_text :: "token \<Rightarrow> string" where
  "token_text t = take (tk_length t) (tk_start t)"

section \<open>The scanner's state and its primitives\<close>

record lexer =
  lx_source :: string
  lx_cur :: string
  lx_line :: nat
  lx_filename :: "string option"
  lx_oob :: bool

definition lexer_init :: "string \<Rightarrow> string option \<Rightarrow> lexer" where
  "lexer_init source filename =
     \<lparr>lx_source = source, lx_cur = source, lx_line = 1, lx_filename = filename, lx_oob = False\<rparr>"

definition peek :: "lexer \<Rightarrow> char" where
  "peek lx = (case lx_cur lx of [] \<Rightarrow> NUL | c # _ \<Rightarrow> c)"

definition is_at_end :: "lexer \<Rightarrow> bool" where
  "is_at_end lx \<longleftrightarrow> peek lx = NUL"

definition peek2 :: "lexer \<Rightarrow> char" where
  "peek2 lx =
     (if peek lx = NUL then NUL
      else case tl (lx_cur lx) of [] \<Rightarrow> NUL | c # _ \<Rightarrow> c)"

text \<open>The character read and the scanner after it; \<^verbatim>\<open>*lx->cur++\<close> at the NUL leaves the string.\<close>

definition advance :: "lexer \<Rightarrow> char \<times> lexer" where
  "advance lx =
     (peek lx,
      lx\<lparr>lx_cur := tl (lx_cur lx),
         lx_line := (if peek lx = NL then lx_line lx + 1 else lx_line lx),
         lx_oob := lx_oob lx \<or> is_at_end lx\<rparr>)"

abbreviation adv :: "lexer \<Rightarrow> lexer" where
  "adv lx \<equiv> snd (advance lx)"

definition match :: "lexer \<Rightarrow> char \<Rightarrow> bool \<times> lexer" where
  "match lx expected =
     (if is_at_end lx \<or> peek lx \<noteq> expected then (False, lx)
      else (True, lx\<lparr>lx_cur := tl (lx_cur lx)\<rparr>))"

lemma adv_cur [simp]: "lx_cur (adv lx) = tl (lx_cur lx)"
  by (simp add: advance_def)

lemma peek_nonempty: "\<not> is_at_end lx \<Longrightarrow> lx_cur lx = peek lx # tl (lx_cur lx)"
  by (auto simp: is_at_end_def peek_def split: list.splits)

lemma length_adv [simp]:
  "\<not> is_at_end lx \<Longrightarrow> length (lx_cur (adv lx)) < length (lx_cur lx)"
  by (metis adv_cur peek_nonempty length_Cons lessI)

lemma adv_line: "lx_line (adv lx) = lx_line lx + (if peek lx = NL then 1 else 0)"
  by (simp add: advance_def)

lemma adv_oob [simp]: "\<not> is_at_end lx \<Longrightarrow> lx_oob (adv lx) = lx_oob lx"
  by (simp add: advance_def)

section \<open>The loops of the scanner\<close>

definition keyword_table :: "(string \<times> token_type) list" where
  "keyword_table = [
    (''string'', TOK_TYPE_STRING), (''num'', TOK_TYPE_NUM),
    (''decimal'', TOK_TYPE_DECIMAL), (''bool'', TOK_TYPE_BOOL),
    (''scifi'', TOK_TYPE_SCIFI), (''data'', TOK_TYPE_DATA), (''list'', TOK_TYPE_LIST),
    (''MixedList'', TOK_TYPE_MIXEDLIST), (''enum'', TOK_TYPE_ENUM),
    (''struct'', TOK_TYPE_STRUCT), (''vector'', TOK_TYPE_VECTOR),
    (''matrix'', TOK_TYPE_MATRIX), (''Task'', TOK_TYPE_TASK),
    (''Worker'', TOK_TYPE_WORKER), (''Socket'', TOK_TYPE_SOCKET), (''var'', TOK_VAR),
    (''fixed'', TOK_FIXED), (''fun'', TOK_FUN), (''async'', TOK_ASYNC),
    (''await'', TOK_AWAIT), (''return'', TOK_RETURN), (''if'', TOK_IF),
    (''elif'', TOK_ELIF), (''else'', TOK_ELSE), (''loop'', TOK_LOOP), (''do'', TOK_DO),
    (''while'', TOK_WHILE), (''for'', TOK_FOR), (''in'', TOK_IN),
    (''iterate'', TOK_ITERATE), (''class'', TOK_CLASS), (''public'', TOK_PUBLIC),
    (''private'', TOK_PRIVATE), (''import'', TOK_IMPORT), (''export'', TOK_EXPORT),
    (''try'', TOK_TRY), (''catch'', TOK_CATCH), (''new'', TOK_NEW), (''this'', TOK_THIS),
    (''extends'', TOK_EXTENDS), (''super'', TOK_SUPER), (''true'', TOK_TRUE),
    (''false'', TOK_FALSE)]"

text \<open>\<^verbatim>\<open>while (cond) advance(lx);\<close> for a condition that is false at the end of the source.\<close>

function advance_while :: "(lexer \<Rightarrow> bool) \<Rightarrow> lexer \<Rightarrow> lexer" where
  "advance_while cond lx =
     (if \<not> is_at_end lx \<and> cond lx then advance_while cond (adv lx) else lx)"
  by pat_completeness auto
termination
  by (relation "measure (\<lambda>(_, lx). length (lx_cur lx))") (auto simp del: adv_cur)

declare advance_while.simps [simp del]

lemma advance_while_le: "length (lx_cur (advance_while cond lx)) \<le> length (lx_cur lx)"
proof (induction cond lx rule: advance_while.induct)
  case (1 cond lx)
  then show ?case
    by (subst advance_while.simps) (auto intro: order.trans)
qed

lemma advance_while_less:
  assumes "\<not> is_at_end lx" and "cond lx"
  shows "length (lx_cur (advance_while cond lx)) < length (lx_cur lx)"
proof -
  have "advance_while cond lx = advance_while cond (adv lx)"
    using assms by (subst advance_while.simps) simp
  with advance_while_le [of cond "adv lx"] length_adv [OF assms(1)] show ?thesis
    by simp
qed

lemma adv_le: "length (lx_cur (adv lx)) \<le> length (lx_cur lx)"
  by simp

definition in_block_comment :: "lexer \<Rightarrow> bool" where
  "in_block_comment lx \<longleftrightarrow> \<not> (peek lx = CHR ''*'' \<and> peek2 lx = CHR ''/'')"

definition in_line_comment :: "lexer \<Rightarrow> bool" where
  "in_line_comment lx \<longleftrightarrow> peek lx \<noteq> NL"

function skip_ws_and_comments :: "lexer \<Rightarrow> lexer" where
  "skip_ws_and_comments lx =
     (let c = peek lx in
      if c = SPACE \<or> c = TAB \<or> c = CR \<or> c = NL then skip_ws_and_comments (adv lx)
      else if c = CHR ''/'' \<and> peek2 lx = CHR ''/'' then
        skip_ws_and_comments (advance_while in_line_comment lx)
      else if c = CHR ''/'' \<and> peek2 lx = CHR ''*'' then
        (let lx1 = advance_while in_block_comment (adv (adv lx))
         in skip_ws_and_comments (if \<not> is_at_end lx1 then adv (adv lx1) else lx1))
      else lx)"
  by pat_completeness auto
termination
proof (relation "measure (\<lambda>lx. length (lx_cur lx))", goal_cases)
  case 1
  show ?case by simp
next
  case (2 lx c)
  then have "\<not> is_at_end lx" by (auto simp: is_at_end_def)
  then show ?case by (simp del: adv_cur)
next
  case (3 lx c)
  then have "\<not> is_at_end lx" by (auto simp: is_at_end_def)
  moreover from 3 have "peek lx \<noteq> NL" by auto
  ultimately show ?case by (simp add: advance_while_less in_line_comment_def)
next
  case (4 lx c l)
  then have "\<not> is_at_end lx" by (auto simp: is_at_end_def)
  then have "length (lx_cur (adv lx)) < length (lx_cur lx)" by (simp del: adv_cur)
  moreover have "length (lx_cur l) \<le> length (lx_cur (adv lx))"
    using 4 advance_while_le [of _ "adv (adv lx)"] adv_le [of "adv lx"]
    by (auto simp del: adv_cur intro: order.trans)
  ultimately show ?case
    using adv_le [of l] adv_le [of "adv l"] by (auto simp del: adv_cur)
qed

declare skip_ws_and_comments.simps [simp del]

function string_body :: "lexer \<Rightarrow> lexer" where
  "string_body lx =
     (if \<not> is_at_end lx \<and> peek lx \<noteq> DQUOTE then
        string_body (if peek lx = BACKSLASH \<and> peek2 lx \<noteq> NUL then adv (adv lx) else adv lx)
      else lx)"
  by pat_completeness auto
termination
proof (relation "measure (\<lambda>lx. length (lx_cur lx))", goal_cases)
  case 1
  show ?case by simp
next
  case (2 lx)
  then have "length (lx_cur (adv lx)) < length (lx_cur lx)" by (simp del: adv_cur)
  with adv_le [of "adv lx"] show ?case by (simp del: adv_cur)
qed

declare string_body.simps [simp del]

section \<open>Recognising a token\<close>

definition make_token :: "lexer \<Rightarrow> token_type \<Rightarrow> string \<Rightarrow> nat \<Rightarrow> token" where
  "make_token lx ty start len = \<lparr>tk_type = ty, tk_start = start, tk_length = len, tk_line = lx_line lx\<rparr>"

definition ident_char :: "lexer \<Rightarrow> bool" where
  "ident_char lx \<longleftrightarrow> isalnum (peek lx) \<or> peek lx = CHR ''_''"

definition identifier_or_keyword :: "lexer \<Rightarrow> string \<Rightarrow> token \<times> lexer" where
  "identifier_or_keyword lx start =
     (let lx = advance_while ident_char lx;
          len = length start - length (lx_cur lx)
      in (case map_of keyword_table (take len start) of
            Some t \<Rightarrow> (make_token lx t start len, lx)
          | None \<Rightarrow> (make_token lx TOK_IDENT start len, lx)))"

definition digit_ahead :: "lexer \<Rightarrow> bool" where
  "digit_ahead lx \<longleftrightarrow> isdigit (peek lx)"

definition number_fraction :: "lexer \<Rightarrow> bool \<times> lexer" where
  "number_fraction lx =
     (if peek lx = CHR ''.'' \<and> isdigit (peek2 lx)
      then (True, advance_while digit_ahead (adv lx)) else (False, lx))"

definition number_exponent :: "lexer \<Rightarrow> bool \<times> lexer" where
  "number_exponent lx =
     (if peek lx = CHR ''E'' \<or> peek lx = CHR ''e'' then
        (let save = lx_cur lx;
             lx1 = adv lx;
             lx2 = (if peek lx1 = CHR ''+'' \<or> peek lx1 = CHR ''-'' then adv lx1 else lx1)
         in if isdigit (peek lx2) then (True, advance_while digit_ahead lx2)
            else (False, lx2\<lparr>lx_cur := save\<rparr>))
      else (False, lx))"

definition number :: "lexer \<Rightarrow> string \<Rightarrow> token \<times> lexer" where
  "number lx start =
     (let lx = advance_while digit_ahead lx;
          (is_decimal, lx) = number_fraction lx;
          (is_scifi, lx) = number_exponent lx;
          len = length start - length (lx_cur lx)
      in if is_scifi then (make_token lx TOK_SCIFI_LIT start len, lx)
         else if is_decimal then (make_token lx TOK_DECIMAL_LIT start len, lx)
         else (make_token lx TOK_NUM_LIT start len, lx))"

definition string_lit :: "lexer \<Rightarrow> token \<times> lexer" where
  "string_lit lx =
     (let start = lx_cur lx;
          lx = string_body lx;
          len = length start - length (lx_cur lx);
          lx = (if \<not> is_at_end lx then adv lx else lx)
      in (make_token lx TOK_STRING_LIT start len, lx))"

text \<open>\<^verbatim>\<open>if (match(lx, expected)) return make(lx, two, start, n + 1); return make(lx, one, start, n);\<close>\<close>

definition one_or_two ::
  "lexer \<Rightarrow> char \<Rightarrow> token_type \<Rightarrow> token_type \<Rightarrow> string \<Rightarrow> nat \<Rightarrow> token \<times> lexer" where
  "one_or_two lx expected two one start n =
     (case match lx expected of
        (True, lx) \<Rightarrow> (make_token lx two start (n + 1), lx)
      | (False, lx) \<Rightarrow> (make_token lx one start n, lx))"

definition punctuation :: "(char \<times> token_type) list" where
  "punctuation =
     [(CHR ''('', TOK_LPAREN), (CHR '')'', TOK_RPAREN), (CHR ''{'', TOK_LBRACE),
      (CHR ''}'', TOK_RBRACE), (CHR ''['', TOK_LBRACKET), (CHR '']'', TOK_RBRACKET),
      (CHR '';'', TOK_SEMI), (CHR '':'', TOK_COLON), (CHR '','', TOK_COMMA),
      (CHR ''.'', TOK_DOT), (CHR ''?'', TOK_QUESTION)]"

definition operator :: "lexer \<Rightarrow> char \<Rightarrow> string \<Rightarrow> token \<times> lexer" where
  "operator lx c start =
     (if c = CHR ''+'' then one_or_two lx (CHR ''='') TOK_PLUS_EQ TOK_PLUS start 1
      else if c = CHR ''-'' then one_or_two lx (CHR ''='') TOK_MINUS_EQ TOK_MINUS start 1
      else if c = CHR ''*'' then
        (if peek lx = CHR ''*''
         then one_or_two (adv lx) (CHR ''='') TOK_POW_EQ TOK_POW start 2
         else one_or_two lx (CHR ''='') TOK_STAR_EQ TOK_STAR start 1)
      else if c = CHR ''/'' then one_or_two lx (CHR ''='') TOK_SLASH_EQ TOK_SLASH start 1
      else if c = CHR ''%'' then one_or_two lx (CHR ''='') TOK_PERCENT_EQ TOK_PERCENT start 1
      else if c = CHR ''='' then one_or_two lx (CHR ''='') TOK_EQ TOK_ASSIGN start 1
      else if c = CHR ''!'' then one_or_two lx (CHR ''='') TOK_NE TOK_NOT start 1
      else if c = CHR ''&'' then one_or_two lx (CHR ''&'') TOK_AND TOK_ERROR start 1
      else if c = CHR ''|'' then one_or_two lx (CHR ''|'') TOK_OR TOK_ERROR start 1
      else if c = CHR ''>'' then
        (if peek lx = CHR ''='' then (let lx = adv lx in (make_token lx TOK_GE start 2, lx))
         else if peek lx = CHR ''>'' then (let lx = adv lx in (make_token lx TOK_SHR start 2, lx))
         else (make_token lx TOK_GT start 1, lx))
      else if c = CHR ''<'' then
        (if peek lx = CHR ''='' then (let lx = adv lx in (make_token lx TOK_LE start 2, lx))
         else if peek lx = CHR ''<'' \<and> peek2 lx = CHR ''<'' then
           (let lx = adv (adv lx) in (make_token lx TOK_BETWEEN start 3, lx))
         else if peek lx = CHR ''<'' then (let lx = adv lx in (make_token lx TOK_SHL start 2, lx))
         else (make_token lx TOK_LT start 1, lx))
      else (make_token lx TOK_ERROR start 1, lx))"

definition lexer_next :: "lexer \<Rightarrow> token \<times> lexer" where
  "lexer_next lx =
     (let lx = skip_ws_and_comments lx;
          start = lx_cur lx
      in if is_at_end lx then (make_token lx TOK_EOF start 0, lx)
         else
           (let (c, lx) = advance lx in
            if isalpha c \<or> c = CHR ''_'' then identifier_or_keyword lx start
            else if isdigit c then number lx start
            else if c = DQUOTE then string_lit lx
            else (case map_of punctuation c of
                    Some t \<Rightarrow> (make_token lx t start 1, lx)
                  | None \<Rightarrow> operator lx c start)))"

fun token_type_name :: "token_type \<Rightarrow> string" where
  "token_type_name TOK_EOF = ''EOF''"
| "token_type_name TOK_ERROR = ''ERROR''"
| "token_type_name TOK_NUM_LIT = ''NUM_LIT''"
| "token_type_name TOK_DECIMAL_LIT = ''DECIMAL_LIT''"
| "token_type_name TOK_SCIFI_LIT = ''SCIFI_LIT''"
| "token_type_name TOK_STRING_LIT = ''STRING_LIT''"
| "token_type_name TOK_IDENT = ''IDENT''"
| "token_type_name _ = ''TOKEN''"

end
