(* ===== verification/Lexer_Correct.thy ===== *)
theory Lexer_Correct
  imports Lexer
begin

text \<open>
  Facts about the scanner.  \<open>scans lx lx'\<close> says that the scanner moved from \<open>lx\<close> to
  \<open>lx'\<close> over a piece of the source: no NUL was crossed, the line counter went up by the
  newlines crossed, and the cursor stayed in the string.  Every procedure of the scanner is
  such a move; what \<^const>\<open>lexer_next\<close> promises its caller (progress, a sticky end of
  input, tokens inside the source) is collected in the locale \<open>token_stream\<close>.
\<close>

section \<open>Moves over the source\<close>

definition scans :: "lexer \<Rightarrow> lexer \<Rightarrow> bool" where
  "scans lx lx' \<longleftrightarrow>
     (\<exists>pre. lx_cur lx = pre @ lx_cur lx' \<and> nul_free pre \<and>
            lx_line lx' = lx_line lx + count_list pre NL \<and>
            lx_oob lx' = lx_oob lx \<and> lx_filename lx' = lx_filename lx \<and>
            lx_source lx' = lx_source lx)"

lemma scans_refl [simp]: "scans lx lx"
  by (simp add: scans_def)

lemma scans_trans [trans]:
  assumes "scans a b" and "scans b c"
  shows "scans a c"
proof -
  from assms(1) obtain p where p: "lx_cur a = p @ lx_cur b" "nul_free p"
      "lx_line b = lx_line a + count_list p NL"
      "lx_oob b = lx_oob a" "lx_filename b = lx_filename a" "lx_source b = lx_source a"
    unfolding scans_def by blast
  from assms(2) obtain q where q: "lx_cur b = q @ lx_cur c" "nul_free q"
      "lx_line c = lx_line b + count_list q NL"
      "lx_oob c = lx_oob b" "lx_filename c = lx_filename b" "lx_source c = lx_source b"
    unfolding scans_def by blast
  from p q have "lx_cur a = (p @ q) @ lx_cur c" "nul_free (p @ q)"
      "lx_line c = lx_line a + count_list (p @ q) NL"
      "lx_oob c = lx_oob a" "lx_filename c = lx_filename a" "lx_source c = lx_source a"
    by simp_all
  then show ?thesis
    unfolding scans_def by blast
qed

lemma scans_le: "scans lx lx' \<Longrightarrow> length (lx_cur lx') \<le> length (lx_cur lx)"
  by (auto simp: scans_def)

lemma scans_adv [lex_step]: "\<not> is_at_end lx \<Longrightarrow> scans lx (adv lx)"
  unfolding scans_def
  by (rule exI [of _ "[peek lx]"])
    (use peek_nonempty [of lx] in \<open>auto simp: is_at_end_def advance_def\<close>)

lemma scans_match [lex_step]: "c \<noteq> NL \<Longrightarrow> scans lx (snd (match lx c))"
  unfolding scans_def match_def
  by (cases "is_at_end lx \<or> peek lx \<noteq> c")
    (use peek_nonempty [of lx] in \<open>auto simp: is_at_end_def intro!: exI [of _ "[peek lx]"]\<close>)

lemma peek2_NUL_adv: "peek2 lx \<noteq> NUL \<Longrightarrow> \<not> is_at_end lx \<and> \<not> is_at_end (adv lx)"
  by (auto simp: peek2_def is_at_end_def peek_def split: if_splits list.splits)

lemma peek_adv: "\<not> is_at_end lx \<Longrightarrow> peek (adv lx) = peek2 lx"
  by (simp add: peek2_def is_at_end_def peek_def)

lemma scans_advance_while [lex_step]: "scans lx (advance_while cond lx)"
proof (induction cond lx rule: advance_while.induct)
  case (1 cond lx)
  then show ?case
    by (subst advance_while.simps) (auto intro: scans_trans scans_adv)
qed

lemma advance_while_stop: "is_at_end (advance_while c lx) \<or> \<not> c (advance_while c lx)"
proof (induction c lx rule: advance_while.induct)
  case (1 c lx)
  then show ?case
    by (cases "\<not> is_at_end lx \<and> c lx") (auto simp: advance_while.simps [of c lx])
qed

lemma scans_string_body [lex_step]: "scans lx (string_body lx)"
proof (induction lx rule: string_body.induct)
  case (1 lx)
  show ?case
  proof (cases "\<not> is_at_end lx \<and> peek lx \<noteq> DQUOTE")
    case True
    have "scans lx (if peek lx = BACKSLASH \<and> peek2 lx \<noteq> NUL then adv (adv lx) else adv lx)"
      using True peek2_NUL_adv [of lx] by (auto intro: scans_trans scans_adv)
    also from 1 True have "scans \<dots> (string_body \<dots>)" by simp
    finally show ?thesis using True by (subst string_body.simps) simp
  next
    case False
    then show ?thesis by (subst string_body.simps) auto
  qed
qed

lemma string_body_stop: "is_at_end (string_body lx) \<or> peek (string_body lx) = DQUOTE"
proof (induction lx rule: string_body.induct)
  case (1 lx)
  then show ?case
    by (cases "\<not> is_at_end lx \<and> peek lx \<noteq> DQUOTE") (auto simp: string_body.simps [of lx])
qed

lemma scans_adv2:
  "\<not> is_at_end lx \<Longrightarrow> peek2 lx \<noteq> NUL \<Longrightarrow> scans lx (adv (adv lx))"
  using peek2_NUL_adv [of lx] by (blast intro: scans_trans scans_adv)

lemma scans_skip [lex_step]: "scans lx (skip_ws_and_comments lx)"
proof (induction lx rule: skip_ws_and_comments.induct)
  case (1 lx)
  let ?c = "peek lx"
  consider (ws) "?c = SPACE \<or> ?c = TAB \<or> ?c = CR \<or> ?c = NL"
    | (line) "\<not> (?c = SPACE \<or> ?c = TAB \<or> ?c = CR \<or> ?c = NL)"
        "?c = CHR ''/'' \<and> peek2 lx = CHR ''/''"
    | (block) "\<not> (?c = SPACE \<or> ?c = TAB \<or> ?c = CR \<or> ?c = NL)"
        "?c = CHR ''/'' \<and> peek2 lx = CHR ''*''"
    | (stop) "\<not> (?c = SPACE \<or> ?c = TAB \<or> ?c = CR \<or> ?c = NL)"
        "\<not> (?c = CHR ''/'' \<and> peek2 lx = CHR ''/'')" "\<not> (?c = CHR ''/'' \<and> peek2 lx = CHR ''*'')"
    by blast
  then show ?case
  proof cases
    case ws
    then have "\<not> is_at_end lx" by (auto simp: is_at_end_def)
    with 1(1) ws have "scans lx (skip_ws_and_comments (adv lx))"
      by (blast intro: scans_trans scans_adv)
    with ws show ?thesis by (subst skip_ws_and_comments.simps) (simp add: Let_def)
  next
    case line
    with 1(2) have "scans lx (skip_ws_and_comments (advance_while in_line_comment lx))"
      by (blast intro: scans_trans scans_advance_while)
    with line show ?thesis by (subst skip_ws_and_comments.simps) (simp add: Let_def)
  next
    case block
    define l where "l = advance_while in_block_comment (adv (adv lx))"
    have "\<not> is_at_end lx" using block by (auto simp: is_at_end_def)
    then have "scans lx l"
      unfolding l_def using block scans_adv2 [of lx]
      by (auto intro: scans_trans scans_advance_while)
    moreover have "scans l (if \<not> is_at_end l then adv (adv l) else l)"
      using advance_while_stop [of in_block_comment "adv (adv lx)"]
      by (auto simp: l_def in_block_comment_def intro!: scans_adv2)
    moreover have "scans (if \<not> is_at_end l then adv (adv l) else l)
        (skip_ws_and_comments (if \<not> is_at_end l then adv (adv l) else l))"
      using 1(3) [OF refl _ _ _ l_def] block by auto
    ultimately have "scans lx (skip_ws_and_comments (if \<not> is_at_end l then adv (adv l) else l))"
      by (blast intro: scans_trans)
    with block show ?thesis
      by (subst skip_ws_and_comments.simps) (auto simp: Let_def l_def)
  next
    case stop
    then have "skip_ws_and_comments lx = lx"
      by (subst skip_ws_and_comments.simps) (simp add: Let_def del: de_Morgan_conj)
    then show ?thesis by simp
  qed
qed

section \<open>Every procedure of the scanner is a move\<close>

lemma scans_identifier [lex_step]: "scans lx (snd (identifier_or_keyword lx start))"
  by (simp add: identifier_or_keyword_def Let_def scans_advance_while split: option.split)

lemma scans_fraction [lex_step]: "scans lx (snd (number_fraction lx))"
  by (auto simp: number_fraction_def is_at_end_def intro!: scans_trans [OF scans_adv]
      scans_advance_while)

lemma scans_restore:
  assumes "scans lx lx'" and "lx_line lx' = lx_line lx"
  shows "scans lx (lx'\<lparr>lx_cur := lx_cur lx\<rparr>)"
  using assms by (auto simp: scans_def)

lemma scans_exponent [lex_step]: "scans lx (snd (number_exponent lx))"
proof (cases "peek lx = CHR ''E'' \<or> peek lx = CHR ''e''")
  case True
  then have *: "\<not> is_at_end lx" "lx_line (adv lx) = lx_line lx"
    by (auto simp: is_at_end_def adv_line)
  define l where "l = (if peek (adv lx) = CHR ''+'' \<or> peek (adv lx) = CHR ''-''
    then adv (adv lx) else adv lx)"
  have "scans lx l" "lx_line l = lx_line lx"
    using * by (auto simp: l_def is_at_end_def adv_line intro!: scans_trans [OF scans_adv] scans_adv)
  moreover have "snd (number_exponent lx) =
      (if isdigit (peek l) then advance_while digit_ahead l else l\<lparr>lx_cur := lx_cur lx\<rparr>)"
    using True by (simp add: number_exponent_def Let_def l_def)
  ultimately show ?thesis
    by (auto intro: scans_trans scans_advance_while scans_restore)
qed (simp add: number_exponent_def)

lemma snd_number:
  "snd (number lx start) =
     snd (number_exponent (snd (number_fraction (advance_while digit_ahead lx))))"
  by (simp add: number_def Let_def split: prod.split)

lemma scans_number [lex_step]: "scans lx (snd (number lx start))"
  unfolding snd_number
  by (rule scans_trans, rule scans_trans, rule scans_advance_while, rule scans_fraction,
      rule scans_exponent)

lemma scans_string_lit [lex_step]: "scans lx (snd (string_lit lx))"
  by (auto simp: string_lit_def Let_def
      intro: scans_trans [OF scans_string_body] scans_adv scans_string_body)

lemma snd_one_or_two: "snd (one_or_two lx c two one start n) = snd (match lx c)"
  by (simp add: one_or_two_def split: prod.split bool.split)

lemma scans_adv_match:
  "\<not> is_at_end lx \<Longrightarrow> c \<noteq> NL \<Longrightarrow> scans lx (snd (match (adv lx) c))"
  by (blast intro: scans_trans scans_adv scans_match)

lemma scans_operator [lex_step]: "scans lx (snd (operator lx c start))"
  unfolding operator_def Let_def
  by (simp add: snd_one_or_two scans_match scans_adv_match scans_adv scans_adv2 is_at_end_def)

text \<open>The part of \<^const>\<open>lexer_next\<close> after the blanks, with the character already read.\<close>

definition lexer_token :: "lexer \<Rightarrow> token \<times> lexer" where
  "lexer_token lx =
     (let start = lx_cur lx; c = peek lx; lx = adv lx in
      if isalpha c \<or> c = CHR ''_'' then identifier_or_keyword lx start
      else if isdigit c then number lx start
      else if c = DQUOTE then string_lit lx
      else (case map_of punctuation c of
              Some t \<Rightarrow> (make_token lx t start 1, lx)
            | None \<Rightarrow> operator lx c start))"

lemma case_advance: "(case advance lx of (c, l) \<Rightarrow> f c l) = f (peek lx) (adv lx)"
  by (simp add: advance_def)

lemma lexer_next_eq:
  "lexer_next lx =
     (let lx = skip_ws_and_comments lx
      in if is_at_end lx then (make_token lx TOK_EOF (lx_cur lx) 0, lx) else lexer_token lx)"
  unfolding lexer_next_def lexer_token_def Let_def case_advance ..

lemma scans_lexer_token: "scans (adv lx) (snd (lexer_token lx))"
  by (simp add: lexer_token_def Let_def scans_identifier scans_number scans_string_lit
      scans_operator split: option.split)

lemma scans_lexer_next [lex_step]: "scans lx (snd (lexer_next lx))"
proof (cases "is_at_end (skip_ws_and_comments lx)")
  case True
  then show ?thesis by (simp add: lexer_next_eq Let_def scans_skip)
next
  case False
  then have "scans lx (snd (lexer_token (skip_ws_and_comments lx)))"
    by (blast intro: scans_trans scans_skip scans_adv scans_lexer_token)
  with False show ?thesis by (simp add: lexer_next_eq Let_def)
qed

section \<open>Where a token lies in the source\<close>

text \<open>
  \<open>token_spans s t rest\<close>: the token lies at the front of \<open>s\<close> and \<open>rest\<close> is what follows
  it.  A string literal is the text between its quotes; the closing quote is missing only
  when the source ends inside the literal.
\<close>

definition at_NUL :: "string \<Rightarrow> bool" where
  "at_NUL s \<longleftrightarrow> s = [] \<or> hd s = NUL"

definition token_spans :: "string \<Rightarrow> token \<Rightarrow> string \<Rightarrow> bool" where
  "token_spans s t rest \<longleftrightarrow>
     (if tk_type t = TOK_STRING_LIT
      then tk_start t = tl s \<and>
           (s = DQUOTE # token_text t @ DQUOTE # rest \<or>
            s = DQUOTE # token_text t @ rest \<and> at_NUL rest)
      else tk_start t = s \<and> s = token_text t @ rest \<and> token_text t \<noteq> [])
     \<and> tk_length t \<le> length (tk_start t)"

lemma is_at_end_iff: "is_at_end lx \<longleftrightarrow> at_NUL (lx_cur lx)"
  by (auto simp: is_at_end_def at_NUL_def peek_def split: list.splits)

lemma make_token_sel [simp]:
  "tk_type (make_token lx ty start n) = ty" "tk_start (make_token lx ty start n) = start"
  "tk_length (make_token lx ty start n) = n" "tk_line (make_token lx ty start n) = lx_line lx"
  by (simp_all add: make_token_def)

lemma span_of_scans:
  assumes "scans lx l"
  shows "take (length (lx_cur lx) - length (lx_cur l)) (lx_cur lx) @ lx_cur l = lx_cur lx"
  using assms by (auto simp: scans_def)

lemma token_spans_scanned:
  assumes "\<not> is_at_end lx" and "scans (adv lx) l"
    and "tk_type t \<noteq> TOK_STRING_LIT" and "tk_start t = lx_cur lx"
    and "tk_length t = length (lx_cur lx) - length (lx_cur l)"
  shows "token_spans (lx_cur lx) t (lx_cur l)"
proof -
  have "scans lx l" using assms(1,2) by (blast intro: scans_trans scans_adv)
  then have "token_text t @ lx_cur l = lx_cur lx"
    using span_of_scans [of lx l] assms(4,5) by (simp add: token_text_def)
  moreover have "length (lx_cur l) < length (lx_cur lx)"
    using scans_le [OF assms(2)] length_adv [OF assms(1)] by simp
  ultimately show ?thesis
    using assms(3-5) by (auto simp: token_spans_def token_text_def)
qed

lemma map_of_range: "map_of xs k = Some v \<Longrightarrow> v \<in> snd ` set xs"
  by (induction xs) (auto split: if_splits)

lemma keyword_table_types:
  "map_of keyword_table w = Some t \<Longrightarrow> t \<noteq> TOK_EOF \<and> t \<noteq> TOK_STRING_LIT"
  by (drule map_of_range) (auto simp: keyword_table_def)

lemma punctuation_types:
  "map_of punctuation c = Some t \<Longrightarrow> t \<noteq> TOK_EOF \<and> t \<noteq> TOK_STRING_LIT"
  by (drule map_of_range) (auto simp: punctuation_def)

lemma identifier_spans:
  assumes "\<not> is_at_end lx" and "identifier_or_keyword (adv lx) (lx_cur lx) = (t, l)"
  shows "token_spans (lx_cur lx) t (lx_cur l) \<and> tk_type t \<noteq> TOK_EOF"
proof -
  have "scans (adv lx) l" using scans_identifier [of "adv lx" "lx_cur lx"] assms(2) by simp
  moreover have "tk_type t \<noteq> TOK_STRING_LIT \<and> tk_type t \<noteq> TOK_EOF \<and> tk_start t = lx_cur lx
      \<and> tk_length t = length (lx_cur lx) - length (lx_cur l)"
    using assms(2) keyword_table_types
    by (auto simp: identifier_or_keyword_def Let_def split: option.splits)
  ultimately show ?thesis using token_spans_scanned [OF assms(1)] by blast
qed

lemma number_spans:
  assumes "\<not> is_at_end lx" and "number (adv lx) (lx_cur lx) = (t, l)"
  shows "token_spans (lx_cur lx) t (lx_cur l) \<and> tk_type t \<noteq> TOK_EOF"
proof -
  have "scans (adv lx) l" using scans_number [of "adv lx" "lx_cur lx"] assms(2) by simp
  moreover have "tk_type t \<noteq> TOK_STRING_LIT \<and> tk_type t \<noteq> TOK_EOF \<and> tk_start t = lx_cur lx
      \<and> tk_length t = length (lx_cur lx) - length (lx_cur l)"
    using assms(2) by (auto simp: number_def Let_def split: prod.splits if_splits)
  ultimately show ?thesis using token_spans_scanned [OF assms(1)] by blast
qed

lemma string_lit_spans:
  assumes "\<not> is_at_end lx" and "peek lx = DQUOTE" and "string_lit (adv lx) = (t, l)"
  shows "token_spans (lx_cur lx) t (lx_cur l) \<and> tk_type t = TOK_STRING_LIT"
proof -
  define b where "b = string_body (adv lx)"
  have sc: "scans (adv lx) b" by (simp add: b_def scans_string_body)
  have t: "tk_type t = TOK_STRING_LIT" "tk_start t = tl (lx_cur lx)"
      "tk_length t = length (tl (lx_cur lx)) - length (lx_cur b)"
    and l: "l = (if \<not> is_at_end b then adv b else b)"
    using assms(3) by (auto simp: string_lit_def Let_def b_def)
  have lit: "tl (lx_cur lx) = token_text t @ lx_cur b"
    using span_of_scans [OF sc] t by (simp add: token_text_def)
  have "lx_cur lx = DQUOTE # tl (lx_cur lx)"
    using peek_nonempty [OF assms(1)] assms(2) by simp
  moreover have "lx_cur b = DQUOTE # lx_cur l" if "\<not> is_at_end b"
    using that peek_nonempty [OF that] string_body_stop [of "adv lx"] l by (auto simp: b_def)
  ultimately show ?thesis
    using t lit l by (auto simp: token_spans_def is_at_end_iff)
qed

text \<open>What an operator routine does after the first \<open>n\<close> characters: it takes \<open>k\<close> more.\<close>

definition op_spans :: "lexer \<Rightarrow> string \<Rightarrow> nat \<Rightarrow> token \<times> lexer \<Rightarrow> bool" where
  "op_spans lx start n r \<longleftrightarrow>
     tk_start (fst r) = start \<and> tk_type (fst r) \<notin> {TOK_EOF, TOK_STRING_LIT} \<and>
     (\<exists>k \<le> length (lx_cur lx). tk_length (fst r) = n + k \<and> lx_cur (snd r) = drop k (lx_cur lx))"

lemma op_spans_here:
  "ty \<notin> {TOK_EOF, TOK_STRING_LIT} \<Longrightarrow> op_spans lx start n (make_token l ty start n, lx)"
  by (auto simp: op_spans_def)

lemma cur_length1 [simp]: "\<not> is_at_end lx \<Longrightarrow> Suc 0 \<le> length (lx_cur lx)"
  by (cases "lx_cur lx") (auto simp: is_at_end_iff at_NUL_def)

lemma cur_length2: "peek2 lx \<noteq> NUL \<Longrightarrow> Suc (Suc 0) \<le> length (lx_cur lx)"
  using cur_length1 [of "adv lx"] cur_length1 [of lx] peek2_NUL_adv [of lx]
  by (cases "lx_cur lx") auto

lemma op_spans_adv:
  "ty \<notin> {TOK_EOF, TOK_STRING_LIT} \<Longrightarrow> \<not> is_at_end lx \<Longrightarrow>
   op_spans lx start n (make_token l ty start (Suc n), adv lx)"
  by (auto simp: op_spans_def drop_Suc intro!: exI [of _ "Suc 0"])

lemma tl_tl_drop2: "tl (tl xs) = drop 2 xs"
  by (simp add: drop_Suc numeral_2_eq_2)

lemma op_spans_adv2:
  "ty \<notin> {TOK_EOF, TOK_STRING_LIT} \<Longrightarrow> peek2 lx \<noteq> NUL \<Longrightarrow>
   op_spans lx start n (make_token l ty start (Suc (Suc n)), adv (adv lx))"
  using cur_length2 [of lx] tl_tl_drop2 [of "lx_cur lx"]
  by (auto simp: op_spans_def intro!: exI [of _ 2])

lemma op_spans_one_or_two:
  "two \<notin> {TOK_EOF, TOK_STRING_LIT} \<Longrightarrow> one \<notin> {TOK_EOF, TOK_STRING_LIT} \<Longrightarrow>
   op_spans lx start n (one_or_two lx c two one start n)"
  by (cases "is_at_end lx \<or> peek lx \<noteq> c")
    (auto simp: one_or_two_def match_def op_spans_def drop_Suc intro!: exI [of _ "Suc 0"])

lemma op_spans_one_or_two_adv:
  assumes "two \<notin> {TOK_EOF, TOK_STRING_LIT}" "one \<notin> {TOK_EOF, TOK_STRING_LIT}" "\<not> is_at_end lx"
  shows "op_spans lx start n (one_or_two (adv lx) c two one start (Suc n))"
proof -
  from op_spans_one_or_two [OF assms(1,2), of "adv lx" start "Suc n" c] obtain k where
      k: "k \<le> length (tl (lx_cur lx))"
        "tk_length (fst (one_or_two (adv lx) c two one start (Suc n))) = Suc n + k"
        "lx_cur (snd (one_or_two (adv lx) c two one start (Suc n))) = drop k (tl (lx_cur lx))"
    and r: "tk_start (fst (one_or_two (adv lx) c two one start (Suc n))) = start"
        "tk_type (fst (one_or_two (adv lx) c two one start (Suc n))) \<notin> {TOK_EOF, TOK_STRING_LIT}"
    unfolding op_spans_def by auto
  have "lx_cur lx \<noteq> []" using peek_nonempty [OF assms(3)] by auto
  then have "Suc k \<le> length (lx_cur lx)" using k(1) by (cases "lx_cur lx") auto
  with k r show ?thesis
    unfolding op_spans_def by (auto simp: drop_Suc intro!: exI [of _ "Suc k"])
qed

lemma operator_op_spans: "op_spans lx start 1 (operator lx c start)"
  unfolding operator_def Let_def
  by (simp add: op_spans_one_or_two op_spans_one_or_two_adv [of _ _ _ _ 1, simplified]
      op_spans_adv [of _ _ _ 1, simplified] op_spans_adv2 [of _ _ _ 1, simplified]
      op_spans_here is_at_end_def numeral_2_eq_2 numeral_3_eq_3)

lemma op_spans_token_spans:
  assumes "\<not> is_at_end lx" and "op_spans (adv lx) (lx_cur lx) 1 (t, l)"
  shows "token_spans (lx_cur lx) t (lx_cur l) \<and> tk_type t \<noteq> TOK_EOF"
proof -
  from assms(2) obtain k where k: "k \<le> length (tl (lx_cur lx))" "tk_length t = Suc k"
      "lx_cur l = drop k (tl (lx_cur lx))" "tk_start t = lx_cur lx"
      "tk_type t \<noteq> TOK_EOF" "tk_type t \<noteq> TOK_STRING_LIT"
    unfolding op_spans_def by auto
  obtain c s where "lx_cur lx = c # s" using peek_nonempty [OF assms(1)] by blast
  with k show ?thesis by (simp add: token_spans_def token_text_def)
qed

lemma lexer_token_spans:
  assumes "\<not> is_at_end lx" and "lexer_token lx = (t, l)"
  shows "token_spans (lx_cur lx) t (lx_cur l) \<and> tk_type t \<noteq> TOK_EOF"
proof -
  let ?c = "peek lx" and ?s = "lx_cur lx"
  note tok = assms(2) [unfolded lexer_token_def Let_def]
  show ?thesis
  proof (cases "isalpha ?c \<or> ?c = CHR ''_''")
    case True
    with tok show ?thesis using identifier_spans [OF assms(1)] by simp
  next
    case False
    show ?thesis
    proof (cases "isdigit ?c")
      case True
      with tok False show ?thesis using number_spans [OF assms(1)] by simp
    next
      case no_digit: False
      show ?thesis
      proof (cases "?c = DQUOTE")
        case True
        with tok False no_digit have "string_lit (adv lx) = (t, l)"
          by (simp only: if_False if_True refl)
        from string_lit_spans [OF assms(1) True this] show ?thesis by simp
      next
        case no_quote: False
        have "op_spans (adv lx) ?s 1 (t, l)"
        proof (cases "map_of punctuation ?c")
          case None
          with tok False no_digit no_quote have "operator (adv lx) ?c ?s = (t, l)" by simp
          with operator_op_spans [of "adv lx" ?s ?c] show ?thesis by simp
        next
          case (Some ty)
          with tok False no_digit no_quote have "t = make_token (adv lx) ty ?s 1" "l = adv lx" by auto
          with punctuation_types [OF Some] show ?thesis by (simp add: op_spans_here)
        qed
        then show ?thesis by (rule op_spans_token_spans [OF assms(1)])
      qed
    qed
  qed
qed

section \<open>Blanks and comments\<close>

text \<open>
  The language of what may stand before the rest \<open>s\<close> of a source, independently of the scanner: blanks,
  line comments up to a newline or the end, and block comments up to the first \<open>*/\<close>.  A block comment
  that is not closed reaches to the end of the source: nothing stands behind it.
\<close>

inductive trivia :: "string \<Rightarrow> string \<Rightarrow> bool" where
  none: "trivia [] s"
| blank: "c \<in> {SPACE, TAB, CR, NL} \<Longrightarrow> trivia tr s \<Longrightarrow> trivia (c # tr) s"
| line_comment: "NL \<notin> set body \<Longrightarrow> at_NUL (tr @ s) \<or> hd (tr @ s) = NL \<Longrightarrow> trivia tr s \<Longrightarrow>
    trivia (''//'' @ body @ tr) s"
| block_comment: "\<not> sublist ''*/'' body \<Longrightarrow> trivia tr s \<Longrightarrow> trivia (''/*'' @ body @ ''*/'' @ tr) s"
| open_comment: "\<not> sublist ''*/'' body \<Longrightarrow> at_NUL s \<Longrightarrow> trivia (''/*'' @ body) s"

text \<open>The rest begins with neither a blank nor a comment.\<close>

definition no_trivia :: "string \<Rightarrow> bool" where
  "no_trivia s \<longleftrightarrow> (s \<noteq> [] \<longrightarrow> hd s \<notin> {SPACE, TAB, CR, NL}) \<and> \<not> prefix ''//'' s \<and> \<not> prefix ''/*'' s"

lemma advance_while_body:
  assumes "\<And>l. cond l \<longleftrightarrow> C (lx_cur l)"
  shows "\<exists>body. lx_cur lx = body @ lx_cur (advance_while cond lx) \<and>
           (\<forall>i < length body. C (drop i (lx_cur lx)))"
  using assms
proof (induction cond lx rule: advance_while.induct)
  case (1 cond lx)
  show ?case
  proof (cases "\<not> is_at_end lx \<and> cond lx")
    case True
    then have "\<not> is_at_end lx" and "cond lx" by simp_all
    from "1.IH" [OF True "1.prems"] obtain body where
        body: "tl (lx_cur lx) = body @ lx_cur (advance_while cond (adv lx))"
        "\<forall>i < length body. C (drop i (tl (lx_cur lx)))"
      unfolding adv_cur by blast
    have cur: "lx_cur lx = peek lx # tl (lx_cur lx)" using True by (intro peek_nonempty) simp
    have "advance_while cond lx = advance_while cond (adv lx)"
      using True by (subst advance_while.simps) simp
    then have "lx_cur lx = (peek lx # body) @ lx_cur (advance_while cond lx)"
      using body(1) cur by (metis append_Cons)
    moreover have "C (drop i (lx_cur lx))" if "i < length (peek lx # body)" for i
      using that body(2) True "1.prems" by (cases i) (auto simp: drop_Suc)
    ultimately show ?thesis by blast
  next
    case False
    then have "advance_while cond lx = lx" by (subst advance_while.simps) auto
    then show ?thesis by auto
  qed
qed

lemma peek_hd: "peek lx = c \<Longrightarrow> c \<noteq> NUL \<Longrightarrow> \<exists>s. lx_cur lx = c # s"
  by (auto simp: peek_def split: list.splits)

lemma peek_cur: "peek lx = (if lx_cur lx = [] then NUL else hd (lx_cur lx))"
  by (simp add: peek_def split: list.split)

lemma peek2_cur:
  "peek lx = a \<Longrightarrow> peek2 lx = b \<Longrightarrow> a \<noteq> NUL \<Longrightarrow> b \<noteq> NUL \<Longrightarrow> \<exists>s. lx_cur lx = a # b # s"
  by (auto simp: peek2_def peek_def split: list.splits if_splits)

lemma block_comment_body:
  assumes "lx_cur lx = body @ rest" and "rest = lx_cur (advance_while in_block_comment lx)"
    and "\<forall>i < length body. \<not> (\<exists>s. drop i (lx_cur lx) = ''*/'' @ s)"
  shows "\<not> sublist ''*/'' body"
proof
  assume "sublist ''*/'' body"
  then obtain p q where pq: "body = p @ ''*/'' @ q" by (auto simp: sublist_def)
  with assms(1) have "drop (length p) (lx_cur lx) = ''*/'' @ (q @ rest)" by simp
  moreover have "length p < length body" using pq by simp
  ultimately show False using assms(3) by blast
qed

lemma in_block_comment_cur: "in_block_comment l \<longleftrightarrow> \<not> (\<exists>s. lx_cur l = ''*/'' @ s)"
  unfolding in_block_comment_def
  by (cases "lx_cur l"; cases "tl (lx_cur l)") (auto simp: peek_def peek2_def)

lemma advance_while_adv:
  "\<not> is_at_end lx \<Longrightarrow> cond lx \<Longrightarrow> advance_while cond lx = advance_while cond (adv lx)"
  by (simp add: advance_while.simps [of cond lx])

lemma trivia_at_NUL: "trivia tr s \<Longrightarrow> at_NUL (tr @ s) \<Longrightarrow> tr = []"
  by (erule trivia.cases) (auto simp: at_NUL_def)

lemma line_comment_trivia:
  assumes "peek lx = CHR ''/''" and "peek2 lx = CHR ''/''"
    and "l = advance_while in_line_comment lx" and "trivia tr rest" and "lx_cur l = tr @ rest"
  shows "\<exists>tr'. trivia tr' rest \<and> lx_cur lx = tr' @ rest"
proof -
  obtain s where s: "lx_cur lx = CHR ''/'' # CHR ''/'' # s" using assms(1,2) peek2_cur by blast
  have "l = advance_while in_line_comment (adv (adv lx))"
    using assms(1-3) peek2_NUL_adv [of lx] peek_adv [of lx]
    by (simp add: advance_while_adv in_line_comment_def)
  moreover have "in_line_comment k \<longleftrightarrow> \<not> (\<exists>s. lx_cur k = NL # s)" for k
    by (cases "lx_cur k") (auto simp: in_line_comment_def peek_def)
  ultimately obtain body where body: "s = body @ lx_cur l"
      "\<forall>i < length body. \<not> (\<exists>u. drop i s = NL # u)"
    using advance_while_body [of in_line_comment "\<lambda>s. \<not> (\<exists>u. s = NL # u)" "adv (adv lx)"] s
    by auto
  have "NL \<notin> set body"
  proof
    assume "NL \<in> set body"
    then obtain p q where "body = p @ NL # q" by (auto dest: split_list)
    with body(1) have "length p < length body" "drop (length p) s = NL # (q @ lx_cur l)"
      by simp_all
    with body(2) show False by blast
  qed
  moreover have "at_NUL (tr @ rest) \<or> hd (tr @ rest) = NL"
    using advance_while_stop [of in_line_comment lx] assms(3)
    by (auto simp: in_line_comment_def is_at_end_iff peek_cur at_NUL_def simp flip: assms(5))
  ultimately have "trivia (''//'' @ body @ tr) rest"
    using assms(4) by (intro trivia.line_comment)
  moreover have "lx_cur lx = (''//'' @ body @ tr) @ rest"
    using s body(1) assms(5) by simp
  ultimately show ?thesis by blast
qed

lemma block_comment_trivia:
  assumes "peek lx = CHR ''/''" and "peek2 lx = CHR ''*''"
    and l: "l = advance_while in_block_comment (adv (adv lx))"
    and "trivia tr rest" and "lx_cur (if \<not> is_at_end l then adv (adv l) else l) = tr @ rest"
  shows "\<exists>tr'. trivia tr' rest \<and> lx_cur lx = tr' @ rest"
proof -
  obtain s where s: "lx_cur lx = CHR ''/'' # CHR ''*'' # s" using assms(1,2) peek2_cur by blast
  from advance_while_body [of in_block_comment "\<lambda>s. \<not> (\<exists>u. s = ''*/'' @ u)" "adv (adv lx)",
      OF in_block_comment_cur]
  obtain body where body: "s = body @ lx_cur l"
      "\<forall>i < length body. \<not> (\<exists>u. drop i s = ''*/'' @ u)"
    using s by (auto simp: l)
  have nsub: "\<not> sublist ''*/'' body"
    using body s by (intro block_comment_body [of "adv (adv lx)" _ "lx_cur l"]) (simp_all add: l)
  show ?thesis
  proof (cases "is_at_end l")
    case True
    then have "tr = []" "at_NUL rest"
      using assms(4,5) trivia_at_NUL [of tr rest] by (auto simp: is_at_end_iff)
    then have "lx_cur lx = (''/*'' @ body) @ rest" using s body(1) assms(5) True by simp
    then show ?thesis using trivia.open_comment [OF nsub \<open>at_NUL rest\<close>] by blast
  next
    case False
    then have "\<exists>u. lx_cur l = ''*/'' @ u"
      using advance_while_stop [of in_block_comment "adv (adv lx)"] in_block_comment_cur [of l]
      by (simp add: l)
    then have "lx_cur l = ''*/'' @ tr @ rest" using False assms(5) by auto
    then have "lx_cur lx = (''/*'' @ body @ ''*/'' @ tr) @ rest" using s body(1) by simp
    then show ?thesis using trivia.block_comment [OF nsub assms(4)] by blast
  qed
qed

lemma skip_trivia:
  "\<exists>tr. trivia tr (lx_cur (skip_ws_and_comments lx)) \<and> lx_cur lx = tr @ lx_cur (skip_ws_and_comments lx)"
proof (induction lx rule: skip_ws_and_comments.induct)
  case (1 lx)
  let ?c = "peek lx"
  let ?ws = "?c = SPACE \<or> ?c = TAB \<or> ?c = CR \<or> ?c = NL"
  define l where "l = advance_while in_block_comment (adv (adv lx))"
  note simps = skip_ws_and_comments.simps [of lx, unfolded Let_def, folded l_def]
  consider (ws) "?ws" | (line) "\<not> ?ws" "?c = CHR ''/''" "peek2 lx = CHR ''/''"
    | (block) "\<not> ?ws" "?c = CHR ''/''" "peek2 lx = CHR ''*''"
    | (stop) "\<not> ?ws" "\<not> (?c = CHR ''/'' \<and> peek2 lx = CHR ''/'')"
        "\<not> (?c = CHR ''/'' \<and> peek2 lx = CHR ''*'')"
    by blast
  then show ?case
  proof cases
    case ws
    then have eq: "skip_ws_and_comments lx = skip_ws_and_comments (adv lx)" by (simp add: simps)
    from 1(1) ws obtain tr where tr: "trivia tr (lx_cur (skip_ws_and_comments (adv lx)))"
        "tl (lx_cur lx) = tr @ lx_cur (skip_ws_and_comments (adv lx))" by auto
    have "lx_cur lx = ?c # tl (lx_cur lx)"
      using ws by (intro peek_nonempty) (auto simp: is_at_end_def)
    then have "lx_cur lx = (?c # tr) @ lx_cur (skip_ws_and_comments lx)"
      using tr(2) eq by simp
    moreover have "trivia (?c # tr) (lx_cur (skip_ws_and_comments lx))"
      using ws tr(1) eq by (auto intro: trivia.blank)
    ultimately show ?thesis by blast
  next
    case line
    with 1(2) show ?thesis
      using line_comment_trivia [OF line(2,3) refl] by (force simp: simps)
  next
    case block
    then have "skip_ws_and_comments lx =
        skip_ws_and_comments (if \<not> is_at_end l then adv (adv l) else l)"
      by (simp only: simps) simp
    with 1(3) [OF refl _ _ _ l_def] block show ?thesis
      using block_comment_trivia [OF block(2,3) l_def] by fastforce
  next
    case stop
    then have "skip_ws_and_comments lx = lx" by (simp add: simps del: de_Morgan_conj)
    then show ?thesis using trivia.none by auto
  qed
qed

lemma no_trivia_here:
  assumes "peek lx \<notin> {SPACE, TAB, CR, NL}" "\<not> (peek lx = CHR ''/'' \<and> peek2 lx = CHR ''/'')"
    "\<not> (peek lx = CHR ''/'' \<and> peek2 lx = CHR ''*'')"
  shows "no_trivia (lx_cur lx)"
  using assms by (cases "lx_cur lx"; cases "tl (lx_cur lx)") (auto simp: no_trivia_def peek_def peek2_def)

lemma skip_no_trivia: "no_trivia (lx_cur (skip_ws_and_comments lx))"
proof (induction lx rule: skip_ws_and_comments.induct)
  case (1 lx)
  let ?c = "peek lx"
  let ?ws = "?c = SPACE \<or> ?c = TAB \<or> ?c = CR \<or> ?c = NL"
  define l where "l = advance_while in_block_comment (adv (adv lx))"
  note simps = skip_ws_and_comments.simps [of lx, unfolded Let_def, folded l_def]
  consider (ws) "?ws" | (line) "\<not> ?ws" "?c = CHR ''/''" "peek2 lx = CHR ''/''"
    | (block) "\<not> ?ws" "?c = CHR ''/''" "peek2 lx = CHR ''*''"
    | (stop) "\<not> ?ws" "\<not> (?c = CHR ''/'' \<and> peek2 lx = CHR ''/'')"
        "\<not> (?c = CHR ''/'' \<and> peek2 lx = CHR ''*'')"
    by blast
  then show ?case
  proof cases
    case ws
    with 1(1) show ?thesis by (simp add: simps)
  next
    case line
    with 1(2) show ?thesis by (simp add: simps)
  next
    case block
    then have "skip_ws_and_comments lx = skip_ws_and_comments (if \<not> is_at_end l then adv (adv l) else l)"
      by (simp only: simps) simp
    with 1(3) [OF refl _ _ _ l_def] block show ?thesis by simp
  next
    case stop
    then have "skip_ws_and_comments lx = lx" by (simp add: simps del: de_Morgan_conj)
    with stop no_trivia_here [of lx] show ?thesis by simp
  qed
qed

section \<open>What the scanner promises its caller\<close>

lemma skip_at_end: "is_at_end lx \<Longrightarrow> skip_ws_and_comments lx = lx"
  by (subst skip_ws_and_comments.simps) (simp add: is_at_end_def Let_def)

lemma lexer_next_cases:
  obtains (eof) "is_at_end (skip_ws_and_comments lx)"
      "fst (lexer_next lx) = make_token (skip_ws_and_comments lx) TOK_EOF (lx_cur (skip_ws_and_comments lx)) 0"
      "snd (lexer_next lx) = skip_ws_and_comments lx"
    | (tok) "\<not> is_at_end (skip_ws_and_comments lx)" "tk_type (fst (lexer_next lx)) \<noteq> TOK_EOF"
      "token_spans (lx_cur (skip_ws_and_comments lx)) (fst (lexer_next lx))
        (lx_cur (snd (lexer_next lx)))"
  using lexer_token_spans [of "skip_ws_and_comments lx"]
  by (cases "is_at_end (skip_ws_and_comments lx)"; cases "lexer_token (skip_ws_and_comments lx)")
    (simp_all add: lexer_next_eq Let_def)

lemma token_spans_le:
  assumes "token_spans s t rest" and "\<not> at_NUL s"
  shows "length (tk_start t) \<le> length s \<and> length rest < length s \<and>
    (at_NUL rest \<or> length rest < length (tk_start t)) \<and> tk_length t \<le> length (tk_start t)"
  using assms
  by (cases "tk_type t = TOK_STRING_LIT")
    (auto simp: token_spans_def at_NUL_def Suc_le_eq simp flip: length_greater_0_conv)

text \<open>
  The interface between the scanner and the parser: the tokens come from a source of length
  \<open>left\<close>, each lies inside it, and once the end is reached every further token is the end.
\<close>

definition rank :: "token \<Rightarrow> nat" where
  "rank t = (if tk_type t = TOK_EOF then 0 else Suc (length (tk_start t)))"

definition primed :: "('s \<Rightarrow> nat) \<Rightarrow> ('s \<Rightarrow> bool) \<Rightarrow> token \<Rightarrow> 's \<Rightarrow> bool" where
  "primed left ended t s \<longleftrightarrow>
     (if tk_type t = TOK_EOF then ended s
      else tk_length t \<le> length (tk_start t) \<and> (ended s \<or> left s < length (tk_start t)))"

fun drain :: "('s \<Rightarrow> token \<times> 's) \<Rightarrow> nat \<Rightarrow> 's \<Rightarrow> token list option" where
  "drain nxt 0 s = None"
| "drain nxt (Suc n) s =
     (case nxt s of (t, s') \<Rightarrow>
        if tk_type t = TOK_EOF then Some [t] else map_option ((#) t) (drain nxt n s'))"

locale token_stream =
  fixes nxt :: "'s \<Rightarrow> token \<times> 's" and left :: "'s \<Rightarrow> nat" and ended :: "'s \<Rightarrow> bool"
  assumes ended_nxt: "ended s \<Longrightarrow> tk_type (fst (nxt s)) = TOK_EOF"
    and nxt_ended: "tk_type (fst (nxt s)) = TOK_EOF \<Longrightarrow> ended (snd (nxt s))"
    and nxt_inside: "tk_type (fst (nxt s)) \<noteq> TOK_EOF \<Longrightarrow>
      tk_length (fst (nxt s)) \<le> length (tk_start (fst (nxt s))) \<and>
      length (tk_start (fst (nxt s))) \<le> left s"
    and nxt_after: "tk_type (fst (nxt s)) \<noteq> TOK_EOF \<Longrightarrow>
      ended (snd (nxt s)) \<or> left (snd (nxt s)) < length (tk_start (fst (nxt s)))"
    and nxt_progress: "tk_type (fst (nxt s)) \<noteq> TOK_EOF \<Longrightarrow> left (snd (nxt s)) < left s"
begin

lemma nxt_primed: "primed left ended (fst (nxt s)) (snd (nxt s))"
  using nxt_ended nxt_inside nxt_after by (simp add: primed_def)

lemma rank_nxt_eof: "primed left ended t s \<Longrightarrow> tk_type t = TOK_EOF \<Longrightarrow> rank (fst (nxt s)) = 0"
  using ended_nxt by (simp add: primed_def rank_def)

lemma rank_nxt_less:
  assumes "primed left ended t s" and "tk_type t \<noteq> TOK_EOF"
  shows "rank (fst (nxt s)) < rank t"
proof (cases "ended s")
  case True
  with ended_nxt assms(2) show ?thesis by (simp add: rank_def)
next
  case False
  with assms have "left s < length (tk_start t)" by (simp add: primed_def)
  with nxt_inside [of s] assms(2) show ?thesis by (auto simp: rank_def)
qed

lemma rank_nxt_bound: "rank (fst (nxt s)) \<le> Suc (left s)"
  using nxt_inside [of s] by (simp add: rank_def)

lemma drain_enough:
  "left s < n \<Longrightarrow> \<exists>ts t. drain nxt n s = Some (ts @ [t]) \<and> tk_type t = TOK_EOF \<and>
     (\<forall>u \<in> set ts. tk_type u \<noteq> TOK_EOF)"
proof (induction n arbitrary: s)
  case 0
  then show ?case by simp
next
  case (Suc n)
  show ?case
  proof (cases "tk_type (fst (nxt s)) = TOK_EOF")
    case True
    then show ?thesis by (auto simp: case_prod_unfold intro!: exI [of _ "[]"])
  next
    case False
    with nxt_progress Suc.prems have "left (snd (nxt s)) < n" by force
    from Suc.IH [OF this] obtain ts t where "drain nxt n (snd (nxt s)) = Some (ts @ [t])"
        "tk_type t = TOK_EOF" "\<forall>u \<in> set ts. tk_type u \<noteq> TOK_EOF" by blast
    with False show ?thesis
      by (auto simp: case_prod_unfold intro!: exI [of _ "fst (nxt s) # ts"])
  qed
qed

end

interpretation lexer_stream: token_stream lexer_next "\<lambda>lx. length (lx_cur lx)" is_at_end
proof (unfold_locales, goal_cases)
  case (1 s)
  then show ?case by (simp add: lexer_next_eq skip_at_end Let_def)
next
  case (2 s)
  then show ?case by (cases s rule: lexer_next_cases) simp_all
next
  case (3 s)
  with scans_le [OF scans_skip, of s] show ?case
    by (cases s rule: lexer_next_cases) (auto simp: is_at_end_iff dest!: token_spans_le)
next
  case (4 s)
  then show ?case
    by (cases s rule: lexer_next_cases) (auto simp: is_at_end_iff dest!: token_spans_le)
next
  case (5 s)
  with scans_le [OF scans_skip, of s] show ?case
    by (cases s rule: lexer_next_cases) (auto simp: is_at_end_iff dest!: token_spans_le)
qed

lemma operator_line: "tk_line (fst (operator lx c start)) = lx_line (snd (operator lx c start))"
  by (simp add: operator_def one_or_two_def Let_def split: prod.split bool.split)

lemma lexer_next_line: "tk_line (fst (lexer_next lx)) = lx_line (snd (lexer_next lx))"
  by (simp add: lexer_next_eq lexer_token_def identifier_or_keyword_def number_def string_lit_def
      operator_line Let_def split: option.split prod.split)

end
