(* ===== verification/Lexer_Words.thy ===== *)
theory Lexer_Words
  imports Lexer_Correct
begin

text \<open>
  The lexical grammar of the language, stated without the scanner (\<open>lexeme ty w\<close>: the word
  \<open>w\<close> is a token of type \<open>ty\<close>), and the proof that the scanner reads every such word as
  that token: printing a list of words with blanks between them and scanning the text gives
  the list back.
\<close>

section \<open>The scanner on a known prefix\<close>

lemma advance_while_dropWhile:
  assumes "\<And>l. cond l \<longleftrightarrow> P (peek l)" and "\<not> P NUL"
  shows "lx_cur (advance_while cond lx) = dropWhile P (lx_cur lx)"
  using assms
proof (induction cond lx rule: advance_while.induct)
  case (1 cond lx)
  show ?case
  proof (cases "\<not> is_at_end lx \<and> cond lx")
    case True
    then have "advance_while cond lx = advance_while cond (adv lx)"
      by (simp add: advance_while_adv)
    moreover have "lx_cur (advance_while cond (adv lx)) = dropWhile P (tl (lx_cur lx))"
      using "1.IH" [OF True "1.prems"] by simp
    ultimately show ?thesis
      using True "1.prems"(1) [of lx] by (cases "lx_cur lx") (auto simp: peek_def is_at_end_def)
  next
    case False
    then have "advance_while cond lx = lx" by (subst advance_while.simps) auto
    with False "1.prems"(1) [of lx] "1.prems"(2) show ?thesis
      by (cases "lx_cur lx") (auto simp: peek_def is_at_end_def)
  qed
qed

definition word_char :: "char \<Rightarrow> bool" where
  "word_char c \<longleftrightarrow> isalnum c \<or> c = CHR ''_''"

lemma cur_advance_ident [simp]:
  "lx_cur (advance_while ident_char lx) = dropWhile word_char (lx_cur lx)"
  by (rule advance_while_dropWhile) (simp_all add: ident_char_def word_char_def)

lemma cur_advance_digit [simp]:
  "lx_cur (advance_while digit_ahead lx) = dropWhile isdigit (lx_cur lx)"
  by (rule advance_while_dropWhile) (simp_all add: digit_ahead_def)

lemma peek_Cons [simp]: "lx_cur lx = c # s \<Longrightarrow> peek lx = c"
  by (simp add: peek_def)

lemma peek_Nil [simp]: "lx_cur lx = [] \<Longrightarrow> peek lx = NUL"
  by (simp add: peek_def)

lemma peek2_Cons: "lx_cur lx = c # s \<Longrightarrow> c \<noteq> NUL \<Longrightarrow> peek2 lx = (if s = [] then NUL else hd s)"
  by (simp add: peek2_def split: list.split)

definition starts_token :: "string \<Rightarrow> bool" where
  "starts_token s \<longleftrightarrow> (case s of [] \<Rightarrow> False
     | c # s \<Rightarrow> c \<notin> {NUL, SPACE, TAB, CR, NL} \<and>
               (c = CHR ''/'' \<longrightarrow> s = [] \<or> hd s \<notin> {CHR ''/'', CHR ''*''}))"

lemma skip_token:
  assumes "starts_token (lx_cur lx)"
  shows "skip_ws_and_comments lx = lx"
proof -
  obtain c s where cur: "lx_cur lx = c # s" using assms by (cases "lx_cur lx") (auto simp: starts_token_def)
  with assms show ?thesis
    by (subst skip_ws_and_comments.simps) (auto simp: Let_def starts_token_def peek2_Cons split: if_splits)
qed

lemma lexer_next_token:
  "starts_token (lx_cur lx) \<Longrightarrow> lexer_next lx = lexer_token lx"
  by (auto simp: lexer_next_eq skip_token is_at_end_def starts_token_def Let_def split: list.splits)

lemma lexer_next_space:
  "lx_cur lx = SPACE # s \<Longrightarrow> lexer_next lx = lexer_next (adv lx)"
  by (simp add: lexer_next_def skip_ws_and_comments.simps [of lx])

section \<open>The lexical grammar\<close>

definition fixed_words :: "(string \<times> token_type) list" where
  "fixed_words = [
     (''('', TOK_LPAREN), ('')'', TOK_RPAREN), (''{'', TOK_LBRACE), (''}'', TOK_RBRACE),
     (''['', TOK_LBRACKET), ('']'', TOK_RBRACKET), ('';'', TOK_SEMI), ('':'', TOK_COLON),
     ('','', TOK_COMMA), (''.'', TOK_DOT), (''?'', TOK_QUESTION), (''='', TOK_ASSIGN),
     (''+'', TOK_PLUS), (''-'', TOK_MINUS), (''*'', TOK_STAR), (''/'', TOK_SLASH),
     (''%'', TOK_PERCENT), (''**'', TOK_POW), (''+='', TOK_PLUS_EQ), (''-='', TOK_MINUS_EQ),
     (''*='', TOK_STAR_EQ), (''/='', TOK_SLASH_EQ), (''%='', TOK_PERCENT_EQ),
     (''**='', TOK_POW_EQ), (''>'', TOK_GT), (''<'', TOK_LT), (''>='', TOK_GE), (''<='', TOK_LE),
     (''=='', TOK_EQ), (''!='', TOK_NE), (''<<'', TOK_SHL), (''>>'', TOK_SHR),
     (''<<<'', TOK_BETWEEN), (''&&'', TOK_AND), (''||'', TOK_OR), (''!'', TOK_NOT)]"

definition word :: "string \<Rightarrow> bool" where
  "word w \<longleftrightarrow> w \<noteq> [] \<and> (isalpha (hd w) \<or> hd w = CHR ''_'') \<and> (\<forall>c \<in> set w. word_char c)"

definition digits :: "string \<Rightarrow> bool" where
  "digits w \<longleftrightarrow> w \<noteq> [] \<and> (\<forall>c \<in> set w. isdigit c)"

definition exponent :: "string \<Rightarrow> bool" where
  "exponent x \<longleftrightarrow> (\<exists>e sg d. x = e # sg @ d \<and> e \<in> {CHR ''e'', CHR ''E''} \<and>
     sg \<in> {'''', ''+'', ''-''} \<and> digits d)"

text \<open>The inside of a string literal: a backslash takes the next character with it.\<close>

fun string_text :: "string \<Rightarrow> bool" where
  "string_text [] = True"
| "string_text (c # s) =
     (c \<noteq> NUL \<and> c \<noteq> DQUOTE \<and>
      (if c = BACKSLASH then (case s of [] \<Rightarrow> False | d # s' \<Rightarrow> d \<noteq> NUL \<and> string_text s')
       else string_text s))"

inductive lexeme :: "token_type \<Rightarrow> string \<Rightarrow> bool" where
  keyword: "map_of keyword_table w = Some ty \<Longrightarrow> lexeme ty w"
| ident: "word w \<Longrightarrow> map_of keyword_table w = None \<Longrightarrow> lexeme TOK_IDENT w"
| num: "digits w \<Longrightarrow> lexeme TOK_NUM_LIT w"
| decimal: "digits w \<Longrightarrow> digits f \<Longrightarrow> lexeme TOK_DECIMAL_LIT (w @ ''.'' @ f)"
| scifi_num: "digits w \<Longrightarrow> exponent x \<Longrightarrow> lexeme TOK_SCIFI_LIT (w @ x)"
| scifi_decimal: "digits w \<Longrightarrow> digits f \<Longrightarrow> exponent x \<Longrightarrow> lexeme TOK_SCIFI_LIT (w @ ''.'' @ f @ x)"
| string: "string_text w \<Longrightarrow> lexeme TOK_STRING_LIT (DQUOTE # w @ [DQUOTE])"
| fixed: "(w, ty) \<in> set fixed_words \<Longrightarrow> lexeme ty w"

text \<open>The text the token record carries: a string literal loses its quotes.\<close>

definition lexeme_text :: "token_type \<Rightarrow> string \<Rightarrow> string" where
  "lexeme_text ty w = (if ty = TOK_STRING_LIT then butlast (tl w) else w)"

definition reads :: "token_type \<Rightarrow> string \<Rightarrow> bool" where
  "reads ty w \<longleftrightarrow> starts_token w \<and> ty \<noteq> TOK_EOF \<and>
     (\<forall>lx s. lx_cur lx = w @ SPACE # s \<longrightarrow>
        (case lexer_token lx of (t, l) \<Rightarrow>
           tk_type t = ty \<and> token_text t = lexeme_text ty w \<and> lx_cur l = SPACE # s))"

lemma starts_token_append: "starts_token w \<Longrightarrow> starts_token (w @ SPACE # s)"
  by (cases w; cases "tl w") (auto simp: starts_token_def)

section \<open>Each kind of word is read as its token\<close>

lemma word_char_SPACE [simp]: "\<not> word_char SPACE"
  by (simp add: word_char_def isalnum_def isalpha_def isdigit_def code_def)

lemma isdigit_facts [simp]:
  "\<not> isdigit SPACE" "\<not> isdigit (CHR ''.'')" "\<not> isdigit (CHR ''e'')" "\<not> isdigit (CHR ''E'')"
  "\<not> isdigit (CHR ''+'')" "\<not> isdigit (CHR ''-'')" "\<not> isdigit (CHR ''_'')"
  by (simp_all add: isdigit_def code_def)

lemma blank_not_alpha:
  "isalpha c \<or> c = CHR ''_'' \<Longrightarrow> c \<notin> {NUL, SPACE, TAB, CR, NL, CHR ''/'', DQUOTE}"
  by (auto simp: isalpha_def code_def)

lemma blank_not_digit: "isdigit c \<Longrightarrow> c \<notin> {NUL, SPACE, TAB, CR, NL, CHR ''/'', DQUOTE, CHR ''_''}"
  by (auto simp: isdigit_def code_def)

lemma word_starts: "word w \<Longrightarrow> starts_token w"
  using blank_not_alpha [of "hd w"] by (cases w) (auto simp: word_def starts_token_def)

lemma digits_starts: "digits w \<Longrightarrow> starts_token (w @ r)"
  using blank_not_digit [of "hd w"] by (cases w) (auto simp: digits_def starts_token_def)

lemma dropWhile_word:
  "\<forall>c \<in> set w. word_char c \<Longrightarrow> dropWhile word_char (w @ SPACE # s) = SPACE # s"
  by (rule dropWhile_append_stop) auto

lemma dropWhile_digits:
  "\<forall>c \<in> set w. isdigit c \<Longrightarrow> r = [] \<or> \<not> isdigit (hd r) \<Longrightarrow> dropWhile isdigit (w @ r) = r"
  by (rule dropWhile_append_stop) auto

lemma lexer_token_word:
  assumes "word w" and "lx_cur lx = w @ SPACE # s"
  shows "\<exists>l. lexer_token lx =
      (make_token l (case map_of keyword_table w of Some t \<Rightarrow> t | None \<Rightarrow> TOK_IDENT)
         (w @ SPACE # s) (length w), l) \<and> lx_cur l = SPACE # s"
proof -
  obtain c v where w: "w = c # v" using assms(1) by (cases w) (auto simp: word_def)
  have c: "isalpha c \<or> c = CHR ''_''" and v: "\<forall>c \<in> set v. word_char c"
    using assms(1) by (auto simp: word_def w)
  define l where "l = advance_while ident_char (adv lx)"
  have l: "lx_cur l = SPACE # s"
    using assms(2) v by (simp add: l_def w dropWhile_word)
  have "peek lx = c" using assms(2) by (simp add: w)
  then have "lexer_token lx = identifier_or_keyword (adv lx) (w @ SPACE # s)"
    using c assms(2) by (simp add: lexer_token_def Let_def)
  also have "\<dots> = (make_token l (case map_of keyword_table w of Some t \<Rightarrow> t | None \<Rightarrow> TOK_IDENT)
      (w @ SPACE # s) (length w), l)"
    using l by (simp add: identifier_or_keyword_def Let_def flip: l_def split: option.split)
  finally show ?thesis using l by blast
qed

lemma reads_word:
  assumes "word w" and "ty = (case map_of keyword_table w of Some t \<Rightarrow> t | None \<Rightarrow> TOK_IDENT)"
  shows "reads ty w"
proof -
  have "ty \<noteq> TOK_EOF" "ty \<noteq> TOK_STRING_LIT"
    using assms(2) keyword_table_types by (auto split: option.splits)
  moreover have "case lexer_token lx of (t, l) \<Rightarrow>
      tk_type t = ty \<and> token_text t = lexeme_text ty w \<and> lx_cur l = SPACE # s"
    if cur: "lx_cur lx = w @ SPACE # s" for lx s
    using lexer_token_word [OF assms(1) cur] assms(2) \<open>ty \<noteq> TOK_STRING_LIT\<close>
    by (auto simp: token_text_def lexeme_text_def)
  ultimately show ?thesis
    using word_starts [OF assms(1)] by (simp add: reads_def)
qed

lemma keyword_table_words: "map_of keyword_table w = Some ty \<Longrightarrow> word w"
  by (drule map_of_SomeD)
    (auto simp: keyword_table_def word_def word_char_def isalnum_def isalpha_def code_def)

lemma fraction_digits:
  assumes "digits f" and "lx_cur lx = CHR ''.'' # f @ r" and "r = [] \<or> \<not> isdigit (hd r)"
  shows "\<exists>l. number_fraction lx = (True, l) \<and> lx_cur l = r"
proof -
  have "peek2 lx = hd f" "isdigit (hd f)"
    using assms by (auto simp: peek2_Cons digits_def)
  moreover have "dropWhile isdigit (f @ r) = r"
    using assms by (intro dropWhile_digits) (auto simp: digits_def)
  ultimately show ?thesis
    using assms(2) by (simp add: number_fraction_def)
qed

lemma no_fraction: "lx_cur lx = c # s \<Longrightarrow> c \<noteq> CHR ''.'' \<Longrightarrow> number_fraction lx = (False, lx)"
  by (simp add: number_fraction_def)

lemma no_exponent: "lx_cur lx = SPACE # s \<Longrightarrow> number_exponent lx = (False, lx)"
  by (simp add: number_exponent_def)

lemma exponent_digits:
  assumes "exponent x" and "lx_cur lx = x @ SPACE # s"
  shows "\<exists>l. number_exponent lx = (True, l) \<and> lx_cur l = SPACE # s"
proof -
  from assms(1) obtain e sg d where x: "x = e # sg @ d" "e \<in> {CHR ''e'', CHR ''E''}"
      "sg \<in> {'''', ''+'', ''-''}" "digits d"
    unfolding exponent_def by blast
  from x(4) obtain c d' where d: "d = c # d'" "isdigit c" "\<forall>c \<in> set d'. isdigit c"
    by (cases d) (auto simp: digits_def)
  have c: "c \<noteq> CHR ''+''" "c \<noteq> CHR ''-''" using d(2) by auto
  have drop: "dropWhile isdigit (d' @ SPACE # s) = SPACE # s"
    using d(3) by (intro dropWhile_digits) auto
  have pe: "peek lx = e" using assms(2) x(1) by simp
  define l where "l = (if sg = [] then adv lx else adv (adv lx))"
  have cl: "lx_cur l = d @ SPACE # s" using assms(2) x(1,3) by (auto simp: l_def)
  have "peek (adv lx) = (if sg = [] then c else hd sg)" using assms(2) x(1,3) d by auto
  then have "number_exponent lx = (True, advance_while digit_ahead l)"
    using pe x(2,3) c d cl by (auto simp: number_exponent_def Let_def l_def)
  then show ?thesis using cl d drop by simp
qed

lemma lexer_token_number:
  assumes "isdigit c" and "lx_cur lx = c # s"
  shows "lexer_token lx = number (adv lx) (c # s)"
  using assms blank_not_digit [OF assms(1)] isdigit_not_alpha [OF assms(1)]
  by (simp add: lexer_token_def Let_def)

lemma number_eq:
  assumes "number_fraction (advance_while digit_ahead lx) = (d, l1)"
    and "number_exponent l1 = (e, l2)"
    and "start = w @ lx_cur l2"
  shows "number lx start =
    (make_token l2 (if e then TOK_SCIFI_LIT else if d then TOK_DECIMAL_LIT else TOK_NUM_LIT)
       start (length w), l2)"
  using assms by (simp add: number_def Let_def)

lemma reads_number:
  assumes "digits w" and "hd (r @ [SPACE]) \<notin> Collect isdigit"
    and "ty = (if e then TOK_SCIFI_LIT else if d then TOK_DECIMAL_LIT else TOK_NUM_LIT)"
    and "\<And>l s. lx_cur l = r @ SPACE # s \<Longrightarrow>
      \<exists>l1 l2. number_fraction l = (d, l1) \<and> number_exponent l1 = (e, l2) \<and> lx_cur l2 = SPACE # s"
  shows "reads ty (w @ r)"
proof -
  have "case lexer_token lx of (t, l) \<Rightarrow>
      tk_type t = ty \<and> token_text t = lexeme_text ty (w @ r) \<and> lx_cur l = SPACE # s"
    if cur: "lx_cur lx = (w @ r) @ SPACE # s" for lx s
  proof -
    obtain c v where w: "w = c # v" "isdigit c" "\<forall>c \<in> set v. isdigit c"
      using assms(1) by (cases w) (auto simp: digits_def)
    have "dropWhile isdigit (v @ (r @ SPACE # s)) = r @ SPACE # s"
      using w(3) assms(2) by (cases r) (simp_all add: dropWhile_digits)
    then have "lx_cur (advance_while digit_ahead (adv lx)) = r @ SPACE # s"
      using cur w(1) by simp
    from assms(4) [OF this] obtain l1 l2 where l:
        "number_fraction (advance_while digit_ahead (adv lx)) = (d, l1)"
        "number_exponent l1 = (e, l2)" "lx_cur l2 = SPACE # s" by blast
    have "lexer_token lx = number (adv lx) ((w @ r) @ SPACE # s)"
      using lexer_token_number [OF w(2)] cur w(1) by simp
    also have "\<dots> = (make_token l2 ty ((w @ r) @ SPACE # s) (length (w @ r)), l2)"
      unfolding assms(3) using l(1,2) by (rule number_eq) (simp add: l(3))
    finally show ?thesis
      using l(3) assms(3) by (auto simp: token_text_def lexeme_text_def)
  qed
  moreover have "starts_token (w @ r)" by (rule digits_starts [OF assms(1)])
  ultimately show ?thesis
    using assms(3) unfolding reads_def by auto
qed

lemma reads_num: "digits w \<Longrightarrow> reads TOK_NUM_LIT w"
  using reads_number [of w "[]" TOK_NUM_LIT False False]
  by (simp add: no_fraction no_exponent)

lemma reads_decimal: "digits w \<Longrightarrow> digits f \<Longrightarrow> reads TOK_DECIMAL_LIT (w @ ''.'' @ f)"
  by (rule reads_number [where d = True and e = False])
    (auto dest!: fraction_digits [of f _ "SPACE # _"] simp: no_exponent)

lemma exponent_hd: "exponent x \<Longrightarrow> x \<noteq> [] \<and> \<not> isdigit (hd x) \<and> hd x \<noteq> CHR ''.''"
  by (auto simp: exponent_def)

lemma reads_scifi_num: "digits w \<Longrightarrow> exponent x \<Longrightarrow> reads TOK_SCIFI_LIT (w @ x)"
proof (rule reads_number [where d = False and e = True])
  fix l :: lexer and s assume x: "exponent x" and cur: "lx_cur l = x @ SPACE # s"
  from exponent_hd [OF x] have "number_fraction l = (False, l)"
    using cur by (cases x) (auto intro: no_fraction)
  with exponent_digits [OF x cur]
  show "\<exists>l1 l2. number_fraction l = (False, l1) \<and> number_exponent l1 = (True, l2) \<and>
      lx_cur l2 = SPACE # s" by auto
qed (use exponent_hd in auto)

lemma reads_scifi_decimal:
  "digits w \<Longrightarrow> digits f \<Longrightarrow> exponent x \<Longrightarrow> reads TOK_SCIFI_LIT (w @ ''.'' @ f @ x)"
proof (rule reads_number [where d = True and e = True])
  fix l :: lexer and s assume f: "digits f" and x: "exponent x"
    and cur: "lx_cur l = (''.'' @ f @ x) @ SPACE # s"
  obtain l1 where l1: "number_fraction l = (True, l1)" "lx_cur l1 = x @ SPACE # s"
    using fraction_digits [OF f, of l "x @ SPACE # s"] exponent_hd [OF x] cur by auto
  with exponent_digits [OF x l1(2)]
  show "\<exists>l1 l2. number_fraction l = (True, l1) \<and> number_exponent l1 = (True, l2) \<and>
      lx_cur l2 = SPACE # s" by auto
qed auto

lemma string_body_text:
  "string_text w \<Longrightarrow> lx_cur lx = w @ DQUOTE # r \<Longrightarrow> lx_cur (string_body lx) = DQUOTE # r"
proof (induction w arbitrary: lx rule: string_text.induct)
  case 1
  then show ?case by (subst string_body.simps) simp
next
  case (2 c s)
  have step: "string_body lx =
      string_body (if c = BACKSLASH \<and> peek2 lx \<noteq> NUL then adv (adv lx) else adv lx)"
    using "2.prems" by (subst string_body.simps) (auto simp: is_at_end_def split: if_splits)
  show ?case
  proof (cases "c = BACKSLASH")
    case True
    with "2.prems"(1) obtain d s' where s: "s = d # s'" "d \<noteq> NUL" "string_text s'"
      by (auto split: list.splits)
    then have "peek2 lx \<noteq> NUL" using "2.prems"(2) True by (simp add: peek2_Cons)
    with step True "2.IH"(1) [OF True s(1,3), of "adv (adv lx)"] s "2.prems"(2) show ?thesis
      by simp
  next
    case False
    with step "2.IH"(2) [OF False, of "adv lx"] "2.prems" show ?thesis by simp
  qed
qed

lemma reads_string: "string_text w \<Longrightarrow> reads TOK_STRING_LIT (DQUOTE # w @ [DQUOTE])"
proof -
  assume w: "string_text w"
  have "case lexer_token lx of (t, l) \<Rightarrow> tk_type t = TOK_STRING_LIT \<and>
      token_text t = lexeme_text TOK_STRING_LIT (DQUOTE # w @ [DQUOTE]) \<and> lx_cur l = SPACE # s"
    if cur: "lx_cur lx = (DQUOTE # w @ [DQUOTE]) @ SPACE # s" for lx s
  proof -
    have body: "lx_cur (string_body (adv lx)) = DQUOTE # SPACE # s"
      using string_body_text [OF w, of "adv lx" "SPACE # s"] cur by simp
    have q: "peek lx = DQUOTE" using cur by simp
    have "\<not> isalpha DQUOTE" "\<not> isdigit DQUOTE" by (simp_all add: isalpha_def isdigit_def code_def)
    then have "lexer_token lx = string_lit (adv lx)"
      using q by (simp add: lexer_token_def Let_def)
    then show ?thesis
      using body cur by (simp add: string_lit_def Let_def is_at_end_def token_text_def
          lexeme_text_def butlast_append)
  qed
  then show ?thesis by (simp add: reads_def starts_token_def)
qed

lemma classes_of_punctuation [simp]:
  "c \<in> set ''(){}[];:,.?=+-*/%><!&|'' \<Longrightarrow> \<not> isalpha c"
  "c \<in> set ''(){}[];:,.?=+-*/%><!&|'' \<Longrightarrow> \<not> isdigit c"
  by (auto simp: isalpha_def isdigit_def code_def)

lemma reads_fixed: "(w, ty) \<in> set fixed_words \<Longrightarrow> reads ty w"
  by (simp add: fixed_words_def)
    (elim disjE conjE; simp add: reads_def starts_token_def lexer_token_def punctuation_def
      operator_def one_or_two_def match_def is_at_end_def peek2_Cons token_text_def
      lexeme_text_def Let_def)

lemma lexeme_reads: "lexeme ty w \<Longrightarrow> reads ty w"
proof (induction rule: lexeme.induct)
  case (keyword w ty)
  then show ?case by (intro reads_word) (auto intro: keyword_table_words)
next
  case (ident w)
  then show ?case by (intro reads_word) auto
qed (auto intro: reads_num reads_decimal reads_scifi_num reads_scifi_decimal reads_string
    reads_fixed simp del: append.simps append_Cons)

section \<open>Properties of the scanner\<close>

text \<open>Reading the whole source, as the parser does token by token.\<close>

definition scan :: "string \<Rightarrow> (token_type \<times> string) list option" where
  "scan s = map_option (map (\<lambda>t. (tk_type t, token_text t)))
     (drain lexer_next (Suc (length s)) (lexer_init s None))"

definition print_words :: "(token_type \<times> string) list \<Rightarrow> string" where
  "print_words ws = concat (map (\<lambda>(ty, w). w @ [SPACE]) ws)"

lemma drain_space:
  "lx_cur lx = SPACE # s \<Longrightarrow> drain lexer_next n lx = drain lexer_next n (adv lx)"
  by (cases n) (simp_all add: lexer_next_space)

lemma reads_step:
  assumes "reads ty w" and "lx_cur lx = w @ SPACE # s" and "lexer_token lx = (t, l)"
  shows "tk_type t = ty \<and> ty \<noteq> TOK_EOF \<and> token_text t = lexeme_text ty w \<and>
    lx_cur l = SPACE # s \<and> lexer_next lx = (t, l)"
proof -
  note r = assms(1) [unfolded reads_def, THEN conjunct2, THEN conjunct2]
  have "starts_token w" "ty \<noteq> TOK_EOF" using assms(1) by (simp_all add: reads_def)
  moreover from r [rule_format, OF assms(2)] assms(3) have
    "tk_type t = ty \<and> token_text t = lexeme_text ty w \<and> lx_cur l = SPACE # s" by simp
  ultimately show ?thesis
    using assms(2,3) starts_token_append [of w s] by (simp add: lexer_next_token)
qed

lemma drain_words:
  assumes "\<forall>(ty, w) \<in> set ws. lexeme ty w" and "lx_cur lx = print_words ws"
    and "length (print_words ws) < n"
  shows "map_option (map (\<lambda>t. (tk_type t, token_text t))) (drain lexer_next n lx) =
    Some (map (\<lambda>(ty, w). (ty, lexeme_text ty w)) ws @ [(TOK_EOF, [])])"
  using assms
proof (induction ws arbitrary: lx n)
  case Nil
  then have "lexer_next lx = (make_token lx TOK_EOF [] 0, lx)"
    by (simp add: lexer_next_eq skip_at_end is_at_end_def print_words_def Let_def)
  then show ?case using Nil by (cases n) (simp_all add: token_text_def)
next
  case (Cons tw ws)
  obtain ty w where tw: "tw = (ty, w)" by fastforce
  let ?s = "print_words ws"
  have cur: "lx_cur lx = w @ SPACE # ?s" using Cons.prems(2) by (simp add: tw print_words_def)
  have "reads ty w" using Cons.prems(1) by (auto simp: tw intro: lexeme_reads)
  moreover obtain t l where "lexer_token lx = (t, l)" by fastforce
  ultimately have tl: "tk_type t = ty" "ty \<noteq> TOK_EOF" "token_text t = lexeme_text ty w"
      "lx_cur l = SPACE # ?s" and nx: "lexer_next lx = (t, l)"
    using reads_step [OF _ cur] by auto
  obtain m where n: "n = Suc m" using Cons.prems(3) by (cases n) auto
  have "length ?s < m" using Cons.prems(3) by (simp add: n tw print_words_def)
  then have "map_option (map (\<lambda>t. (tk_type t, token_text t))) (drain lexer_next m (adv l)) =
      Some (map (\<lambda>(ty, w). (ty, lexeme_text ty w)) ws @ [(TOK_EOF, [])])"
    using Cons.prems(1) tl(4) by (intro Cons.IH) auto
  then show ?case
    using nx tl(1-3) drain_space [OF tl(4), of m] by (auto simp: n tw)
qed

text \<open>
  C1. Scanning inverts printing: a list of words of the lexical grammar, written with blanks
  between them, is read back as exactly those tokens with those texts, then the end token.
\<close>
theorem scan_print_words:
  "\<forall>(ty, w) \<in> set ws. lexeme ty w \<Longrightarrow>
   scan (print_words ws) = Some (map (\<lambda>(ty, w). (ty, lexeme_text ty w)) ws @ [(TOK_EOF, [])])"
  unfolding scan_def by (rule drain_words) (simp_all add: lexer_init_def)

theorem scan_print_words_witness:
  "scan ''while ( x1 <<< 2.5e-3 ) '' =
     Some [(TOK_WHILE, ''while''), (TOK_LPAREN, ''(''), (TOK_IDENT, ''x1''),
       (TOK_BETWEEN, ''<<<''), (TOK_SCIFI_LIT, ''2.5e-3''), (TOK_RPAREN, '')''), (TOK_EOF, [])]"
proof -
  let ?ws = "[(TOK_WHILE, ''while''), (TOK_LPAREN, ''(''), (TOK_IDENT, ''x1''),
    (TOK_BETWEEN, ''<<<''), (TOK_SCIFI_LIT, ''2.5e-3''), (TOK_RPAREN, '')'')]"
  have "digits ''3''" and d: "digits ''2''" "digits ''5''"
    by (simp_all add: digits_def isdigit_def code_def)
  then have x: "exponent ''e-3''"
    unfolding exponent_def by (intro exI [of _ "CHR ''e''"] exI [of _ "''-''"] exI [of _ "''3''"]) simp
  have "lexeme TOK_WHILE ''while''" by (rule lexeme.keyword) (simp add: keyword_table_def)
  moreover have "lexeme TOK_IDENT ''x1''"
    by (rule lexeme.ident)
      (simp_all add: keyword_table_def word_def word_char_def isalnum_def isalpha_def isdigit_def
        code_def)
  moreover have "lexeme TOK_SCIFI_LIT ''2.5e-3''"
    using lexeme.scifi_decimal [OF d x] by simp
  moreover have "lexeme TOK_LPAREN ''(''" "lexeme TOK_RPAREN '')''" "lexeme TOK_BETWEEN ''<<<''"
    by (auto intro!: lexeme.fixed simp: fixed_words_def)
  ultimately have "\<forall>(ty, w) \<in> set ?ws. lexeme ty w" by simp
  from scan_print_words [OF this] show ?thesis
    by (simp add: print_words_def lexeme_text_def)
qed

text \<open>
  C8. The tokens tile the source: what \<^const>\<open>lexer_next\<close> moves over is blanks and comments
  (as the independent grammar \<^const>\<open>trivia\<close> has them, and all of them: the rest begins with neither)
  followed by exactly one token, or by the end of the source.
\<close>
theorem lexer_next_tiles:
  "\<exists>tr s. trivia tr s \<and> no_trivia s \<and> lx_cur lx = tr @ s \<and>
     (if tk_type (fst (lexer_next lx)) = TOK_EOF
      then at_NUL s \<and> lx_cur (snd (lexer_next lx)) = s
      else token_spans s (fst (lexer_next lx)) (lx_cur (snd (lexer_next lx))))"
proof -
  obtain tr where "trivia tr (lx_cur (skip_ws_and_comments lx))" "lx_cur lx = tr @ lx_cur (skip_ws_and_comments lx)"
    using skip_trivia by blast
  moreover note skip_no_trivia [of lx]
  moreover have "if tk_type (fst (lexer_next lx)) = TOK_EOF
      then at_NUL (lx_cur (skip_ws_and_comments lx)) \<and>
        lx_cur (snd (lexer_next lx)) = lx_cur (skip_ws_and_comments lx)
      else token_spans (lx_cur (skip_ws_and_comments lx)) (fst (lexer_next lx))
        (lx_cur (snd (lexer_next lx)))"
    by (cases lx rule: lexer_next_cases) (simp_all add: is_at_end_iff)
  ultimately show ?thesis by blast
qed

text \<open>
  C30. The scanner stays inside the C string and counts lines exactly: from any state the
  cursor never passes the terminating NUL, and the line of a token is the line before plus
  the newlines the scanner moved over.
\<close>
theorem lexer_next_bounds:
  "lx_oob (snd (lexer_next lx)) = lx_oob lx \<and>
   (\<exists>pre. lx_cur lx = pre @ lx_cur (snd (lexer_next lx)) \<and> nul_free pre \<and>
      tk_line (fst (lexer_next lx)) = lx_line lx + count_list pre NL)"
  using scans_lexer_next [of lx] lexer_next_line [of lx] by (auto simp: scans_def)

text \<open>
  C32. Scanning any source ends: after at most one token per character comes the end token,
  and it is the only one.
\<close>
theorem scan_total:
  "\<exists>ts. scan s = Some (ts @ [(TOK_EOF, [])]) \<and> list_all (\<lambda>(ty, w). ty \<noteq> TOK_EOF) ts \<and>
     length ts \<le> length s"
proof -
  obtain ts t where d: "drain lexer_next (Suc (length s)) (lexer_init s None) = Some (ts @ [t])"
      "tk_type t = TOK_EOF" "\<forall>u \<in> set ts. tk_type u \<noteq> TOK_EOF"
    using lexer_stream.drain_enough [of "lexer_init s None" "Suc (length s)"]
    by (auto simp: lexer_init_def)
  have len: "length us \<le> n" if "drain lexer_next n lx = Some us" for n lx us
    using that by (induction n arbitrary: lx us) (auto split: prod.splits if_splits)
  have eof: "token_text u = []" if "drain lexer_next n lx = Some (us @ [u])" "tk_type u = TOK_EOF"
    for n lx us u
    using that
  proof (induction n arbitrary: lx us)
    case (Suc n)
    show ?case
    proof (cases "tk_type (fst (lexer_next lx)) = TOK_EOF")
      case True
      with Suc.prems have "u = fst (lexer_next lx)" by (auto simp: case_prod_unfold)
      with True show ?thesis
        by (cases lx rule: lexer_next_cases) (simp_all add: token_text_def)
    next
      case False
      with Suc.prems obtain v where
          "drain lexer_next n (snd (lexer_next lx)) = Some v" "us @ [u] = fst (lexer_next lx) # v"
        by (auto simp: case_prod_unfold)
      moreover from this(2) False Suc.prems(2) have "v = tl us @ [u]" by (cases us) auto
      ultimately show ?thesis using Suc.IH Suc.prems(2) by blast
    qed
  qed simp
  show ?thesis
    using d len [OF d(1)] eof [OF d(1,2)] by (auto simp: scan_def list_all_iff)
qed

end
