(* ===== verification/Double.thy ===== *)
theory Double
  imports Prelude
begin

text \<open>
  The C type \<^verbatim>\<open>double\<close> as the program uses it: IEEE 754 binary64 with rounding to nearest,
  ties to even.  \<open>DFin s m e\<close> is \<open>(-1)^s * m * 2^e\<close> in canonical form (zero has exponent 0;
  a normal number has a 53-bit \<open>m\<close>; a subnormal number has exponent \<open>-1074\<close>), so that
  equality of values is equality of terms except for the two zeros and NaN.  \<open>atof\<close> reads the
  decimal literals the scanner and the JSON reader hand to \<^verbatim>\<open>atof\<close>, rounded correctly, as
  \<^verbatim>\<open>strtod\<close> does.
\<close>

datatype dbl = DNaN | DInf bool | DFin bool nat int

fun bitlen :: "nat \<Rightarrow> nat" where
  "bitlen n = (if n = 0 then 0 else Suc (bitlen (n div 2)))"

declare bitlen.simps [simp del]

text \<open>\<open>n / d\<close> to the nearest natural number, ties to even.\<close>

definition div_rne :: "nat \<Rightarrow> nat \<Rightarrow> nat" where
  "div_rne n d =
     (let q = n div d; r = n mod d
      in if 2 * r < d \<or> (2 * r = d \<and> even q) then q else q + 1)"

definition scale2 :: "nat \<Rightarrow> nat \<Rightarrow> int \<Rightarrow> nat \<times> nat" where
  "scale2 p q k = (if 0 \<le> k then (p, q * 2 ^ nat k) else (p * 2 ^ nat (- k), q))"

text \<open>\<open>floor (log2 (p / q))\<close> for positive \<open>p\<close> and \<open>q\<close>.\<close>

definition floor_log2 :: "nat \<Rightarrow> nat \<Rightarrow> int" where
  "floor_log2 p q =
     (let e = int (bitlen p) - int (bitlen q); (n, d) = scale2 p q e
      in if d \<le> n then e else e - 1)"

text \<open>The double nearest to \<open>p / q\<close>.\<close>

definition dround :: "bool \<Rightarrow> nat \<Rightarrow> nat \<Rightarrow> dbl" where
  "dround s p q =
     (if p = 0 then DFin s 0 0
      else
        (let k = max (-1074) (floor_log2 p q - 52);
             (n, d) = scale2 p q k;
             m = div_rne n d;
             (m, k) = (if m = 2 ^ 53 then (2 ^ 52, k + 1) else (m, k))
         in if k > 971 then DInf s else if m = 0 then DFin s 0 0 else DFin s m k))"

definition dbl_of_int :: "int \<Rightarrow> dbl" where
  "dbl_of_int n = dround (n < 0) (nat \<bar>n\<bar>) 1"

definition dround10 :: "bool \<Rightarrow> nat \<Rightarrow> int \<Rightarrow> dbl" where
  "dround10 s m x = (if 0 \<le> x then dround s (m * 10 ^ nat x) 1 else dround s m (10 ^ nat (- x)))"

definition split_sign :: "string \<Rightarrow> bool \<times> string" where
  "split_sign s =
     (if s \<noteq> [] \<and> hd s = CHR ''-'' then (True, tl s)
      else if s \<noteq> [] \<and> hd s = CHR ''+'' then (False, tl s) else (False, s))"

text \<open>The exponent part, if digits follow the \<open>e\<close>; otherwise it is not part of the number.\<close>

definition read_exponent :: "string \<Rightarrow> int" where
  "read_exponent s =
     (if s \<noteq> [] \<and> hd s \<in> {CHR ''e'', CHR ''E''} then
        (let (neg, r) = split_sign (tl s); ds = takeWhile isdigit r
         in if neg then - int (digits_val 0 ds) else int (digits_val 0 ds))
      else 0)"

definition atof :: "string \<Rightarrow> dbl" where
  "atof s =
     (let (neg, r) = split_sign s;
          ip = takeWhile isdigit r;
          r = dropWhile isdigit r;
          (fp, r) = (if r \<noteq> [] \<and> hd r = CHR ''.''
                     then (takeWhile isdigit (tl r), dropWhile isdigit (tl r)) else ([], r))
      in if ip = [] \<and> fp = [] then DFin False 0 0
         else dround10 neg (digits_val 0 (ip @ fp)) (read_exponent r - int (length fp)))"

end
