(* ===== verification/Ast.thy ===== *)
theory Ast
  imports Lexer Double
begin

text \<open>
  The abstract syntax tree: \<^verbatim>\<open>include/ast.h\<close> and \<^verbatim>\<open>src/ast/ast.c\<close>.  The tagged unions
  \<^verbatim>\<open>Expr\<close> and \<^verbatim>\<open>Stmt\<close> are datatypes with one constructor per tag, the linked lists
  \<^verbatim>\<open>ExprList\<close>, \<^verbatim>\<open>DataEntry\<close>, \<^verbatim>\<open>Param\<close>, \<^verbatim>\<open>StmtList\<close>, \<^verbatim>\<open>StrPart\<close> and
  \<^verbatim>\<open>ElifChain\<close> are lists, and a pointer that may be NULL is an option.  Every node carries
  its line first, as in the C structures.
\<close>

datatype JagType =
    T_STRING | T_NUM | T_DECIMAL | T_BOOL | T_SCIFI | T_DATA | T_LIST | T_MIXEDLIST
  | T_ENUM | T_STRUCT | T_VECTOR | T_MATRIX | T_TASK | T_WORKER | T_SOCKET
  | T_VOID | T_UNKNOWN | T_CLASS_NAMED

datatype TypeInfo = TypeInfo (ty_kind: JagType) (ty_elem: "TypeInfo option") (ty_name: "string option")

definition type_new :: "JagType \<Rightarrow> TypeInfo" where
  "type_new kind = TypeInfo kind None None"

type_synonym param = "string \<times> TypeInfo"

datatype expr =
    E_LIT_NUM nat llong
  | E_LIT_DECIMAL nat dbl
  | E_LIT_SCIFI nat dbl
  | E_LIT_BOOL nat bool
  | E_LIT_STRING_INTERP nat "strpart list"
  | E_IDENT nat string
  | E_BINARY nat expr expr token_type
  | E_UNARY nat expr token_type
  | E_ASSIGN nat expr expr token_type
  | E_CALL nat expr "expr list"
  | E_MEMBER nat expr string
  | E_INDEX nat expr expr
  | E_TERNARY nat expr expr expr
  | E_BETWEEN nat expr expr expr
  | E_LIST nat "expr list"
  | E_DATA nat "(string \<times> expr) list"
  | E_FUNC_LIT nat "param list" TypeInfo stmt bool
  | E_AWAIT nat expr
  | E_NEW nat string "expr list"
and strpart =
    PartLiteral string
  | PartExpr expr
and stmt =
    S_VARDECL nat string TypeInfo "expr option" bool
  | S_EXPR nat expr
  | S_IF nat expr stmt "(expr \<times> stmt) list" "stmt option"
  | S_LOOP_WHILE nat expr stmt
  | S_DO_WHILE nat expr stmt
  | S_FOR_IN nat string expr "expr option" stmt
  | S_ITERATE nat expr string stmt
  | S_FUN_DECL nat string "param list" TypeInfo stmt bool
  | S_RETURN nat "expr option"
  | S_BLOCK nat "stmt list"
  | S_CLASS nat string "stmt list" nat "string option"
  | S_ENUM nat string "string list"
  | S_STRUCT nat string "param list"
  | S_IMPORT nat string
  | S_EXPORT nat string
  | S_TRY_CATCH nat stmt string stmt
  | S_BREAK nat
  | S_CONTINUE nat

text \<open>\<^verbatim>\<open>e->line\<close>, and the assignment \<^verbatim>\<open>e->line = line\<close>.\<close>

fun expr_line :: "expr \<Rightarrow> nat" where
  "expr_line (E_LIT_NUM l _) = l"
| "expr_line (E_LIT_DECIMAL l _) = l"
| "expr_line (E_LIT_SCIFI l _) = l"
| "expr_line (E_LIT_BOOL l _) = l"
| "expr_line (E_LIT_STRING_INTERP l _) = l"
| "expr_line (E_IDENT l _) = l"
| "expr_line (E_BINARY l _ _ _) = l"
| "expr_line (E_UNARY l _ _) = l"
| "expr_line (E_ASSIGN l _ _ _) = l"
| "expr_line (E_CALL l _ _) = l"
| "expr_line (E_MEMBER l _ _) = l"
| "expr_line (E_INDEX l _ _) = l"
| "expr_line (E_TERNARY l _ _ _) = l"
| "expr_line (E_BETWEEN l _ _ _) = l"
| "expr_line (E_LIST l _) = l"
| "expr_line (E_DATA l _) = l"
| "expr_line (E_FUNC_LIT l _ _ _ _) = l"
| "expr_line (E_AWAIT l _) = l"
| "expr_line (E_NEW l _ _) = l"

fun set_expr_line :: "nat \<Rightarrow> expr \<Rightarrow> expr" where
  "set_expr_line l (E_LIT_NUM _ n) = E_LIT_NUM l n"
| "set_expr_line l (E_LIT_DECIMAL _ d) = E_LIT_DECIMAL l d"
| "set_expr_line l (E_LIT_SCIFI _ d) = E_LIT_SCIFI l d"
| "set_expr_line l (E_LIT_BOOL _ b) = E_LIT_BOOL l b"
| "set_expr_line l (E_LIT_STRING_INTERP _ ps) = E_LIT_STRING_INTERP l ps"
| "set_expr_line l (E_IDENT _ x) = E_IDENT l x"
| "set_expr_line l (E_BINARY _ a b op) = E_BINARY l a b op"
| "set_expr_line l (E_UNARY _ a op) = E_UNARY l a op"
| "set_expr_line l (E_ASSIGN _ a b op) = E_ASSIGN l a b op"
| "set_expr_line l (E_CALL _ f as) = E_CALL l f as"
| "set_expr_line l (E_MEMBER _ a x) = E_MEMBER l a x"
| "set_expr_line l (E_INDEX _ a b) = E_INDEX l a b"
| "set_expr_line l (E_TERNARY _ a b c) = E_TERNARY l a b c"
| "set_expr_line l (E_BETWEEN _ a b c) = E_BETWEEN l a b c"
| "set_expr_line l (E_LIST _ es) = E_LIST l es"
| "set_expr_line l (E_DATA _ es) = E_DATA l es"
| "set_expr_line l (E_FUNC_LIT _ ps r b a) = E_FUNC_LIT l ps r b a"
| "set_expr_line l (E_AWAIT _ a) = E_AWAIT l a"
| "set_expr_line l (E_NEW _ c as) = E_NEW l c as"

lemma expr_line_set [simp]: "expr_line (set_expr_line l e) = l"
  by (cases e) simp_all

end
