(* ===== verification/Parser.thy ===== *)
theory Parser
  imports Ast
begin

text \<open>
  The recursive-descent parser: \<^verbatim>\<open>src/parser/parser.c\<close>.  A \<^verbatim>\<open>Parser\<close> is the record
  \<open>parser\<close>, passed in and returned changed; a parsing function returns its tree and the
  state after it, in an option that is \<open>None\<close> only when the fuel runs out
  (\<open>Parser_Total\<close> shows that it never does).  The forward declarations of the C file become
  arguments: \<open>pa\<close> is \<^verbatim>\<open>parse_assignment\<close>, which \<^verbatim>\<open>parse_expr\<close> is another name of, \<open>pb\<close>
  is \<^verbatim>\<open>parse_block\<close>, \<open>ps\<close> is \<^verbatim>\<open>parse_statement\<close>; the recursion is tied at the end of
  the theory.  The first argument \<open>n\<close> bounds the iterations of the loops.  Error messages
  go to \<open>p_log\<close>, the part of \<^verbatim>\<open>stderr\<close> that the parser writes.
\<close>

section \<open>State\<close>

record parser =
  p_lx :: lexer
  p_cur :: token
  p_prev :: token
  p_filename :: "string option"
  p_had_error :: bool
  p_log :: "(nat \<times> string \<times> string) list"

abbreviation cur_type :: "parser \<Rightarrow> token_type" where
  "cur_type p \<equiv> tk_type (p_cur p)"

definition advance_p :: "parser \<Rightarrow> parser" where
  "advance_p p =
     (let (t, lx) = lexer_next (p_lx p)
      in p\<lparr>p_prev := p_cur p, p_cur := t, p_lx := lx\<rparr>)"

text \<open>
  The token before the first one is uninitialised in C and never read; the log is the one of
  the process, which a parser for a part of a string literal goes on writing.
\<close>

definition init_parser :: "string \<Rightarrow> string option \<Rightarrow> (nat \<times> string \<times> string) list \<Rightarrow> parser" where
  "init_parser source filename log =
     (let lx = lexer_init source filename; t = make_token lx TOK_EOF [] 0
      in advance_p \<lparr>p_lx = lx, p_cur = t, p_prev = t, p_filename = filename,
                   p_had_error = False, p_log = log\<rparr>)"

definition tok_str :: "token \<Rightarrow> string" where
  "tok_str t = token_text t"

definition error_at :: "parser \<Rightarrow> token \<Rightarrow> string \<Rightarrow> parser" where
  "error_at p t msg =
     p\<lparr>p_had_error := True, p_log := p_log p @ [(tk_line t, token_text t, msg)]\<rparr>"

definition check :: "parser \<Rightarrow> token_type \<Rightarrow> bool" where
  "check p t \<longleftrightarrow> cur_type p = t"

definition match_t :: "parser \<Rightarrow> token_type \<Rightarrow> bool \<times> parser" where
  "match_t p t = (if check p t then (True, advance_p p) else (False, p))"

definition expect :: "parser \<Rightarrow> token_type \<Rightarrow> string \<Rightarrow> parser" where
  "expect p t what =
     (if check p t then advance_p p
      else
        (let p = error_at p (p_cur p) what
         in if \<not> check p TOK_EOF then advance_p p else p))"

type_synonym 'a proc = "parser \<Rightarrow> ('a \<times> parser) option"

text \<open>\<^verbatim>\<open>do { item } while (match_t(p, TOK_COMMA));\<close>\<close>

fun comma_list :: "nat \<Rightarrow> 'a proc \<Rightarrow> 'a list proc" where
  "comma_list 0 item p = None"
| "comma_list (Suc n) item p = do {
     (x, p) \<leftarrow> item p;
     let (more, p) = match_t p TOK_COMMA;
     if more then do { (xs, p) \<leftarrow> comma_list n item p; Some (x # xs, p) }
     else Some ([x], p)
   }"

text \<open>A closing single quote cannot end a string literal of the logic.\<close>

abbreviation SQ :: string where "SQ \<equiv> [CHR 0x27]"

section \<open>Types\<close>

fun type_kind :: "type_kw \<Rightarrow> JagType" where
  "type_kind TY_STRING = T_STRING"
| "type_kind TY_NUM = T_NUM"
| "type_kind TY_DECIMAL = T_DECIMAL"
| "type_kind TY_BOOL = T_BOOL"
| "type_kind TY_SCIFI = T_SCIFI"
| "type_kind TY_DATA = T_DATA"
| "type_kind TY_LIST = T_LIST"
| "type_kind TY_MIXEDLIST = T_MIXEDLIST"
| "type_kind TY_ENUM = T_ENUM"
| "type_kind TY_STRUCT = T_STRUCT"
| "type_kind TY_VECTOR = T_VECTOR"
| "type_kind TY_MATRIX = T_MATRIX"
| "type_kind TY_TASK = T_TASK"
| "type_kind TY_WORKER = T_WORKER"
| "type_kind TY_SOCKET = T_SOCKET"

fun parse_type :: "nat \<Rightarrow> TypeInfo proc" where
  "parse_type 0 p = None"
| "parse_type (Suc n) p =
     (case cur_type p of
        TypeKw k \<Rightarrow>
          (let (generic, p) = match_t (advance_p p) TOK_LT
           in if generic then do {
                (elem, p) \<leftarrow> parse_type n p;
                let p = expect p TOK_GT ''expected '>' to close generic type'';
                Some (TypeInfo (type_kind k) (Some elem) None, p)
              }
              else Some (type_new (type_kind k), p))
      | TOK_IDENT \<Rightarrow>
          Some (TypeInfo T_CLASS_NAMED None (Some (tok_str (p_cur p))), advance_p p)
      | _ \<Rightarrow>
          Some (type_new T_UNKNOWN, advance_p (error_at p (p_cur p) ''expected a type'')))"

section \<open>String interpolation\<close>

fun unescape_char :: "char \<Rightarrow> char" where
  "unescape_char c =
     (if c = CHR ''n'' then NL
      else if c = CHR ''t'' then TAB
      else if c = DQUOTE then DQUOTE
      else if c = BACKSLASH then BACKSLASH
      else c)"

fun unescape_segment :: "string \<Rightarrow> string" where
  "unescape_segment [] = []"
| "unescape_segment [c] = [c]"
| "unescape_segment (c # n # s) =
     (if c = BACKSLASH then unescape_char n # unescape_segment s
      else c # unescape_segment (n # s))"

definition slice :: "string \<Rightarrow> nat \<Rightarrow> nat \<Rightarrow> string" where
  "slice s i j = take (j - i) (drop i s)"

definition is_dbl :: "string \<Rightarrow> nat \<Rightarrow> bool" where
  "is_dbl s i \<longleftrightarrow> i + 1 < length s \<and> s ! i = CHR ''{'' \<and> s ! (i + 1) = CHR ''{''"

definition is_dollar_brace :: "string \<Rightarrow> nat \<Rightarrow> bool" where
  "is_dollar_brace s i \<longleftrightarrow> i + 1 < length s \<and> s ! i = CHR ''$'' \<and> s ! (i + 1) = CHR ''{''"

text \<open>The loop that looks for the closing brace: \<open>j\<close> after it.\<close>

function find_close :: "string \<Rightarrow> nat \<Rightarrow> nat \<Rightarrow> nat" where
  "find_close s j depth =
     (if j < length s \<and> 0 < depth then
        (if s ! j = CHR ''{'' then find_close s (j + 1) (depth + 1)
         else if s ! j = CHR ''}'' then
           (if depth - 1 = 0 then j else find_close s (j + 1) (depth - 1))
         else find_close s (j + 1) depth)
      else j)"
  by pat_completeness auto
termination
  by (relation "measure (\<lambda>(s, j, depth). length s - j)") auto

declare find_close.simps [simp del]

type_synonym log = "(nat \<times> string \<times> string) list"

text \<open>
  A parser of its own for the text of one expression.  Its error flag is dropped, as in C;
  what it logs is kept, and text after the expression is not looked at.
\<close>

definition parse_expr_substring ::
  "expr proc \<Rightarrow> string \<Rightarrow> string option \<Rightarrow> nat \<Rightarrow> log \<Rightarrow> (expr \<times> log) option" where
  "parse_expr_substring pa src filename line log = do {
     (e, sub) \<leftarrow> pa (init_parser src filename log);
     Some (set_expr_line line e, p_log sub)
   }"

text \<open>The loop of \<^verbatim>\<open>parse_string_literal_token\<close>; \<open>sub\<close> parses the text of one expression.\<close>

fun interp_loop ::
  "nat \<Rightarrow> (string \<Rightarrow> log \<Rightarrow> (expr \<times> log) option) \<Rightarrow> string \<Rightarrow> nat \<Rightarrow> nat \<Rightarrow> strpart list \<Rightarrow> log
   \<Rightarrow> (strpart list \<times> log) option" where
  "interp_loop 0 sub s i lit_start parts log = None"
| "interp_loop (Suc n) sub s i lit_start parts log =
     (if i < length s then
        if is_dbl s i \<or> is_dollar_brace s i then
          (let parts = (if lit_start < i
                        then parts @ [PartLiteral (unescape_segment (slice s lit_start i))]
                        else parts);
               open_len = (if is_dbl s i then 2 else 1);
               start_expr = i + open_len;
               j = find_close s start_expr 1
           in do {
                (e, log) \<leftarrow> sub (slice s start_expr j) log;
                let k = j + 1;
                let k = (if is_dbl s i \<and> k < length s \<and> s ! k = CHR ''}'' then k + 1 else k);
                interp_loop n sub s k k (parts @ [PartExpr e]) log
              })
        else interp_loop n sub s (i + 1) lit_start parts log
      else
        (let parts = (if lit_start < length s
                      then parts @ [PartLiteral (unescape_segment (slice s lit_start (length s)))]
                      else parts)
         in Some (if parts = [] then [PartLiteral []] else parts, log)))"

definition parse_string_literal_token :: "expr proc \<Rightarrow> token \<Rightarrow> expr proc" where
  "parse_string_literal_token pa t p = do {
     let s = token_text t;
     (parts, log) \<leftarrow> interp_loop (Suc (length s))
        (\<lambda>text. parse_expr_substring pa text (p_filename p) (tk_line t)) s 0 0 [] (p_log p);
     Some (E_LIT_STRING_INTERP (tk_line t) parts, p\<lparr>p_log := log\<rparr>)
   }"

section \<open>Expressions\<close>

definition parse_arg_list :: "nat \<Rightarrow> expr proc \<Rightarrow> expr list proc" where
  "parse_arg_list n pa p = (if \<not> check p TOK_RPAREN then comma_list n pa p else Some ([], p))"

text \<open>The parameters of a function literal and of a declaration: the same loop twice in C.\<close>

definition parse_param :: "nat \<Rightarrow> param proc" where
  "parse_param n p =
     (let nm = p_cur p;
          p = expect p TOK_IDENT ''expected parameter name'';
          (typed, p) = match_t p TOK_COLON
      in if typed then do { (ty, p) \<leftarrow> parse_type n p; Some ((tok_str nm, ty), p) }
         else Some ((tok_str nm, type_new T_UNKNOWN), p))"

definition parse_param_list :: "nat \<Rightarrow> param list proc" where
  "parse_param_list n p =
     (if \<not> check p TOK_RPAREN then comma_list n (parse_param n) p else Some ([], p))"

definition parse_ret_type :: "nat \<Rightarrow> TypeInfo proc" where
  "parse_ret_type n p =
     (let (typed, p) = match_t p TOK_COLON
      in if typed then parse_type n p else Some (type_new T_VOID, p))"

definition parse_new :: "nat \<Rightarrow> expr proc \<Rightarrow> token \<Rightarrow> expr proc" where
  "parse_new n pa t p = do {
     let nm = p_cur p;
     let p = expect p TOK_IDENT (''expected a class name after 'new'' @ SQ);
     let p = expect p TOK_LPAREN ''expected '(' after class name'';
     (args, p) \<leftarrow> parse_arg_list n pa p;
     let p = expect p TOK_RPAREN ''expected ')' after constructor arguments'';
     Some (E_NEW (tk_line t) (tok_str nm) args, p)
   }"

definition func_lit_rest :: "nat \<Rightarrow> stmt proc \<Rightarrow> token \<Rightarrow> bool \<Rightarrow> expr proc" where
  "func_lit_rest n pb t is_async p = do {
     let p = (if is_async then expect p TOK_FUN (''expected 'fun' after 'async'' @ SQ) else p);
     let p = expect p TOK_LPAREN ''expected '(' in function literal'';
     (params, p) \<leftarrow> parse_param_list n p;
     let p = expect p TOK_RPAREN ''expected ')' after parameters'';
     (ret, p) \<leftarrow> parse_ret_type n p;
     (body, p) \<leftarrow> pb p;
     Some (E_FUNC_LIT (tk_line t) params ret body is_async, p)
   }"

definition parse_func_lit :: "nat \<Rightarrow> stmt proc \<Rightarrow> token \<Rightarrow> expr proc" where
  "parse_func_lit n pb t p =
     (let (is_async, p) = match_t p TOK_ASYNC in func_lit_rest n pb t is_async p)"

definition parse_list_lit :: "nat \<Rightarrow> expr proc \<Rightarrow> token \<Rightarrow> expr proc" where
  "parse_list_lit n pa t p = do {
     (items, p) \<leftarrow> (if \<not> check p TOK_RBRACKET then comma_list n pa p else Some ([], p));
     let p = expect p TOK_RBRACKET (''expected ']'' @ SQ);
     Some (E_LIST (tk_line t) items, p)
   }"

definition parse_data_entry :: "expr proc \<Rightarrow> (string \<times> expr) proc" where
  "parse_data_entry pa p = do {
     let key = p_cur p;
     let p = (if check p TOK_STRING_LIT then advance_p p
              else expect p TOK_IDENT ''expected key'');
     let p = expect p TOK_COLON ''expected ':' after key'';
     (val, p) \<leftarrow> pa p;
     Some ((tok_str key, val), p)
   }"

definition parse_data_lit :: "nat \<Rightarrow> expr proc \<Rightarrow> token \<Rightarrow> expr proc" where
  "parse_data_lit n pa t p = do {
     (entries, p) \<leftarrow>
       (if \<not> check p TOK_RBRACE then comma_list n (parse_data_entry pa) p else Some ([], p));
     let p = expect p TOK_RBRACE (''expected '}'' @ SQ);
     Some (E_DATA (tk_line t) entries, p)
   }"

definition parse_paren :: "expr proc \<Rightarrow> expr proc" where
  "parse_paren pa p = do {
     (e, p) \<leftarrow> pa p;
     Some (e, expect p TOK_RPAREN (''expected ')'' @ SQ))
   }"

definition parse_await :: "expr proc \<Rightarrow> token \<Rightarrow> expr proc" where
  "parse_await pa t p = do { (e, p) \<leftarrow> pa p; Some (E_AWAIT (tk_line t) e, p) }"

definition parse_primary :: "nat \<Rightarrow> expr proc \<Rightarrow> stmt proc \<Rightarrow> expr proc" where
  "parse_primary n pa pb p =
     (let t = p_cur p; q = advance_p p
      in if check p TOK_NUM_LIT then Some (E_LIT_NUM (tk_line t) (atoll (tok_str t)), q)
         else if check p TOK_DECIMAL_LIT then Some (E_LIT_DECIMAL (tk_line t) (atof (tok_str t)), q)
         else if check p TOK_SCIFI_LIT then Some (E_LIT_SCIFI (tk_line t) (atof (tok_str t)), q)
         else if check p TOK_TRUE then Some (E_LIT_BOOL (tk_line t) True, q)
         else if check p TOK_FALSE then Some (E_LIT_BOOL (tk_line t) False, q)
         else if check p TOK_STRING_LIT then parse_string_literal_token pa t q
         else if check p TOK_IDENT then Some (E_IDENT (tk_line t) (tok_str t), q)
         else if check p TOK_TYPE_TASK then Some (E_IDENT (tk_line t) ''Task'', q)
         else if check p TOK_THIS then Some (E_IDENT (tk_line t) ''this'', q)
         else if check p TOK_SUPER then Some (E_IDENT (tk_line t) ''super'', q)
         else if check p TOK_NEW then parse_new n pa t q
         else if check p TOK_AWAIT then parse_await pa t q
         else if check p TOK_FUN then parse_func_lit n pb t q
         else if check p TOK_ASYNC then parse_func_lit n pb t p
         else if check p TOK_LPAREN then parse_paren pa q
         else if check p TOK_LBRACKET then parse_list_lit n pa t q
         else if check p TOK_LBRACE then parse_data_lit n pa t q
         else
           (let p = error_at p t ''expected an expression''
            in Some (E_LIT_BOOL (tk_line t) False, if \<not> check p TOK_EOF then advance_p p else p)))"

fun is_member_name_token :: "token_type \<Rightarrow> bool" where
  "is_member_name_token TOK_IDENT = True"
| "is_member_name_token TOK_TRUE = True"
| "is_member_name_token TOK_FALSE = True"
| "is_member_name_token (TypeKw _) = True"
| "is_member_name_token (Keyword k) = (k \<notin> {KW_NEW, KW_THIS, KW_EXTENDS, KW_SUPER})"
| "is_member_name_token _ = False"

definition parse_call_args :: "nat \<Rightarrow> expr proc \<Rightarrow> expr list proc" where
  "parse_call_args n pa p = do {
     (args, p) \<leftarrow> parse_arg_list n pa p;
     Some (args, expect p TOK_RPAREN ''expected ')' after arguments'')
   }"

definition parse_member :: "nat \<Rightarrow> expr proc \<Rightarrow> expr \<Rightarrow> expr proc" where
  "parse_member n pa e p =
     (let nm = p_cur p;
          p = (if is_member_name_token (tk_type nm) then advance_p p
               else expect p TOK_IDENT (''expected member name after '.'' @ SQ));
          member = E_MEMBER (expr_line e) e (tok_str nm)
      in if check p TOK_LPAREN then do {
           (args, p) \<leftarrow> parse_call_args n pa (advance_p p);
           Some (E_CALL (expr_line e) member args, p)
         }
         else Some (member, p))"

definition parse_index :: "expr proc \<Rightarrow> expr \<Rightarrow> expr proc" where
  "parse_index pa e p = do {
     (idx, p) \<leftarrow> pa p;
     Some (E_INDEX (expr_line e) e idx, expect p TOK_RBRACKET (''expected ']'' @ SQ))
   }"

definition parse_call :: "nat \<Rightarrow> expr proc \<Rightarrow> expr \<Rightarrow> expr proc" where
  "parse_call n pa e p = do {
     (args, p) \<leftarrow> parse_call_args n pa p;
     Some (E_CALL (expr_line e) e args, p)
   }"

text \<open>The first argument counts the turns, the second is for the loops inside.\<close>

fun postfix_loop :: "nat \<Rightarrow> nat \<Rightarrow> expr proc \<Rightarrow> expr \<Rightarrow> expr proc" where
  "postfix_loop 0 n pa e p = None"
| "postfix_loop (Suc k) n pa e p =
     (if check p TOK_DOT then do {
        (e, p) \<leftarrow> parse_member n pa e (advance_p p); postfix_loop k n pa e p }
      else if check p TOK_LBRACKET then do {
        (e, p) \<leftarrow> parse_index pa e (advance_p p); postfix_loop k n pa e p }
      else if check p TOK_LPAREN then do {
        (e, p) \<leftarrow> parse_call n pa e (advance_p p); postfix_loop k n pa e p }
      else Some (e, p))"

definition parse_postfix :: "nat \<Rightarrow> expr proc \<Rightarrow> stmt proc \<Rightarrow> expr proc" where
  "parse_postfix n pa pb p = do { (e, p) \<leftarrow> parse_primary n pa pb p; postfix_loop n n pa e p }"

fun parse_unary :: "nat \<Rightarrow> nat \<Rightarrow> expr proc \<Rightarrow> stmt proc \<Rightarrow> expr proc" where
  "parse_unary 0 n pa pb p = None"
| "parse_unary (Suc k) n pa pb p =
     (if check p TOK_NOT \<or> check p TOK_MINUS then do {
        let opr = p_cur p;
        (operand, p) \<leftarrow> parse_unary k n pa pb (advance_p p);
        Some (E_UNARY (tk_line opr) operand (tk_type opr), p)
      }
      else parse_postfix n pa pb p)"

fun parse_power :: "nat \<Rightarrow> nat \<Rightarrow> expr proc \<Rightarrow> stmt proc \<Rightarrow> expr proc" where
  "parse_power 0 n pa pb p = None"
| "parse_power (Suc k) n pa pb p = do {
     (left, p) \<leftarrow> parse_unary n n pa pb p;
     if check p TOK_POW then do {
       (right, p) \<leftarrow> parse_power k n pa pb (advance_p p);
       Some (E_BINARY (expr_line left) left right TOK_POW, p)
     }
     else Some (left, p)
   }"

text \<open>
  The loop of every left-associative level: \<open>ops\<close> are its operators, \<open>operand\<close> the next level
  down.  The node has the line of the operator, in \<^verbatim>\<open>parse_and\<close> and \<^verbatim>\<open>parse_or\<close> that of the
  left operand.
\<close>

fun binary_loop :: "nat \<Rightarrow> token_type list \<Rightarrow> expr proc \<Rightarrow> expr \<Rightarrow> expr proc" where
  "binary_loop 0 ops operand left p = None"
| "binary_loop (Suc n) ops operand left p =
     (if cur_type p \<in> set ops then do {
        let opr = p_cur p;
        (right, p) \<leftarrow> operand (advance_p p);
        let line = (if ops = [TOK_AND] \<or> ops = [TOK_OR] then expr_line left else tk_line opr);
        binary_loop n ops operand (E_BINARY line left right (tk_type opr)) p
      }
      else Some (left, p))"

definition binary_level :: "nat \<Rightarrow> token_type list \<Rightarrow> expr proc \<Rightarrow> expr proc" where
  "binary_level n ops operand p = do {
     (left, p) \<leftarrow> operand p;
     binary_loop n ops operand left p
   }"

definition parse_mul :: "nat \<Rightarrow> expr proc \<Rightarrow> stmt proc \<Rightarrow> expr proc" where
  "parse_mul n pa pb = binary_level n [TOK_STAR, TOK_SLASH, TOK_PERCENT] (parse_power n n pa pb)"

definition parse_add :: "nat \<Rightarrow> expr proc \<Rightarrow> stmt proc \<Rightarrow> expr proc" where
  "parse_add n pa pb = binary_level n [TOK_PLUS, TOK_MINUS] (parse_mul n pa pb)"

definition parse_shift :: "nat \<Rightarrow> expr proc \<Rightarrow> stmt proc \<Rightarrow> expr proc" where
  "parse_shift n pa pb = binary_level n [TOK_SHL, TOK_SHR] (parse_add n pa pb)"

text \<open>What follows the value in \<^verbatim>\<open>value <<< (low, high)\<close>, from the parenthesis on.\<close>

definition parse_bounds :: "expr proc \<Rightarrow> expr \<Rightarrow> expr proc" where
  "parse_bounds pa left p = do {
     let p = expect p TOK_LPAREN (''expected '(' after '<<<'' @ SQ);
     (low, p) \<leftarrow> pa p;
     let p = expect p TOK_COMMA ''expected ',' between low and high bounds'';
     (high, p) \<leftarrow> pa p;
     let p = expect p TOK_RPAREN ''expected ')' after bounds'';
     Some (E_BETWEEN (expr_line left) left low high, p)
   }"

definition parse_between :: "nat \<Rightarrow> expr proc \<Rightarrow> stmt proc \<Rightarrow> expr proc" where
  "parse_between n pa pb p = do {
     (left, p) \<leftarrow> parse_shift n pa pb p;
     if check p TOK_BETWEEN then parse_bounds pa left (advance_p p) else Some (left, p)
   }"

definition parse_comparison :: "nat \<Rightarrow> expr proc \<Rightarrow> stmt proc \<Rightarrow> expr proc" where
  "parse_comparison n pa pb =
     binary_level n [TOK_GT, TOK_LT, TOK_GE, TOK_LE] (parse_between n pa pb)"

definition parse_equality :: "nat \<Rightarrow> expr proc \<Rightarrow> stmt proc \<Rightarrow> expr proc" where
  "parse_equality n pa pb = binary_level n [TOK_EQ, TOK_NE] (parse_comparison n pa pb)"

definition parse_and :: "nat \<Rightarrow> expr proc \<Rightarrow> stmt proc \<Rightarrow> expr proc" where
  "parse_and n pa pb = binary_level n [TOK_AND] (parse_equality n pa pb)"

definition parse_or :: "nat \<Rightarrow> expr proc \<Rightarrow> stmt proc \<Rightarrow> expr proc" where
  "parse_or n pa pb = binary_level n [TOK_OR] (parse_and n pa pb)"

definition parse_branches :: "expr proc \<Rightarrow> expr \<Rightarrow> expr proc" where
  "parse_branches pa c p = do {
     (then_e, p) \<leftarrow> pa p;
     let p = expect p TOK_COLON ''expected ':' in ternary expression'';
     (else_e, p) \<leftarrow> pa p;
     Some (E_TERNARY (expr_line c) c then_e else_e, p)
   }"

definition parse_ternary :: "nat \<Rightarrow> expr proc \<Rightarrow> stmt proc \<Rightarrow> expr proc" where
  "parse_ternary n pa pb p = do {
     (c, p) \<leftarrow> parse_or n pa pb p;
     if check p TOK_QUESTION then parse_branches pa c (advance_p p) else Some (c, p)
   }"

definition is_assign_op :: "token_type \<Rightarrow> bool" where
  "is_assign_op t \<longleftrightarrow>
     t = TOK_ASSIGN \<or> t = TOK_PLUS_EQ \<or> t = TOK_MINUS_EQ \<or> t = TOK_STAR_EQ \<or>
     t = TOK_SLASH_EQ \<or> t = TOK_PERCENT_EQ \<or> t = TOK_POW_EQ"

definition parse_assign_value :: "expr proc \<Rightarrow> expr \<Rightarrow> token \<Rightarrow> expr proc" where
  "parse_assign_value pa left opr p = do {
     (v, p) \<leftarrow> pa p;
     Some (E_ASSIGN (tk_line opr) left v (tk_type opr), p)
   }"

definition assignment_body :: "nat \<Rightarrow> expr proc \<Rightarrow> stmt proc \<Rightarrow> expr proc" where
  "assignment_body n pa pb p = do {
     (left, p) \<leftarrow> parse_ternary n pa pb p;
     if is_assign_op (cur_type p) then parse_assign_value pa left (p_cur p) (advance_p p)
     else Some (left, p)
   }"

section \<open>Statements\<close>

text \<open>\<^verbatim>\<open>while (!check(p, TOK_RBRACE) && !check(p, TOK_EOF)) { item }\<close>\<close>

fun until_rbrace :: "nat \<Rightarrow> 'a proc \<Rightarrow> 'a list proc" where
  "until_rbrace 0 item p = None"
| "until_rbrace (Suc n) item p =
     (if \<not> check p TOK_RBRACE \<and> \<not> check p TOK_EOF then do {
        (x, p) \<leftarrow> item p;
        (xs, p) \<leftarrow> until_rbrace n item p;
        Some (x # xs, p)
      }
      else Some ([], p))"

definition block_body :: "nat \<Rightarrow> stmt proc \<Rightarrow> stmt proc" where
  "block_body n ps p = do {
     let line = tk_line (p_cur p);
     let p = expect p TOK_LBRACE (''expected '{'' @ SQ);
     (stmts, p) \<leftarrow> until_rbrace n ps p;
     let p = expect p TOK_RBRACE (''expected '}'' @ SQ);
     Some (S_BLOCK line stmts, p)
   }"

definition parse_init :: "expr proc \<Rightarrow> expr option proc" where
  "parse_init pa p =
     (let (has_init, p) = match_t p TOK_ASSIGN
      in if has_init then do { (e, p) \<leftarrow> pa p; Some (Some e, p) } else Some (None, p))"

definition parse_opt_type :: "nat \<Rightarrow> TypeInfo proc" where
  "parse_opt_type n p =
     (let (typed, p) = match_t p TOK_COLON
      in if typed then parse_type n p else Some (type_new T_UNKNOWN, p))"

definition parse_var_or_fixed :: "nat \<Rightarrow> expr proc \<Rightarrow> bool \<Rightarrow> stmt proc" where
  "parse_var_or_fixed n pa is_fixed p = do {
     let line = tk_line (p_cur p);
     let nm = p_cur p;
     let p = expect p TOK_IDENT ''expected variable name'';
     (ty, p) \<leftarrow> parse_opt_type n p;
     (ini, p) \<leftarrow> parse_init pa p;
     let p = expect p TOK_SEMI ''expected ';' after declaration'';
     Some (S_VARDECL line (tok_str nm) ty ini is_fixed, p)
   }"

definition parse_fun_decl :: "nat \<Rightarrow> stmt proc \<Rightarrow> bool \<Rightarrow> stmt proc" where
  "parse_fun_decl n pb is_async p = do {
     let line = tk_line (p_cur p);
     let nm = p_cur p;
     let p = expect p TOK_IDENT ''expected function name'';
     let p = expect p TOK_LPAREN ''expected '(' after function name'';
     (params, p) \<leftarrow> parse_param_list n p;
     let p = expect p TOK_RPAREN ''expected ')' after parameters'';
     (ret, p) \<leftarrow> parse_ret_type n p;
     (body, p) \<leftarrow> pb p;
     Some (S_FUN_DECL line (tok_str nm) params ret body is_async, p)
   }"

text \<open>The condition in parentheses and the block of \<^verbatim>\<open>if\<close>, \<^verbatim>\<open>elif\<close> and \<^verbatim>\<open>loop\<close>.\<close>

definition parse_guarded ::
  "expr proc \<Rightarrow> stmt proc \<Rightarrow> string \<Rightarrow> string \<Rightarrow> (expr \<times> stmt) proc" where
  "parse_guarded pa pb open_msg close_msg p = do {
     let p = expect p TOK_LPAREN open_msg;
     (c, p) \<leftarrow> pa p;
     let p = expect p TOK_RPAREN close_msg;
     (body, p) \<leftarrow> pb p;
     Some ((c, body), p)
   }"

fun parse_elifs :: "nat \<Rightarrow> expr proc \<Rightarrow> stmt proc \<Rightarrow> (expr \<times> stmt) list proc" where
  "parse_elifs 0 pa pb p = None"
| "parse_elifs (Suc n) pa pb p =
     (if check p TOK_ELIF then do {
        (x, p) \<leftarrow> parse_guarded pa pb (''expected '(' after 'elif'' @ SQ)
                   ''expected ')' after condition'' (advance_p p);
        (xs, p) \<leftarrow> parse_elifs n pa pb p;
        Some (x # xs, p)
      }
      else Some ([], p))"

definition parse_else :: "stmt proc \<Rightarrow> stmt option proc" where
  "parse_else pb p =
     (let (has_else, p) = match_t p TOK_ELSE
      in if has_else then do { (b, p) \<leftarrow> pb p; Some (Some b, p) } else Some (None, p))"

definition parse_if :: "nat \<Rightarrow> expr proc \<Rightarrow> stmt proc \<Rightarrow> stmt proc" where
  "parse_if n pa pb p = do {
     let line = tk_line (p_cur p);
     ((c, then_b), p) \<leftarrow> parse_guarded pa pb (''expected '(' after 'if'' @ SQ)
                            ''expected ')' after condition'' p;
     (elifs, p) \<leftarrow> parse_elifs n pa pb p;
     (else_b, p) \<leftarrow> parse_else pb p;
     Some (S_IF line c then_b elifs else_b, p)
   }"

definition parse_return :: "expr proc \<Rightarrow> nat \<Rightarrow> stmt proc" where
  "parse_return pa line p = do {
     (val, p) \<leftarrow> (if \<not> check p TOK_SEMI then do { (e, p) \<leftarrow> pa p; Some (Some e, p) }
                 else Some (None, p));
     let p = expect p TOK_SEMI ''expected ';' after return value'';
     Some (S_RETURN line val, p)
   }"

definition parse_loop :: "expr proc \<Rightarrow> stmt proc \<Rightarrow> nat \<Rightarrow> stmt proc" where
  "parse_loop pa pb line p = do {
     ((c, body), p) \<leftarrow> parse_guarded pa pb (''expected '(' after 'loop'' @ SQ)
                          (''expected ')'' @ SQ) p;
     Some (S_LOOP_WHILE line c body, p)
   }"

definition parse_do :: "expr proc \<Rightarrow> stmt proc \<Rightarrow> nat \<Rightarrow> stmt proc" where
  "parse_do pa pb line p = do {
     let p = expect p TOK_LOOP (''expected 'loop' after 'do'' @ SQ);
     (body, p) \<leftarrow> pb p;
     let p = expect p TOK_WHILE ''expected 'while' after do-loop body'';
     let p = expect p TOK_LPAREN (''expected '(' after 'while'' @ SQ);
     (c, p) \<leftarrow> pa p;
     let p = expect p TOK_RPAREN (''expected ')'' @ SQ);
     let p = expect p TOK_SEMI ''expected ';' after do-while'';
     Some (S_DO_WHILE line c body, p)
   }"

definition parse_for_cond :: "expr proc \<Rightarrow> expr option proc" where
  "parse_for_cond pa p =
     (let (has_cond, p) = match_t p TOK_COMMA
      in if has_cond then do { (e, p) \<leftarrow> pa p; Some (Some e, p) } else Some (None, p))"

definition parse_for :: "expr proc \<Rightarrow> stmt proc \<Rightarrow> nat \<Rightarrow> stmt proc" where
  "parse_for pa pb line p = do {
     let p = expect p TOK_LPAREN (''expected '(' after 'for'' @ SQ);
     let nm = p_cur p;
     let p = expect p TOK_IDENT ''expected loop variable name'';
     let p = expect p TOK_IN ''expected 'in' in for-in loop'';
     (iterable, p) \<leftarrow> pa p;
     (c, p) \<leftarrow> parse_for_cond pa p;
     let p = expect p TOK_RPAREN (''expected ')'' @ SQ);
     (body, p) \<leftarrow> pb p;
     Some (S_FOR_IN line (tok_str nm) iterable c body, p)
   }"

definition parse_iterate :: "expr proc \<Rightarrow> stmt proc \<Rightarrow> nat \<Rightarrow> stmt proc" where
  "parse_iterate pa pb line p = do {
     let p = expect p TOK_LPAREN (''expected '(' after 'iterate'' @ SQ);
     (coll, p) \<leftarrow> pa p;
     let p = expect p TOK_COMMA ''expected ',' before item name'';
     let nm = p_cur p;
     let p = expect p TOK_IDENT ''expected item variable name'';
     let p = expect p TOK_RPAREN (''expected ')'' @ SQ);
     (body, p) \<leftarrow> pb p;
     Some (S_ITERATE line coll (tok_str nm) body, p)
   }"

text \<open>One turn of the loop over the members of a class: a token that starts none is dropped.\<close>

definition class_member :: "nat \<Rightarrow> expr proc \<Rightarrow> stmt proc \<Rightarrow> stmt option proc" where
  "class_member n pa pb p =
     (let some = (\<lambda>r. do { (s, p) \<leftarrow> r; Some (Some s, p) })
      in if check p TOK_VAR then some (parse_var_or_fixed n pa False (advance_p p))
         else if check p TOK_FIXED then some (parse_var_or_fixed n pa True (advance_p p))
         else if check p TOK_FUN then some (parse_fun_decl n pb False (advance_p p))
         else Some (None, advance_p (error_at p (p_cur p) ''expected class member'')))"

definition parse_extends :: "string option proc" where
  "parse_extends p =
     (let (has_parent, p) = match_t p TOK_EXTENDS
      in if has_parent then
           Some (Some (tok_str (p_cur p)),
                 expect p TOK_IDENT (''expected parent class name after 'extends'' @ SQ))
         else Some (None, p))"

definition parse_visibility :: "parser \<Rightarrow> nat \<times> parser" where
  "parse_visibility p =
     (if check p TOK_PUBLIC then (1, advance_p p)
      else if check p TOK_PRIVATE then (2, advance_p p) else (0, p))"

definition parse_class :: "nat \<Rightarrow> expr proc \<Rightarrow> stmt proc \<Rightarrow> nat \<Rightarrow> nat \<Rightarrow> stmt proc" where
  "parse_class n pa pb line vis p = do {
     let p = expect p TOK_CLASS (''expected 'class'' @ SQ);
     let nm = p_cur p;
     let p = expect p TOK_IDENT ''expected class name'';
     (parent_name, p) \<leftarrow> parse_extends p;
     let p = expect p TOK_LBRACE (''expected '{'' @ SQ);
     (members, p) \<leftarrow> until_rbrace n (class_member n pa pb) p;
     let p = expect p TOK_RBRACE (''expected '}'' @ SQ);
     Some (S_CLASS line (tok_str nm) (concat (map (\<lambda>m. case m of None \<Rightarrow> [] | Some s \<Rightarrow> [s]) members))
             vis parent_name, p)
   }"

definition parse_enum_value :: "string proc" where
  "parse_enum_value p = Some (tok_str (p_cur p), expect p TOK_IDENT ''expected enum value'')"

text \<open>\<^verbatim>\<open>vals\<close> has room for 64 names; the loop reads further ones without storing them.\<close>

definition parse_enum :: "nat \<Rightarrow> nat \<Rightarrow> stmt proc" where
  "parse_enum n line p = do {
     let nm = p_cur p;
     let p = expect p TOK_IDENT ''expected enum name'';
     let p = expect p TOK_LBRACE (''expected '{'' @ SQ);
     (vals, p) \<leftarrow> (if \<not> check p TOK_RBRACE then comma_list n parse_enum_value p else Some ([], p));
     let p = expect p TOK_RBRACE (''expected '}'' @ SQ);
     Some (S_ENUM line (tok_str nm) (take 64 vals), p)
   }"

definition parse_field :: "nat \<Rightarrow> param proc" where
  "parse_field n p = do {
     let fnm = p_cur p;
     let p = expect p TOK_IDENT ''expected field name'';
     let p = expect p TOK_COLON ''expected ':' after field name'';
     (ft, p) \<leftarrow> parse_type n p;
     let p = expect p TOK_SEMI ''expected ';' after field'';
     Some ((tok_str fnm, ft), p)
   }"

definition parse_struct :: "nat \<Rightarrow> nat \<Rightarrow> stmt proc" where
  "parse_struct n line p = do {
     let nm = p_cur p;
     let p = expect p TOK_IDENT ''expected struct name'';
     let p = expect p TOK_LBRACE (''expected '{'' @ SQ);
     (fields, p) \<leftarrow> until_rbrace n (parse_field n) p;
     let p = expect p TOK_RBRACE (''expected '}'' @ SQ);
     Some (S_STRUCT line (tok_str nm) fields, p)
   }"

definition parse_vector_decl :: "nat \<Rightarrow> expr proc \<Rightarrow> nat \<Rightarrow> stmt proc" where
  "parse_vector_decl n pa line p = do {
     (t, p) \<leftarrow> parse_type n p;
     let nm = p_cur p;
     let p = expect p TOK_IDENT ''expected variable name'';
     (ini, p) \<leftarrow> parse_init pa p;
     let p = expect p TOK_SEMI (''expected ';'' @ SQ);
     Some (S_VARDECL line (tok_str nm) t ini False, p)
   }"

text \<open>
  \<^verbatim>\<open>nm.length == 4 && strncmp(nm.start, "from", 4) != 0\<close>: only a name of four characters
  other than \<^verbatim>\<open>from\<close> is taken for the bound name.
\<close>

definition import_binding :: "parser \<Rightarrow> parser" where
  "import_binding p =
     (if check p TOK_IDENT \<and> tk_length (p_cur p) = 4 \<and> token_text (p_cur p) \<noteq> ''from'' then
        (let p = advance_p p
         in if check p TOK_IDENT \<and> tk_length (p_cur p) = 4 \<and> token_text (p_cur p) = ''from''
            then advance_p p
            else error_at p (p_cur p) ''expected 'from' in import statement'')
      else p)"

definition parse_import :: "nat \<Rightarrow> stmt proc" where
  "parse_import line p =
     (let p = import_binding p;
          path = p_cur p;
          p = expect p TOK_STRING_LIT ''expected import path string'';
          p = expect p TOK_SEMI ''expected ';' after import''
      in Some (S_IMPORT line (tok_str path), p))"

definition parse_export :: "nat \<Rightarrow> stmt proc" where
  "parse_export line p =
     (let nm = p_cur p;
          p = expect p TOK_IDENT (''expected identifier after 'export'' @ SQ);
          p = expect p TOK_SEMI ''expected ';' after export''
      in Some (S_EXPORT line (tok_str nm), p))"

definition parse_catch_type :: "nat \<Rightarrow> unit proc" where
  "parse_catch_type n p =
     (let (typed, p) = match_t p TOK_COLON
      in if typed then do { (_, p) \<leftarrow> parse_type n p; Some ((), p) } else Some ((), p))"

definition parse_try :: "nat \<Rightarrow> stmt proc \<Rightarrow> nat \<Rightarrow> stmt proc" where
  "parse_try n pb line p = do {
     (try_b, p) \<leftarrow> pb p;
     let p = expect p TOK_CATCH ''expected 'catch' after try block'';
     let p = expect p TOK_LPAREN (''expected '(' after 'catch'' @ SQ);
     let nm = p_cur p;
     let p = expect p TOK_IDENT ''expected error variable name'';
     (_, p) \<leftarrow> parse_catch_type n p;
     let p = expect p TOK_RPAREN (''expected ')'' @ SQ);
     (catch_b, p) \<leftarrow> pb p;
     Some (S_TRY_CATCH line try_b (tok_str nm) catch_b, p)
   }"

definition parse_expr_stmt :: "expr proc \<Rightarrow> nat \<Rightarrow> stmt proc" where
  "parse_expr_stmt pa line p = do {
     (e, p) \<leftarrow> pa p;
     let p = expect p TOK_SEMI ''expected ';' after expression'';
     Some (S_EXPR line e, p)
   }"

definition statement_body :: "nat \<Rightarrow> expr proc \<Rightarrow> stmt proc \<Rightarrow> stmt proc" where
  "statement_body n pa pb p =
     (let line = tk_line (p_cur p); q = advance_p p
      in if check p TOK_VAR then parse_var_or_fixed n pa False q
         else if check p TOK_FIXED then parse_var_or_fixed n pa True q
         else if check p TOK_IF then parse_if n pa pb q
         else if check p TOK_ASYNC then
           parse_fun_decl n pb True (expect q TOK_FUN (''expected 'fun' after 'async'' @ SQ))
         else if check p TOK_FUN then parse_fun_decl n pb False q
         else if check p TOK_RETURN then parse_return pa line q
         else if check p TOK_LOOP then parse_loop pa pb line q
         else if check p TOK_DO then parse_do pa pb line q
         else if check p TOK_FOR then parse_for pa pb line q
         else if check p TOK_ITERATE then parse_iterate pa pb line q
         else if check p TOK_CLASS \<or> check p TOK_PUBLIC \<or> check p TOK_PRIVATE then
           (let (vis, p) = parse_visibility p in parse_class n pa pb line vis p)
         else if check p TOK_TYPE_ENUM then parse_enum n line q
         else if check p TOK_TYPE_STRUCT then parse_struct n line q
         else if check p TOK_TYPE_VECTOR \<or> check p TOK_TYPE_MATRIX then
           parse_vector_decl n pa line p
         else if check p TOK_IMPORT then parse_import line q
         else if check p TOK_EXPORT then parse_export line q
         else if check p TOK_TRY then parse_try n pb line q
         else if check p TOK_LBRACE then pb p
         else parse_expr_stmt pa line p)"

section \<open>The recursion, and whole programs\<close>

fun parse_assignment :: "nat \<Rightarrow> expr proc"
and parse_block :: "nat \<Rightarrow> stmt proc"
and parse_statement :: "nat \<Rightarrow> stmt proc" where
  "parse_assignment 0 p = None"
| "parse_assignment (Suc n) p = assignment_body n (parse_assignment n) (parse_block n) p"
| "parse_block 0 p = None"
| "parse_block (Suc n) p = block_body n (parse_statement n) p"
| "parse_statement 0 p = None"
| "parse_statement (Suc n) p = statement_body n (parse_assignment n) (parse_block n) p"

text \<open>The loop of \<^verbatim>\<open>parse_program\<close> stops at the first statement with an error.\<close>

fun program_loop :: "nat \<Rightarrow> stmt list proc" where
  "program_loop 0 p = None"
| "program_loop (Suc n) p =
     (if check p TOK_EOF then Some ([], p)
      else do {
        (s, p) \<leftarrow> parse_statement n p;
        if p_had_error p then Some ([s], p)
        else do { (ss, p) \<leftarrow> program_loop n p; Some (s # ss, p) }
      })"

record ParseResult =
  pr_stmts :: "stmt list"
  pr_had_error :: bool
  pr_log :: log

text \<open>Fuel for a source of \<open>length source\<close> characters; \<open>Parser_Total\<close> shows that it is enough.\<close>

definition parse_fuel :: "string \<Rightarrow> nat" where
  "parse_fuel source = 3 * length source + 10"

definition parse_program :: "string \<Rightarrow> string option \<Rightarrow> ParseResult option" where
  "parse_program source filename = do {
     (ss, p) \<leftarrow> program_loop (parse_fuel source) (init_parser source filename []);
     Some \<lparr>pr_stmts = ss, pr_had_error = p_had_error p, pr_log = p_log p\<rparr>
   }"

end
