(* ===== verification/Parser_Total.thy ===== *)
theory Parser_Total
  imports Parser Lexer_Correct
begin

text \<open>
  The parser always returns.  What a parsing procedure guarantees is \<open>progresses f m\<close>: from a
  state with less than \<open>m\<close> to do it returns, in a state that \<open>reach\<close> relates to the first: the
  tokens left are fewer (if there were any), the log is only added to, and the error flag is
  set only together with a message.  The locale \<open>subparsers\<close> derives this contract of every
  procedure from the contract of \<^verbatim>\<open>parse_assignment\<close> and \<^verbatim>\<open>parse_block\<close>, on which the
  rest is built; \<open>recursion_ok\<close> closes the circle and the interpretation \<open>code_parsers\<close>
  gives the contracts of the procedures of the code.
\<close>

section \<open>Moving forward\<close>

definition todo :: "parser \<Rightarrow> nat" where
  "todo p = rank (p_cur p)"

definition ready :: "parser \<Rightarrow> bool" where
  "ready p \<longleftrightarrow> primed (\<lambda>lx. length (lx_cur lx)) is_at_end (p_cur p) (p_lx p)"

definition reach :: "bool \<Rightarrow> parser \<Rightarrow> parser \<Rightarrow> bool" where
  "reach strict p q \<longleftrightarrow>
     ready q \<and> todo q \<le> todo p \<and> (strict \<and> todo p \<noteq> 0 \<longrightarrow> todo q < todo p) \<and>
     prefix (p_log p) (p_log q) \<and> (p_had_error p \<longrightarrow> p_had_error q) \<and>
     (p_had_error q \<longrightarrow> p_had_error p \<or> p_log p \<noteq> p_log q)"

lemma reach_refl: "ready p \<Longrightarrow> reach False p p"
  by (simp add: reach_def)

lemma reach_trans:
  assumes "reach b p q" and "reach c q r"
  shows "reach (b \<or> c) p r"
proof -
  have "prefix (p_log p) (p_log r)" "p_log p = p_log r \<Longrightarrow> p_log p = p_log q"
    using assms prefix_order.trans [of "p_log p" "p_log q" "p_log r"]
      prefix_order.antisym [of "p_log p" "p_log q"] by (simp_all add: reach_def)
  moreover have "ready r" "todo r \<le> todo p" "(b \<or> c) \<and> todo p \<noteq> 0 \<longrightarrow> todo r < todo p"
    using assms by (auto simp: reach_def)
  moreover have "p_had_error p \<longrightarrow> p_had_error r"
      "p_had_error r \<longrightarrow> p_had_error p \<or> p_log p \<noteq> p_log q \<or> p_log q \<noteq> p_log r"
    using assms by (simp_all add: reach_def) blast
  ultimately show ?thesis by (auto simp: reach_def)
qed

lemma reach_weaken: "reach b p q \<Longrightarrow> c \<longrightarrow> b \<Longrightarrow> reach c p q"
  by (auto simp: reach_def)

lemma reach_todo: "reach b p q \<Longrightarrow> todo q \<le> todo p"
  by (simp add: reach_def)

lemma reach_ready: "reach b p q \<Longrightarrow> ready q"
  by (simp add: reach_def)

lemma todo_eof: "todo p = 0 \<longleftrightarrow> cur_type p = TOK_EOF"
  by (simp add: todo_def rank_def)

lemma advance_reach: "ready p \<Longrightarrow> reach True p (advance_p p)"
proof -
  assume p: "ready p"
  have "ready (advance_p p)"
    using lexer_stream.nxt_primed [of "p_lx p"] by (simp add: ready_def advance_p_def case_prod_unfold Let_def)
  moreover have "todo (advance_p p) < todo p" if "cur_type p \<noteq> TOK_EOF"
    using lexer_stream.rank_nxt_less p that
    by (auto simp: ready_def todo_def advance_p_def case_prod_unfold Let_def)
  moreover have "todo (advance_p p) = 0" if "cur_type p = TOK_EOF"
    using lexer_stream.rank_nxt_eof p that
    by (auto simp: ready_def todo_def advance_p_def case_prod_unfold Let_def)
  moreover have "p_log (advance_p p) = p_log p" "p_had_error (advance_p p) = p_had_error p"
    by (simp_all add: advance_p_def case_prod_unfold Let_def)
  ultimately show ?thesis
    by (cases "cur_type p = TOK_EOF") (simp_all add: reach_def flip: todo_eof)
qed

lemma error_reach: "ready p \<Longrightarrow> reach False p (error_at p t msg)"
  by (simp add: reach_def error_at_def ready_def todo_def)

lemma error_skip_reach:
  assumes p: "ready p"
  shows "reach True p (if \<not> check (error_at p t msg) TOK_EOF then advance_p (error_at p t msg)
    else error_at p t msg)"
proof -
  let ?e = "error_at p t msg"
  have e: "reach False p ?e" using p(1) by (rule error_reach)
  then have "reach True p (advance_p ?e)"
    using reach_trans [OF e advance_reach] by (simp add: reach_ready)
  moreover have "reach True p ?e" if "cur_type p = TOK_EOF"
    using e that by (simp add: reach_def flip: todo_eof)
  ultimately show ?thesis by (simp add: check_def error_at_def)
qed

lemma expect_reach: "ready p \<Longrightarrow> reach True p (expect p t msg)"
  using error_skip_reach [of p "p_cur p" msg] advance_reach [of p] by (simp add: expect_def Let_def)

lemma reach_advance [proc_intros]: "reach b p q \<Longrightarrow> reach c p (advance_p q)"
  using reach_trans [OF _ advance_reach, of b p q] by (auto intro: reach_weaken dest: reach_ready)

lemma reach_error [proc_intros]: "reach b p q \<Longrightarrow> reach b p (error_at q t msg)"
  using reach_trans [OF _ error_reach, of b p q] by (auto intro: reach_weaken dest: reach_ready)

lemma reach_expect [proc_intros]: "reach b p q \<Longrightarrow> reach c p (expect q t msg)"
  using reach_trans [OF _ expect_reach, of b p q] by (auto intro: reach_weaken dest: reach_ready)

lemma reach_if [proc_intros]:
  "(c \<Longrightarrow> reach b p q) \<Longrightarrow> (\<not> c \<Longrightarrow> reach b p r) \<Longrightarrow> reach b p (if c then q else r)"
  by simp

lemma match_t_split [simp]:
  "(case match_t p t of (m, q) \<Rightarrow> f m q) = (if check p t then f True (advance_p p) else f False p)"
  by (simp add: match_t_def)

lemma check_less: "check p t \<Longrightarrow> t \<noteq> TOK_EOF \<Longrightarrow> ready p \<Longrightarrow> todo (advance_p p) < todo p"
  using advance_reach [of p] by (auto simp: check_def reach_def todo_eof)

section \<open>Results\<close>

definition returns :: "('a \<times> parser) option \<Rightarrow> (parser \<Rightarrow> bool) \<Rightarrow> bool" where
  "returns r Q \<longleftrightarrow> (\<exists>x q. r = Some (x, q) \<and> Q q)"

definition progresses :: "'a proc \<Rightarrow> nat \<Rightarrow> bool" where
  "progresses f m \<longleftrightarrow> (\<forall>p. ready p \<and> todo p < m \<longrightarrow> returns (f p) (reach True p))"

definition proceeds :: "'a proc \<Rightarrow> nat \<Rightarrow> bool" where
  "proceeds f m \<longleftrightarrow> (\<forall>p. ready p \<and> todo p < m \<longrightarrow> returns (f p) (reach False p))"

lemma returns_Some [simp]: "returns (Some (x, q)) Q \<longleftrightarrow> Q q"
  by (simp add: returns_def)

lemma returns_None [simp]: "\<not> returns None Q"
  by (simp add: returns_def)

lemma returns_bind:
  "returns (r \<bind> (\<lambda>(x, q). g x q)) Q \<longleftrightarrow> (\<exists>x q. r = Some (x, q) \<and> returns (g x q) Q)"
  by (cases r) (auto simp: returns_def)

lemma returns_mono: "returns r P \<Longrightarrow> (\<And>q. P q \<Longrightarrow> Q q) \<Longrightarrow> returns r Q"
  by (auto simp: returns_def)

lemma returnsE: "returns r Q \<Longrightarrow> (\<And>x q. r = Some (x, q) \<Longrightarrow> Q q \<Longrightarrow> thesis) \<Longrightarrow> thesis"
  by (auto simp: returns_def)

lemma progresses_proceeds: "progresses f m \<Longrightarrow> proceeds f m"
  by (auto simp: progresses_def proceeds_def elim!: returns_mono reach_weaken)

lemma progresses_mono: "progresses f m \<Longrightarrow> k \<le> m \<Longrightarrow> progresses f k"
  by (simp add: progresses_def)

lemma progresses_bind_at:
  assumes "progresses f m" "reach b p q" "todo q < m"
    and "\<And>x r. reach True q r \<Longrightarrow> reach True p r \<Longrightarrow> returns (g x r) (reach c p)"
  shows "returns (f q \<bind> (\<lambda>(x, r). g x r)) (reach c p)"
proof -
  have "returns (f q) (reach True q)"
    using assms(1-3) by (auto simp: progresses_def reach_def)
  then obtain x r where "f q = Some (x, r)" "reach True q r" by (auto simp: returns_def)
  with assms(4) reach_trans [OF assms(2)] show ?thesis by fastforce
qed

lemma proceeds_bind_at:
  assumes "proceeds f m" "reach b p q" "todo q < m"
    and "\<And>x r. reach False q r \<Longrightarrow> reach b p r \<Longrightarrow> returns (g x r) (reach c p)"
  shows "returns (f q \<bind> (\<lambda>(x, r). g x r)) (reach c p)"
proof -
  have "returns (f q) (reach False q)"
    using assms(1-3) by (auto simp: proceeds_def reach_def)
  then obtain x r where "f q = Some (x, r)" "reach False q r" by (auto simp: returns_def)
  with assms(4) reach_trans [OF assms(2), of False] show ?thesis by fastforce
qed

lemma progresses_tail_at:
  assumes "progresses f m" "reach b p q" "todo q < m"
  shows "returns (f q) (reach c p)"
  using progresses_bind_at [OF assms, of "\<lambda>x r. Some (x, r)" c]
  by (auto simp: returns_def intro: reach_weaken)

lemma proceeds_tail_at:
  assumes "proceeds f m" "reach b p q" "todo q < m" "c \<longrightarrow> b"
  shows "returns (f q) (reach c p)"
  using proceeds_bind_at [OF assms(1-3), of "\<lambda>x r. Some (x, r)" c] assms(4)
  by (auto simp: returns_def intro: reach_weaken)

text \<open>The same with the bound on the state at the start, which every later state keeps.\<close>

lemma progresses_bind:
  assumes "progresses f m" "reach b p q" "todo p < m"
    and "\<And>x r. reach True p r \<Longrightarrow> returns (g x r) (reach c p)"
  shows "returns (f q \<bind> (\<lambda>(x, r). g x r)) (reach c p)"
  using assms by (intro progresses_bind_at) (auto dest: reach_todo)

lemma proceeds_bind:
  assumes "proceeds f m" "reach b p q" "todo p < m"
    and "\<And>x r. reach b p r \<Longrightarrow> returns (g x r) (reach c p)"
  shows "returns (f q \<bind> (\<lambda>(x, r). g x r)) (reach c p)"
  using assms by (intro proceeds_bind_at) (auto dest: reach_todo)

lemma progresses_tail:
  "progresses f m \<Longrightarrow> reach b p q \<Longrightarrow> todo p < m \<Longrightarrow> returns (f q) (reach c p)"
  by (rule progresses_tail_at) (auto dest: reach_todo)

lemma proceeds_tail:
  "proceeds f m \<Longrightarrow> reach b p q \<Longrightarrow> todo p < m \<Longrightarrow> c \<longrightarrow> b \<Longrightarrow> returns (f q) (reach c p)"
  by (rule proceeds_tail_at) (auto dest: reach_todo)

lemma returns_if [proc_intros]:
  "(c \<Longrightarrow> returns a Q) \<Longrightarrow> (\<not> c \<Longrightarrow> returns b Q) \<Longrightarrow> returns (if c then a else b) Q"
  by simp

lemma returns_ret [proc_intros]: "Q q \<Longrightarrow> returns (Some (x, q)) Q"
  by simp

lemma returns_bind_if [proc_intros]:
  "(c \<Longrightarrow> returns (a \<bind> g) Q) \<Longrightarrow> (\<not> c \<Longrightarrow> returns (b \<bind> g) Q) \<Longrightarrow>
   returns ((if c then a else b) \<bind> g) Q"
  by simp

lemma returns_bind_Some [proc_intros]:
  "returns (g x q) Q \<Longrightarrow> returns (Some (x, q) \<bind> (\<lambda>(x, q). g x q)) Q"
  by simp

lemma returns_bind_assoc [proc_intros]:
  "returns (a \<bind> (\<lambda>(x, q). f x q \<bind> g)) Q \<Longrightarrow> returns ((a \<bind> (\<lambda>(x, q). f x q)) \<bind> g) Q"
  by (cases a) auto

lemma returns_case_prod [proc_intros]:
  "(\<And>a b. x = (a, b) \<Longrightarrow> returns (f a b) Q) \<Longrightarrow> returns (case x of (a, b) \<Rightarrow> f a b) Q"
  by (cases x) simp

lemma returns_case_prod_app [proc_intros]:
  "(\<And>a b. x = (a, b) \<Longrightarrow> returns (f a b q) Q) \<Longrightarrow> returns ((case x of (a, b) \<Rightarrow> f a b) q) Q"
  by (cases x) simp

lemma progressesI: "(\<And>p. reach False p p \<Longrightarrow> todo p < m \<Longrightarrow> returns (f p) (reach True p)) \<Longrightarrow> progresses f m"
  by (simp add: progresses_def reach_refl)

lemma proceedsI: "(\<And>p. reach False p p \<Longrightarrow> todo p < m \<Longrightarrow> returns (f p) (reach False p)) \<Longrightarrow> proceeds f m"
  by (simp add: proceeds_def reach_refl)

lemma step_less:
  assumes "reach b p r" and "check r t" and "t \<noteq> TOK_EOF"
  shows "todo (advance_p r) < todo p"
  using assms check_less [of r t] reach_todo [of b p r] reach_ready [of b p r] by linarith

lemma step_min:
  assumes "todo p < min (Suc k) (Suc m)" and "reach b p r" and "check r t" and "t \<noteq> TOK_EOF"
  shows "todo (advance_p r) < min k (Suc m)"
  using step_less [OF assms(2-)] assms(1) by linarith

lemma comma_list_at: "progresses item m \<Longrightarrow> progresses (comma_list n item) (min m n)"
proof (induction n)
  case 0
  then show ?case by (simp add: progresses_def)
next
  case (Suc n)
  show ?case
  proof (rule progressesI)
    fix p assume p: "reach False p p" "todo p < min m (Suc n)"
    have "returns (comma_list n item (advance_p r) \<bind> (\<lambda>(xs, r). Some (x # xs, r))) (reach True p)"
      if "reach True p r" "check r TOK_COMMA" for x r
      using p that step_less [of True p r TOK_COMMA]
      by (intro progresses_bind_at [OF Suc.IH [OF Suc.prems]] proc_intros) auto
    then show "returns (comma_list (Suc n) item p) (reach True p)"
      unfolding comma_list.simps Let_def match_t_split
      using p by (intro progresses_bind [OF Suc.prems] proc_intros) auto
  qed
qed

lemma comma_list_progresses: "progresses item m \<Longrightarrow> m \<le> n \<Longrightarrow> progresses (comma_list n item) m"
  using comma_list_at [of item m n] by (simp add: min_absorb1)

lemma parse_type_at: "progresses (parse_type n) n"
proof (induction n)
  case 0
  then show ?case by (simp add: progresses_def)
next
  case (Suc n)
  show ?case
  proof (rule progressesI)
    fix p assume p: "reach False p p" "todo p < Suc n"
    show "returns (parse_type (Suc n) p) (reach True p)"
    proof (cases "cur_type p")
      case (TypeKw k)
      then have "todo (advance_p p) < todo p"
        using p advance_reach [of p] by (auto simp: reach_def todo_eof)
      then have *: "todo (advance_p (advance_p p)) < n"
        using p reach_todo [OF reach_advance [OF reach_advance [OF p(1)]]] reach_todo [OF advance_reach [OF reach_ready [OF reach_advance [OF p(1)]]]] by linarith
      show ?thesis
        unfolding parse_type.simps TypeKw token_type.case Let_def match_t_split if_True if_False
        using p(1) * by (intro progresses_bind_at [OF Suc.IH] proc_intros) simp_all
    qed (use p in \<open>auto intro!: proc_intros\<close>)
  qed
qed


section \<open>Types, interpolation and expressions\<close>

text \<open>What the loops and branches use of the procedures they are given.\<close>

lemma until_rbrace_at: "progresses item m \<Longrightarrow> proceeds (until_rbrace n item) (min n m)"
proof (induction n)
  case 0
  then show ?case by (simp add: proceeds_def)
next
  case (Suc n)
  show ?case
  proof (rule proceedsI)
    fix p assume p: "reach False p p" "todo p < min (Suc n) m"
    have "returns (item p \<bind> (\<lambda>(x, r). until_rbrace n item r \<bind> (\<lambda>(xs, r). Some (x # xs, r))))
        (reach False p)" if c: "\<not> check p TOK_EOF"
    proof (rule progresses_bind [OF Suc.prems p(1)])
      show "todo p < m" using p(2) by simp
      fix x r assume r: "reach True p r"
      with c p(2) have "todo r < min n m" by (auto simp: reach_def check_def todo_eof)
      with r show "returns (until_rbrace n item r \<bind> (\<lambda>(xs, r). Some (x # xs, r))) (reach False p)"
        by (intro proceeds_bind_at [OF Suc.IH [OF Suc.prems]] returns_ret)
          (assumption | erule reach_weaken | simp)+
    qed
    then show "returns (until_rbrace (Suc n) item p) (reach False p)"
      unfolding until_rbrace.simps by (intro returns_if returns_ret p(1)) simp
  qed
qed

lemma until_rbrace_proceeds: "progresses item m \<Longrightarrow> m \<le> n \<Longrightarrow> proceeds (until_rbrace n item) m"
  using until_rbrace_at [of item m n] by (simp add: min_absorb2)

lemma find_close_ge: "j \<le> find_close s j d"
proof (induction s j d rule: find_close.induct)
  case (1 s j d)
  then show ?case by (subst find_close.simps) auto
qed

lemma init_ready: "ready (init_parser s f l)"
  using lexer_stream.nxt_primed [of "lexer_init s f"]
  by (simp add: ready_def init_parser_def advance_p_def Let_def case_prod_unfold)

lemma init_todo: "todo (init_parser s f l) \<le> Suc (length s)"
  using lexer_stream.rank_nxt_bound [of "lexer_init s f"]
  by (simp add: todo_def init_parser_def advance_p_def Let_def case_prod_unfold lexer_init_def)

lemma init_log: "p_log (init_parser s f l) = l" "\<not> p_had_error (init_parser s f l)"
  by (simp_all add: init_parser_def advance_p_def Let_def case_prod_unfold)

lemma interp_loop_returns:
  assumes sub: "\<And>t l. length t < length s \<Longrightarrow> \<exists>e l'. sub t l = Some (e, l') \<and> prefix l l'"
  shows "length s - i < n \<Longrightarrow>
    \<exists>ps l'. interp_loop n sub s i j acc l = Some (ps, l') \<and> prefix l l'"
proof (induction n arbitrary: i j acc l)
  case 0
  then show ?case by simp
next
  case (Suc n)
  show ?case
  proof (cases "i < length s \<and> (is_dbl s i \<or> is_dollar_brace s i)")
    case True
    then have i: "i < length s" by simp
    let ?b = "i + (if is_dbl s i then 2 else 1)"
    let ?c = "find_close s ?b 1"
    let ?k = "if is_dbl s i \<and> ?c + 1 < length s \<and> s ! (?c + 1) = CHR ''}'' then ?c + 1 + 1 else ?c + 1"
    let ?acc = "if j < i then acc @ [PartLiteral (unescape_segment (slice s j i))] else acc"
    have "length (slice s ?b ?c) < length s" using i by (auto simp: slice_def)
    with sub obtain e l1 where e: "sub (slice s ?b ?c) l = Some (e, l1)" "prefix l l1" by blast
    have "?b \<le> c \<Longrightarrow> i < (if a then c + 1 + 1 else c + 1)" for a c by (simp split: if_splits)
    then have "i < ?k" using find_close_ge [of ?b s 1] by blast
    then have "length s - ?k < n" using Suc.prems i by linarith
    from Suc.IH [OF this, of ?k "?acc @ [PartExpr e]" l1] obtain ps l' where
      "interp_loop n sub s ?k ?k (?acc @ [PartExpr e]) l1 = Some (ps, l')" "prefix l1 l'" by blast
    with True e show ?thesis
      by (simp add: Let_def prefix_order.trans [OF e(2)] del: append_assoc cong: if_cong)
  next
    case False
    then show ?thesis using Suc by auto
  qed
qed

lemma string_token_progresses:
  assumes pa: "progresses pa m" and t: "tk_length t \<le> length (tk_start t)" "length (tk_start t) < m"
    and q: "reach b p q"
  shows "returns (parse_string_literal_token pa t q) (reach b p)"
proof -
  let ?s = "token_text t"
  have sub: "\<exists>e l'. parse_expr_substring pa u (p_filename q) (tk_line t) l = Some (e, l') \<and> prefix l l'"
    if u: "length u < length ?s" for u l
  proof -
    let ?i = "init_parser u (p_filename q) l"
    have "todo ?i < m" using init_todo [of u "p_filename q" l] u t by (simp add: token_text_def)
    then have "returns (pa ?i) (reach True ?i)"
      using pa init_ready by (simp add: progresses_def)
    then show ?thesis
      by (auto simp: returns_def parse_expr_substring_def reach_def init_log)
  qed
  have "length ?s - 0 < Suc (length ?s)" by simp
  from interp_loop_returns [where s = ?s and
      sub = "\<lambda>u. parse_expr_substring pa u (p_filename q) (tk_line t)", OF sub this]
  obtain ps l' where l': "interp_loop (Suc (length ?s))
      (\<lambda>u. parse_expr_substring pa u (p_filename q) (tk_line t)) ?s 0 0 [] (p_log q) = Some (ps, l')"
      "prefix (p_log q) l'" by blast
  then have "reach False q (q\<lparr>p_log := l'\<rparr>)"
    using q by (auto simp: reach_def ready_def todo_def)
  from reach_trans [OF q this] show ?thesis
    by (simp add: parse_string_literal_token_def Let_def l'(1) del: interp_loop.simps)
qed


locale subparsers =
  fixes pa :: "expr proc" and pb :: "stmt proc" and m n :: nat
  assumes pa_ok: "progresses pa m" and pb_ok: "progresses pb m" and m_less: "m < n"
begin

lemmas pa_steps = progresses_bind [OF pa_ok] progresses_tail [OF pa_ok]
lemmas pb_steps = progresses_bind [OF pb_ok] progresses_tail [OF pb_ok]

lemma type_ok: "progresses (parse_type n) m"
  using m_less by (intro progresses_mono [OF parse_type_at]) simp

lemmas type_steps = progresses_bind [OF type_ok] progresses_tail [OF type_ok]

lemma comma_ok: "progresses item m \<Longrightarrow> progresses (comma_list n item) m"
  using m_less by (intro comma_list_progresses) simp_all

lemmas pa_list_steps = progresses_bind [OF comma_ok [OF pa_ok]]

lemmas steps = proc_intros pa_steps pb_steps type_steps pa_list_steps

lemma arg_list_ok: "proceeds (parse_arg_list n pa) m"
  by (rule proceedsI, unfold parse_arg_list_def) (intro steps progresses_tail [OF comma_ok [OF pa_ok]]; (assumption | simp)?)

lemma param_ok: "progresses (parse_param n) m"
  by (rule progressesI, unfold parse_param_def Let_def match_t_split if_True if_False) (intro steps; (assumption | simp)?)

lemma param_list_ok: "proceeds (parse_param_list n) m"
  by (rule proceedsI, unfold parse_param_list_def) (intro steps progresses_tail [OF comma_ok [OF param_ok]]; (assumption | simp)?)

lemma ret_type_ok: "proceeds (parse_ret_type n) m"
  by (rule proceedsI, unfold parse_ret_type_def Let_def match_t_split if_True if_False) (intro steps; (assumption | simp)?)

lemma call_args_ok: "progresses (parse_call_args n pa) m"
  by (rule progressesI, unfold parse_call_args_def)
    (intro steps proceeds_bind [OF arg_list_ok]; (assumption | simp)?)

lemma new_ok: "progresses (parse_new n pa t) m"
  by (rule progressesI, unfold parse_new_def Let_def)
    (intro steps proceeds_bind [OF arg_list_ok]; (assumption | simp)?)

lemma func_lit_rest_ok: "progresses (func_lit_rest n pb t a) m"
  by (rule progressesI, unfold func_lit_rest_def Let_def)
    (intro steps proceeds_bind [OF param_list_ok] proceeds_bind [OF ret_type_ok]; (assumption | simp)?)

lemma list_lit_ok: "progresses (parse_list_lit n pa t) m"
  by (rule progressesI, unfold parse_list_lit_def Let_def) (intro steps; (assumption | simp)?)

lemma data_entry_ok: "progresses (parse_data_entry pa) m"
  by (rule progressesI, unfold parse_data_entry_def Let_def) (intro steps; (assumption | simp)?)

lemma data_lit_ok: "progresses (parse_data_lit n pa t) m"
  by (rule progressesI, unfold parse_data_lit_def Let_def)
    (intro steps progresses_bind [OF comma_ok [OF data_entry_ok]]; (assumption | simp)?)

lemma paren_ok: "progresses (parse_paren pa) m"
  by (rule progressesI, unfold parse_paren_def) (intro steps; (assumption | simp)?)

lemma await_ok: "progresses (parse_await pa t) m"
  by (rule progressesI, unfold parse_await_def) (intro steps; (assumption | simp)?)

lemma member_ok: "progresses (parse_member n pa e) m"
  by (rule progressesI, unfold parse_member_def Let_def)
    (intro steps progresses_bind [OF call_args_ok]; (assumption | simp)?)

lemma index_ok: "progresses (parse_index pa e) m"
  by (rule progressesI, unfold parse_index_def) (intro steps; (assumption | simp)?)

lemma call_ok: "progresses (parse_call n pa e) m"
  by (rule progressesI, unfold parse_call_def)
    (intro steps progresses_bind [OF call_args_ok]; (assumption | simp)?)

lemma bounds_ok: "progresses (parse_bounds pa e) m"
  by (rule progressesI, unfold parse_bounds_def Let_def) (intro steps; (assumption | simp)?)

lemma branches_ok: "progresses (parse_branches pa e) m"
  by (rule progressesI, unfold parse_branches_def Let_def) (intro steps; (assumption | simp)?)

lemma assign_value_ok: "progresses (parse_assign_value pa e t) m"
  by (rule progressesI, unfold parse_assign_value_def Let_def) (intro steps; (assumption | simp)?)

lemma after_token:
  assumes "reach False p p" and "todo p < Suc m" and "check p t" and "t \<noteq> TOK_EOF"
  shows "reach True p (advance_p p)" and "todo (advance_p p) < m"
  using assms step_less [of False p p t] reach_advance [OF assms(1), of True] by auto

lemma primary_ok: "progresses (parse_primary n pa pb) (Suc m)"
proof (rule progressesI)
  fix p assume p: "reach False p p" "todo p < Suc m"
  note q = after_token [OF p]
  have str: "returns (parse_string_literal_token pa (p_cur p) (advance_p p)) (reach True p)"
    if "check p TOK_STRING_LIT"
  proof (rule string_token_progresses [OF pa_ok])
    show "tk_length (p_cur p) \<le> length (tk_start (p_cur p))"
      using p(1) that by (simp add: reach_def ready_def primed_def check_def)
    show "length (tk_start (p_cur p)) < m"
      using p(2) that by (simp add: todo_def rank_def check_def)
    show "reach True p (advance_p p)" using q(1) that by simp
  qed
  have lit: "returns (parse_func_lit n pb (p_cur p) q) (reach True p)"
    if "q = advance_p p \<and> check p TOK_FUN \<or> q = p \<and> check p TOK_ASYNC" for q
  proof -
    have "\<exists>a r. parse_func_lit n pb (p_cur p) q = func_lit_rest n pb (p_cur p) a r \<and>
        reach True p r \<and> todo r < m"
    proof (cases "check q TOK_ASYNC")
      case True
      then have "reach True p (advance_p q)" "todo (advance_p q) < m"
        using that q [of TOK_FUN] q [of TOK_ASYNC] reach_advance [of True p q True]
          step_less [of True p q TOK_ASYNC] p(2) by auto
      with True show ?thesis by (auto simp: parse_func_lit_def Let_def)
    next
      case False
      with that q [of TOK_FUN] show ?thesis by (auto simp: parse_func_lit_def Let_def)
    qed
    with progresses_tail_at [OF func_lit_rest_ok] show ?thesis by force
  qed
  have err: "reach True p (if \<not> check (error_at p t msg) TOK_EOF then advance_p (error_at p t msg)
      else error_at p t msg)" for t msg
    using error_skip_reach reach_ready [OF p(1)] .
  show "returns (parse_primary n pa pb p) (reach True p)"
    unfolding parse_primary_def Let_def
    by (intro returns_if str lit progresses_tail_at [OF new_ok] progresses_tail_at [OF await_ok]
        progresses_tail_at [OF paren_ok] progresses_tail_at [OF list_lit_ok]
        progresses_tail_at [OF data_lit_ok] returns_ret err;
      (rule q | assumption | simp)+)
qed

lemma postfix_loop_at: "proceeds (postfix_loop k n pa e) (min k (Suc m))"
proof (induction k arbitrary: e)
  case 0
  then show ?case by (simp add: proceeds_def)
next
  case (Suc k)
  show ?case
  proof (rule proceedsI)
    fix p assume p: "reach False p p" "todo p < min (Suc k) (Suc m)"
    have q: "reach True p (advance_p p)" "todo (advance_p p) < m" "todo (advance_p p) < k"
      if "check p t" "t \<noteq> TOK_EOF" for t
      using p after_token [OF p(1) _ that] step_less [OF p(1) that] by auto
    have again: "returns (f (advance_p p) \<bind> (\<lambda>(e, r). postfix_loop k n pa e r)) (reach False p)"
      if "progresses f m" "check p t" "t \<noteq> TOK_EOF" for f t
    proof (rule progresses_bind_at [OF that(1)])
      show "reach True p (advance_p p)" "todo (advance_p p) < m" using q [OF that(2,3)] by auto
      fix e r assume r: "reach True (advance_p p) r" "reach True p r"
      then have "todo r < k" "todo r < Suc m"
        using q [OF that(2,3)] by (auto dest!: reach_todo)
      with r show "returns (postfix_loop k n pa e r) (reach False p)"
        by (intro proceeds_tail_at [OF Suc.IH]) auto
    qed
    show "returns (postfix_loop (Suc k) n pa e p) (reach False p)"
      unfolding postfix_loop.simps
      by ((rule returns_if, rule again [OF member_ok] again [OF index_ok] again [OF call_ok],
          assumption, simp)+, simp add: p(1))
  qed
qed

lemma postfix_loop_ok: "proceeds (postfix_loop n n pa e) (Suc m)"
  using postfix_loop_at [of n e] m_less by (simp add: min_absorb2)

lemma postfix_ok: "progresses (parse_postfix n pa pb) (Suc m)"
  by (rule progressesI, unfold parse_postfix_def)
    (intro progresses_bind [OF primary_ok] proceeds_tail [OF postfix_loop_ok]; (assumption | simp))

lemma unary_at: "progresses (parse_unary k n pa pb) (min k (Suc m))"
proof (induction k)
  case 0
  then show ?case by (simp add: progresses_def)
next
  case (Suc k)
  show ?case
  proof (rule progressesI)
    fix p assume p: "reach False p p" "todo p < min (Suc k) (Suc m)"
    have q: "reach True p (advance_p p)" "todo (advance_p p) < min k (Suc m)"
      if "check p TOK_NOT \<or> check p TOK_MINUS"
      using that step_min [OF p(2,1)] reach_advance [OF p(1)] by blast+
    show "returns (parse_unary (Suc k) n pa pb p) (reach True p)"
      unfolding parse_unary.simps Let_def
      by (intro returns_if progresses_bind_at [OF Suc.IH q] progresses_tail [OF postfix_ok] returns_ret;
        (assumption | use p in simp))
  qed
qed

lemma unary_ok: "progresses (parse_unary n n pa pb) (Suc m)"
  using unary_at [of n] m_less by (simp add: min_absorb2)

lemma power_at: "progresses (parse_power k n pa pb) (min k (Suc m))"
proof (induction k)
  case 0
  then show ?case by (simp add: progresses_def)
next
  case (Suc k)
  show ?case
  proof (rule progressesI)
    fix p assume p: "reach False p p" "todo p < min (Suc k) (Suc m)"
    have q: "reach True p (advance_p r)" "todo (advance_p r) < min k (Suc m)"
      if "reach True p r" "check r TOK_POW" for r
      using step_min [OF p(2) that] reach_advance [OF that(1)] by blast+
    show "returns (parse_power (Suc k) n pa pb p) (reach True p)"
      unfolding parse_power.simps
      by (intro returns_if progresses_bind [OF unary_ok] progresses_bind_at [OF Suc.IH q] returns_ret;
        (assumption | use p in simp))
  qed
qed

lemma power_ok: "progresses (parse_power n n pa pb) (Suc m)"
  using power_at [of n] m_less by (simp add: min_absorb2)

lemma binary_loop_at:
  assumes f: "progresses f (Suc m)" and ops: "TOK_EOF \<notin> set ops"
  shows "proceeds (binary_loop k ops f left) (min k (Suc m))"
proof (induction k arbitrary: left)
  case 0
  then show ?case by (simp add: proceeds_def)
next
  case (Suc k)
  show ?case
  proof (rule proceedsI)
    fix p assume p: "reach False p p" "todo p < min (Suc k) (Suc m)"
    have q: "reach True p (advance_p p)" "todo (advance_p p) < min k (Suc m)"
      if "cur_type p \<in> set ops"
      using that ops step_min [OF p(2,1), of "cur_type p"] reach_advance [OF p(1)]
      by (metis check_def)+
    show "returns (binary_loop (Suc k) ops f left p) (reach False p)"
      unfolding binary_loop.simps Let_def
    proof (intro returns_if progresses_bind_at [OF f])
      assume c: "cur_type p \<in> set ops"
      show "reach True p (advance_p p)" "todo (advance_p p) < Suc m" using q [OF c] by auto
      fix x r assume r: "reach True (advance_p p) r" "reach True p r"
      then have "todo r < min k (Suc m)" using q(2) [OF c] by (auto dest!: reach_todo)
      with r(2) show "returns (binary_loop k ops f (E_BINARY
          (if ops = [TOK_AND] \<or> ops = [TOK_OR] then expr_line left else tk_line (p_cur p)) left x
          (cur_type p)) r) (reach False p)"
        by (intro proceeds_tail_at [OF Suc.IH]) auto
    qed (use p in simp)
  qed
qed

lemma binary_level_ok:
  assumes f: "progresses f (Suc m)" and ops: "TOK_EOF \<notin> set ops"
  shows "progresses (binary_level n ops f) (Suc m)"
proof -
  have "proceeds (binary_loop n ops f e) (Suc m)" for e
    using binary_loop_at [OF assms, of n e] m_less by (simp add: min_absorb2)
  then show ?thesis
    by (intro progressesI, unfold binary_level_def)
      (intro progresses_bind [OF f] proceeds_tail; (assumption | simp)?)
qed

lemma shift_ok: "progresses (parse_shift n pa pb) (Suc m)"
  unfolding parse_shift_def parse_add_def parse_mul_def
  by (intro binary_level_ok power_ok) simp_all

lemma op_step:
  assumes "reach True p r" and "todo p < Suc m" and "check r t" and "t \<noteq> TOK_EOF"
  shows "reach True p (advance_p r)" and "todo (advance_p r) < m"
  using assms step_less [of True p r t] reach_advance [OF assms(1)] by auto

lemma between_ok: "progresses (parse_between n pa pb) (Suc m)"
  by (rule progressesI, unfold parse_between_def)
    (intro progresses_bind [OF shift_ok] returns_if progresses_tail_at [OF bounds_ok] returns_ret;
      (assumption | rule op_step | simp)+)

lemma or_ok: "progresses (parse_or n pa pb) (Suc m)"
  unfolding parse_or_def parse_and_def parse_equality_def parse_comparison_def
  by (intro binary_level_ok between_ok) simp_all

lemma ternary_ok: "progresses (parse_ternary n pa pb) (Suc m)"
  by (rule progressesI, unfold parse_ternary_def)
    (intro progresses_bind [OF or_ok] returns_if progresses_tail_at [OF branches_ok] returns_ret;
      (assumption | rule op_step | simp)+)

lemma assignment_ok: "progresses (assignment_body n pa pb) (Suc m)"
proof (rule progressesI, unfold assignment_body_def, rule progresses_bind [OF ternary_ok])
  fix p x r assume p: "todo p < Suc m" and r: "reach True p r"
  have "check r (cur_type r)" "is_assign_op (cur_type r) \<Longrightarrow> cur_type r \<noteq> TOK_EOF"
    by (auto simp: check_def is_assign_op_def)
  note q = op_step [OF r p this]
  show "returns (if is_assign_op (cur_type r)
      then parse_assign_value pa x (p_cur r) (advance_p r) else Some (x, r)) (reach True p)"
    by (intro returns_if progresses_tail_at [OF assign_value_ok, of True] returns_ret q r)
qed

lemma init_ok: "proceeds (parse_init pa) m"
  by (rule proceedsI, unfold parse_init_def Let_def match_t_split if_True if_False)
    (intro steps; (assumption | erule reach_weaken | simp)+)

lemma opt_type_ok: "proceeds (parse_opt_type n) m"
  by (rule proceedsI, unfold parse_opt_type_def Let_def match_t_split if_True if_False)
    (intro steps; (assumption | simp)?)

lemma else_ok: "proceeds (parse_else pb) m"
  by (rule proceedsI, unfold parse_else_def Let_def match_t_split if_True if_False)
    (intro steps; (assumption | erule reach_weaken | simp)+)

lemma for_cond_ok: "proceeds (parse_for_cond pa) m"
  by (rule proceedsI, unfold parse_for_cond_def Let_def match_t_split if_True if_False)
    (intro steps; (assumption | erule reach_weaken | simp)+)

lemma extends_ok: "proceeds parse_extends m"
  by (rule proceedsI, unfold parse_extends_def Let_def match_t_split if_True if_False)
    (intro steps; (assumption | simp)?)

lemma catch_type_ok: "proceeds (parse_catch_type n) m"
  by (rule proceedsI, unfold parse_catch_type_def Let_def match_t_split if_True if_False)
    (intro steps; (assumption | erule reach_weaken | simp)+)

lemmas opt_steps = proceeds_bind [OF init_ok] proceeds_bind [OF opt_type_ok] proceeds_bind [OF else_ok]
  proceeds_bind [OF for_cond_ok] proceeds_bind [OF extends_ok] proceeds_bind [OF catch_type_ok]
  proceeds_bind [OF ret_type_ok] proceeds_bind [OF param_list_ok]

lemma var_ok: "progresses (parse_var_or_fixed n pa fx) m"
  by (rule progressesI, unfold parse_var_or_fixed_def Let_def)
    (intro steps opt_steps; (assumption | simp)?)

lemma fun_decl_ok: "progresses (parse_fun_decl n pb a) m"
  by (rule progressesI, unfold parse_fun_decl_def Let_def)
    (intro steps opt_steps; (assumption | simp)?)

lemma guarded_ok: "progresses (parse_guarded pa pb a b) m"
  by (rule progressesI, unfold parse_guarded_def Let_def) (intro steps; (assumption | simp)?)

lemma elifs_at: "proceeds (parse_elifs k pa pb) (min k m)"
proof (induction k)
  case 0
  then show ?case by (simp add: proceeds_def)
next
  case (Suc k)
  show ?case
  proof (rule proceedsI)
    fix p assume p: "reach False p p" "todo p < min (Suc k) m"
    have "returns (parse_guarded pa pb a b (advance_p p) \<bind>
        (\<lambda>(x, r). parse_elifs k pa pb r \<bind> (\<lambda>(xs, r). Some (x # xs, r)))) (reach False p)"
      if c: "check p TOK_ELIF" for a b
    proof (rule progresses_bind_at [OF guarded_ok])
      show "reach True p (advance_p p)" by (rule reach_advance [OF p(1)])
      have less: "todo (advance_p p) < todo p" using step_less [OF p(1) c] by simp
      with p(2) show "todo (advance_p p) < m" by simp
      fix x r assume r: "reach True (advance_p p) r" "reach True p r"
      then have "todo r < min k m" using less p(2) by (auto dest!: reach_todo)
      with r(2) show "returns (parse_elifs k pa pb r \<bind> (\<lambda>(xs, r). Some (x # xs, r)))
          (reach False p)"
        by (intro proceeds_bind_at [OF Suc.IH] returns_ret) (assumption | erule reach_weaken | simp)+
    qed
    then show "returns (parse_elifs (Suc k) pa pb p) (reach False p)"
      unfolding parse_elifs.simps by (intro returns_if returns_ret p(1)) assumption
  qed
qed

lemma elifs_ok: "proceeds (parse_elifs n pa pb) m"
  using elifs_at [of n] m_less by (simp add: min_absorb2)

lemma if_ok: "progresses (parse_if n pa pb) m"
  by (rule progressesI, unfold parse_if_def Let_def)
    (intro steps opt_steps progresses_bind [OF guarded_ok] proceeds_bind [OF elifs_ok];
      (assumption | simp)?)

lemma return_ok: "progresses (parse_return pa l) m"
  by (rule progressesI, unfold parse_return_def Let_def) (intro steps; (assumption | simp)?)

lemma loop_ok: "progresses (parse_loop pa pb l) m"
  by (rule progressesI, unfold parse_loop_def Let_def)
    (intro steps progresses_bind [OF guarded_ok]; (assumption | simp)?)

lemma do_ok: "progresses (parse_do pa pb l) m"
  by (rule progressesI, unfold parse_do_def Let_def) (intro steps; (assumption | simp)?)

lemma for_ok: "progresses (parse_for pa pb l) m"
  by (rule progressesI, unfold parse_for_def Let_def) (intro steps opt_steps; (assumption | simp)?)

lemma iterate_ok: "progresses (parse_iterate pa pb l) m"
  by (rule progressesI, unfold parse_iterate_def Let_def) (intro steps; (assumption | simp)?)

lemma class_member_ok: "progresses (class_member n pa pb) m"
  by (rule progressesI, unfold class_member_def Let_def)
    (intro steps progresses_bind [OF var_ok] progresses_bind [OF fun_decl_ok]; (assumption | simp)?)

lemma enum_value_ok: "progresses parse_enum_value m"
  by (rule progressesI, unfold parse_enum_value_def) (intro steps; (assumption | simp)?)

lemma enum_ok: "progresses (parse_enum n l) m"
  by (rule progressesI, unfold parse_enum_def Let_def)
    (intro steps progresses_bind [OF comma_ok [OF enum_value_ok]]; (assumption | simp)?)

lemma field_ok: "progresses (parse_field n) m"
  by (rule progressesI, unfold parse_field_def Let_def) (intro steps; (assumption | simp)?)

lemma vector_decl_ok: "progresses (parse_vector_decl n pa l) m"
  by (rule progressesI, unfold parse_vector_decl_def Let_def)
    (intro steps opt_steps; (assumption | simp)?)

lemma export_ok: "progresses (parse_export l) m"
  by (rule progressesI, unfold parse_export_def Let_def) (intro steps; (assumption | simp)?)

lemma import_ok: "progresses (parse_import l) m"
  by (rule progressesI, unfold parse_import_def import_binding_def Let_def)
    (intro steps; (assumption | simp)?)

lemma try_ok: "progresses (parse_try n pb l) m"
  by (rule progressesI, unfold parse_try_def Let_def) (intro steps opt_steps; (assumption | simp)?)

lemma expr_stmt_ok: "progresses (parse_expr_stmt pa l) m"
  by (rule progressesI, unfold parse_expr_stmt_def Let_def) (intro steps; (assumption | simp)?)

lemma members_ok: "proceeds (until_rbrace n (class_member n pa pb)) m"
  using m_less by (intro until_rbrace_proceeds class_member_ok) simp

lemma fields_ok: "proceeds (until_rbrace n (parse_field n)) m"
  using m_less by (intro until_rbrace_proceeds field_ok) simp

lemma class_ok: "progresses (parse_class n pa pb l v) m"
  by (rule progressesI, unfold parse_class_def Let_def)
    (intro steps opt_steps proceeds_bind [OF members_ok]; (assumption | simp)?)

lemma struct_ok: "progresses (parse_struct n l) m"
  by (rule progressesI, unfold parse_struct_def Let_def)
    (intro steps proceeds_bind [OF fields_ok]; (assumption | simp)?)

lemma visibility_reach: "reach False p p \<Longrightarrow> parse_visibility p = (v, q) \<Longrightarrow> reach False p q"
  by (auto simp: parse_visibility_def intro: proc_intros split: if_splits)

lemmas branch_steps = progresses_tail [OF var_ok] progresses_tail [OF if_ok]
  progresses_tail [OF fun_decl_ok] progresses_tail [OF return_ok] progresses_tail [OF loop_ok]
  progresses_tail [OF do_ok] progresses_tail [OF for_ok] progresses_tail [OF iterate_ok]
  progresses_tail [OF class_ok] progresses_tail [OF enum_ok] progresses_tail [OF struct_ok]
  progresses_tail [OF vector_decl_ok] progresses_tail [OF import_ok] progresses_tail [OF export_ok]
  progresses_tail [OF try_ok] progresses_tail [OF expr_stmt_ok] progresses_tail [OF pb_ok]

lemma statement_ok: "progresses (statement_body n pa pb) m"
proof (rule progressesI, unfold statement_body_def Let_def)
  fix p assume p: "reach False p p" "todo p < m"
  have q: "reach True p (advance_p p)" using p(1) by (rule reach_advance)
  have "reach b p (expect (advance_p p) t msg)" for b t msg using q by (rule reach_expect)
  note states = p q this visibility_reach [OF p(1)]
  show "returns (if check p TOK_VAR then parse_var_or_fixed n pa False (advance_p p)
         else if check p TOK_FIXED then parse_var_or_fixed n pa True (advance_p p)
         else if check p TOK_IF then parse_if n pa pb (advance_p p)
         else if check p TOK_ASYNC then
           parse_fun_decl n pb True (expect (advance_p p) TOK_FUN (''expected 'fun' after 'async'' @ SQ))
         else if check p TOK_FUN then parse_fun_decl n pb False (advance_p p)
         else if check p TOK_RETURN then parse_return pa (tk_line (p_cur p)) (advance_p p)
         else if check p TOK_LOOP then parse_loop pa pb (tk_line (p_cur p)) (advance_p p)
         else if check p TOK_DO then parse_do pa pb (tk_line (p_cur p)) (advance_p p)
         else if check p TOK_FOR then parse_for pa pb (tk_line (p_cur p)) (advance_p p)
         else if check p TOK_ITERATE then parse_iterate pa pb (tk_line (p_cur p)) (advance_p p)
         else if check p TOK_CLASS \<or> check p TOK_PUBLIC \<or> check p TOK_PRIVATE then
           (case parse_visibility p of (vis, p') \<Rightarrow> parse_class n pa pb (tk_line (p_cur p)) vis p')
         else if check p TOK_TYPE_ENUM then parse_enum n (tk_line (p_cur p)) (advance_p p)
         else if check p TOK_TYPE_STRUCT then parse_struct n (tk_line (p_cur p)) (advance_p p)
         else if check p TOK_TYPE_VECTOR \<or> check p TOK_TYPE_MATRIX then
           parse_vector_decl n pa (tk_line (p_cur p)) p
         else if check p TOK_IMPORT then parse_import (tk_line (p_cur p)) (advance_p p)
         else if check p TOK_EXPORT then parse_export (tk_line (p_cur p)) (advance_p p)
         else if check p TOK_TRY then parse_try n pb (tk_line (p_cur p)) (advance_p p)
         else if check p TOK_LBRACE then pb p
         else parse_expr_stmt pa (tk_line (p_cur p)) p) (reach True p)"
    by (intro returns_if returns_case_prod branch_steps; (rule states)+)
qed

end

section \<open>Blocks and the recursion\<close>

lemma block_ok:
  assumes ps: "progresses ps m" and n: "m < n"
  shows "progresses (block_body n ps) (Suc m)"
proof (rule progressesI)
  fix p assume p: "reach False p p" "todo p < Suc m"
  let ?q = "expect p TOK_LBRACE (''expected '{'' @ SQ)"
  have q: "reach True p ?q" using p(1) by (rule reach_expect)
  have "returns (until_rbrace n ps ?q) (reach False ?q)"
  proof (cases "todo ?q = 0")
    case True
    then have "check ?q TOK_EOF" by (simp add: todo_eof check_def)
    moreover obtain k where "n = Suc k" using n by (cases n) auto
    ultimately show ?thesis using q by (auto intro: reach_refl reach_ready)
  next
    case False
    then have "todo ?q < m" using q p(2) by (auto simp: reach_def)
    with q n show ?thesis
      using until_rbrace_proceeds [OF ps, of n] by (auto simp: proceeds_def reach_ready)
  qed
  then obtain ss r where r: "until_rbrace n ps ?q = Some (ss, r)" "reach False ?q r"
    by (auto simp: returns_def)
  then have "reach True p (expect r TOK_RBRACE (''expected '}'' @ SQ))"
    using reach_trans [OF q r(2)] by (intro reach_expect)
  then show "returns (block_body n ps p) (reach True p)"
    unfolding block_body_def Let_def r(1) by simp
qed

text \<open>
  Fuel for the three mutually recursive procedures on a parser that has \<open>m\<close> or less to do: an
  expression needs less than a block, a block less than a statement, and each of them starts
  the others only behind a token, except a statement.
\<close>

lemma recursion_ok:
  "(\<forall>n. 3 * m \<le> n + 1 \<longrightarrow> progresses (parse_assignment n) m) \<and>
   (\<forall>n. 3 * m \<le> n \<longrightarrow> progresses (parse_block n) m) \<and>
   (\<forall>n. 3 * m + 1 \<le> n \<longrightarrow> progresses (parse_statement n) m)"
proof (induction m)
  case 0
  then show ?case by (simp add: progresses_def)
next
  case (Suc m)
  have a: "progresses (parse_assignment n) (Suc m)" if h: "3 * Suc m \<le> n + 1" for n
  proof -
    obtain k where n: "n = Suc k" using h by (cases n) auto
    then have "subparsers (parse_assignment k) (parse_block k) m k"
      using Suc.IH h by unfold_locales auto
    from subparsers.assignment_ok [OF this] show ?thesis
      by (simp add: n progresses_def)
  qed
  have b: "progresses (parse_block n) (Suc m)" if h: "3 * Suc m \<le> n" for n
  proof -
    obtain k where n: "n = Suc k" using h by (cases n) auto
    have "progresses (block_body k (parse_statement k)) (Suc m)"
      using Suc.IH h n by (intro block_ok) auto
    then show ?thesis by (simp add: n progresses_def)
  qed
  have "progresses (parse_statement n) (Suc m)" if h: "3 * Suc m + 1 \<le> n" for n
  proof -
    obtain k where n: "n = Suc k" using h by (cases n) auto
    then have "subparsers (parse_assignment k) (parse_block k) (Suc m) k"
      using a b h by unfold_locales auto
    from subparsers.statement_ok [OF this] show ?thesis
      by (simp add: n progresses_def)
  qed
  with a b show ?case by blast
qed

interpretation code_parsers: subparsers "parse_assignment (3 * m + 1)" "parse_block (3 * m + 1)" m "3 * m + 1"
  for m
  using recursion_ok [of m] by unfold_locales simp_all

lemma program_loop_at: "3 * todo p + 5 \<le> n \<Longrightarrow> ready p \<Longrightarrow> \<not> p_had_error p \<Longrightarrow>
   \<exists>ss q. program_loop n p = Some (ss, q) \<and> reach False p q \<and> (\<not> p_had_error q \<longrightarrow> cur_type q = TOK_EOF)"
proof (induction n arbitrary: p)
  case 0
  then show ?case by simp
next
  case (Suc n)
  show ?case
  proof (cases "cur_type p = TOK_EOF")
    case True
    with Suc.prems show ?thesis by (auto simp: check_def reach_refl)
  next
    case False
    have "progresses (parse_statement n) (Suc (todo p))"
      using recursion_ok [of "Suc (todo p)"] Suc.prems(1) by simp
    with Suc.prems(2) obtain s q where s: "parse_statement n p = Some (s, q)" "reach True p q"
      by (auto simp: progresses_def returns_def)
    show ?thesis
    proof (cases "p_had_error q")
      case True
      with False s show ?thesis by (auto simp: check_def elim: reach_weaken)
    next
      case err: False
      have "todo q < todo p" using False s(2) by (simp add: reach_def todo_eof)
      with Suc.prems(1) have "3 * todo q + 5 \<le> n" by simp
      from Suc.IH [OF this reach_ready [OF s(2)] err] obtain ss r where
        r: "program_loop n q = Some (ss, r)" "reach False q r" "\<not> p_had_error r \<longrightarrow> cur_type r = TOK_EOF"
        by blast
      have "reach False p r" using reach_trans [OF s(2) r(2)] by (rule reach_weaken) simp
      with False err s r show ?thesis by (simp add: check_def)
    qed
  qed
qed

lemma parse_program_returns:
  "\<exists>ss q. program_loop (parse_fuel s) (init_parser s f []) = Some (ss, q) \<and>
     reach False (init_parser s f []) q \<and> (\<not> p_had_error q \<longrightarrow> cur_type q = TOK_EOF)"
  using init_todo [of s f "[]"]
  by (intro program_loop_at) (simp_all add: parse_fuel_def init_ready init_log)

text \<open>
  C2. The parser returns on every source, and says why when it fails: parsing any text, valid
  or not, ends with a result, and a result with the error flag set has an error message.
\<close>
theorem parse_program_total:
  "\<exists>r. parse_program source filename = Some r \<and> (pr_had_error r \<longrightarrow> pr_log r \<noteq> [])"
proof -
  from parse_program_returns [of source filename] obtain ss q where
    q: "program_loop (parse_fuel source) (init_parser source filename []) = Some (ss, q)"
      "reach False (init_parser source filename []) q" by blast
  then have "p_had_error q \<longrightarrow> p_log q \<noteq> []"
    by (auto simp: reach_def init_log)
  with q(1) show ?thesis by (simp add: parse_program_def)
qed

theorem parse_program_total_witness:
  "\<exists>r. parse_program ''x'' None = Some r \<and> pr_had_error r \<and> pr_log r \<noteq> []"
proof -
  have "map_option pr_had_error (parse_program ''x'' None) = Some True" by code_simp
  with parse_program_total [of "''x''" None] show ?thesis by auto
qed

end
