(* ===== verification/Typecheck.thy ===== *)
theory Typecheck
  imports Ast
begin

text \<open>
  The static checker: \<^verbatim>\<open>include/typecheck.h\<close> and \<^verbatim>\<open>src/typecheck/typecheck.c\<close>.  The
  checker's state \<^verbatim>\<open>TC\<close> is the record \<open>TC\<close>; what it prints is the list \<open>tc_log\<close>, one
  constructor of \<open>tc_msg\<close> per format string.  A \<^verbatim>\<open>Scope\<close> chain is a list of frames,
  innermost first, which the checking functions take and return, since only the frame at the
  head is ever written.  An outer option is for the walk up the class hierarchy, which does
  not return when the classes form a cycle.
\<close>

section \<open>Symbols, scopes and classes\<close>

record Sym =
  sym_name :: string
  sym_is_fixed :: bool
  sym_type :: "TypeInfo option"
  sym_fn_params :: "param list"
  sym_fn_return :: "TypeInfo option"

type_synonym scope = "Sym list list"

record ClassSig =
  cs_name :: string
  cs_parent :: "string option"
  cs_members :: "stmt list"

datatype tc_msg =
    Argument_mismatch string nat string string
  | Fixed_reassigned string
  | Assign_mismatch string string string
  | Unknown_class string
  | Deg_arity
  | Missing_annotation string
  | Init_mismatch string string string
  | Fixed_without_init
  | Return_mismatch string string

record TC =
  tc_filename :: "string option"
  tc_errors :: nat
  tc_in_async :: nat
  tc_cur_return :: "TypeInfo option"
  tc_classes :: "ClassSig list"
  tc_log :: "(nat \<times> tc_msg) list"

definition scope_push :: "scope \<Rightarrow> scope" where
  "scope_push parent = [] # parent"

definition define_sym :: "scope \<Rightarrow> Sym \<Rightarrow> scope" where
  "define_sym s sy = (case s of [] \<Rightarrow> [[sy]] | f # fs \<Rightarrow> (sy # f) # fs)"

definition scope_define :: "scope \<Rightarrow> string \<Rightarrow> bool \<Rightarrow> TypeInfo option \<Rightarrow> scope" where
  "scope_define s name is_fixed type =
     define_sym s \<lparr>sym_name = name, sym_is_fixed = is_fixed, sym_type = type,
                   sym_fn_params = [], sym_fn_return = None\<rparr>"

definition scope_find :: "scope \<Rightarrow> string \<Rightarrow> Sym option" where
  "scope_find s name = find (\<lambda>sy. sym_name sy = name) (concat s)"

definition define_params :: "scope \<Rightarrow> param list \<Rightarrow> scope" where
  "define_params s ps = foldl (\<lambda>s (name, type). scope_define s name False (Some type)) s ps"

definition tc_error :: "nat \<Rightarrow> tc_msg \<Rightarrow> TC \<Rightarrow> TC" where
  "tc_error line msg tc = tc\<lparr>tc_errors := tc_errors tc + 1, tc_log := tc_log tc @ [(line, msg)]\<rparr>"

text \<open>
  The list of classes does not change once a parent has been set, so a pointer to a class,
  always one that \<^verbatim>\<open>find_class\<close> returned, is the name it is found by.
\<close>

definition find_class :: "ClassSig list \<Rightarrow> string \<Rightarrow> ClassSig option" where
  "find_class classes name = find (\<lambda>c. cs_name c = name) classes"

fun member_named :: "string \<Rightarrow> bool \<Rightarrow> stmt \<Rightarrow> bool" where
  "member_named name want_method (S_FUN_DECL _ n _ _ _ _) = (want_method \<and> n = name)"
| "member_named name want_method (S_VARDECL _ n _ _ _) = (\<not> want_method \<and> n = name)"
| "member_named name want_method _ = False"

partial_function (option) find_class_member ::
  "ClassSig list \<Rightarrow> ClassSig \<Rightarrow> string \<Rightarrow> bool \<Rightarrow> stmt option option" where
  "find_class_member classes c name want_method =
     (case find (member_named name want_method) (cs_members c) of
        Some s \<Rightarrow> Some (Some s)
      | None \<Rightarrow>
          (case Option.bind (cs_parent c) (find_class classes) of
             None \<Rightarrow> Some None
           | Some c' \<Rightarrow> find_class_member classes c' name want_method))"

section \<open>Types\<close>

definition type_family :: "JagType \<Rightarrow> JagType" where
  "type_family t =
     (if t = T_NUM \<or> t = T_DECIMAL \<or> t = T_SCIFI then T_NUM
      else if t = T_MIXEDLIST \<or> t = T_VECTOR \<or> t = T_MATRIX then T_LIST
      else t)"

fun types_conflict :: "TypeInfo option \<Rightarrow> TypeInfo option \<Rightarrow> bool" where
  "types_conflict (Some declared) (Some actual) =
     (if ty_kind declared = T_UNKNOWN \<or> ty_kind actual = T_UNKNOWN then False
      else if ty_kind declared = T_VOID \<or> ty_kind actual = T_VOID then False
      else if ty_kind declared = T_CLASS_NAMED \<and> ty_kind actual = T_CLASS_NAMED then
        ty_name declared \<noteq> ty_name actual
      else if ty_kind declared = T_CLASS_NAMED \<or> ty_kind actual = T_CLASS_NAMED then False
      else type_family (ty_kind declared) \<noteq> type_family (ty_kind actual))"
| "types_conflict _ _ = False"

fun kind_name :: "JagType \<Rightarrow> string" where
  "kind_name T_STRING = ''string''"
| "kind_name T_NUM = ''num''"
| "kind_name T_DECIMAL = ''decimal''"
| "kind_name T_BOOL = ''bool''"
| "kind_name T_SCIFI = ''scifi''"
| "kind_name T_DATA = ''data''"
| "kind_name T_LIST = ''list''"
| "kind_name T_MIXEDLIST = ''MixedList''"
| "kind_name T_ENUM = ''enum''"
| "kind_name T_STRUCT = ''struct''"
| "kind_name T_VECTOR = ''vector''"
| "kind_name T_MATRIX = ''matrix''"
| "kind_name T_TASK = ''Task''"
| "kind_name T_WORKER = ''Worker''"
| "kind_name T_SOCKET = ''Socket''"
| "kind_name T_VOID = ''void''"
| "kind_name T_UNKNOWN = ''unknown''"
| "kind_name T_CLASS_NAMED = ''unknown''"

definition type_name :: "TypeInfo option \<Rightarrow> string" where
  "type_name t =
     (case t of
        None \<Rightarrow> ''unknown''
      | Some t \<Rightarrow>
          (if ty_kind t = T_CLASS_NAMED then (case ty_name t of Some n \<Rightarrow> n | None \<Rightarrow> [])
           else kind_name (ty_kind t)))"

text \<open>
  The type of an expression: the inner \<open>None\<close> is the NULL of an unknown type, the outer one a
  walk through the classes that does not return.
\<close>

definition is_string_type :: "TypeInfo option \<Rightarrow> bool" where
  "is_string_type t \<longleftrightarrow> (\<exists>i. t = Some i \<and> ty_kind i = T_STRING)"

lemma is_string_type_code [code]:
  "is_string_type t = (case t of None \<Rightarrow> False | Some i \<Rightarrow> ty_kind i = T_STRING)"
  by (simp add: is_string_type_def split: option.split)

definition method_of :: "ClassSig list \<Rightarrow> TypeInfo option \<Rightarrow> string \<Rightarrow> stmt option option" where
  "method_of classes obj_t name =
     (case obj_t of
        None \<Rightarrow> Some None
      | Some t \<Rightarrow>
          (if ty_kind t = T_CLASS_NAMED then
             (case Option.bind (ty_name t) (find_class classes) of
                None \<Rightarrow> Some None
              | Some cs \<Rightarrow> find_class_member classes cs name True)
           else Some None))"

fun decl_params :: "stmt \<Rightarrow> param list" where
  "decl_params (S_FUN_DECL _ _ ps _ _ _) = ps"
| "decl_params _ = []"

fun decl_ret_type :: "stmt \<Rightarrow> TypeInfo option" where
  "decl_ret_type (S_FUN_DECL _ _ _ r _ _) = Some r"
| "decl_ret_type _ = None"

fun infer_type :: "ClassSig list \<Rightarrow> scope \<Rightarrow> expr \<Rightarrow> TypeInfo option option" where
  "infer_type classes scope (E_LIT_NUM _ _) = Some (Some (type_new T_NUM))"
| "infer_type classes scope (E_LIT_DECIMAL _ _) = Some (Some (type_new T_DECIMAL))"
| "infer_type classes scope (E_LIT_SCIFI _ _) = Some (Some (type_new T_SCIFI))"
| "infer_type classes scope (E_LIT_BOOL _ _) = Some (Some (type_new T_BOOL))"
| "infer_type classes scope (E_LIT_STRING_INTERP _ _) = Some (Some (type_new T_STRING))"
| "infer_type classes scope (E_LIST _ _) = Some (Some (type_new T_LIST))"
| "infer_type classes scope (E_DATA _ _) = Some (Some (type_new T_DATA))"
| "infer_type classes scope (E_IDENT _ x) = Some (Option.bind (scope_find scope x) sym_type)"
| "infer_type classes scope (E_TERNARY _ c t e) = do {
     a \<leftarrow> infer_type classes scope t;
     b \<leftarrow> infer_type classes scope e;
     Some (if a \<noteq> None \<and> b \<noteq> None \<and> \<not> types_conflict a b then a else None)
   }"
| "infer_type classes scope (E_BETWEEN _ _ _ _) = Some (Some (type_new T_BOOL))"
| "infer_type classes scope (E_BINARY _ left right opr) =
     (if opr \<in> {TOK_GT, TOK_LT, TOK_GE, TOK_LE, TOK_EQ, TOK_NE, TOK_AND, TOK_OR} then
        Some (Some (type_new T_BOOL))
      else if opr = TOK_PLUS then do {
        l \<leftarrow> infer_type classes scope left;
        r \<leftarrow> infer_type classes scope right;
        Some (if is_string_type l \<or> is_string_type r then Some (type_new T_STRING)
              else if l \<noteq> None then l else r)
      }
      else if opr = TOK_SLASH then Some (Some (type_new T_DECIMAL))
      else do {
        l \<leftarrow> infer_type classes scope left;
        if l \<noteq> None then Some l else infer_type classes scope right
      })"
| "infer_type classes scope (E_NEW _ c _) =
     Some (if find_class classes c = None then None else Some (TypeInfo T_CLASS_NAMED None (Some c)))"
| "infer_type classes scope (E_CALL _ callee _) =
     (case callee of
        E_IDENT _ f \<Rightarrow>
          Some (case scope_find scope f of
                  None \<Rightarrow> None
                | Some sy \<Rightarrow> if sym_fn_params sy \<noteq> [] then sym_fn_return sy else None)
      | E_MEMBER _ object name \<Rightarrow> do {
          obj_t \<leftarrow> infer_type classes scope object;
          method \<leftarrow> method_of classes obj_t name;
          Some (Option.bind method decl_ret_type)
        }
      | _ \<Rightarrow> Some None)"
| "infer_type classes scope (E_UNARY _ _ _) = Some None"
| "infer_type classes scope (E_ASSIGN _ _ _ _) = Some None"
| "infer_type classes scope (E_MEMBER _ _ _) = Some None"
| "infer_type classes scope (E_INDEX _ _ _) = Some None"
| "infer_type classes scope (E_FUNC_LIT _ _ _ _ _) = Some None"
| "infer_type classes scope (E_AWAIT _ _) = Some None"

section \<open>Checking\<close>

fun check_args_from ::
  "nat \<Rightarrow> string \<Rightarrow> param list \<Rightarrow> expr list \<Rightarrow> scope \<Rightarrow> nat \<Rightarrow> TC \<Rightarrow> TC option" where
  "check_args_from idx label ((_, pt) # ps) (a # as) scope line tc = do {
     actual \<leftarrow> infer_type (tc_classes tc) scope a;
     let tc = (if types_conflict (Some pt) actual
               then tc_error line (Argument_mismatch label idx (type_name (Some pt))
                                     (type_name actual)) tc
               else tc);
     check_args_from (idx + 1) label ps as scope line tc
   }"
| "check_args_from idx label _ _ scope line tc = Some tc"

definition check_call_args ::
  "string \<Rightarrow> param list \<Rightarrow> expr list \<Rightarrow> scope \<Rightarrow> nat \<Rightarrow> TC \<Rightarrow> TC option" where
  "check_call_args = check_args_from 1"

text \<open>The conditions of \<^verbatim>\<open>E_ASSIGN\<close>, before its operands are checked.\<close>

definition check_target :: "nat \<Rightarrow> expr \<Rightarrow> expr \<Rightarrow> scope \<Rightarrow> TC \<Rightarrow> TC option" where
  "check_target line target val scope tc =
     (case target of
        E_IDENT _ x \<Rightarrow>
          (case scope_find scope x of
             None \<Rightarrow> Some tc
           | Some sy \<Rightarrow> do {
               let tc = (if sym_is_fixed sy then tc_error line (Fixed_reassigned x) tc else tc);
               actual \<leftarrow> infer_type (tc_classes tc) scope val;
               Some (if types_conflict (sym_type sy) actual
                     then tc_error line (Assign_mismatch (type_name actual) x
                                           (type_name (sym_type sy))) tc
                     else tc)
             })
      | _ \<Rightarrow> Some tc)"

definition check_new :: "nat \<Rightarrow> string \<Rightarrow> expr list \<Rightarrow> scope \<Rightarrow> TC \<Rightarrow> TC option" where
  "check_new line c args scope tc =
     (case find_class (tc_classes tc) c of
        None \<Rightarrow> Some (tc_error line (Unknown_class c) tc)
      | Some cs \<Rightarrow> do {
          ctor \<leftarrow> find_class_member (tc_classes tc) cs ''constructor'' True;
          (case ctor of
             None \<Rightarrow> Some tc
           | Some s \<Rightarrow> check_call_args c (decl_params s) args scope line tc)
        })"

definition check_named_call :: "nat \<Rightarrow> string \<Rightarrow> expr list \<Rightarrow> scope \<Rightarrow> TC \<Rightarrow> TC option" where
  "check_named_call line f args scope tc =
     (case scope_find scope f of
        None \<Rightarrow> Some tc
      | Some sy \<Rightarrow>
          (if sym_fn_params sy \<noteq> [] then check_call_args f (sym_fn_params sy) args scope line tc
           else Some tc))"

definition check_method :: "nat \<Rightarrow> expr \<Rightarrow> string \<Rightarrow> expr list \<Rightarrow> scope \<Rightarrow> TC \<Rightarrow> TC option" where
  "check_method line object name args scope tc = do {
     obj_t \<leftarrow> infer_type (tc_classes tc) scope object;
     method \<leftarrow> method_of (tc_classes tc) obj_t name;
     (case method of
        None \<Rightarrow> Some tc
      | Some s \<Rightarrow> check_call_args name (decl_params s) args scope line tc)
   }"

text \<open>What \<^verbatim>\<open>E_CALL\<close> does for a member callee after checking its object.\<close>

definition is_deg :: "expr \<Rightarrow> string \<Rightarrow> bool" where
  "is_deg object name = (case object of E_IDENT _ x \<Rightarrow> x = ''live'' \<and> name = ''deg'' | _ \<Rightarrow> False)"

definition check_member_call ::
  "nat \<Rightarrow> expr \<Rightarrow> string \<Rightarrow> expr list \<Rightarrow> scope \<Rightarrow> TC \<Rightarrow> TC option" where
  "check_member_call line object name args scope tc =
     check_method line object name args scope
       (if is_deg object name \<and> length args < 2 then tc_error line Deg_arity tc else tc)"

text \<open>\<^verbatim>\<open>tc->cur_return\<close> and \<^verbatim>\<open>tc->in_async\<close> on entry to a function, and put back after it.\<close>

definition enter_function :: "TypeInfo \<Rightarrow> bool \<Rightarrow> TC \<Rightarrow> TC" where
  "enter_function ret is_async tc =
     tc\<lparr>tc_cur_return := Some ret, tc_in_async := tc_in_async tc + (if is_async then 1 else 0)\<rparr>"

definition leave_function :: "TC \<Rightarrow> TC \<Rightarrow> TC" where
  "leave_function outer tc =
     tc\<lparr>tc_cur_return := tc_cur_return outer, tc_in_async := tc_in_async outer\<rparr>"

fun hoist_function :: "scope \<Rightarrow> stmt \<Rightarrow> scope" where
  "hoist_function scope (S_FUN_DECL _ name ps ret _ _) =
     define_sym scope \<lparr>sym_name = name, sym_is_fixed = True, sym_type = Some ret,
                       sym_fn_params = ps, sym_fn_return = Some ret\<rparr>"
| "hoist_function scope _ = scope"

definition hoist_functions :: "scope \<Rightarrow> stmt list \<Rightarrow> scope" where
  "hoist_functions scope ss = foldl hoist_function scope ss"

definition declare_var :: "nat \<Rightarrow> string \<Rightarrow> TypeInfo \<Rightarrow> bool \<Rightarrow> bool \<Rightarrow> scope \<Rightarrow> TC \<Rightarrow> scope \<times> TC" where
  "declare_var line name type is_fixed has_init scope tc =
     (scope_define scope name is_fixed (Some type),
      if is_fixed \<and> \<not> has_init then tc_error line Fixed_without_init tc else tc)"

definition check_annotation :: "nat \<Rightarrow> string \<Rightarrow> TypeInfo \<Rightarrow> TC \<Rightarrow> TC" where
  "check_annotation line name type tc =
     (if ty_kind type = T_UNKNOWN then tc_error line (Missing_annotation name) tc else tc)"

definition check_init :: "nat \<Rightarrow> string \<Rightarrow> TypeInfo \<Rightarrow> expr \<Rightarrow> scope \<Rightarrow> TC \<Rightarrow> TC option" where
  "check_init line name type ini scope tc = do {
     actual \<leftarrow> infer_type (tc_classes tc) scope ini;
     Some (if types_conflict (Some type) actual
           then tc_error line (Init_mismatch name (type_name (Some type)) (type_name actual)) tc
           else tc)
   }"

definition check_returned :: "nat \<Rightarrow> expr \<Rightarrow> scope \<Rightarrow> TC \<Rightarrow> TC option" where
  "check_returned line e scope tc = do {
     actual \<leftarrow> infer_type (tc_classes tc) scope e;
     Some (if tc_cur_return tc \<noteq> None \<and> types_conflict (tc_cur_return tc) actual
           then tc_error line (Return_mismatch (type_name (tc_cur_return tc)) (type_name actual)) tc
           else tc)
   }"

type_synonym tree_check = "scope \<Rightarrow> TC \<Rightarrow> TC option"
type_synonym stmt_check = "scope \<Rightarrow> TC \<Rightarrow> (scope \<times> TC) option"

text \<open>Loops over a list of children, given as the list of their checks.\<close>

fun check_all :: "tree_check list \<Rightarrow> tree_check" where
  "check_all [] scope tc = Some tc"
| "check_all (f # fs) scope tc = do { tc \<leftarrow> f scope tc; check_all fs scope tc }"

fun check_seq :: "stmt_check list \<Rightarrow> stmt_check" where
  "check_seq [] scope tc = Some (scope, tc)"
| "check_seq (f # fs) scope tc = do { (scope, tc) \<leftarrow> f scope tc; check_seq fs scope tc }"

fun check_elifs :: "(tree_check \<times> stmt_check) list \<Rightarrow> stmt_check" where
  "check_elifs [] scope tc = Some (scope, tc)"
| "check_elifs ((c, b) # es) scope tc = do {
     tc \<leftarrow> c scope tc;
     (scope, tc) \<leftarrow> b scope tc;
     check_elifs es scope tc
   }"

definition check_opt :: "tree_check option \<Rightarrow> tree_check" where
  "check_opt c scope tc = (case c of None \<Rightarrow> Some tc | Some f \<Rightarrow> f scope tc)"

text \<open>\<open>ss\<close> are the statements of the block, \<open>checks\<close> their checks.\<close>

definition check_block :: "stmt list \<Rightarrow> stmt_check list \<Rightarrow> tree_check" where
  "check_block ss checks parent tc = do {
     (_, tc) \<leftarrow> check_seq checks (hoist_functions (scope_push parent) ss) tc;
     Some tc
   }"

text \<open>
  A function literal or declaration.  Its body is a block, and to check a block as a statement
  is \<^verbatim>\<open>check_block\<close> of its statements.
\<close>

definition check_function :: "param list \<Rightarrow> TypeInfo \<Rightarrow> bool \<Rightarrow> stmt_check \<Rightarrow> tree_check" where
  "check_function ps ret is_async body scope tc = do {
     (_, tc') \<leftarrow> body (define_params (scope_push scope) ps) (enter_function ret is_async tc);
     Some (leave_function tc tc')
   }"

text \<open>After the arguments and the callee; nothing is to be checked in an identifier.\<close>

definition check_callee :: "nat \<Rightarrow> expr \<Rightarrow> expr list \<Rightarrow> tree_check" where
  "check_callee line callee args scope tc =
     (case callee of
        E_IDENT _ f \<Rightarrow> check_named_call line f args scope tc
      | E_MEMBER _ object name \<Rightarrow> check_member_call line object name args scope tc
      | _ \<Rightarrow> Some tc)"

primrec check_expr :: "expr \<Rightarrow> tree_check"
and check_part :: "strpart \<Rightarrow> tree_check"
and check_stmt :: "stmt \<Rightarrow> stmt_check" where
  "check_expr (E_LIT_STRING_INTERP _ parts) = check_all (map check_part parts)"
| "check_expr (E_BINARY _ l r _) = check_all [check_expr l, check_expr r]"
| "check_expr (E_UNARY _ e _) = check_expr e"
| "check_expr (E_TERNARY _ c t e) = check_all [check_expr c, check_expr t, check_expr e]"
| "check_expr (E_BETWEEN _ v lo hi) = check_all [check_expr v, check_expr lo, check_expr hi]"
| "check_expr (E_LIST _ es) = check_all (map check_expr es)"
| "check_expr (E_DATA _ ds) = check_all (map snd (map (map_prod id check_expr) ds))"
| "check_expr (E_FUNC_LIT _ ps ret body is_async) = check_function ps ret is_async (check_stmt body)"
| "check_expr (E_AWAIT _ e) = check_expr e"
| "check_expr (E_MEMBER _ object _) = check_expr object"
| "check_expr (E_INDEX _ object index) = check_all [check_expr object, check_expr index]"
| "check_expr (E_ASSIGN line target val _) =
     check_all [check_target line target val, check_expr target, check_expr val]"
| "check_expr (E_NEW line c args) =
     check_all [check_new line c args, check_all (map check_expr args)]"
| "check_expr (E_CALL line callee args) =
     check_all [check_all (map check_expr args), check_expr callee, check_callee line callee args]"
| "check_expr (E_IDENT _ _) = check_all []"
| "check_expr (E_LIT_NUM _ _) = check_all []"
| "check_expr (E_LIT_DECIMAL _ _) = check_all []"
| "check_expr (E_LIT_SCIFI _ _) = check_all []"
| "check_expr (E_LIT_BOOL _ _) = check_all []"
| "check_part (PartLiteral _) = check_all []"
| "check_part (PartExpr e) = check_expr e"
| "check_stmt (S_VARDECL line name type ini is_fixed) = (\<lambda>scope tc. do {
     let tc = check_annotation line name type tc;
     tc \<leftarrow> check_opt (map_option check_expr ini) scope tc;
     tc \<leftarrow> (case ini of None \<Rightarrow> Some tc | Some e \<Rightarrow> check_init line name type e scope tc);
     Some (declare_var line name type is_fixed (ini \<noteq> None) scope tc)
   })"
| "check_stmt (S_EXPR _ e) = (\<lambda>scope tc. do { tc \<leftarrow> check_expr e scope tc; Some (scope, tc) })"
| "check_stmt (S_IF _ c t elifs el) = (\<lambda>scope tc. do {
     tc \<leftarrow> check_expr c scope tc;
     (scope, tc) \<leftarrow> check_stmt t scope tc;
     (scope, tc) \<leftarrow> check_elifs (map (map_prod check_expr check_stmt) elifs) scope tc;
     (case map_option check_stmt el of None \<Rightarrow> Some (scope, tc) | Some f \<Rightarrow> f scope tc)
   })"
| "check_stmt (S_LOOP_WHILE _ c body) = (\<lambda>scope tc. do {
     tc \<leftarrow> check_expr c scope tc;
     check_stmt body scope tc
   })"
| "check_stmt (S_DO_WHILE _ c body) = (\<lambda>scope tc. do {
     (scope, tc) \<leftarrow> check_stmt body scope tc;
     tc \<leftarrow> check_expr c scope tc;
     Some (scope, tc)
   })"
| "check_stmt (S_FOR_IN _ x iterable c body) = (\<lambda>scope tc. do {
     tc \<leftarrow> check_expr iterable scope tc;
     let inner = scope_define (scope_push scope) x False None;
     tc \<leftarrow> check_opt (map_option check_expr c) inner tc;
     (_, tc) \<leftarrow> check_stmt body inner tc;
     Some (scope, tc)
   })"
| "check_stmt (S_ITERATE _ coll x body) = (\<lambda>scope tc. do {
     tc \<leftarrow> check_expr coll scope tc;
     (_, tc) \<leftarrow> check_stmt body (scope_define (scope_push scope) x False None) tc;
     Some (scope, tc)
   })"
| "check_stmt (S_FUN_DECL _ _ ps ret body is_async) = (\<lambda>scope tc. do {
     tc \<leftarrow> check_function ps ret is_async (check_stmt body) scope tc;
     Some (scope, tc)
   })"
| "check_stmt (S_RETURN line e) = (\<lambda>scope tc. do {
     tc \<leftarrow> check_opt (map_option check_expr e) scope tc;
     tc \<leftarrow> (case e of None \<Rightarrow> Some tc | Some e \<Rightarrow> check_returned line e scope tc);
     Some (scope, tc)
   })"
| "check_stmt (S_BLOCK _ ss) = (\<lambda>scope tc. do {
     tc \<leftarrow> check_block ss (map check_stmt ss) scope tc;
     Some (scope, tc)
   })"
| "check_stmt (S_CLASS _ name members _ _) = (\<lambda>scope tc. do {
     let scope = scope_define scope name True None;
     let inner = scope_define (scope_define (scope_push scope) ''this'' True None) ''super'' True None;
     (_, tc) \<leftarrow> check_seq (map check_stmt members) inner tc;
     Some (scope, tc)
   })"
| "check_stmt (S_ENUM _ name _) = (\<lambda>scope tc. Some (scope_define scope name True None, tc))"
| "check_stmt (S_STRUCT _ name _) = (\<lambda>scope tc. Some (scope_define scope name True None, tc))"
| "check_stmt (S_TRY_CATCH _ t x c) = (\<lambda>scope tc. do {
     (scope, tc) \<leftarrow> check_stmt t scope tc;
     (_, tc) \<leftarrow> check_stmt c (scope_define (scope_push scope) x False None) tc;
     Some (scope, tc)
   })"
| "check_stmt (S_IMPORT _ _) = check_seq []"
| "check_stmt (S_EXPORT _ _) = check_seq []"
| "check_stmt (S_BREAK _) = check_seq []"
| "check_stmt (S_CONTINUE _) = check_seq []"

section \<open>Classes, and whole programs\<close>

fun add_class :: "ClassSig list \<Rightarrow> stmt \<Rightarrow> ClassSig list" where
  "add_class classes (S_CLASS _ name members _ _) =
     \<lparr>cs_name = name, cs_parent = None, cs_members = members\<rparr> # classes"
| "add_class classes _ = classes"

text \<open>\<^verbatim>\<open>self->parent = parent\<close>, on the class that \<^verbatim>\<open>find_class\<close> finds.\<close>

fun set_parent :: "string \<Rightarrow> string option \<Rightarrow> ClassSig list \<Rightarrow> ClassSig list" where
  "set_parent name parent [] = []"
| "set_parent name parent (c # cs) =
     (if cs_name c = name then c\<lparr>cs_parent := parent\<rparr> # cs else c # set_parent name parent cs)"

fun resolve_parent :: "ClassSig list \<Rightarrow> stmt \<Rightarrow> ClassSig list" where
  "resolve_parent classes (S_CLASS _ name _ _ (Some parent)) =
     set_parent name (if find_class classes parent = None then None else Some parent) classes"
| "resolve_parent classes _ = classes"

definition register_classes :: "stmt list \<Rightarrow> ClassSig list" where
  "register_classes ss = foldl resolve_parent (foldl add_class [] ss) ss"

definition init_TC :: "stmt list \<Rightarrow> string option \<Rightarrow> TC" where
  "init_TC ss filename =
     \<lparr>tc_filename = filename, tc_errors = 0, tc_in_async = 0, tc_cur_return = None,
      tc_classes = register_classes ss, tc_log = []\<rparr>"

text \<open>The number of errors, with what was printed; \<open>None\<close> when the check does not return.\<close>

definition typecheck_program ::
  "stmt list \<Rightarrow> string option \<Rightarrow> (nat \<times> (nat \<times> tc_msg) list) option" where
  "typecheck_program ss filename = do {
     tc \<leftarrow> check_block ss (map check_stmt ss) (scope_push []) (init_TC ss filename);
     Some (tc_errors tc, tc_log tc)
   }"

end
