(* ===== verification/Typecheck_Correct.thy ===== *)
theory Typecheck_Correct
  imports Typecheck
begin

text \<open>
  What every checking procedure keeps of its arguments (\<open>grows\<close>, \<open>extends\<close>), and when it
  returns: if the walk up from every class of the program ends.  Both are proved in one
  induction, on the contract \<open>good\<close> (\<open>good_stmt\<close> for statements, which also return a scope).
\<close>

section \<open>Walking up the class hierarchy\<close>

definition parent_of :: "ClassSig list \<Rightarrow> ClassSig \<Rightarrow> ClassSig option" where
  "parent_of classes c = Option.bind (cs_parent c) (find_class classes)"

fun ancestor :: "nat \<Rightarrow> ClassSig list \<Rightarrow> ClassSig \<Rightarrow> ClassSig option" where
  "ancestor 0 classes c = Some c"
| "ancestor (Suc k) classes c = Option.bind (parent_of classes c) (ancestor k classes)"

definition ends :: "ClassSig list \<Rightarrow> bool" where
  "ends classes \<longleftrightarrow> (\<forall>c \<in> set classes. \<exists>k. ancestor k classes c = None)"

definition own_member :: "string \<Rightarrow> bool \<Rightarrow> ClassSig \<Rightarrow> stmt option" where
  "own_member name want_method c = find (member_named name want_method) (cs_members c)"

lemma find_class_member_eq:
  "find_class_member classes c name w =
     (case own_member name w c of
        Some s \<Rightarrow> Some (Some s)
      | None \<Rightarrow> (case parent_of classes c of
                   None \<Rightarrow> Some None
                 | Some c' \<Rightarrow> find_class_member classes c' name w))"
  unfolding own_member_def parent_of_def by (rule find_class_member.simps)

lemma find_class_set: "find_class classes n = Some c \<Longrightarrow> c \<in> set classes \<and> cs_name c = n"
  by (auto simp: find_class_def find_Some_iff)

lemma member_found:
  "ancestor k classes c = Some c' \<Longrightarrow> own_member name w c' \<noteq> None \<Longrightarrow>
   find_class_member classes c name w \<noteq> None"
proof (induction k arbitrary: c)
  case 0
  then show ?case by (subst find_class_member_eq) auto
next
  case (Suc k)
  then show ?case
    by (subst find_class_member_eq) (auto split: option.splits bind_splits)
qed

lemma member_chain_ends: "ancestor k classes c = None \<Longrightarrow> find_class_member classes c name w \<noteq> None"
proof (induction k arbitrary: c)
  case (Suc k)
  then show ?case
    by (subst find_class_member_eq) (auto split: option.splits bind_splits)
qed simp

lemma member_never:
  assumes "find_class_member classes c name w = Some r"
  shows "\<exists>k. case ancestor k classes c of None \<Rightarrow> True | Some c' \<Rightarrow> own_member name w c' \<noteq> None"
proof (rule find_class_member.raw_induct [of "\<lambda>classes (c :: ClassSig) name w _.
    \<exists>k. case ancestor k classes c of None \<Rightarrow> True | Some c' \<Rightarrow> own_member name w c' \<noteq> None",
    OF _ assms])
  fix f :: "ClassSig list \<Rightarrow> ClassSig \<Rightarrow> string \<Rightarrow> bool \<Rightarrow> stmt option option" and classes and c :: ClassSig
    and name w y
  assume IH: "\<And>classes (c :: ClassSig) name w y. f classes c name w = Some y \<Longrightarrow>
      \<exists>k. case ancestor k classes c of None \<Rightarrow> True | Some c' \<Rightarrow> own_member name w c' \<noteq> None"
    and y: "(case find (member_named name w) (cs_members c) of
        Some s \<Rightarrow> Some (Some s)
      | None \<Rightarrow> (case Option.bind (cs_parent c) (find_class classes) of
                   None \<Rightarrow> Some None | Some c' \<Rightarrow> f classes c' name w)) = Some y"
  show "\<exists>k. case ancestor k classes c of None \<Rightarrow> True | Some c' \<Rightarrow> own_member name w c' \<noteq> None"
  proof (cases "own_member name w c")
    case None
    show ?thesis
    proof (cases "parent_of classes c")
      case None
      then show ?thesis by (intro exI [of _ "Suc 0"]) simp
    next
      case (Some c')
      with None y have "f classes c' name w = Some y"
        by (simp add: own_member_def parent_of_def)
      from IH [OF this] obtain k where
        "case ancestor k classes c' of None \<Rightarrow> True | Some c' \<Rightarrow> own_member name w c' \<noteq> None" ..
      with Some show ?thesis by (intro exI [of _ "Suc k"]) simp
    qed
  next
    case (Some s)
    then show ?thesis by (intro exI [of _ 0]) simp
  qed
qed

lemma ends_member:
  assumes "ends classes" and "c \<in> set classes"
  shows "\<exists>r. find_class_member classes c name w = Some r"
  using assms member_chain_ends by (fastforce simp: ends_def)

lemma ends_method: "ends classes \<Longrightarrow> \<exists>r. method_of classes t name = Some r"
  by (auto simp: method_of_def split: option.splits bind_splits dest!: find_class_set
      intro: ends_member)

lemma bind_returns:
  "\<exists>a. r = Some a \<Longrightarrow> (\<And>a. r = Some a \<Longrightarrow> \<exists>b. f a = Some b) \<Longrightarrow> \<exists>b. r \<bind> f = Some b"
  by auto

lemma Some_returns: "\<exists>b. Some a = Some b"
  by simp

lemma if_returns:
  "(P \<Longrightarrow> \<exists>b. r = Some b) \<Longrightarrow> (\<not> P \<Longrightarrow> \<exists>b. s = Some b) \<Longrightarrow> \<exists>b. (if P then r else s) = Some b"
  by simp

lemma ends_infer: "ends classes \<Longrightarrow> \<exists>r. infer_type classes scope e = Some r"
proof (induction classes scope e rule: infer_type.induct)
  case (9 classes scope l c t e)
  show ?case
    unfolding infer_type.simps by (intro bind_returns "9.IH" "9.prems" Some_returns) assumption
next
  case (11 classes scope l left right opr)
  show ?case
    unfolding infer_type.simps
    by (intro if_returns bind_returns "11.IH" "11.prems" Some_returns; assumption)
next
  case (13 classes scope l callee args)
  show ?case
    using ends_method [OF "13.prems"] "13.IH" "13.prems" by (cases callee) (auto intro!: bind_returns)
qed (simp_all only: infer_type.simps, (rule Some_returns)+)

section \<open>Contracts\<close>

definition grows :: "TC \<Rightarrow> TC \<Rightarrow> bool" where
  "grows tc tc' \<longleftrightarrow>
     tc_filename tc' = tc_filename tc \<and> tc_in_async tc' = tc_in_async tc \<and>
     tc_cur_return tc' = tc_cur_return tc \<and> tc_classes tc' = tc_classes tc \<and>
     (\<exists>l. tc_log tc' = tc_log tc @ l \<and> tc_errors tc' = tc_errors tc + length l)"

definition top_frame :: "scope \<Rightarrow> Sym list" where
  "top_frame s = (case s of [] \<Rightarrow> [] | f # _ \<Rightarrow> f)"

definition extends :: "scope \<Rightarrow> scope \<Rightarrow> bool" where
  "extends s s' \<longleftrightarrow> tl s' = tl s \<and> (\<exists>new. top_frame s' = new @ top_frame s)"

definition outcome :: "TC \<Rightarrow> TC option \<Rightarrow> bool" where
  "outcome tc r \<longleftrightarrow> (case r of None \<Rightarrow> \<not> ends (tc_classes tc) | Some tc' \<Rightarrow> grows tc tc')"

definition outcome_stmt :: "scope \<Rightarrow> TC \<Rightarrow> (scope \<times> TC) option \<Rightarrow> bool" where
  "outcome_stmt scope tc r \<longleftrightarrow>
     (case r of None \<Rightarrow> \<not> ends (tc_classes tc)
      | Some (scope', tc') \<Rightarrow> grows tc tc' \<and> extends scope scope')"

definition good :: "tree_check \<Rightarrow> bool" where
  "good f \<longleftrightarrow> (\<forall>scope tc. outcome tc (f scope tc))"

definition good_stmt :: "stmt_check \<Rightarrow> bool" where
  "good_stmt f \<longleftrightarrow> (\<forall>scope tc. outcome_stmt scope tc (f scope tc))"

named_theorems check_intros

lemma grows_refl [simp, check_intros]: "grows tc tc"
  by (simp add: grows_def)

lemma grows_trans [trans]: "grows a b \<Longrightarrow> grows b c \<Longrightarrow> grows a c"
  by (auto simp: grows_def)

lemma grows_error [check_intros]: "grows a b \<Longrightarrow> grows a (tc_error line msg b)"
  by (auto simp: grows_def tc_error_def)

lemma grows_if [check_intros]: "grows a b \<Longrightarrow> grows a c \<Longrightarrow> grows a (if P then b else c)"
  by simp

lemma grows_classes: "grows a b \<Longrightarrow> tc_classes b = tc_classes a"
  by (simp add: grows_def)

lemma grows_function: "grows (enter_function ret is_async tc) tc' \<Longrightarrow> grows tc (leave_function tc tc')"
  by (auto simp: grows_def enter_function_def leave_function_def)

lemma extends_refl [simp, check_intros]: "extends s s"
  by (simp add: extends_def)

lemma extends_trans [trans]: "extends s t \<Longrightarrow> extends t u \<Longrightarrow> extends s u"
  by (auto simp: extends_def)

lemma extends_define [check_intros]: "extends s t \<Longrightarrow> extends s (define_sym t x)"
  by (cases t) (auto simp: extends_def define_sym_def top_frame_def)

lemma extends_scope_define [check_intros]: "extends s t \<Longrightarrow> extends s (scope_define t x f ty)"
  by (simp add: scope_define_def extends_define)

lemma outcome_Some [check_intros]: "grows tc tc' \<Longrightarrow> outcome tc (Some tc')"
  by (simp add: outcome_def)

lemma outcome_Some_stmt [check_intros]:
  "grows tc tc' \<Longrightarrow> extends s s' \<Longrightarrow> outcome_stmt s tc (Some (s', tc'))"
  by (simp add: outcome_stmt_def)

lemma outcome_grows: "grows a b \<Longrightarrow> outcome b r \<Longrightarrow> outcome a r"
  by (auto simp: outcome_def grows_classes split: option.splits intro: grows_trans)

lemma outcome_stmt_grows:
  "grows a b \<Longrightarrow> extends s t \<Longrightarrow> outcome_stmt t b r \<Longrightarrow> outcome_stmt s a r"
  by (auto simp: outcome_stmt_def grows_classes split: option.splits intro: grows_trans extends_trans)

lemma outcome_bind:
  assumes "outcome b r" "grows a b" and "\<And>c. grows a c \<Longrightarrow> outcome a (g c)"
  shows "outcome a (r \<bind> g)"
  using assms by (cases r) (auto simp: outcome_def grows_classes intro: grows_trans)

lemma outcome_bind_stmt:
  assumes "outcome b r" "grows a b" and "\<And>c. grows a c \<Longrightarrow> outcome_stmt s a (g c)"
  shows "outcome_stmt s a (r \<bind> g)"
  using assms by (cases r) (auto simp: outcome_def outcome_stmt_def grows_classes intro: grows_trans)

lemma outcome_stmt_bind_stmt:
  assumes "outcome_stmt t b r" "grows a b" "extends s t"
    and "\<And>u c. grows a c \<Longrightarrow> extends s u \<Longrightarrow> outcome_stmt s a (g u c)"
  shows "outcome_stmt s a (r \<bind> (\<lambda>(u, c). g u c))"
  using assms
  by (cases r) (auto simp: outcome_stmt_def grows_classes intro: grows_trans extends_trans)

text \<open>A statement in an inner scope, which is dropped.\<close>

lemma outcome_stmt_bind_inner:
  assumes "outcome_stmt t b r" "grows a b" and "\<And>c. grows a c \<Longrightarrow> outcome_stmt s a (g c)"
  shows "outcome_stmt s a (r \<bind> (\<lambda>(_, c). g c))"
  using assms by (cases r) (auto simp: outcome_stmt_def grows_classes intro: grows_trans)

lemma outcome_bind_inner:
  assumes "outcome_stmt t b r" "grows a b" and "\<And>c. grows a c \<Longrightarrow> outcome a (g c)"
  shows "outcome a (r \<bind> (\<lambda>(_, c). g c))"
  using assms by (cases r) (auto simp: outcome_def outcome_stmt_def grows_classes intro: grows_trans)

lemma outcome_infer:
  assumes "grows a b"
    and "\<And>t. infer_type (tc_classes b) scope e = Some t \<Longrightarrow> outcome a (g t)"
  shows "outcome a (infer_type (tc_classes b) scope e \<bind> g)"
  using assms ends_infer [of "tc_classes b" scope e]
  by (cases "infer_type (tc_classes b) scope e") (auto simp: outcome_def grows_classes)

section \<open>Every check keeps the contract\<close>

lemma good_outcome: "good f \<Longrightarrow> outcome tc (f scope tc)"
  by (simp add: good_def)

lemma good_stmt_outcome: "good_stmt f \<Longrightarrow> outcome_stmt scope tc (f scope tc)"
  by (simp add: good_stmt_def)

lemma outcome_if [check_intros]: "outcome a r \<Longrightarrow> outcome a s \<Longrightarrow> outcome a (if P then r else s)"
  by simp

lemma outcome_option [check_intros]:
  "outcome a r \<Longrightarrow> (\<And>x. y = Some x \<Longrightarrow> outcome a (f x)) \<Longrightarrow>
   outcome a (case y of None \<Rightarrow> r | Some x \<Rightarrow> f x)"
  by (cases y) simp_all

lemma outcome_stmt_option [check_intros]:
  "outcome_stmt s a r \<Longrightarrow> (\<And>x. y = Some x \<Longrightarrow> outcome_stmt s a (f x)) \<Longrightarrow>
   outcome_stmt s a (case y of None \<Rightarrow> r | Some x \<Rightarrow> f x)"
  by (cases y) simp_all

lemma check_args_outcome: "outcome tc (check_args_from i label ps as scope line tc)"
proof (induction i label ps as scope line tc rule: check_args_from.induct)
  case (1 i label x pt ps a as scope line tc)
  show ?case
    unfolding check_args_from.simps Let_def
    by (intro outcome_infer outcome_grows [OF _ "1.IH"] check_intros refl) simp_all
qed (simp_all add: outcome_Some)

lemma call_args_outcome: "grows a b \<Longrightarrow> outcome a (check_call_args label ps as scope line b)"
  unfolding check_call_args_def by (rule outcome_grows [OF _ check_args_outcome])

lemma target_good: "good (check_target line target val)"
  unfolding good_def check_target_def Let_def
  by (auto split: expr.split option.split intro!: outcome_infer check_intros)

lemma outcome_member:
  assumes "c \<in> set (tc_classes b)" and "grows a b" and "\<And>m. outcome a (g m)"
  shows "outcome a (find_class_member (tc_classes b) c n w \<bind> g)"
  using assms ends_member [of "tc_classes b" c n w]
  by (cases "find_class_member (tc_classes b) c n w") (auto simp: outcome_def grows_classes)

lemma outcome_method:
  assumes "grows a b" and "\<And>m. outcome a (g m)"
  shows "outcome a (method_of (tc_classes b) t n \<bind> g)"
  using assms ends_method [of "tc_classes b" t n]
  by (cases "method_of (tc_classes b) t n") (auto simp: outcome_def grows_classes)

lemma new_good: "good (check_new line c args)"
  unfolding good_def check_new_def
  by (auto split: option.split dest!: find_class_set
      intro!: outcome_member call_args_outcome check_intros)

lemma method_good: "good (check_method line object name args)"
  unfolding good_def check_method_def
  by (intro allI outcome_infer outcome_method call_args_outcome check_intros)

lemma member_call_good: "good (check_member_call line object name args)"
  unfolding good_def check_member_call_def
  by (intro allI outcome_grows [OF _ good_outcome [OF method_good]] check_intros)

lemma named_call_good: "good (check_named_call line f args)"
  unfolding good_def check_named_call_def
  by (intro allI call_args_outcome check_intros)

lemma callee_good: "good (check_callee line callee args)"
  using member_call_good named_call_good
  by (auto simp: good_def check_callee_def check_intros split: expr.split)

lemma init_outcome: "grows a b \<Longrightarrow> outcome a (check_init line x ty e scope b)"
  unfolding check_init_def by (intro outcome_infer check_intros)

lemma returned_outcome: "grows a b \<Longrightarrow> outcome a (check_returned line e scope b)"
  unfolding check_returned_def by (intro outcome_infer check_intros)

lemma good_all: "(\<And>f. f \<in> set fs \<Longrightarrow> good f) \<Longrightarrow> good (check_all fs)"
proof (induction fs)
  case Nil
  then show ?case by (simp add: good_def check_intros)
next
  case (Cons f fs)
  then have fs: "good (check_all fs)" and f: "good f" by simp_all
  show ?case
    unfolding good_def check_all.simps
    by (intro allI outcome_bind [OF good_outcome [OF f]] outcome_grows [OF _ good_outcome [OF fs]]; simp)
qed

lemma good_seq: "(\<And>f. f \<in> set fs \<Longrightarrow> good_stmt f) \<Longrightarrow> good_stmt (check_seq fs)"
proof (induction fs)
  case Nil
  then show ?case by (simp add: good_stmt_def check_intros)
next
  case (Cons f fs)
  then have fs: "good_stmt (check_seq fs)" and f: "good_stmt f" by simp_all
  show ?case
    unfolding good_stmt_def check_seq.simps
    by (intro allI outcome_stmt_bind_stmt [OF good_stmt_outcome [OF f]]
        outcome_stmt_grows [OF _ _ good_stmt_outcome [OF fs]]; simp)
qed

lemma good_elifs:
  "(\<And>c b. (c, b) \<in> set es \<Longrightarrow> good c \<and> good_stmt b) \<Longrightarrow> good_stmt (check_elifs es)"
proof (induction es)
  case Nil
  then show ?case by (simp add: good_stmt_def check_intros)
next
  case (Cons e es)
  obtain c b where e: "e = (c, b)" by fastforce
  with Cons have es: "good_stmt (check_elifs es)" and c: "good c" and b: "good_stmt b" by auto
  show ?case
    unfolding good_stmt_def check_elifs.simps e
    by (intro allI outcome_bind_stmt [OF good_outcome [OF c]]
        outcome_stmt_bind_stmt [OF good_stmt_outcome [OF b]]
        outcome_stmt_grows [OF _ _ good_stmt_outcome [OF es]]; simp)
qed

lemma good_opt: "(\<And>f. c = Some f \<Longrightarrow> good f) \<Longrightarrow> good (check_opt c)"
  by (auto simp: good_def check_opt_def split: option.split intro: check_intros)

lemma good_block:
  assumes "good_stmt (check_seq checks)"
  shows "good (check_block ss checks)"
  unfolding good_def check_block_def
  by (intro allI outcome_bind_inner [OF good_stmt_outcome [OF assms]] check_intros; simp)

lemma good_function:
  assumes "good_stmt body"
  shows "good (check_function ps ret is_async body)"
  unfolding good_def
proof (intro allI)
  fix scope tc
  let ?r = "body (define_params (scope_push scope) ps) (enter_function ret is_async tc)"
  have "outcome_stmt (define_params (scope_push scope) ps) (enter_function ret is_async tc) ?r"
    using assms by (rule good_stmt_outcome)
  then show "outcome tc (check_function ps ret is_async body scope tc)"
    by (cases ?r) (auto simp: check_function_def outcome_def outcome_stmt_def enter_function_def
        intro: grows_function [unfolded enter_function_def])
qed

lemma declare_grows:
  "grows a b \<Longrightarrow> outcome_stmt s a (Some (declare_var line x ty fx ini s b))"
  unfolding declare_var_def by (intro check_intros)

lemma annotation_grows: "grows a b \<Longrightarrow> grows a (check_annotation line x ty b)"
  unfolding check_annotation_def by (intro check_intros)

lemma checks_good: "good (check_expr e) \<and> good (check_part p) \<and> good_stmt (check_stmt s)"
proof (induction rule: expr_strpart_stmt.induct)
  case (S_VARDECL line x ty ini fx)
  then have ini: "good (check_opt (map_option check_expr ini))" by (intro good_opt) auto
  show ?case
    unfolding good_stmt_def check_stmt.simps Let_def
    by (intro allI outcome_bind_stmt [OF good_outcome [OF ini]] outcome_bind_stmt
        annotation_grows declare_grows check_intros init_outcome) simp_all
next
  case (S_IF l c t elifs el)
  then have c: "good (check_expr c)" and t: "good_stmt (check_stmt t)"
    and elifs: "good_stmt (check_elifs (map (map_prod check_expr check_stmt) elifs))"
    and el: "\<And>f. map_option check_stmt el = Some f \<Longrightarrow> good_stmt f"
    by (auto intro!: good_elifs)
  show ?case
    unfolding good_stmt_def check_stmt.simps
    by (intro allI outcome_bind_stmt [OF good_outcome [OF c]]
        outcome_stmt_bind_stmt [OF good_stmt_outcome [OF t]]
        outcome_stmt_bind_stmt [OF good_stmt_outcome [OF elifs]] check_intros
        outcome_stmt_grows [OF _ _ good_stmt_outcome [OF el]])
next
  case (S_FOR_IN l x iterable c body)
  then have i: "good (check_expr iterable)" and c: "good (check_opt (map_option check_expr c))"
    and b: "good_stmt (check_stmt body)" by (auto intro!: good_opt)
  show ?case
    unfolding good_stmt_def check_stmt.simps Let_def
    by (intro allI outcome_bind_stmt [OF good_outcome [OF i]] outcome_bind_stmt [OF good_outcome [OF c]]
        outcome_stmt_bind_inner [OF good_stmt_outcome [OF b]] check_intros)
next
  case (S_RETURN l e)
  then have e: "good (check_opt (map_option check_expr e))" by (intro good_opt) auto
  show ?case
    unfolding good_stmt_def check_stmt.simps
    by (intro allI outcome_bind_stmt [OF good_outcome [OF e]] outcome_bind_stmt check_intros
        returned_outcome) simp_all
next
  case (S_TRY_CATCH l t x c)
  show ?case
    unfolding good_stmt_def check_stmt.simps
    by (intro allI outcome_stmt_bind_stmt [OF good_stmt_outcome [OF S_TRY_CATCH.IH(1)]]
        outcome_stmt_bind_inner [OF good_stmt_outcome [OF S_TRY_CATCH.IH(2)]] check_intros)
next
  case (S_BLOCK l ss)
  then have h: "good (check_block ss (map check_stmt ss))" by (intro good_block good_seq) auto
  show ?case
    unfolding good_stmt_def check_stmt.simps
    by (intro allI outcome_bind_stmt [OF good_outcome [OF h]] check_intros)
next
  case (S_CLASS l x members v p)
  then have h: "good_stmt (check_seq (map check_stmt members))" by (intro good_seq) auto
  show ?case
    unfolding good_stmt_def check_stmt.simps Let_def
    by (intro allI outcome_stmt_bind_inner [OF good_stmt_outcome [OF h]] check_intros)
next
  case (S_ITERATE l coll x body)
  show ?case
    unfolding good_stmt_def check_stmt.simps
    by (intro allI outcome_bind_stmt [OF good_outcome [OF S_ITERATE.IH(1)]]
        outcome_stmt_bind_inner [OF good_stmt_outcome [OF S_ITERATE.IH(2)]] check_intros)
next
  case (S_FUN_DECL l x ps ret body a)
  then have h: "good (check_function ps ret a (check_stmt body))" by (rule good_function)
  show ?case
    unfolding good_stmt_def check_stmt.simps by (intro allI outcome_bind_stmt [OF good_outcome [OF h]] check_intros)
next
  case (S_DO_WHILE l c body)
  show ?case
    unfolding good_stmt_def check_stmt.simps
    by (intro allI outcome_bind_stmt [OF good_outcome [OF S_DO_WHILE.IH(1)]]
        outcome_stmt_bind_stmt [OF good_stmt_outcome [OF S_DO_WHILE.IH(2)]] check_intros)
next
  case (S_LOOP_WHILE l c body)
  show ?case
    unfolding good_stmt_def check_stmt.simps
    by (intro allI outcome_bind_stmt [OF good_outcome [OF S_LOOP_WHILE.IH(1)]]
        outcome_stmt_grows [OF _ _ good_stmt_outcome [OF S_LOOP_WHILE.IH(2)]] check_intros)
next
  case (S_EXPR l e)
  show ?case
    unfolding good_stmt_def check_stmt.simps
    by (intro allI outcome_bind_stmt [OF good_outcome [OF S_EXPR.IH(1)]] check_intros)
next
  case (E_DATA l ds)
  then have "good f" if "f \<in> set (map snd (map (map_prod id check_expr) ds))" for f
    using that by (force simp: snds.simps)
  then show ?case unfolding check_expr.simps by (rule good_all)
next
  case (S_ENUM l x vs)
  then show ?case by (simp add: good_stmt_def check_intros)
next
  case (S_STRUCT l x vs)
  then show ?case by (simp add: good_stmt_def check_intros)
qed (auto simp del: check_all.simps check_seq.simps
    intro!: good_all good_seq good_function callee_good new_good target_good)

section \<open>Properties of the checker\<close>

text \<open>
  C25. A check leaves the checker as it found it, but for errors: the class table, the enclosing
  return type and the depth of async functions are back to what they were, the messages are
  only added to, the error count grows by exactly the number of messages, and of the scopes
  only the innermost one has changed, by new symbols in front of the old ones.
\<close>
theorem check_stmt_keeps:
  assumes "check_stmt s scope tc = Some (scope', tc')"
  shows "tc_classes tc' = tc_classes tc \<and> tc_cur_return tc' = tc_cur_return tc \<and>
    tc_in_async tc' = tc_in_async tc \<and>
    (\<exists>l. tc_log tc' = tc_log tc @ l \<and> tc_errors tc' = tc_errors tc + length l) \<and>
    tl scope' = tl scope \<and> (\<exists>new. top_frame scope' = new @ top_frame scope)"
proof -
  have "good_stmt (check_stmt s)" using checks_good by blast
  from good_stmt_outcome [OF this, of scope tc] assms show ?thesis
    by (simp add: outcome_stmt_def grows_def extends_def)
qed

theorem check_stmt_keeps_witness:
  "\<exists>scope' tc'. check_stmt (S_VARDECL 3 ''x'' (type_new T_NUM) (Some (E_LIT_BOOL 3 True)) True)
       [[]] (init_TC [] None) = Some (scope', tc') \<and> tc_errors tc' = 1 \<and> tl scope' = []"
proof -
  have "check_stmt (S_VARDECL 3 ''x'' (type_new T_NUM) (Some (E_LIT_BOOL 3 True)) True)
      [[]] (init_TC [] None) = Some ([[\<lparr>sym_name = ''x'', sym_is_fixed = True,
        sym_type = Some (type_new T_NUM), sym_fn_params = [], sym_fn_return = None\<rparr>]],
      (init_TC [] None)\<lparr>tc_errors := 1, tc_log := [(3, Init_mismatch ''x'' ''num'' ''bool'')]\<rparr>)"
    by code_simp
  with check_stmt_keeps [OF this] show ?thesis by simp
qed

text \<open>
  When the checker returns: the search for a member of a class comes back exactly if some
  ancestor has the member or the chain of parents ends; so the check of a program in which the
  chain ends from every class always returns.
\<close>
theorem find_class_member_returns:
  "find_class_member classes c name w \<noteq> None \<longleftrightarrow>
   (\<exists>k. case ancestor k classes c of None \<Rightarrow> True | Some c' \<Rightarrow> own_member name w c' \<noteq> None)"
proof
  assume "find_class_member classes c name w \<noteq> None"
  then show "\<exists>k. case ancestor k classes c of None \<Rightarrow> True | Some c' \<Rightarrow> own_member name w c' \<noteq> None"
    using member_never [of classes c name w] by blast
next
  assume "\<exists>k. case ancestor k classes c of None \<Rightarrow> True | Some c' \<Rightarrow> own_member name w c' \<noteq> None"
  then obtain k where "case ancestor k classes c of None \<Rightarrow> True
    | Some c' \<Rightarrow> own_member name w c' \<noteq> None" ..
  then show "find_class_member classes c name w \<noteq> None"
    by (cases "ancestor k classes c") (simp_all add: member_chain_ends member_found)
qed

text \<open>
  C33. Checking returns, with as many errors as messages, for every program in which the chain
  of parents ends from every class; \<open>typecheck_cycle_hangs\<close> shows that the hypothesis is needed.
\<close>
theorem typecheck_program_returns:
  assumes "\<forall>c \<in> set (register_classes ss). \<exists>k. ancestor k (register_classes ss) c = None"
  shows "\<exists>log. typecheck_program ss filename = Some (length log, log)"
proof -
  have "good (check_block ss (map check_stmt ss))"
    using checks_good by (intro good_block good_seq) auto
  from good_outcome [OF this, of "init_TC ss filename" "scope_push []"] assms show ?thesis
    by (auto simp: typecheck_program_def outcome_def ends_def init_TC_def grows_def split: option.splits)
qed

theorem typecheck_program_returns_witness:
  "\<exists>log. typecheck_program
     [S_CLASS 1 ''A'' [] 0 None, S_CLASS 2 ''B'' [] 0 (Some ''A''), S_EXPR 3 (E_NEW 3 ''B'' [])] None
   = Some (length log, log)"
proof (rule typecheck_program_returns)
  let ?c = "register_classes [S_CLASS 1 ''A'' [] 0 None, S_CLASS 2 ''B'' [] 0 (Some ''A''),
    S_EXPR 3 (E_NEW 3 ''B'' [])]"
  have "list_all (\<lambda>c. ancestor 2 ?c c = None) ?c" by code_simp
  then show "\<forall>c \<in> set ?c. \<exists>k. ancestor k ?c c = None" by (auto simp: list_all_iff)
qed

end
