(* ===== verification/Typecheck_Clean.thy ===== *)
theory Typecheck_Clean
  imports Typecheck_Correct Parser
begin

text \<open>
  What a clean report means: if the checker returns without an error, the whole tree, at every
  depth, satisfies the conditions below.  And when the checker does not return: on the constructor of a class
  whose chain of parents has no end.
\<close>

section \<open>Well-formed programs\<close>

text \<open>
  Every declaration has a type, every fixed declaration has an initial value, every \<^verbatim>\<open>new\<close>
  names a class of the program, and \<^verbatim>\<open>live.deg\<close> gets two arguments.
\<close>

definition deg_ok :: "expr \<Rightarrow> expr list \<Rightarrow> bool" where
  "deg_ok callee args =
     (case callee of E_MEMBER _ object name \<Rightarrow> is_deg object name \<longrightarrow> 2 \<le> length args | _ \<Rightarrow> True)"

primrec wf_expr :: "ClassSig list \<Rightarrow> expr \<Rightarrow> bool"
and wf_part :: "ClassSig list \<Rightarrow> strpart \<Rightarrow> bool"
and wf_stmt :: "ClassSig list \<Rightarrow> stmt \<Rightarrow> bool" where
  "wf_expr cs (E_LIT_NUM _ _) = True"
| "wf_expr cs (E_LIT_DECIMAL _ _) = True"
| "wf_expr cs (E_LIT_SCIFI _ _) = True"
| "wf_expr cs (E_LIT_BOOL _ _) = True"
| "wf_expr cs (E_LIT_STRING_INTERP _ ps) = list_all (\<lambda>b. b) (map (wf_part cs) ps)"
| "wf_expr cs (E_IDENT _ _) = True"
| "wf_expr cs (E_BINARY _ l r _) = (wf_expr cs l \<and> wf_expr cs r)"
| "wf_expr cs (E_UNARY _ e _) = wf_expr cs e"
| "wf_expr cs (E_ASSIGN _ t v _) = (wf_expr cs t \<and> wf_expr cs v)"
| "wf_expr cs (E_CALL _ f as) =
     (list_all (\<lambda>b. b) (map (wf_expr cs) as) \<and> wf_expr cs f \<and> deg_ok f as)"
| "wf_expr cs (E_MEMBER _ ob _) = wf_expr cs ob"
| "wf_expr cs (E_INDEX _ ob i) = (wf_expr cs ob \<and> wf_expr cs i)"
| "wf_expr cs (E_TERNARY _ c t e) = (wf_expr cs c \<and> wf_expr cs t \<and> wf_expr cs e)"
| "wf_expr cs (E_BETWEEN _ v lo hi) = (wf_expr cs v \<and> wf_expr cs lo \<and> wf_expr cs hi)"
| "wf_expr cs (E_LIST _ es) = list_all (\<lambda>b. b) (map (wf_expr cs) es)"
| "wf_expr cs (E_DATA _ ds) = list_all (\<lambda>b. b) (map snd (map (map_prod id (wf_expr cs)) ds))"
| "wf_expr cs (E_FUNC_LIT _ _ _ body _) = wf_stmt cs body"
| "wf_expr cs (E_AWAIT _ e) = wf_expr cs e"
| "wf_expr cs (E_NEW _ c as) = (find_class cs c \<noteq> None \<and> list_all (\<lambda>b. b) (map (wf_expr cs) as))"
| "wf_part cs (PartLiteral _) = True"
| "wf_part cs (PartExpr e) = wf_expr cs e"
| "wf_stmt cs (S_VARDECL _ _ ty ini fixed) =
     (ty_kind ty \<noteq> T_UNKNOWN \<and> (fixed \<longrightarrow> ini \<noteq> None) \<and>
      (case map_option (wf_expr cs) ini of None \<Rightarrow> True | Some b \<Rightarrow> b))"
| "wf_stmt cs (S_EXPR _ e) = wf_expr cs e"
| "wf_stmt cs (S_IF _ c t elifs el) =
     (wf_expr cs c \<and> wf_stmt cs t \<and>
      list_all (\<lambda>(c, b). c \<and> b) (map (map_prod (wf_expr cs) (wf_stmt cs)) elifs) \<and>
      (case map_option (wf_stmt cs) el of None \<Rightarrow> True | Some b \<Rightarrow> b))"
| "wf_stmt cs (S_LOOP_WHILE _ c b) = (wf_expr cs c \<and> wf_stmt cs b)"
| "wf_stmt cs (S_DO_WHILE _ c b) = (wf_stmt cs b \<and> wf_expr cs c)"
| "wf_stmt cs (S_FOR_IN _ _ it c b) =
     (wf_expr cs it \<and> (case map_option (wf_expr cs) c of None \<Rightarrow> True | Some b \<Rightarrow> b) \<and> wf_stmt cs b)"
| "wf_stmt cs (S_ITERATE _ e _ b) = (wf_expr cs e \<and> wf_stmt cs b)"
| "wf_stmt cs (S_FUN_DECL _ _ _ _ b _) = wf_stmt cs b"
| "wf_stmt cs (S_RETURN _ e) = (case map_option (wf_expr cs) e of None \<Rightarrow> True | Some b \<Rightarrow> b)"
| "wf_stmt cs (S_BLOCK _ ss) = list_all (\<lambda>b. b) (map (wf_stmt cs) ss)"
| "wf_stmt cs (S_CLASS _ _ ms _ _) = list_all (\<lambda>b. b) (map (wf_stmt cs) ms)"
| "wf_stmt cs (S_ENUM _ _ _) = True"
| "wf_stmt cs (S_STRUCT _ _ _) = True"
| "wf_stmt cs (S_IMPORT _ _) = True"
| "wf_stmt cs (S_EXPORT _ _) = True"
| "wf_stmt cs (S_TRY_CATCH _ t _ c) = (wf_stmt cs t \<and> wf_stmt cs c)"
| "wf_stmt cs (S_BREAK _) = True"
| "wf_stmt cs (S_CONTINUE _) = True"

section \<open>Checks without an error\<close>

text \<open>\<open>b\<close> is a later state than \<open>a\<close>, and if no error has come up since then, \<open>P\<close> holds.\<close>

definition seen :: "ClassSig list \<Rightarrow> TC \<Rightarrow> TC \<Rightarrow> bool \<Rightarrow> bool" where
  "seen cs a b P \<longleftrightarrow> tc_classes a = cs \<and> grows a b \<and> (tc_errors b \<le> tc_errors a \<longrightarrow> P)"

definition ensures :: "ClassSig list \<Rightarrow> TC \<Rightarrow> TC option \<Rightarrow> bool \<Rightarrow> bool" where
  "ensures cs a r P \<longleftrightarrow> (\<forall>b. r = Some b \<longrightarrow> seen cs a b P)"

definition ensures_stmt :: "ClassSig list \<Rightarrow> TC \<Rightarrow> (scope \<times> TC) option \<Rightarrow> bool \<Rightarrow> bool" where
  "ensures_stmt cs a r P \<longleftrightarrow> (\<forall>s b. r = Some (s, b) \<longrightarrow> seen cs a b P)"

definition clean :: "ClassSig list \<Rightarrow> tree_check \<Rightarrow> bool \<Rightarrow> bool" where
  "clean cs f P \<longleftrightarrow> (\<forall>scope a. tc_classes a = cs \<longrightarrow> ensures cs a (f scope a) P)"

definition clean_stmt :: "ClassSig list \<Rightarrow> stmt_check \<Rightarrow> bool \<Rightarrow> bool" where
  "clean_stmt cs f P \<longleftrightarrow> (\<forall>scope a. tc_classes a = cs \<longrightarrow> ensures_stmt cs a (f scope a) P)"

named_theorems clean_intros

lemma seen_refl: "tc_classes a = cs \<Longrightarrow> seen cs a a True"
  by (simp add: seen_def)

lemma seen_trans: "seen cs a b P \<Longrightarrow> seen cs b c Q \<Longrightarrow> seen cs a c (P \<and> Q)"
  by (auto simp: seen_def grows_def)

lemma seen_weaken: "seen cs a b P \<Longrightarrow> (P \<Longrightarrow> Q) \<Longrightarrow> seen cs a b Q"
  by (auto simp: seen_def)

lemma seen_classes: "seen cs a b P \<Longrightarrow> tc_classes b = cs"
  by (auto simp: seen_def grows_def)

lemma seen_grows: "seen cs a b P \<Longrightarrow> grows b c \<Longrightarrow> seen cs a c P"
  by (auto simp: seen_def grows_def)

lemma seen_error: "grows a b \<Longrightarrow> tc_classes a = cs \<Longrightarrow> seen cs a (tc_error l m b) P"
  by (auto simp: seen_def grows_def tc_error_def)

lemma ensures_Some: "seen cs a b R \<Longrightarrow> (R \<Longrightarrow> P) \<Longrightarrow> ensures cs a (Some b) P"
  by (auto simp: ensures_def seen_def)

lemma ensures_stmt_Some: "seen cs a b R \<Longrightarrow> (R \<Longrightarrow> P) \<Longrightarrow> ensures_stmt cs a (Some (s, b)) P"
  by (auto simp: ensures_stmt_def seen_def)

lemma clean_call: "clean cs f P \<Longrightarrow> seen cs a b R \<Longrightarrow> f s b = Some c \<Longrightarrow> seen cs a c (R \<and> P)"
  using seen_trans [of cs a b R c P] seen_classes [of cs a b R]
  by (auto simp: clean_def ensures_def)

lemma clean_stmt_call:
  "clean_stmt cs f P \<Longrightarrow> seen cs a b R \<Longrightarrow> f s b = Some (t, c) \<Longrightarrow> seen cs a c (R \<and> P)"
  using seen_trans [of cs a b R c P] seen_classes [of cs a b R]
  by (auto simp: clean_stmt_def ensures_stmt_def)

lemma ensures_bind:
  assumes "clean cs f P" "seen cs a b R" "\<And>c. seen cs a c (R \<and> P) \<Longrightarrow> ensures cs a (g c) Q"
  shows "ensures cs a (f s b \<bind> g) Q"
  unfolding ensures_def
proof (intro allI impI)
  fix d assume "f s b \<bind> g = Some d"
  then obtain c where "f s b = Some c" "g c = Some d" by (auto split: bind_splits)
  with clean_call [OF assms(1,2)] assms(3) show "seen cs a d Q" by (auto simp: ensures_def)
qed

lemma ensures_bind_stmt:
  assumes "clean cs f P" "seen cs a b R" "\<And>c. seen cs a c (R \<and> P) \<Longrightarrow> ensures_stmt cs a (g c) Q"
  shows "ensures_stmt cs a (f s b \<bind> g) Q"
  unfolding ensures_stmt_def
proof (intro allI impI)
  fix t d assume "f s b \<bind> g = Some (t, d)"
  then obtain c where "f s b = Some c" "g c = Some (t, d)" by (auto split: bind_splits)
  from assms(3) [OF clean_call [OF assms(1,2) this(1)]] this(2)
  show "seen cs a d Q" by (simp add: ensures_stmt_def)
qed

lemma ensures_stmt_bind:
  assumes "clean_stmt cs f P" "seen cs a b R" "\<And>t c. seen cs a c (R \<and> P) \<Longrightarrow> ensures_stmt cs a (g t c) Q"
  shows "ensures_stmt cs a (f s b \<bind> (\<lambda>(t, c). g t c)) Q"
  unfolding ensures_stmt_def
proof (intro allI impI)
  fix u d assume "f s b \<bind> (\<lambda>(t, c). g t c) = Some (u, d)"
  then obtain t c where "f s b = Some (t, c)" and g: "g t c = Some (u, d)" by (auto split: bind_splits)
  then have "seen cs a c (R \<and> P)" using clean_stmt_call [OF assms(1,2)] by blast
  from assms(3) [OF this, of t] g show "seen cs a d Q" by (auto simp: ensures_stmt_def)
qed

lemma ensures_bind_inner:
  assumes "clean_stmt cs f P" "seen cs a b R" "\<And>c. seen cs a c (R \<and> P) \<Longrightarrow> ensures cs a (g c) Q"
  shows "ensures cs a (f s b \<bind> (\<lambda>(_, c). g c)) Q"
  unfolding ensures_def
proof (intro allI impI)
  fix d assume "f s b \<bind> (\<lambda>(_, c). g c) = Some d"
  then obtain t c where "f s b = Some (t, c)" "g c = Some d" by (auto split: bind_splits)
  from assms(3) [OF clean_stmt_call [OF assms(1,2) this(1)]] this(2)
  show "seen cs a d Q" by (simp add: ensures_def)
qed

lemma ensures_stmt_bind_inner:
  assumes "clean_stmt cs f P" "seen cs a b R" "\<And>c. seen cs a c (R \<and> P) \<Longrightarrow> ensures_stmt cs a (g c) Q"
  shows "ensures_stmt cs a (f s b \<bind> (\<lambda>(_, c). g c)) Q"
  using ensures_stmt_bind [OF assms(1,2), of "\<lambda>_. g"] assms(3) by simp

lemma ensures_tail:
  assumes "clean cs f P" "seen cs a b R" "R \<and> P \<Longrightarrow> Q"
  shows "ensures cs a (f s b) Q"
  using clean_call [OF assms(1,2)] assms(3) by (auto simp: ensures_def intro: seen_weaken)

lemma ensures_stmt_tail:
  assumes "clean_stmt cs f P" "seen cs a b R" "R \<and> P \<Longrightarrow> Q"
  shows "ensures_stmt cs a (f s b) Q"
  using clean_stmt_call [OF assms(1,2)] assms(3) by (auto simp: ensures_stmt_def intro: seen_weaken)

lemma clean_good: "good f \<Longrightarrow> clean cs f True"
  using good_outcome [of f] unfolding clean_def ensures_def seen_def outcome_def
  by (metis option.simps(5))

lemma clean_Nil: "clean cs (check_all []) True"
  by (simp add: clean_def ensures_def seen_refl)

lemma clean_Cons: "clean cs f P \<Longrightarrow> clean cs (check_all fs) Q \<Longrightarrow> clean cs (check_all (f # fs)) (P \<and> Q)"
proof -
  assume f: "clean cs f P" and fs: "clean cs (check_all fs) Q"
  show ?thesis
    unfolding clean_def [of cs "check_all (f # fs)"] check_all.simps
    by (intro allI impI ensures_bind [OF f] ensures_tail [OF fs] seen_refl) (rule seen_refl | assumption | simp)+
qed

lemma clean_map:
  "(\<And>x. x \<in> set xs \<Longrightarrow> clean cs (f x) (P x)) \<Longrightarrow>
   clean cs (check_all (map f xs)) (list_all (\<lambda>b. b) (map P xs))"
proof (induction xs)
  case Nil
  then show ?case using clean_Nil by (simp del: check_all.simps)
next
  case (Cons x xs)
  then show ?case using clean_Cons [of cs "f x" "P x"] by (simp del: check_all.simps)
qed

lemma clean_seq:
  "(\<And>x. x \<in> set xs \<Longrightarrow> clean_stmt cs (f x) (P x)) \<Longrightarrow>
   clean_stmt cs (check_seq (map f xs)) (list_all (\<lambda>b. b) (map P xs))"
proof (induction xs)
  case Nil
  then show ?case by (simp add: clean_stmt_def ensures_stmt_def seen_refl)
next
  case (Cons x xs)
  then have x: "clean_stmt cs (f x) (P x)"
    and xs: "clean_stmt cs (check_seq (map f xs)) (list_all (\<lambda>b. b) (map P xs))" by auto
  show ?case
    unfolding clean_stmt_def
    by (intro allI impI, unfold check_seq.simps list.map, intro ensures_stmt_bind [OF x] ensures_stmt_tail [OF xs] seen_refl)
      (rule seen_refl | assumption | simp)+
qed

lemma clean_elifs:
  "(\<And>x. x \<in> set xs \<Longrightarrow> clean cs (f (fst x)) (P (fst x)) \<and> clean_stmt cs (g (snd x)) (Q (snd x))) \<Longrightarrow>
   clean_stmt cs (check_elifs (map (map_prod f g) xs)) (list_all (\<lambda>(c, b). c \<and> b) (map (map_prod P Q) xs))"
proof (induction xs)
  case Nil
  then show ?case by (simp add: clean_stmt_def ensures_stmt_def seen_refl)
next
  case (Cons x xs)
  obtain c b where x: "x = (c, b)" by fastforce
  with Cons have c: "clean cs (f c) (P c)" and b: "clean_stmt cs (g b) (Q b)"
    and xs: "clean_stmt cs (check_elifs (map (map_prod f g) xs))
      (list_all (\<lambda>(c, b). c \<and> b) (map (map_prod P Q) xs))" by force+
  show ?case
    unfolding clean_stmt_def
    by (intro allI impI, unfold x list.map map_prod_simp check_elifs.simps, intro ensures_bind_stmt [OF c] ensures_stmt_bind [OF b] ensures_stmt_tail [OF xs]
        seen_refl) (rule seen_refl | assumption | simp)+
qed

lemma clean_opt:
  "(\<And>x. x \<in> set_option e \<Longrightarrow> clean cs (f x) (P x)) \<Longrightarrow>
   clean cs (check_opt (map_option f e)) (case map_option P e of None \<Rightarrow> True | Some b \<Rightarrow> b)"
  by (cases e) (auto simp: clean_def check_opt_def ensures_def seen_refl)

lemma clean_block:
  assumes "clean_stmt cs (check_seq checks) P"
  shows "clean cs (check_block ss checks) P"
  unfolding clean_def check_block_def
  by (intro allI impI ensures_bind_inner [OF assms] ensures_Some seen_refl) (rule seen_refl | assumption | simp)+

lemma clean_function:
  assumes "clean_stmt cs body P"
  shows "clean cs (check_function ps ret is_async body) P"
  unfolding clean_def ensures_def
proof (intro allI impI)
  fix scope a b
  assume a: "tc_classes a = cs" and "check_function ps ret is_async body scope a = Some b"
  then obtain s c where c: "body (define_params (scope_push scope) ps) (enter_function ret is_async a) = Some (s, c)"
      "b = leave_function a c"
    by (auto simp: check_function_def split: bind_splits)
  have "tc_classes (enter_function ret is_async a) = cs" using a by (simp add: enter_function_def)
  with assms c(1) have "seen cs (enter_function ret is_async a) c P"
    by (auto simp: clean_stmt_def ensures_stmt_def)
  then show "seen cs a b P"
    unfolding c(2) using grows_function
    by (auto simp: seen_def enter_function_def leave_function_def)
qed

lemma clean_new: "clean cs (check_new line c args) (find_class cs c \<noteq> None)"
proof -
  have "clean cs (check_new line c args) True" by (rule clean_good [OF new_good])
  then show ?thesis
    by (fastforce simp: clean_def ensures_def seen_def check_new_def tc_error_def split: option.splits)
qed

lemma clean_callee: "clean cs (check_callee line callee args) (deg_ok callee args)"
proof -
  have "clean cs (check_callee line callee args) True" by (rule clean_good [OF callee_good])
  moreover have "deg_ok callee args" if b: "check_callee line callee args scope a = Some b"
      "tc_errors b \<le> tc_errors a" for scope a b
  proof (rule ccontr)
    assume "\<not> deg_ok callee args"
    then obtain l ob x where c: "callee = E_MEMBER l ob x" "is_deg ob x" "length args < 2"
      by (auto simp: deg_ok_def not_le split: expr.splits)
    with b(1) have "check_method line ob x args scope (tc_error line Deg_arity a) = Some b"
      by (simp add: check_callee_def check_member_call_def)
    with good_outcome [OF method_good, of "tc_error line Deg_arity a" line ob x args scope]
    have "tc_errors a < tc_errors b" by (auto simp: outcome_def grows_def tc_error_def)
    with b(2) show False by simp
  qed
  ultimately show ?thesis
    by (fastforce simp: clean_def ensures_def seen_def)
qed

lemma seen_annotation:
  "tc_classes a = cs \<Longrightarrow> seen cs a (check_annotation l x ty a) (ty_kind ty \<noteq> T_UNKNOWN)"
  by (auto simp: check_annotation_def seen_def tc_error_def grows_def)

lemma ensures_declare:
  "seen cs a b R \<Longrightarrow> (R \<and> (fx \<longrightarrow> ini) \<Longrightarrow> P) \<Longrightarrow>
   ensures_stmt cs a (Some (declare_var l x ty fx ini s b)) P"
  by (auto simp: declare_var_def ensures_stmt_def seen_def tc_error_def grows_def)

lemma clean_init_opt:
  "clean cs (\<lambda>s b. case ini of None \<Rightarrow> Some b | Some e \<Rightarrow> check_init l x ty e s b) True"
  by (rule clean_good) (auto simp: good_def check_intros intro: init_outcome split: option.split)

lemma clean_returned_opt:
  "clean cs (\<lambda>s b. case ini of None \<Rightarrow> Some b | Some e \<Rightarrow> check_returned l e s b) True"
  by (rule clean_good) (auto simp: good_def check_intros intro: returned_outcome split: option.split)

lemmas clean_parts = clean_Nil clean_Cons clean_map clean_good [OF target_good] clean_new clean_callee

lemma checks_clean:
  "clean cs (check_expr e) (wf_expr cs e) \<and> clean cs (check_part p) (wf_part cs p) \<and>
   clean_stmt cs (check_stmt s) (wf_stmt cs s)"
proof (induction rule: expr_strpart_stmt.induct)
  case (E_ASSIGN l t v opr)
  have "clean cs (check_all [check_target l t v, check_expr t, check_expr v])
      (True \<and> wf_expr cs t \<and> wf_expr cs v \<and> True)"
    using E_ASSIGN by (intro clean_parts)
  then show ?case by (simp del: check_all.simps)
next
  case (E_CALL l f as)
  then have "clean cs (check_all [check_all (map check_expr as), check_expr f, check_callee l f as])
      (list_all (\<lambda>b. b) (map (wf_expr cs) as) \<and> wf_expr cs f \<and> deg_ok f as \<and> True)"
    by (intro clean_parts)
  then show ?case by (simp del: check_all.simps)
next
  case (E_NEW l c as)
  then have "clean cs (check_all [check_new l c as, check_all (map check_expr as)])
      (find_class cs c \<noteq> None \<and> list_all (\<lambda>b. b) (map (wf_expr cs) as) \<and> True)"
    by (intro clean_parts)
  then show ?case by (simp del: check_all.simps)
next
  case (E_DATA l ds)
  then have "clean cs (check_all (map (check_expr \<circ> snd) ds)) (list_all (\<lambda>b. b) (map (wf_expr cs \<circ> snd) ds))"
    by (intro clean_map) (force simp: snds.simps)
  then show ?case by (simp del: check_all.simps add: comp_def)
next
  case (E_FUNC_LIT l ps ret body a)
  then show ?case by (simp add: clean_function)
next
  case (E_TERNARY l c t e)
  then have "clean cs (check_all [check_expr c, check_expr t, check_expr e])
      (wf_expr cs c \<and> wf_expr cs t \<and> wf_expr cs e \<and> True)" by (intro clean_parts)
  then show ?case by (simp del: check_all.simps)
next
  case (E_BETWEEN l c t e)
  then have "clean cs (check_all [check_expr c, check_expr t, check_expr e])
      (wf_expr cs c \<and> wf_expr cs t \<and> wf_expr cs e \<and> True)" by (intro clean_parts)
  then show ?case by (simp del: check_all.simps)
next
  case (E_BINARY l a b opr)
  then have "clean cs (check_all [check_expr a, check_expr b]) (wf_expr cs a \<and> wf_expr cs b \<and> True)"
    by (intro clean_parts)
  then show ?case by (simp del: check_all.simps)
next
  case (E_INDEX l a b)
  then have "clean cs (check_all [check_expr a, check_expr b]) (wf_expr cs a \<and> wf_expr cs b \<and> True)"
    by (intro clean_parts)
  then show ?case by (simp del: check_all.simps)
next
  case (E_LIT_STRING_INTERP l ps)
  then show ?case by (simp del: check_all.simps add: clean_map)
next
  case (E_LIST l es)
  then show ?case by (simp del: check_all.simps add: clean_map)
next
  case (S_VARDECL l x ty ini fx)
  have ini: "clean cs (check_opt (map_option check_expr ini))
      (case map_option (wf_expr cs) ini of None \<Rightarrow> True | Some b \<Rightarrow> b)"
    using S_VARDECL by (intro clean_opt)
  show ?case
    unfolding clean_stmt_def check_stmt.simps Let_def
    by (intro allI impI ensures_bind_stmt [OF ini]
        ensures_bind_stmt [OF clean_init_opt [where ini = ini]] ensures_declare)
      (rule seen_annotation | assumption | simp)+
next
  case (S_EXPR l e)
  show ?case
    unfolding clean_stmt_def check_stmt.simps Let_def
    by (intro allI impI
        ensures_bind_stmt [OF S_EXPR.IH]
        ensures_stmt_Some)
      (rule seen_refl | assumption | simp)+
next
  case (S_IF l c t elifs el)
  have elifs: "clean_stmt cs (check_elifs (map (map_prod check_expr check_stmt) elifs))
      (list_all (\<lambda>(c, b). c \<and> b) (map (map_prod (wf_expr cs) (wf_stmt cs)) elifs))"
    using S_IF by (intro clean_elifs) (force simp: fsts.simps snds.simps)
  have el: "clean_stmt cs (\<lambda>s b. case map_option check_stmt el of None \<Rightarrow> Some (s, b) | Some f \<Rightarrow> f s b)
      (case map_option (wf_stmt cs) el of None \<Rightarrow> True | Some b \<Rightarrow> b)"
    using S_IF.IH(5) by (cases el) (auto simp: clean_stmt_def ensures_stmt_def seen_refl)
  show ?case
    unfolding clean_stmt_def check_stmt.simps
    by (intro allI impI ensures_bind_stmt [OF S_IF.IH(1)] ensures_stmt_bind [OF S_IF.IH(2)]
        ensures_stmt_bind [OF elifs] ensures_stmt_tail [OF el])
      (rule seen_refl | assumption | simp)+
next
  case (S_LOOP_WHILE l c b)
  show ?case
    unfolding clean_stmt_def check_stmt.simps Let_def
    by (intro allI impI
        ensures_bind_stmt [OF S_LOOP_WHILE.IH(1)]
        ensures_stmt_tail [OF S_LOOP_WHILE.IH(2)])
      (rule seen_refl | assumption | simp)+
next
  case (S_DO_WHILE l c b)
  show ?case
    unfolding clean_stmt_def check_stmt.simps Let_def
    by (intro allI impI
        ensures_bind_stmt [OF S_DO_WHILE.IH(1)]
        ensures_stmt_bind [OF S_DO_WHILE.IH(2)]
        ensures_stmt_Some)
      (rule seen_refl | assumption | simp)+
next
  case (S_FOR_IN l x it c b)
  have c: "clean cs (check_opt (map_option check_expr c))
      (case map_option (wf_expr cs) c of None \<Rightarrow> True | Some b \<Rightarrow> b)"
    using S_FOR_IN by (intro clean_opt)
  show ?case
    unfolding clean_stmt_def check_stmt.simps Let_def
    by (intro allI impI
        ensures_bind_stmt [OF S_FOR_IN.IH(1)]
        ensures_bind_stmt [OF c]
        ensures_stmt_bind_inner [OF S_FOR_IN.IH(3)]
        ensures_stmt_Some)
      (rule seen_refl | assumption | simp)+
next
  case (S_ITERATE l e x b)
  show ?case
    unfolding clean_stmt_def check_stmt.simps Let_def
    by (intro allI impI
        ensures_bind_stmt [OF S_ITERATE.IH(1)]
        ensures_stmt_bind_inner [OF S_ITERATE.IH(2)]
        ensures_stmt_Some)
      (rule seen_refl | assumption | simp)+
next
  case (S_FUN_DECL l x ps ret body a)
  show ?case
    unfolding clean_stmt_def check_stmt.simps Let_def
    by (intro allI impI
        ensures_bind_stmt [OF clean_function [OF S_FUN_DECL.IH]]
        ensures_stmt_Some)
      (rule seen_refl | assumption | simp)+
next
  case (S_RETURN l e)
  have e: "clean cs (check_opt (map_option check_expr e))
      (case map_option (wf_expr cs) e of None \<Rightarrow> True | Some b \<Rightarrow> b)"
    using S_RETURN by (intro clean_opt)
  show ?case
    unfolding clean_stmt_def check_stmt.simps
    by (intro allI impI ensures_bind_stmt [OF e]
        ensures_bind_stmt [OF clean_returned_opt [where ini = e]] ensures_stmt_Some)
      (rule seen_refl | assumption | simp)+
next
  case (S_BLOCK l ss)
  show ?case
    unfolding clean_stmt_def check_stmt.simps Let_def
    by (intro allI impI
        ensures_bind_stmt [OF clean_block [OF clean_seq [OF S_BLOCK.IH]]]
        ensures_stmt_Some)
      (rule seen_refl | assumption | simp)+
next
  case (S_CLASS l x ms v p)
  show ?case
    unfolding clean_stmt_def check_stmt.simps Let_def
    by (intro allI impI
        ensures_stmt_bind_inner [OF clean_seq [OF S_CLASS.IH]]
        ensures_stmt_Some)
      (rule seen_refl | assumption | simp)+
next
  case (S_TRY_CATCH l t x c)
  show ?case
    unfolding clean_stmt_def check_stmt.simps Let_def
    by (intro allI impI
        ensures_stmt_bind [OF S_TRY_CATCH.IH(1)]
        ensures_stmt_bind_inner [OF S_TRY_CATCH.IH(2)]
        ensures_stmt_Some)
      (rule seen_refl | assumption | simp)+
next
  case (S_ENUM l x v)
  show ?case by (simp add: clean_stmt_def ensures_stmt_def seen_refl)
next
  case (S_STRUCT l x v)
  show ?case by (simp add: clean_stmt_def ensures_stmt_def seen_refl)
next
  case (S_IMPORT l x)
  show ?case by (simp add: clean_stmt_def ensures_stmt_def seen_refl)
next
  case (S_EXPORT l x)
  show ?case by (simp add: clean_stmt_def ensures_stmt_def seen_refl)
next
  case (S_BREAK l)
  show ?case by (simp add: clean_stmt_def ensures_stmt_def seen_refl)
next
  case (S_CONTINUE l)
  show ?case by (simp add: clean_stmt_def ensures_stmt_def seen_refl)
qed (simp_all del: check_all.simps check_seq.simps add: clean_Nil)

lemma typecheck_ok:
  assumes "typecheck_program ss filename = Some (0, log)"
  shows "list_all (wf_stmt (register_classes ss)) ss"
proof -
  let ?cs = "register_classes ss"
  have b: "clean ?cs (check_block ss (map check_stmt ss)) (list_all (\<lambda>b. b) (map (wf_stmt ?cs) ss))"
    using checks_clean by (intro clean_block clean_seq) blast
  obtain tc where tc: "check_block ss (map check_stmt ss) (scope_push []) (init_TC ss filename) = Some tc"
      "tc_errors tc = 0"
    using assms by (auto simp: typecheck_program_def split: bind_splits)
  have "seen ?cs (init_TC ss filename) (init_TC ss filename) True"
    by (rule seen_refl) (simp add: init_TC_def)
  from clean_call [OF b this tc(1)] tc(2) have "list_all (\<lambda>b. b) (map (wf_stmt ?cs) ss)"
    by (simp add: seen_def)
  then show ?thesis by (simp add: list_all_iff)
qed

text \<open>
  C5. What a clean report means: if the checker returns with no error, then everywhere in the
  program, at any depth, every declaration has a type, every fixed declaration an initial
  value, every \<^verbatim>\<open>new\<close> names a class of the program, and every \<^verbatim>\<open>live.deg\<close> has its two arguments.
\<close>
theorem typecheck_clean:
  assumes "typecheck_program ss filename = Some (0, log)"
  shows "list_all (wf_stmt (register_classes ss)) ss"
  by (rule typecheck_ok [OF assms])

theorem typecheck_clean_witness:
  "typecheck_program [S_VARDECL 1 ''x'' (type_new T_NUM) (Some (E_LIT_NUM 1 2)) True] None = Some (0, []) \<and>
   list_all (wf_stmt (register_classes [S_VARDECL 1 ''x'' (type_new T_NUM) (Some (E_LIT_NUM 1 2)) True]))
     [S_VARDECL 1 ''x'' (type_new T_NUM) (Some (E_LIT_NUM 1 2)) True]"
proof -
  have "typecheck_program [S_VARDECL 1 ''x'' (type_new T_NUM) (Some (E_LIT_NUM 1 2)) True] None = Some (0, [])"
    by code_simp
  with typecheck_clean [OF this] show ?thesis by blast
qed

section \<open>Fixed variables\<close>

text \<open>The names that a statement puts into the scope it is checked in.\<close>

primrec declared :: "stmt \<Rightarrow> string set" where
  "declared (S_VARDECL _ x _ _ _) = {x}"
| "declared (S_EXPR _ _) = {}"
| "declared (S_IF _ _ t elifs el) =
     declared t \<union> \<Union> (set (map snd (map (map_prod id declared) elifs))) \<union>
     (case map_option declared el of None \<Rightarrow> {} | Some d \<Rightarrow> d)"
| "declared (S_LOOP_WHILE _ _ b) = declared b"
| "declared (S_DO_WHILE _ _ b) = declared b"
| "declared (S_FOR_IN _ _ _ _ _) = {}"
| "declared (S_ITERATE _ _ _ _) = {}"
| "declared (S_FUN_DECL _ _ _ _ _ _) = {}"
| "declared (S_RETURN _ _) = {}"
| "declared (S_BLOCK _ _) = {}"
| "declared (S_CLASS _ x _ _ _) = {x}"
| "declared (S_ENUM _ x _) = {x}"
| "declared (S_STRUCT _ x _) = {x}"
| "declared (S_IMPORT _ _) = {}"
| "declared (S_EXPORT _ _) = {}"
| "declared (S_TRY_CATCH _ t _ _) = declared t"
| "declared (S_BREAK _) = {}"
| "declared (S_CONTINUE _) = {}"

lemma find_define_other: "sym_name y \<noteq> x \<Longrightarrow> scope_find (define_sym s y) x = scope_find s x"
  by (cases s) (simp_all add: scope_find_def define_sym_def)

lemma find_define_same: "scope_find (define_sym s y) (sym_name y) = Some y"
  by (cases s) (simp_all add: scope_find_def define_sym_def)

lemma find_scope_define:
  "scope_find (scope_define s y fx ty) x =
     (if y = x then Some \<lparr>sym_name = y, sym_is_fixed = fx, sym_type = ty, sym_fn_params = [],
        sym_fn_return = None\<rparr> else scope_find s x)"
proof (cases "y = x")
  case True
  with find_define_same [of s "\<lparr>sym_name = y, sym_is_fixed = fx, sym_type = ty,
      sym_fn_params = [], sym_fn_return = None\<rparr>"] show ?thesis
    by (simp add: scope_define_def)
qed (simp add: scope_define_def find_define_other)

text \<open>Checking a statement leaves every other name bound as it was.\<close>

definition keeps_name :: "string \<Rightarrow> stmt_check \<Rightarrow> bool" where
  "keeps_name x f \<longleftrightarrow>
     (\<forall>s a t b. f s a = Some (t, b) \<longrightarrow> scope_find t x = scope_find s x)"

lemma keeps_seq: "(\<And>f. f \<in> set fs \<Longrightarrow> keeps_name x f) \<Longrightarrow> keeps_name x (check_seq fs)"
  by (induction fs) (fastforce simp: keeps_name_def split: bind_splits)+

lemma keeps_elifs: "(\<And>f. f \<in> set (map snd fs) \<Longrightarrow> keeps_name x f) \<Longrightarrow> keeps_name x (check_elifs fs)"
  by (induction fs) (fastforce simp: keeps_name_def split: bind_splits)+

lemma stmt_keeps_name:
  "(e :: expr) = e \<and> (p :: strpart) = p \<and> (x \<notin> declared s \<longrightarrow> keeps_name x (check_stmt s))"
proof (induction rule: expr_strpart_stmt.induct)
  case (S_IF l c t elifs el)
  show ?case
  proof
    assume x: "x \<notin> declared (S_IF l c t elifs el)"
    have e: "keeps_name x (check_elifs (map (map_prod check_expr check_stmt) elifs))"
      using S_IF.IH(4) x by (intro keeps_elifs) (force simp: snds.simps)
    have el: "keeps_name x f" if "map_option check_stmt el = Some f" for f
      using S_IF.IH(5) x that by (cases el) auto
    have t: "keeps_name x (check_stmt t)" using S_IF.IH(2) x by simp
    show "keeps_name x (check_stmt (S_IF l c t elifs el))"
      unfolding keeps_name_def
    proof (intro allI impI)
      fix s a u b
      assume "check_stmt (S_IF l c t elifs el) s a = Some (u, b)"
      then obtain a1 s1 a2 s2 a3 where 1: "check_stmt t s a1 = Some (s1, a2)"
          "check_elifs (map (map_prod check_expr check_stmt) elifs) s1 a2 = Some (s2, a3)"
          "(case map_option check_stmt el of None \<Rightarrow> Some (s2, a3) | Some f \<Rightarrow> f s2 a3) = Some (u, b)"
        by (auto split: bind_splits)
      then have "scope_find s1 x = scope_find s x" "scope_find s2 x = scope_find s1 x"
        using t e unfolding keeps_name_def by blast+
      moreover have "scope_find u x = scope_find s2 x"
      proof (cases el)
        case (Some z)
        with 1(3) el [of "check_stmt z"] show ?thesis unfolding keeps_name_def by auto
      qed (use 1(3) in simp)
      ultimately show "scope_find u x = scope_find s x" by simp
    qed
  qed
next
  case (S_TRY_CATCH l t y c)
  then show ?case by (fastforce simp: keeps_name_def split: bind_splits)
next
  case (S_DO_WHILE l c b)
  then show ?case by (fastforce simp: keeps_name_def split: bind_splits)
next
  case (S_LOOP_WHILE l c b)
  then show ?case by (fastforce simp: keeps_name_def split: bind_splits)
qed (auto simp: keeps_name_def declare_var_def find_scope_define Let_def split: bind_splits)

lemma check_seq_append:
  "check_seq (fs @ gs) s a = check_seq fs s a \<bind> (\<lambda>(t, b). check_seq gs t b)"
  by (induction fs arbitrary: s a) (simp_all add: bind_assoc case_prod_unfold Option.bind_assoc)

lemma fixed_assign_error:
  assumes "scope_find s x = Some y" "sym_is_fixed y"
    and "check_stmt (S_EXPR l (E_ASSIGN k (E_IDENT i x) v opr)) s a = Some (t, b)"
  shows "(k, Fixed_reassigned x) \<in> set (tc_log b) \<and> tc_errors a < tc_errors b"
proof -
  let ?t = "check_target k (E_IDENT i x) v"
  obtain a1 a2 where 1: "?t s a = Some a1" "check_expr v s a1 = Some b"
    using assms(3) by (auto split: bind_splits)
  let ?e = "tc_error k (Fixed_reassigned x) a"
  have "grows ?e a1"
    using 1(1) assms(1,2) by (auto simp: check_target_def Let_def split: bind_splits intro: check_intros)
  moreover have "grows a1 b" using good_outcome [of "check_expr v" a1 s] checks_good 1(2)
    by (auto simp: outcome_def)
  ultimately have "grows ?e b" by (rule grows_trans)
  then show ?thesis by (auto simp: grows_def tc_error_def)
qed

text \<open>
  C4. A fixed variable cannot be assigned: in a block that declares one and later, without a
  new declaration of that name in between, assigns to it, the checker reports the assignment
  at its line and counts an error.
\<close>
theorem fixed_never_reassigned:
  assumes "check_block ss (map check_stmt ss) scope tc = Some tc'"
    and "ss = before @ S_VARDECL l x ty ini True # between @ S_EXPR l' (E_ASSIGN k (E_IDENT i x) v opr) # after"
    and "\<forall>s \<in> set between. x \<notin> declared s"
  shows "(k, Fixed_reassigned x) \<in> set (tc_log tc') \<and> tc_errors tc < tc_errors tc'"
proof -
  let ?d = "S_VARDECL l x ty ini True" and ?a = "S_EXPR l' (E_ASSIGN k (E_IDENT i x) v opr)"
  have split: "map check_stmt ss = map check_stmt before @ [check_stmt ?d] @ map check_stmt between @
      [check_stmt ?a] @ map check_stmt after" using assms(2) by simp
  obtain s0 s5 where run: "check_seq (map check_stmt ss) s0 tc = Some (s5, tc')"
    using assms(1) by (auto simp: check_block_def split: bind_splits)
  then obtain s1 t1 s2 t2 s3 t3 s4 t4 where
    1: "check_seq (map check_stmt before) s0 tc = Some (s1, t1)" and
    2: "check_stmt ?d s1 t1 = Some (s2, t2)" and
    3: "check_seq (map check_stmt between) s2 t2 = Some (s3, t3)" and
    4: "check_stmt ?a s3 t3 = Some (s4, t4)" and
    5: "check_seq (map check_stmt after) s4 t4 = Some (s5, tc')"
    unfolding split check_seq_append check_seq.simps
    by (auto simp del: check_stmt.simps simp: bind_eq_Some_conv)
  have g: "grows a b" if "check_seq (map check_stmt qs) s a = Some (u, b)" for qs s a u b
    using good_stmt_outcome [OF good_seq [of "map check_stmt qs"], of s a] checks_good that
    by (auto simp: outcome_stmt_def)
  have gs: "grows a b" if "check_stmt q s a = Some (u, b)" for q s a u b
    using good_stmt_outcome [of "check_stmt q" s a] checks_good that by (auto simp: outcome_stmt_def)
  obtain y where "scope_find s2 x = Some y" "sym_is_fixed y"
    using 2 by (auto simp: declare_var_def find_scope_define split: bind_splits)
  moreover have "keeps_name x (check_seq (map check_stmt between))"
  proof (rule keeps_seq)
    fix f assume "f \<in> set (map check_stmt between)"
    then obtain q where "q \<in> set between" "f = check_stmt q" by auto
    with assms(3) stmt_keeps_name show "keeps_name x f" by blast
  qed
  with 3 have "scope_find s3 x = scope_find s2 x" unfolding keeps_name_def by blast
  ultimately have "scope_find s3 x = Some y" "sym_is_fixed y" by simp_all
  from fixed_assign_error [OF this 4]
  have "(k, Fixed_reassigned x) \<in> set (tc_log t4)" "tc_errors t3 < tc_errors t4" by auto
  moreover have "tc_errors tc \<le> tc_errors t3" "tc_errors t4 \<le> tc_errors tc'"
    using g [OF 1] gs [OF 2] g [OF 3] g [OF 5] by (auto simp: grows_def)
  moreover have "set (tc_log t4) \<subseteq> set (tc_log tc')" using g [OF 5] by (auto simp: grows_def)
  ultimately show ?thesis by auto
qed

theorem fixed_never_reassigned_witness:
  "\<exists>ss tc'. check_block ss (map check_stmt ss) [] (init_TC ss None) = Some tc' \<and>
     (2, Fixed_reassigned ''x'') \<in> set (tc_log tc') \<and> 0 < tc_errors tc'"
proof -
  let ?ss = "[S_VARDECL 1 ''x'' (type_new T_NUM) (Some (E_LIT_NUM 1 1)) True,
    S_EXPR 2 (E_ASSIGN 2 (E_IDENT 2 ''x'') (E_LIT_NUM 2 2) TOK_ASSIGN)]"
  have "check_block ?ss (map check_stmt ?ss) [] (init_TC ?ss None) \<noteq> None" by code_simp
  then obtain tc' where "check_block ?ss (map check_stmt ?ss) [] (init_TC ?ss None) = Some tc'" by auto
  moreover from fixed_never_reassigned [OF this, of "[]" 1 "''x''" "type_new T_NUM" "Some (E_LIT_NUM 1 1)"
      "[]" 2 2 2 "E_LIT_NUM 2 2" TOK_ASSIGN "[]"]
  have "(2, Fixed_reassigned ''x'') \<in> set (tc_log tc') \<and> 0 < tc_errors tc'"
    by (simp add: init_TC_def)
  ultimately show ?thesis by blast
qed

section \<open>Findings\<close>

text \<open>
  A top-level statement \<^verbatim>\<open>new A(...);\<close> whose constructor is looked for without end: whatever stands before
  it, the check of the program does not get past it.
\<close>

lemma new_looks_for_ever:
  assumes "find_class (tc_classes tc) a = Some c" "find_class_member (tc_classes tc) c ''constructor'' True = None"
  shows "check_stmt (S_EXPR l (E_NEW l' a args)) scope tc = None"
proof -
  from assms have "check_new l' a args scope tc = None" by (simp add: check_new_def)
  then show ?thesis by simp
qed

lemma check_seq_stops:
  assumes "f \<in> set fs" "\<And>g. g \<in> set fs \<Longrightarrow> good_stmt g"
    "\<And>scope tc. tc_classes tc = classes \<Longrightarrow> f scope tc = None" "tc_classes tc = classes"
  shows "check_seq fs scope tc = None"
  using assms
proof (induction fs arbitrary: scope tc)
  case (Cons g fs)
  show ?case
  proof (cases "g scope tc")
    case (Some r)
    obtain scope' tc' where r: "r = (scope', tc')" by (cases r)
    have "tc_classes tc' = classes"
      using good_stmt_outcome [OF Cons.prems(2) [of g], of scope tc] Some r Cons.prems(4)
      by (auto simp: outcome_stmt_def grows_def)
    moreover have "f \<in> set fs" using Cons.prems(1,3,4) Some by auto
    ultimately show ?thesis using Cons Some r by simp
  qed simp
qed simp

text \<open>
  C34. The checker does not come back from a program that creates an object of a class whose chain of parents
  does not end, if no class on the chain has a constructor: the parser accepts such a program, and the check of
  \<^verbatim>\<open>new A(...)\<close>, as a statement anywhere at its top level, walks along the chain for ever.  (It is the search
  for the constructor that does not return; a class that extends itself and is not used is checked.)
\<close>

theorem typecheck_cycle_hangs:
  assumes "S_EXPR l (E_NEW l' a args) \<in> set ss" "find_class (register_classes ss) a = Some c"
    "\<forall>k. \<exists>c'. ancestor k (register_classes ss) c = Some c' \<and> own_member ''constructor'' True c' = None"
  shows "typecheck_program ss filename = None"
proof -
  have "find_class_member (register_classes ss) c ''constructor'' True = None"
  proof (rule ccontr)
    assume "find_class_member (register_classes ss) c ''constructor'' True \<noteq> None"
    then obtain r where "find_class_member (register_classes ss) c ''constructor'' True = Some r" by auto
    from member_never [OF this] assms(3) show False by (auto split: option.splits)
  qed
  then have "check_stmt (S_EXPR l (E_NEW l' a args)) scope tc = None" if "tc_classes tc = register_classes ss" for scope tc
    using new_looks_for_ever assms(2) that by simp
  moreover have "good_stmt g" if "g \<in> set (map check_stmt ss)" for g using that checks_good by auto
  moreover have "tc_classes (init_TC ss filename) = register_classes ss" by (simp add: init_TC_def)
  moreover have "check_stmt (S_EXPR l (E_NEW l' a args)) \<in> set (map check_stmt ss)"
    unfolding set_map by (rule imageI [OF assms(1)])
  ultimately have "check_seq (map check_stmt ss) scope (init_TC ss filename) = None" for scope
    by (blast intro: check_seq_stops)
  then show ?thesis by (simp add: typecheck_program_def check_block_def)
qed

lemma typecheck_cycle_hangs_witness:
  "\<exists>r. parse_program ''class A extends A { } new A ( ) ;'' None = Some r \<and> \<not> pr_had_error r \<and>
     typecheck_program (pr_stmts r) None = None"
proof -
  let ?ss = "[S_CLASS 1 ''A'' [] 0 (Some ''A''), S_EXPR 1 (E_NEW 1 ''A'' [])]"
  let ?c = "\<lparr>cs_name = ''A'', cs_parent = Some ''A'', cs_members = []\<rparr>"
  have p: "parse_program ''class A extends A { } new A ( ) ;'' None =
      Some \<lparr>pr_stmts = ?ss, pr_had_error = False, pr_log = []\<rparr>" by code_simp
  have c: "register_classes ?ss = [?c]" by code_simp
  have a: "ancestor k [?c] ?c = Some ?c" for k
    by (induction k) (simp_all add: parent_of_def find_class_def)
  have "typecheck_program ?ss None = None"
    by (rule typecheck_cycle_hangs [of 1 1 "''A''" "[]" _ ?c], simp, unfold c) (simp_all add: a own_member_def find_class_def)
  with p show ?thesis by simp
qed

text \<open>The class alone is checked, and found clean.\<close>

lemma cyclic_class_checked: "typecheck_program [S_CLASS 1 ''A'' [] 0 (Some ''A'')] None = Some (0, [])"
  by code_simp

text \<open>
  A function without parameters has no checked return type: \<^verbatim>\<open>var x: num = f();\<close> passes
  for an \<^verbatim>\<open>f\<close> declared to return a string, and the same code with one parameter does not.
\<close>
theorem no_params_not_inferred:
  "map_option (\<lambda>r. (pr_had_error r, map_option fst (typecheck_program (pr_stmts r) None)))
     (parse_program ''fun f ( ) : string { } var x : num = f ( ) ;'' None) = Some (False, Some 0) \<and>
   map_option (\<lambda>r. (pr_had_error r, map_option fst (typecheck_program (pr_stmts r) None)))
     (parse_program ''fun f ( a : num ) : string { } var x : num = f ( 1 ) ;'' None) = Some (False, Some 1)"
proof
  show "map_option (\<lambda>r. (pr_had_error r, map_option fst (typecheck_program (pr_stmts r) None)))
     (parse_program ''fun f ( ) : string { } var x : num = f ( ) ;'' None) = Some (False, Some 0)"
    by code_simp
  show "map_option (\<lambda>r. (pr_had_error r, map_option fst (typecheck_program (pr_stmts r) None)))
     (parse_program ''fun f ( a : num ) : string { } var x : num = f ( 1 ) ;'' None) = Some (False, Some 1)"
    by code_simp
qed

end
