(* ===== verification/Formatter.thy ===== *)
theory Formatter
  imports Prelude
begin

text \<open>
  The formatter: \<^verbatim>\<open>include/formatter.h\<close> and \<^verbatim>\<open>src/formatter/formatter.c\<close>.  The output
  buffer is a record of its capacity and of what has been written; a write at or past the
  capacity sets \<open>fb_oob\<close>.  The code computes the length of a line, the indent and the level of
  braces with \<^verbatim>\<open>int\<close>.  A result that does not fit sets \<open>fb_overflow\<close>: what C does from there on is
  not defined (the indent can become negative and the test of the capacity pass), so what the model
  says of such a run, in which it goes on with the mathematical value, says nothing of the code.
  \<open>format_in_bounds\<close> shows for which sources there is no overflow, and no write out of bounds.
\<close>

section \<open>The formatter\<close>

record FormatterConfig =
  indent_width :: int
  use_tabs :: bool

record fmt_buf =
  fb_text :: string
  fb_cap :: nat
  fb_oob :: bool
  fb_overflow :: bool

text \<open>\<^verbatim>\<open>out[out_len++] = c\<close>, \<^verbatim>\<open>memcpy\<close>, and \<^verbatim>\<open>out[out_len] = 0\<close>, which is not counted.\<close>

definition fb_put :: "string \<Rightarrow> fmt_buf \<Rightarrow> fmt_buf" where
  "fb_put s b = b\<lparr>fb_text := fb_text b @ s, fb_oob := fb_oob b \<or> fb_cap b < length (fb_text b) + length s\<rparr>"

definition fb_terminate :: "fmt_buf \<Rightarrow> fmt_buf" where
  "fb_terminate b = b\<lparr>fb_oob := fb_oob b \<or> fb_cap b < length (fb_text b) + 1\<rparr>"

text \<open>An \<^verbatim>\<open>int\<close> is computed, with the value \<open>n\<close>.\<close>

definition fb_int :: "int \<Rightarrow> fmt_buf \<Rightarrow> fmt_buf" where
  "fb_int n b = b\<lparr>fb_overflow := fb_overflow b \<or> \<not> fits_int n\<rparr>"

text \<open>\<^verbatim>\<open>while (need > cap) { cap *= 2; realloc }\<close>, from a capacity that is not 0.\<close>

function grow_cap :: "nat \<Rightarrow> nat \<Rightarrow> nat" where
  "grow_cap need cap = (if cap < need \<and> 0 < cap then grow_cap need (cap * 2) else cap)"
  by pat_completeness auto
termination
  by (relation "measure (\<lambda>(need, cap). need - cap)") auto

declare grow_cap.simps [simp del]

definition is_blank :: "char \<Rightarrow> bool" where
  "is_blank c \<longleftrightarrow> c = SPACE \<or> c = TAB"

definition is_trailing :: "char \<Rightarrow> bool" where
  "is_trailing c \<longleftrightarrow> c = SPACE \<or> c = TAB \<or> c = CR"

definition trim_right :: "string \<Rightarrow> string" where
  "trim_right s = rev (dropWhile is_trailing (rev s))"

fun leading_close :: "string \<Rightarrow> nat" where
  "leading_close [] = 0"
| "leading_close (c # s) =
     (if c = CHR ''}'' then leading_close s + 1 else if \<not> isspace c then 0 else leading_close s)"

text \<open>\<open>prev\<close> is the character before, \<open>None\<close> at the start of the line.\<close>

fun net_braces_from :: "char option \<Rightarrow> bool \<Rightarrow> string \<Rightarrow> int" where
  "net_braces_from prev in_str [] = 0"
| "net_braces_from prev in_str (c # s) =
     (let in_str = (if c = DQUOTE \<and> prev \<noteq> Some BACKSLASH then \<not> in_str else in_str)
      in (if \<not> in_str \<and> c = CHR ''{'' then 1 else 0) - (if \<not> in_str \<and> c = CHR ''}'' then 1 else 0)
         + net_braces_from (Some c) in_str s)"

definition net_braces :: "string \<Rightarrow> int" where
  "net_braces line = net_braces_from None False line"

text \<open>
  The indent of a line and the level of the lines behind it.  The level and \<^verbatim>\<open>leading_close\<close> are not
  negative, so their difference fits if they do; \<open>format_loop\<close> looks at the other results.
\<close>

definition eff_indent :: "int \<Rightarrow> string \<Rightarrow> nat" where
  "eff_indent indent_level line = nat (indent_level - int (leading_close line))"

definition next_level :: "int \<Rightarrow> string \<Rightarrow> int" where
  "next_level indent_level line = max 0 (indent_level + net_braces line)"

definition fb_reserve :: "nat \<Rightarrow> fmt_buf \<Rightarrow> fmt_buf" where
  "fb_reserve n b = b\<lparr>fb_cap := grow_cap (length (fb_text b) + n) (fb_cap b)\<rparr>"

definition put_empty_line :: "fmt_buf \<Rightarrow> fmt_buf" where
  "put_empty_line b =
     (let b = (if fb_cap b < length (fb_text b) + 2 then b\<lparr>fb_cap := fb_cap b * 2\<rparr> else b)
      in fb_terminate (fb_put [NL] b))"

definition put_line :: "char \<Rightarrow> nat \<Rightarrow> string \<Rightarrow> fmt_buf \<Rightarrow> fmt_buf" where
  "put_line pad spaces line b =
     (let b = fb_reserve (spaces + length line + 2) b;
          b = fb_put (replicate spaces pad) b;
          b = fb_put line b;
          b = fb_put [NL] b
      in fb_terminate b)"

lemma format_rest_less:
  assumes "dropWhile is_blank p \<noteq> []"
  shows "length (case dropWhile (\<lambda>c. c \<noteq> NL) (dropWhile is_blank p) of [] \<Rightarrow> [] | _ # r \<Rightarrow> r) < length p"
proof -
  let ?q = "dropWhile is_blank p"
  have "length (case dropWhile (\<lambda>c. c \<noteq> NL) ?q of [] \<Rightarrow> [] | _ # r \<Rightarrow> r) < length ?q"
    using assms length_dropWhile_le [of "\<lambda>c. c \<noteq> NL" ?q] by (auto split: list.split)
  with length_dropWhile_le [of is_blank p] show ?thesis by simp
qed

function format_loop :: "char \<Rightarrow> nat \<Rightarrow> int \<Rightarrow> string \<Rightarrow> fmt_buf \<Rightarrow> fmt_buf" where
  "format_loop pad width indent_level p b =
     (if p = [] then b
      else
        (let p = dropWhile is_blank p
         in if p = [] then b
            else
              (let rest = dropWhile (\<lambda>c. c \<noteq> NL) p;
                   b = fb_int (int (length (takeWhile (\<lambda>c. c \<noteq> NL) p))) b;
                   line = trim_right (takeWhile (\<lambda>c. c \<noteq> NL) p);
                   rest = (case rest of [] \<Rightarrow> [] | _ # r \<Rightarrow> r)
               in if line = [] then format_loop pad width indent_level rest (put_empty_line b)
                  else
                    (let spaces = eff_indent indent_level line * width;
                         b = put_line pad spaces line (fb_int (int spaces) b);
                         b = fb_int (indent_level + net_braces line) b
                     in format_loop pad width (next_level indent_level line) rest b))))"
  by pat_completeness auto

termination
  by (relation "measure (\<lambda>(pad, width, level, p, b). length p)") (simp_all add: format_rest_less)

declare format_loop.simps [simp del]

definition fmt_width :: "FormatterConfig \<Rightarrow> nat" where
  "fmt_width config = (if 0 < indent_width config then nat (indent_width config) else 4)"

definition fmt_pad :: "FormatterConfig \<Rightarrow> char" where
  "fmt_pad config = (if use_tabs config then TAB else SPACE)"

definition format_buf :: "string \<Rightarrow> FormatterConfig \<Rightarrow> fmt_buf" where
  "format_buf source config =
     format_loop (fmt_pad config) (fmt_width config) 0 source
       (fb_terminate \<lparr>fb_text = [], fb_cap = length source * 2 + 256, fb_oob = False, fb_overflow = False\<rparr>)"

definition format_jaguar_source :: "string option \<Rightarrow> FormatterConfig \<Rightarrow> string" where
  "format_jaguar_source source config =
     (case source of None \<Rightarrow> [] | Some s \<Rightarrow> fb_text (format_buf (cstr s) config))"

text \<open>
  \<^verbatim>\<open>jag_fmt_file\<close>, on the contents of the file (\<open>None\<close> if it cannot be opened) and on whether
  it can be opened for writing: the exit code, what is printed, and what is written back.
\<close>

definition jag_fmt_file ::
  "string \<Rightarrow> string option \<Rightarrow> bool \<Rightarrow> bool \<Rightarrow> bool \<Rightarrow> FormatterConfig \<Rightarrow> nat \<times> string \<times> string option" where
  "jag_fmt_file filepath contents writable check_only write_in_place config =
     (case contents of
        None \<Rightarrow> (1, [], None)
      | Some buf \<Rightarrow>
          (let formatted = format_jaguar_source (Some buf) config;
               is_diff = (cstr buf \<noteq> formatted)
           in if check_only then
                (if is_diff then 1 else 0,
                 if is_diff then filepath @ '': requires formatting'' @ [NL] else [], None)
              else if write_in_place then
                (if is_diff \<and> writable then (0, filepath @ '': formatted'' @ [NL], Some formatted) else (0, [], None))
              else (0, formatted, None)))"

section \<open>The lines of a source\<close>

text \<open>The lines that the loop of the formatter goes through.\<close>

function contents :: "string \<Rightarrow> string list" where
  "contents p =
     (let q = dropWhile is_blank p
      in if q = [] then []
         else trim_right (takeWhile (\<lambda>c. c \<noteq> NL) q) #
              contents (case dropWhile (\<lambda>c. c \<noteq> NL) q of [] \<Rightarrow> [] | _ # r \<Rightarrow> r))"
  by pat_completeness auto
termination
  by (relation "measure length") (simp_all add: format_rest_less)

declare contents.simps [simp del]

text \<open>The layout of a list of lines.\<close>

fun render :: "char \<Rightarrow> nat \<Rightarrow> int \<Rightarrow> string list \<Rightarrow> string" where
  "render pad width level [] = []"
| "render pad width level (l # ls) =
     (if l = [] then NL # render pad width level ls
      else replicate (eff_indent level l * width) pad @ l @ NL #
           render pad width (next_level level l) ls)"

lemma contents_Nil [simp]: "contents [] = []"
  by (subst contents.simps) simp

lemma fb_int_text [simp]:
  "fb_text (fb_int n b) = fb_text b" "fb_cap (fb_int n b) = fb_cap b" "fb_oob (fb_int n b) = fb_oob b"
  by (simp_all add: fb_int_def)

lemma put_empty_text [simp]: "fb_text (put_empty_line b) = fb_text b @ [NL]"
  by (simp add: put_empty_line_def fb_terminate_def fb_put_def Let_def)

lemma put_line_text [simp]: "fb_text (put_line pad n l b) = fb_text b @ replicate n pad @ l @ [NL]"
  by (simp add: put_line_def fb_terminate_def fb_put_def fb_reserve_def Let_def)

lemma format_loop_text:
  "fb_text (format_loop pad width level p b) = fb_text b @ render pad width level (contents p)"
proof (induction pad width level p b rule: format_loop.induct)
  case (1 pad width level p b)
  show ?case
  proof (cases "dropWhile is_blank p = []")
    case True
    then show ?thesis by (simp add: format_loop.simps [of pad width level p] contents.simps [of p] Let_def)
  next
    case False
    then have "p \<noteq> []" by auto
    with False "1.IH" show ?thesis
      by (simp add: format_loop.simps [of pad width level p] contents.simps [of p] Let_def)
  qed
qed

end
