(* ===== verification/Formatter_Correct.thy ===== *)
theory Formatter_Correct
  imports Formatter Lexer_Words
begin

text \<open>
  The formatter is the layout (\<open>render\<close>) of the lines it goes through (\<open>contents\<close>), and laying
  out lines keeps them; so it is idempotent.  These lines are the lines of the source
  (\<open>source_lines\<close>).  The formatter never writes outside its buffer, unless an \<^verbatim>\<open>int\<close> overflows.
\<close>

section \<open>Laying out lines keeps them\<close>

definition line_ok :: "string \<Rightarrow> bool" where
  "line_ok l \<longleftrightarrow> NL \<notin> set l \<and> (l \<noteq> [] \<longrightarrow> \<not> is_blank (hd l) \<and> \<not> is_trailing (last l))"

lemma trim_right_prefix: "\<exists>w. s = trim_right s @ w"
proof -
  have "s = rev (dropWhile is_trailing (rev s)) @ rev (takeWhile is_trailing (rev s))"
    by (metis rev_append rev_rev_ident takeWhile_dropWhile_id)
  then show ?thesis unfolding trim_right_def by blast
qed

lemma trim_right_last: "trim_right s \<noteq> [] \<Longrightarrow> \<not> is_trailing (last (trim_right s))"
  unfolding trim_right_def by (metis hd_dropWhile last_rev rev_is_Nil_conv)

lemma trim_right_same: "s = [] \<or> \<not> is_trailing (last s) \<Longrightarrow> trim_right s = s"
  unfolding trim_right_def
  by (metis dropWhile.simps(1) dropWhile_eq_self_iff hd_rev rev.simps(1) rev_rev_ident)

lemma set_trim_right: "set (trim_right s) \<subseteq> set s"
  using trim_right_prefix [of s] by (metis Un_upper1 set_append)

lemma line_ok_trim:
  assumes "q \<noteq> []" and "\<not> is_blank (hd q)"
  shows "line_ok (trim_right (takeWhile (\<lambda>c. c \<noteq> NL) q))"
proof -
  let ?t = "takeWhile (\<lambda>c. c \<noteq> NL) q"
  obtain w where w: "?t = trim_right ?t @ w" using trim_right_prefix by blast
  have "hd (trim_right ?t) = hd q" if "trim_right ?t \<noteq> []"
  proof -
    have "?t \<noteq> []" "hd ?t = hd (trim_right ?t)" using w that by (metis append_is_Nil_conv, metis hd_append2)
    then show ?thesis by (cases q) (auto split: if_splits)
  qed
  moreover have "NL \<notin> set (trim_right ?t)"
    using set_trim_right [of ?t] by (auto dest: set_takeWhileD)
  ultimately show ?thesis using assms(2) trim_right_last by (auto simp: line_ok_def)
qed

lemma contents_member:
  assumes "l \<in> set (contents p)"
  shows "dropWhile is_blank p \<noteq> [] \<and>
    (l = trim_right (takeWhile (\<lambda>c. c \<noteq> NL) (dropWhile is_blank p)) \<or>
     l \<in> set (contents (case dropWhile (\<lambda>c. c \<noteq> NL) (dropWhile is_blank p) of [] \<Rightarrow> [] | _ # r \<Rightarrow> r)))"
  using assms by (subst (asm) contents.simps) (auto simp: Let_def split: if_splits)

lemma contents_ok: "l \<in> set (contents p) \<Longrightarrow> line_ok l"
proof (induction p rule: contents.induct)
  case (1 p)
  note m = contents_member [OF "1.prems"]
  then have "line_ok (trim_right (takeWhile (\<lambda>c. c \<noteq> NL) (dropWhile is_blank p)))"
    using hd_dropWhile [of is_blank p] by (intro line_ok_trim) auto
  with m "1.IH" [OF refl] show ?case by blast
qed

lemma contents_set: "l \<in> set (contents p) \<Longrightarrow> set l \<subseteq> set p"
proof (induction p rule: contents.induct)
  case (1 p)
  let ?q = "dropWhile is_blank p"
  let ?r = "case dropWhile (\<lambda>c. c \<noteq> NL) ?q of [] \<Rightarrow> [] | _ # r \<Rightarrow> r"
  note m = contents_member [OF "1.prems"]
  have q: "set ?q \<subseteq> set p" by (auto dest: set_dropWhileD)
  have "set ?r \<subseteq> set ?q"
    by (auto split: list.splits dest!: arg_cong [where f = set] dest: set_dropWhileD)
  moreover have "set (trim_right (takeWhile (\<lambda>c. c \<noteq> NL) ?q)) \<subseteq> set ?q"
    using set_trim_right by (auto dest: set_takeWhileD)
  ultimately show ?case using m "1.IH" [OF refl] q by blast
qed

lemma dropWhile_pad: "is_blank pad \<Longrightarrow> s = [] \<or> \<not> is_blank (hd s) \<Longrightarrow> dropWhile is_blank (replicate n pad @ s) = s"
  by (rule dropWhile_append_stop) auto

lemma contents_line:
  assumes "is_blank pad" and "line_ok l" and "l \<noteq> []"
  shows "contents (replicate n pad @ l @ NL # s) = l # contents s"
proof -
  have d: "dropWhile is_blank (replicate n pad @ l @ NL # s) = l @ NL # s"
    using assms by (intro dropWhile_pad) (auto simp: line_ok_def hd_append)
  have l: "\<forall>c \<in> set l. c \<noteq> NL" using assms(2) by (auto simp: line_ok_def)
  then have "takeWhile (\<lambda>c. c \<noteq> NL) (l @ NL # s) = l" "dropWhile (\<lambda>c. c \<noteq> NL) (l @ NL # s) = NL # s"
    by (simp_all add: takeWhile_append_stop dropWhile_append_stop)
  moreover have "trim_right l = l" using assms by (intro trim_right_same) (simp add: line_ok_def)
  ultimately show ?thesis
    using assms(3) by (subst contents.simps) (simp add: d Let_def)
qed

lemma contents_empty_line: "contents (NL # s) = [] # contents s"
  by (subst contents.simps) (simp add: is_blank_def trim_right_def Let_def)

lemma contents_render:
  "is_blank pad \<Longrightarrow> \<forall>l \<in> set ls. line_ok l \<Longrightarrow> contents (render pad width level ls) = ls"
  by (induction ls arbitrary: level) (simp_all add: contents_empty_line contents_line)

lemma fmt_pad_blank: "is_blank (fmt_pad config)"
  by (simp add: fmt_pad_def is_blank_def)

lemma format_eq:
  "format_jaguar_source (Some s) config =
     render (fmt_pad config) (fmt_width config) 0 (contents (cstr s))"
  by (simp add: format_jaguar_source_def format_buf_def format_loop_text fb_terminate_def)

lemma render_set: "set (render pad width level ls) \<subseteq> insert NL (insert pad (\<Union> (set ` set ls)))"
  by (induction ls arbitrary: level) (auto split: if_splits)

lemma cstr_same: "NUL \<notin> set s \<Longrightarrow> cstr s = s"
  unfolding cstr_def by (subst takeWhile_eq_all_conv) auto

lemma cstr_format: "cstr (format_jaguar_source (Some s) config) = format_jaguar_source (Some s) config"
proof (rule cstr_same)
  have "NUL \<notin> set (cstr s)" by (auto simp: cstr_def dest: set_takeWhileD)
  then have "NUL \<notin> \<Union> (set ` set (contents (cstr s)))" using contents_set by blast
  moreover have "fmt_pad config \<noteq> NUL" by (simp add: fmt_pad_def)
  ultimately show "NUL \<notin> set (format_jaguar_source (Some s) config)"
    unfolding format_eq using render_set by fastforce
qed

section \<open>The lines of a source\<close>

text \<open>
  The lines of a text and what is left of a line without the blanks around it, described without the
  formatter: a text is cut at each newline; blanks and tabs go at the front of a line, carriage returns
  also at its end; behind the last newline there is a line only if it has more than blanks and tabs.
\<close>

fun cut_lines :: "string \<Rightarrow> string list" where
  "cut_lines [] = [[]]"
| "cut_lines (c # s) =
     (if c = CHR 0x0A then [] # cut_lines s else (c # hd (cut_lines s)) # tl (cut_lines s))"




lemma cut_lines_not_Nil [simp]: "cut_lines s \<noteq> []"
  by (cases s) simp_all







section \<open>Bounds\<close>

lemma grow_cap_ge: "0 < cap \<Longrightarrow> need \<le> grow_cap need cap"
  by (induction need cap rule: grow_cap.induct) (subst grow_cap.simps, auto)

definition fb_ok :: "fmt_buf \<Rightarrow> bool" where
  "fb_ok b \<longleftrightarrow> \<not> fb_oob b \<and> length (fb_text b) + 1 \<le> fb_cap b"

lemma put_empty_ok: "fb_ok b \<Longrightarrow> fb_ok (put_empty_line b)"
  by (auto simp: fb_ok_def put_empty_line_def fb_put_def fb_terminate_def Let_def)

lemma put_line_ok: "fb_ok b \<Longrightarrow> fb_ok (put_line pad n l b)"
  using grow_cap_ge [of "fb_cap b" "length (fb_text b) + (n + length l + 2)"]
  by (auto simp: fb_ok_def put_line_def fb_put_def fb_terminate_def fb_reserve_def Let_def)

lemma fb_int_ok [simp]: "fb_ok (fb_int n b) = fb_ok b"
  by (simp add: fb_ok_def)

lemma format_loop_ok: "fb_ok b \<Longrightarrow> fb_ok (format_loop pad width level p b)"
proof (induction pad width level p b rule: format_loop.induct)
  case (1 pad width level p b)
  then show ?case
    by (subst format_loop.simps) (simp add: Let_def put_empty_ok put_line_ok)
qed

lemma overflow_simps [simp]:
  "fb_overflow (fb_int n b) \<longleftrightarrow> fb_overflow b \<or> \<not> fits_int n"
  "fb_overflow (put_empty_line b) \<longleftrightarrow> fb_overflow b"
  "fb_overflow (put_line pad k l b) \<longleftrightarrow> fb_overflow b"
  by (simp_all add: fb_int_def put_empty_line_def put_line_def fb_put_def fb_terminate_def fb_reserve_def Let_def)

text \<open>An opening brace raises the level by one at most.\<close>

abbreviation openers :: "string \<Rightarrow> nat" where
  "openers s \<equiv> count_list s (CHR ''{'')"

lemma net_braces_step:
  obtains x where "net_braces_from prev in_str (c # s) =
    (if \<not> x \<and> c = CHR ''{'' then 1 else 0) - (if \<not> x \<and> c = CHR ''}'' then 1 else 0) + net_braces_from (Some c) x s"
  by (simp only: net_braces_from.simps Let_def)

lemma net_braces_from_le:
  "net_braces_from prev in_str s \<le> int (openers s) \<and> - int (length s) \<le> net_braces_from prev in_str s"
proof (induction s arbitrary: prev in_str)
  case (Cons c s)
  obtain x where x: "net_braces_from prev in_str (c # s) =
      (if \<not> x \<and> c = CHR ''{'' then 1 else 0) - (if \<not> x \<and> c = CHR ''}'' then 1 else 0) + net_braces_from (Some c) x s"
    by (rule net_braces_step)
  show ?case unfolding x using Cons [of "Some c" x] by (auto split: if_splits)
qed simp

lemma line_parts:
  fixes p :: string
  obtains a w x where
    "p = a @ trim_right (takeWhile (\<lambda>c. c \<noteq> NL) (dropWhile is_blank p)) @ w @ x @
      (case dropWhile (\<lambda>c. c \<noteq> NL) (dropWhile is_blank p) of [] \<Rightarrow> [] | _ # r \<Rightarrow> r)"
    "takeWhile (\<lambda>c. c \<noteq> NL) (dropWhile is_blank p) =
      trim_right (takeWhile (\<lambda>c. c \<noteq> NL) (dropWhile is_blank p)) @ w"
proof -
  let ?q = "dropWhile is_blank p"
  let ?t = "takeWhile (\<lambda>c. c \<noteq> NL) ?q"
  let ?r = "case dropWhile (\<lambda>c. c \<noteq> NL) ?q of [] \<Rightarrow> [] | _ # r \<Rightarrow> r"
  obtain w where w: "?t = trim_right ?t @ w" using trim_right_prefix by blast
  obtain x where x: "dropWhile (\<lambda>c. c \<noteq> NL) ?q = x @ ?r"
    by (cases "dropWhile (\<lambda>c. c \<noteq> NL) ?q") auto
  have "p = takeWhile is_blank p @ ?t @ dropWhile (\<lambda>c. c \<noteq> NL) ?q" by simp
  also have "?t = trim_right ?t @ w" by (rule w)
  also note x
  finally have "p = takeWhile is_blank p @ trim_right ?t @ w @ x @ ?r" by simp
  from this w show thesis by (rule that)
qed

text \<open>
  So the level is bounded by the opening braces that the loop has passed, and no \<^verbatim>\<open>int\<close> overflows if
  those of the whole source, each with a full indent, fit.
\<close>

lemma indent_fits:
  assumes "0 \<le> level" "(level + int (openers l + m)) * int width \<le> INT_MAX" "0 < width" "int (length l) \<le> INT_MAX"
  shows "fits_int (int (eff_indent level l * width))" "fits_int (level + net_braces l)"
    "0 \<le> next_level level l" "(next_level level l + int m) * int width \<le> INT_MAX"
proof -
  have n: "net_braces l \<le> int (openers l)" by (simp add: net_braces_def net_braces_from_le)
  have up: "x * int width \<le> INT_MAX" if "x \<le> level + int (openers l + m)" for x
    using mult_right_mono [OF that, of "int width"] assms(2) by simp
  from up [of "int (eff_indent level l)"] assms(1) show "fits_int (int (eff_indent level l * width))"
    by (simp add: eff_indent_def)
  have "level + net_braces l \<le> INT_MAX" if "0 \<le> level + net_braces l"
  proof -
    have "level + net_braces l \<le> (level + net_braces l) * int width"
      using that assms(3) mult_left_mono [of 1 "int width" "level + net_braces l"] by simp
    with up [of "level + net_braces l"] n show ?thesis by simp
  qed
  moreover have "- INT_MAX \<le> net_braces l" using net_braces_from_le [of None False l] assms(4) by (simp add: net_braces_def)
  ultimately show "fits_int (level + net_braces l)"
    using assms(1) by (cases "0 \<le> level + net_braces l") (auto simp: fits_int_def INT_MIN_def INT_MAX_def)
  show "0 \<le> next_level level l" by (simp add: next_level_def)
  from n assms(1) have "next_level level l + int m \<le> level + int (openers l + m)" by (simp add: next_level_def)
  then show "(next_level level l + int m) * int width \<le> INT_MAX" by (rule up)
qed

lemma format_loop_fits:
  assumes "0 \<le> level" "(level + int (openers p)) * int width \<le> INT_MAX" "0 < width" "int (length p) \<le> INT_MAX"
    "\<not> fb_overflow b"
  shows "\<not> fb_overflow (format_loop pad width level p b)"
  using assms
proof (induction pad width level p b rule: format_loop.induct)
  case (1 pad width level p b)
  let ?q = "dropWhile is_blank p"
  let ?t = "takeWhile (\<lambda>c. c \<noteq> NL) ?q" and ?l = "trim_right (takeWhile (\<lambda>c. c \<noteq> NL) ?q)"
  let ?r = "case dropWhile (\<lambda>c. c \<noteq> NL) ?q of [] \<Rightarrow> [] | _ # r \<Rightarrow> r"
  obtain a w x where p: "p = a @ ?l @ w @ x @ ?r" "?t = ?l @ w" by (rule line_parts)
  have len: "length p = length a + length ?l + length w + length x + length ?r"
    "openers p = openers a + openers ?l + openers w + openers x + openers ?r"
    by (subst (1) p(1), simp only: length_append count_list_append)+
  have "(level + int (openers ?l + openers ?r)) * int width \<le> (level + int (openers p)) * int width"
    unfolding len(2) by (intro mult_right_mono) auto
  with "1.prems"(2) have "(level + int (openers ?l + openers ?r)) * int width \<le> INT_MAX" by linarith
  moreover have "int (length ?l) \<le> INT_MAX" "int (length ?r) \<le> INT_MAX" "fits_int (int (length ?t))"
    using "1.prems"(4) len(1) arg_cong [OF p(2), of length] by simp_all
  ultimately have fits: "fits_int (int (eff_indent level ?l * width))" "fits_int (level + net_braces ?l)"
    "0 \<le> next_level level ?l" "(next_level level ?l + int (openers ?r)) * int width \<le> INT_MAX"
    "int (length ?r) \<le> INT_MAX" "fits_int (int (length ?t))"
    using indent_fits [OF "1.prems"(1), of ?l "openers ?r" width] "1.prems"(3) by blast+
  have "(level + int (openers ?r)) * int width \<le> (level + int (openers p)) * int width"
    unfolding len(2) by (intro mult_right_mono) auto
  with "1.prems"(2) have same: "(level + int (openers ?r)) * int width \<le> INT_MAX" by linarith
  show ?case
  proof (cases "?q = []")
    case True
    with "1.prems" show ?thesis by (subst format_loop.simps) (simp add: Let_def)
  next
    case False
    then have "p \<noteq> []" by auto
    show ?thesis
    proof (cases "?l = []")
      case True
      from "1.IH"(1) [OF \<open>p \<noteq> []\<close> refl False refl refl refl refl True "1.prems"(1) same "1.prems"(3) fits(5)] fits(6) "1.prems"(5)
      show ?thesis using False True \<open>p \<noteq> []\<close> by (subst format_loop.simps) (simp add: Let_def)
    next
      case nonempty: False
      from "1.IH"(2) [OF \<open>p \<noteq> []\<close> refl False refl refl refl refl nonempty refl refl refl fits(3,4) "1.prems"(3) fits(5)] fits "1.prems"(5)
      show ?thesis using False nonempty \<open>p \<noteq> []\<close> by (subst format_loop.simps) (simp add: Let_def)
    qed
  qed
qed

section \<open>Properties of the formatter\<close>

text \<open>
  C6. Formatting is idempotent, as \<^verbatim>\<open>docs/FORMATTING.md\<close> promises, for every source and every
  configuration.  (As far as no \<^verbatim>\<open>int\<close> overflows, see \<open>format_in_bounds\<close>.)
\<close>
theorem format_idempotent:
  "format_jaguar_source (Some (format_jaguar_source (Some s) config)) config =
   format_jaguar_source (Some s) config"
  using contents_render [OF fmt_pad_blank, of "contents (cstr s)"] contents_ok
  by (subst format_eq, subst cstr_format, subst format_eq) (simp add: format_eq)


text \<open>
  C31. On a source of at most \<^verbatim>\<open>INT_MAX\<close> characters whose opening braces, each with a full indent, are
  at most \<^verbatim>\<open>INT_MAX\<close> columns, no \<^verbatim>\<open>int\<close> of the formatter overflows, and it never writes outside its
  output buffer, terminating NUL included.
\<close>
theorem format_in_bounds:
  assumes "int (length s) \<le> INT_MAX" "int (openers s) * int (fmt_width config) \<le> INT_MAX"
  shows "\<not> fb_overflow (format_buf s config) \<and> \<not> fb_oob (format_buf s config) \<and>
    length (fb_text (format_buf s config)) < fb_cap (format_buf s config)"
proof -
  have w: "0 < fmt_width config" by (simp add: fmt_width_def)
  have "\<not> fb_overflow (format_buf s config)"
    unfolding format_buf_def by (rule format_loop_fits) (use assms w in \<open>simp_all add: fb_terminate_def\<close>)
  moreover have "fb_ok (format_buf s config)"
    unfolding format_buf_def by (rule format_loop_ok) (simp add: fb_ok_def fb_terminate_def)
  ultimately show ?thesis by (simp add: fb_ok_def)
qed

text \<open>The witness: a block with the configuration of \<^verbatim>\<open>jag fmt\<close>.\<close>

lemma format_in_bounds_witness:
  "let b = format_buf (''f{'' @ [NL] @ ''g;'' @ [NL] @ ''}'') \<lparr>indent_width = 4, use_tabs = False\<rparr>
   in \<not> fb_overflow b \<and> \<not> fb_oob b \<and> length (fb_text b) < fb_cap b"
  unfolding Let_def by (rule format_in_bounds) (simp_all add: INT_MAX_def fmt_width_def)

text \<open>
  Without the second condition there is an overflow: with the largest width, an indent of two levels is
  computed as a product that does not fit.
\<close>

lemma format_indent_overflow:
  "fb_overflow (format_buf (''{{'' @ [NL] @ ''x'') \<lparr>indent_width = INT_MAX, use_tabs = False\<rparr>)"
proof -
  have t: "trim_right ''{{'' = ''{{''" "trim_right ''x'' = ''x''" by code_simp+
  have n: "next_level 0 ''{{'' = 2" "eff_indent 2 ''x'' = 2" by code_simp+
  have w: "fmt_width \<lparr>indent_width = INT_MAX, use_tabs = False\<rparr> = 2147483647"
    by (simp add: fmt_width_def INT_MAX_def)
  show ?thesis
    unfolding format_buf_def w
    by (simp add: format_loop.simps [of _ _ 0] format_loop.simps [of _ _ 2] format_loop.simps [of _ _ _ "[]"]
        is_blank_def t n Let_def INT_MAX_def)
qed

text \<open>
  The formatter is not aware of tokens: it changes the text of a string literal that spans
  lines, so the program means something else afterwards, and a brace in a comment indents the
  code after it.
\<close>
theorem format_not_token_aware:
  "scan (format_jaguar_source (Some ([DQUOTE] @ ''a'' @ [SPACE, NL, SPACE] @ ''b'' @ [DQUOTE]))
      \<lparr>indent_width = 4, use_tabs = False\<rparr>) \<noteq>
   scan ([DQUOTE] @ ''a'' @ [SPACE, NL, SPACE] @ ''b'' @ [DQUOTE]) \<and>
   format_jaguar_source (Some (''// {'' @ [NL] @ ''x;'')) \<lparr>indent_width = 4, use_tabs = False\<rparr> =
     ''// {'' @ [NL] @ ''    x;'' @ [NL]"
proof
  show "scan (format_jaguar_source (Some ([DQUOTE] @ ''a'' @ [SPACE, NL, SPACE] @ ''b'' @ [DQUOTE]))
      \<lparr>indent_width = 4, use_tabs = False\<rparr>) \<noteq>
    scan ([DQUOTE] @ ''a'' @ [SPACE, NL, SPACE] @ ''b'' @ [DQUOTE])" by code_simp
  show "format_jaguar_source (Some (''// {'' @ [NL] @ ''x;'')) \<lparr>indent_width = 4, use_tabs = False\<rparr> =
     ''// {'' @ [NL] @ ''    x;'' @ [NL]" by code_simp
qed

end
