(* ===== verification/Diagnostics.thy ===== *)
theory Diagnostics
  imports Prelude
begin

text \<open>
  The diagnostics: \<^verbatim>\<open>include/diagnostics.h\<close> and \<^verbatim>\<open>src/diagnostics/diagnostics.c\<close>.  A bag is
  the list of its nodes, oldest first, with the three counters the C structure keeps; what
  the printing functions write is the string they return.
\<close>

section \<open>Numbers in hexadecimal\<close>

text \<open>\<^verbatim>\<open>%04x\<close> of a byte.\<close>

definition hex4 :: "nat \<Rightarrow> string" where
  "hex4 n = [CHR ''0'', CHR ''0'', digit_char (n div 16), digit_char (n mod 16)]"

section \<open>Bags\<close>

datatype DiagnosticSeverity = DIAG_SEV_ERROR | DIAG_SEV_WARNING | DIAG_SEV_INFO | DIAG_SEV_HINT

record Diagnostic =
  dg_severity :: DiagnosticSeverity
  dg_code :: string
  dg_message :: string
  dg_filename :: string
  dg_start_line :: int
  dg_start_col :: int
  dg_end_line :: int
  dg_end_col :: int
  dg_source :: string
  dg_help :: "string option"

record DiagnosticBag =
  db_nodes :: "Diagnostic list"
  db_count :: nat
  db_error_count :: nat
  db_warning_count :: nat

definition diag_bag_init :: DiagnosticBag where
  "diag_bag_init = \<lparr>db_nodes = [], db_count = 0, db_error_count = 0, db_warning_count = 0\<rparr>"

definition diag_bag_clear :: "DiagnosticBag \<Rightarrow> DiagnosticBag" where
  "diag_bag_clear bag = diag_bag_init"

definition or_default :: "string option \<Rightarrow> string \<Rightarrow> string" where
  "or_default s d = (case s of None \<Rightarrow> d | Some s \<Rightarrow> s)"

definition make_diag ::
  "DiagnosticSeverity \<Rightarrow> string option \<Rightarrow> string option \<Rightarrow> string option \<Rightarrow> int \<Rightarrow> int \<Rightarrow> int \<Rightarrow> int \<Rightarrow>
   string option \<Rightarrow> string option \<Rightarrow> Diagnostic" where
  "make_diag severity cd message filename start_line start_col end_line end_col source help =
     (let line = (if 0 < start_line then start_line else 1);
          col = (if 0 < start_col then start_col else 1)
      in \<lparr>dg_severity = severity, dg_code = or_default cd ''JAG000'',
          dg_message = or_default message [], dg_filename = or_default filename ''<stdin>'',
          dg_start_line = line, dg_start_col = col,
          dg_end_line = (if start_line \<le> end_line then end_line else line),
          dg_end_col = (if start_col \<le> end_col then end_col else col),
          dg_source = or_default source ''compiler'', dg_help = help\<rparr>)"

definition bag_append :: "Diagnostic \<Rightarrow> DiagnosticBag \<Rightarrow> DiagnosticBag" where
  "bag_append d bag =
     \<lparr>db_nodes = db_nodes bag @ [d], db_count = db_count bag + 1,
      db_error_count = db_error_count bag + (if dg_severity d = DIAG_SEV_ERROR then 1 else 0),
      db_warning_count = db_warning_count bag + (if dg_severity d = DIAG_SEV_WARNING then 1 else 0)\<rparr>"

definition diag_add ::
  "DiagnosticBag \<Rightarrow> DiagnosticSeverity \<Rightarrow> string option \<Rightarrow> string option \<Rightarrow> string option \<Rightarrow>
   int \<Rightarrow> int \<Rightarrow> int \<Rightarrow> int \<Rightarrow> string option \<Rightarrow> string option \<Rightarrow> DiagnosticBag" where
  "diag_add bag severity cd message filename start_line start_col end_line end_col source help =
     bag_append (make_diag severity cd message filename start_line start_col end_line end_col
       source help) bag"

fun sev_str :: "DiagnosticSeverity \<Rightarrow> string" where
  "sev_str DIAG_SEV_ERROR = ''error''"
| "sev_str DIAG_SEV_WARNING = ''warning''"
| "sev_str DIAG_SEV_INFO = ''info''"
| "sev_str DIAG_SEV_HINT = ''hint''"

section \<open>Printing\<close>

definition terminal_line :: "Diagnostic \<Rightarrow> string" where
  "terminal_line d =
     dg_filename d @ '':'' @ show_int (dg_start_line d) @ '':'' @ show_int (dg_start_col d) @ '': ['' @
     sev_str (dg_severity d) @ '' '' @ dg_code d @ ''] '' @ dg_message d @ [NL] @
     (case dg_help d of None \<Rightarrow> [] | Some h \<Rightarrow> ''  help: '' @ h @ [NL])"

definition diag_print_terminal :: "DiagnosticBag \<Rightarrow> string" where
  "diag_print_terminal bag = concat (map terminal_line (db_nodes bag))"

definition escape_char :: "char \<Rightarrow> string" where
  "escape_char c =
     (if c = DQUOTE then [BACKSLASH, DQUOTE]
      else if c = BACKSLASH then [BACKSLASH, BACKSLASH]
      else if c = CHR 0x08 then [BACKSLASH, CHR ''b'']
      else if c = CHR 0x0C then [BACKSLASH, CHR ''f'']
      else if c = NL then [BACKSLASH, CHR ''n'']
      else if c = CR then [BACKSLASH, CHR ''r'']
      else if c = TAB then [BACKSLASH, CHR ''t'']
      else if code c < 0x20 then [BACKSLASH, CHR ''u''] @ hex4 (code c)
      else [c])"

definition print_json_escaped :: "string option \<Rightarrow> string" where
  "print_json_escaped str =
     (case str of None \<Rightarrow> [DQUOTE, DQUOTE]
      | Some s \<Rightarrow> [DQUOTE] @ concat (map escape_char s) @ [DQUOTE])"

definition quoted :: "string \<Rightarrow> string" where
  "quoted s = [DQUOTE] @ s @ [DQUOTE]"

definition json_diag :: "Diagnostic \<Rightarrow> bool \<Rightarrow> string" where
  "json_diag d has_next =
     ''    {'' @ [NL] @
     ''      '' @ quoted ''severity'' @ '': '' @ print_json_escaped (Some (sev_str (dg_severity d))) @ '','' @ [NL] @
     ''      '' @ quoted ''code'' @ '': '' @ print_json_escaped (Some (dg_code d)) @ '','' @ [NL] @
     ''      '' @ quoted ''message'' @ '': '' @ print_json_escaped (Some (dg_message d)) @ '','' @ [NL] @
     ''      '' @ quoted ''filename'' @ '': '' @ print_json_escaped (Some (dg_filename d)) @ '','' @ [NL] @
     ''      '' @ quoted ''range'' @ '': {'' @ [NL] @
     ''        '' @ quoted ''start'' @ '': { '' @ quoted ''line'' @ '': '' @ show_int (dg_start_line d) @
       '', '' @ quoted ''column'' @ '': '' @ show_int (dg_start_col d) @ '' },'' @ [NL] @
     ''        '' @ quoted ''end'' @ '': { '' @ quoted ''line'' @ '': '' @ show_int (dg_end_line d) @
       '', '' @ quoted ''column'' @ '': '' @ show_int (dg_end_col d) @ '' }'' @ [NL] @
     ''      },'' @ [NL] @
     ''      '' @ quoted ''source'' @ '': '' @ print_json_escaped (Some (dg_source d)) @
     (case dg_help d of None \<Rightarrow> []
      | Some h \<Rightarrow> '','' @ [NL] @ ''      '' @ quoted ''help'' @ '': '' @ print_json_escaped (Some h)) @
     [NL] @ ''    }'' @ (if has_next then '','' else []) @ [NL]"

fun json_nodes :: "Diagnostic list \<Rightarrow> string" where
  "json_nodes [] = []"
| "json_nodes (d # ds) = json_diag d (ds \<noteq> []) @ json_nodes ds"

definition diag_print_json :: "DiagnosticBag \<Rightarrow> string" where
  "diag_print_json bag =
     ''{'' @ [NL] @ ''  '' @ quoted ''diagnostics'' @ '': ['' @ [NL] @ json_nodes (db_nodes bag) @
     ''  ],'' @ [NL] @ ''  '' @ quoted ''errorCount'' @ '': '' @ show_nat (db_error_count bag) @ '','' @ [NL] @
     ''  '' @ quoted ''warningCount'' @ '': '' @ show_nat (db_warning_count bag) @ [NL] @ ''}'' @ [NL]"

section \<open>The invariant of a bag\<close>

definition bag_ok :: "DiagnosticBag \<Rightarrow> bool" where
  "bag_ok bag \<longleftrightarrow>
     db_count bag = length (db_nodes bag) \<and>
     db_error_count bag = length (filter (\<lambda>d. dg_severity d = DIAG_SEV_ERROR) (db_nodes bag)) \<and>
     db_warning_count bag = length (filter (\<lambda>d. dg_severity d = DIAG_SEV_WARNING) (db_nodes bag)) \<and>
     list_all (\<lambda>d. 1 \<le> dg_start_line d \<and> 1 \<le> dg_start_col d) (db_nodes bag)"

lemma bag_ok_init: "bag_ok diag_bag_init"
  by (simp add: bag_ok_def diag_bag_init_def)

lemma make_diag_start: "1 \<le> dg_start_line (make_diag sev c m f sl sc el ec src h)"
  "1 \<le> dg_start_col (make_diag sev c m f sl sc el ec src h)"
  by (simp_all add: make_diag_def Let_def)

text \<open>A sequence of calls of \<^verbatim>\<open>diag_add\<close> on a fresh bag.\<close>

inductive bag_reachable :: "DiagnosticBag \<Rightarrow> bool" where
  init: "bag_reachable diag_bag_init"
| add: "bag_reachable bag \<Longrightarrow> bag_reachable (diag_add bag sev c m f sl sc el ec src h)"
| clear: "bag_reachable bag \<Longrightarrow> bag_reachable (diag_bag_clear bag)"

lemma bag_ok_add: "bag_ok bag \<Longrightarrow> bag_ok (diag_add bag sev c m f sl sc el ec src h)"
  using make_diag_start [of sev c m f sl sc el ec src h]
  by (simp add: bag_ok_def diag_add_def bag_append_def)

text \<open>
  Whatever is added to a bag, and however often it is cleared, its counters are the number
  of its diagnostics, of its errors and of its warnings, and every diagnostic starts at a line
  and a column of at least 1.
\<close>
theorem bag_reachable_ok: "bag_reachable bag \<Longrightarrow> bag_ok bag"
  by (induction rule: bag_reachable.induct) (simp_all add: bag_ok_init bag_ok_add diag_bag_clear_def)

theorem bag_reachable_ok_witness:
  "bag_ok (diag_add (diag_add diag_bag_init DIAG_SEV_ERROR None None None 0 0 0 0 None None)
     DIAG_SEV_HINT (Some ''JAG001'') None None 3 1 2 1 None None)"
  by (intro bag_reachable_ok bag_reachable.intros)

section \<open>JSON strings\<close>

text \<open>A reader of JSON string literals (RFC 8259), for code points of one byte.\<close>

definition hex_val :: "char \<Rightarrow> nat option" where
  "hex_val c =
     (if isdigit c then Some (code c - 48)
      else if 97 \<le> code c \<and> code c \<le> 102 then Some (code c - 87)
      else if 65 \<le> code c \<and> code c \<le> 70 then Some (code c - 55) else None)"

fun read_json :: "string \<Rightarrow> (string \<times> string) option" where
  "read_json [] = None"
| "read_json (c # s) =
     (if c = DQUOTE then Some ([], s)
      else if c = BACKSLASH then
        (case s of
           [] \<Rightarrow> None
         | e # s \<Rightarrow>
             (let one = (\<lambda>x. map_option (\<lambda>(v, r). (x # v, r)) (read_json s))
              in if e = DQUOTE \<or> e = BACKSLASH \<or> e = CHR ''/'' then one e
                 else if e = CHR ''b'' then one (CHR 0x08)
                 else if e = CHR ''f'' then one (CHR 0x0C)
                 else if e = CHR ''n'' then one NL
                 else if e = CHR ''r'' then one CR
                 else if e = CHR ''t'' then one TAB
                 else if e = CHR ''u'' then
                   (case s of
                      h1 # h2 # h3 # h4 # s' \<Rightarrow>
                        (case (hex_val h1, hex_val h2, hex_val h3, hex_val h4) of
                           (Some 0, Some 0, Some a, Some b) \<Rightarrow>
                             map_option (\<lambda>(v, r). (char_of (16 * a + b) # v, r)) (read_json s')
                         | _ \<Rightarrow> None)
                    | _ \<Rightarrow> None)
                 else None))
      else if code c < 0x20 then None
      else map_option (\<lambda>(v, r). (c # v, r)) (read_json s))"

lemma hex_val_digit_char: "d < 16 \<Longrightarrow> hex_val (digit_char d) = Some d"
  by (auto simp: hex_val_def digit_char_def isdigit_def code_def)

lemma hex_val_0 [simp]: "hex_val (CHR ''0'') = Some 0"
  by (simp add: hex_val_def isdigit_def code_def)

lemma char_of_code: "char_of (code c) = c"
  by (simp add: code_def)

lemma code_quotes: "code DQUOTE = 34" "code BACKSLASH = 92"
  by (simp_all add: code_def)

lemma read_escaped_char:
  "read_json (escape_char c @ s) = map_option (\<lambda>(v, r). (c # v, r)) (read_json s)"
proof (cases "code c < 32 \<and> c \<noteq> CHR 0x08 \<and> c \<noteq> CHR 0x0C \<and> c \<noteq> NL \<and> c \<noteq> CR \<and> c \<noteq> TAB")
  case True
  have "c \<noteq> DQUOTE" "c \<noteq> BACKSLASH" by (rule notI, use True in \<open>simp add: code_quotes\<close>)+
  then have e: "escape_char c = [BACKSLASH, CHR ''u''] @ hex4 (code c)"
    using True by (simp add: escape_char_def)
  have "code c < 16 * 16" using True by linarith
  then have "code c div 16 < 16" by (rule less_mult_imp_div_less)
  then have "hex_val (digit_char (code c div 16)) = Some (code c div 16)"
      "hex_val (digit_char (code c mod 16)) = Some (code c mod 16)"
    by (simp_all add: hex_val_digit_char)
  then show ?thesis by (simp add: e hex4_def char_of_code)
next
  case False
  then consider "c \<in> {DQUOTE, BACKSLASH, CHR 0x08, CHR 0x0C, NL, CR, TAB}"
    | "c \<notin> {DQUOTE, BACKSLASH, CHR 0x08, CHR 0x0C, NL, CR, TAB}" "\<not> code c < 32" by blast
  then show ?thesis
  proof cases
    case 1
    then show ?thesis by (elim insertE) (simp_all add: escape_char_def)
  next
    case 2
    then have "escape_char c = [c]" by (simp add: escape_char_def)
    with 2 show ?thesis by simp
  qed
qed

text \<open>
  C26. What is printed for a string is a JSON string literal that reads back as that string,
  with nothing left over, whatever bytes it holds.
\<close>
theorem json_escaped_roundtrip:
  "\<exists>lit. print_json_escaped (Some s) = DQUOTE # lit \<and> read_json (lit @ rest) = Some (s, rest)"
proof -
  have "read_json (concat (map escape_char s) @ [DQUOTE] @ rest) = Some (s, rest)"
    by (induction s) (simp_all add: read_escaped_char)
  then show ?thesis by (simp add: print_json_escaped_def)
qed

end
