(* ===== verification/Linter.thy ===== *)
theory Linter
  imports Ast Diagnostics
begin

text \<open>
  The linter: \<^verbatim>\<open>include/linter.h\<close> and \<^verbatim>\<open>src/linter/linter.c\<close>.  The bag the caller passes
  may be NULL, for which \<^verbatim>\<open>diag_add\<close> takes the global one; a pair of the two is passed in and
  returned.
\<close>

type_synonym bags = "DiagnosticBag option \<times> DiagnosticBag"

definition add_to :: "Diagnostic \<Rightarrow> bags \<Rightarrow> bags" where
  "add_to d bags =
     (case bags of
        (Some bag, global) \<Rightarrow> (Some (bag_append d bag), global)
      | (None, global) \<Rightarrow> (None, bag_append d global))"

definition jag001 :: "string option \<Rightarrow> nat \<Rightarrow> Diagnostic" where
  "jag001 filename line =
     make_diag DIAG_SEV_WARNING (Some ''JAG001'')
       (Some (''Variable name 'l' is easily confused with '1' or 'I'' @ [CHR 0x27])) filename
       (int line) 1 (int line) 10 (Some ''linter'') (Some ''Consider choosing a clearer variable name'')"

primrec check_stmt_lint :: "string option \<Rightarrow> stmt \<Rightarrow> bags \<Rightarrow> bags" where
  "check_stmt_lint fn (S_VARDECL line name _ _ _) =
     (\<lambda>bags. if length name = 1 \<and> hd name = CHR ''l'' then add_to (jag001 fn line) bags else bags)"
| "check_stmt_lint fn (S_BLOCK _ ss) = (\<lambda>bags. fold id (map (check_stmt_lint fn) ss) bags)"
| "check_stmt_lint fn (S_IF _ _ then_b _ else_b) =
     (\<lambda>bags. (case map_option (check_stmt_lint fn) else_b of None \<Rightarrow> id | Some f \<Rightarrow> f)
               (check_stmt_lint fn then_b bags))"
| "check_stmt_lint fn (S_EXPR _ _) = id"
| "check_stmt_lint fn (S_LOOP_WHILE _ _ _) = id"
| "check_stmt_lint fn (S_DO_WHILE _ _ _) = id"
| "check_stmt_lint fn (S_FOR_IN _ _ _ _ _) = id"
| "check_stmt_lint fn (S_ITERATE _ _ _ _) = id"
| "check_stmt_lint fn (S_FUN_DECL _ _ _ _ _ _) = id"
| "check_stmt_lint fn (S_RETURN _ _) = id"
| "check_stmt_lint fn (S_CLASS _ _ _ _ _) = id"
| "check_stmt_lint fn (S_ENUM _ _ _) = id"
| "check_stmt_lint fn (S_STRUCT _ _ _) = id"
| "check_stmt_lint fn (S_IMPORT _ _) = id"
| "check_stmt_lint fn (S_EXPORT _ _) = id"
| "check_stmt_lint fn (S_TRY_CATCH _ _ _ _) = id"
| "check_stmt_lint fn (S_BREAK _) = id"
| "check_stmt_lint fn (S_CONTINUE _) = id"

definition bag_count :: "bags \<Rightarrow> int" where
  "bag_count bags = (case fst bags of None \<Rightarrow> 0 | Some bag \<Rightarrow> int (db_count bag))"

definition lint_program :: "stmt list \<Rightarrow> string option \<Rightarrow> bags \<Rightarrow> bool \<Rightarrow> int \<times> bags" where
  "lint_program ss filename bags fix_flag =
     (let bags' = fold id (map (check_stmt_lint filename) ss) bags
      in (bag_count bags' - bag_count bags, bags'))"

section \<open>What the linter reports\<close>

text \<open>The lines of the declarations of a variable \<^verbatim>\<open>l\<close> the linter gets to, in order.\<close>

primrec ambiguous :: "stmt \<Rightarrow> nat list" where
  "ambiguous (S_VARDECL line name _ _ _) = (if name = ''l'' then [line] else [])"
| "ambiguous (S_BLOCK _ ss) = concat (map ambiguous ss)"
| "ambiguous (S_IF _ _ then_b _ else_b) =
     ambiguous then_b @ (case map_option ambiguous else_b of None \<Rightarrow> [] | Some ls \<Rightarrow> ls)"
| "ambiguous (S_EXPR _ _) = []"
| "ambiguous (S_LOOP_WHILE _ _ _) = []"
| "ambiguous (S_DO_WHILE _ _ _) = []"
| "ambiguous (S_FOR_IN _ _ _ _ _) = []"
| "ambiguous (S_ITERATE _ _ _ _) = []"
| "ambiguous (S_FUN_DECL _ _ _ _ _ _) = []"
| "ambiguous (S_RETURN _ _) = []"
| "ambiguous (S_CLASS _ _ _ _ _) = []"
| "ambiguous (S_ENUM _ _ _) = []"
| "ambiguous (S_STRUCT _ _ _) = []"
| "ambiguous (S_IMPORT _ _) = []"
| "ambiguous (S_EXPORT _ _) = []"
| "ambiguous (S_TRY_CATCH _ _ _ _) = []"
| "ambiguous (S_BREAK _) = []"
| "ambiguous (S_CONTINUE _) = []"

lemma name_l: "length name = 1 \<and> hd name = CHR ''l'' \<longleftrightarrow> name = ''l''"
  by (cases name) auto

lemma fold_append: "fold f (xs @ ys) b = fold f ys (fold f xs b)"
  by simp

lemma lint_stmt:
  "(e :: expr) = e \<and> (p :: strpart) = p \<and>
   check_stmt_lint fn s = fold (\<lambda>l. add_to (jag001 fn l)) (ambiguous s)"
proof (induction rule: expr_strpart_stmt.induct)
  case (S_BLOCK l ss)
  then have "fold id (map (check_stmt_lint fn) ss) bags =
      fold (\<lambda>l. add_to (jag001 fn l)) (concat (map ambiguous ss)) bags" for bags
    by (induction ss arbitrary: bags) simp_all
  then show ?case by (simp add: fun_eq_iff)
next
  case (S_IF l c t elifs el)
  then show ?case by (cases el) (auto intro!: ext)
next
  case (S_VARDECL l name ty ini fx)
  then show ?case using name_l [of name] by (auto simp: fun_eq_iff)
qed (simp_all add: fun_eq_iff)

lemma lint_fold:
  "fold id (map (check_stmt_lint fn) ss) bags =
   fold (\<lambda>l. add_to (jag001 fn l)) (concat (map ambiguous ss)) bags"
  using lint_stmt by (induction ss arbitrary: bags) simp_all

lemma append_fold:
  "fold (\<lambda>l. add_to (jag001 fn l)) ls (Some bag, g) =
     (Some \<lparr>db_nodes = db_nodes bag @ map (jag001 fn) ls, db_count = db_count bag + length ls,
        db_error_count = db_error_count bag, db_warning_count = db_warning_count bag + length ls\<rparr>, g)"
  by (induction ls arbitrary: bag)
    (simp_all add: add_to_def bag_append_def jag001_def make_diag_def Let_def)

section \<open>The declarations that it reaches, and the warning\<close>

text \<open>
  Described without the visitor: \<open>stmt_at s p t\<close> says that \<open>t\<close> stands in \<open>s\<close> at the path \<open>p\<close>, which counts
  the statements of a block and the two branches of an \<^verbatim>\<open>if\<close>.  Paths in lexicographic order are in the
  order of the program text.
\<close>

inductive stmt_at :: "stmt \<Rightarrow> nat list \<Rightarrow> stmt \<Rightarrow> bool" where
  here: "stmt_at s [] s"
| block: "i < length ss \<Longrightarrow> stmt_at (ss ! i) p t \<Longrightarrow> stmt_at (S_BLOCK l ss) (i # p) t"
| then_branch: "stmt_at then_b p t \<Longrightarrow> stmt_at (S_IF l c then_b elifs else_b) (0 # p) t"
| else_branch: "stmt_at else_b p t \<Longrightarrow> stmt_at (S_IF l c then_b elifs (Some else_b)) (1 # p) t"

definition declares_l :: "stmt \<Rightarrow> nat list \<times> nat \<Rightarrow> bool" where
  "declares_l s d \<longleftrightarrow> (\<exists>ty ini fx. stmt_at s (fst d) (S_VARDECL (snd d) ''l'' ty ini fx))"

text \<open>The warning for a declaration in a line; the parser counts lines from 1.\<close>

definition confusing_name :: "string option \<Rightarrow> nat \<Rightarrow> Diagnostic" where
  "confusing_name filename line =
     \<lparr>dg_severity = DIAG_SEV_WARNING, dg_code = ''JAG001'',
      dg_message = ''Variable name 'l' is easily confused with '1' or 'I'' @ [CHR 0x27],
      dg_filename = (case filename of None \<Rightarrow> ''<stdin>'' | Some f \<Rightarrow> f),
      dg_start_line = max 1 (int line), dg_start_col = 1, dg_end_line = int line, dg_end_col = 10,
      dg_source = ''linter'', dg_help = Some ''Consider choosing a clearer variable name''\<rparr>"

abbreviation in_text_order :: "(nat list \<times> nat) list \<Rightarrow> bool" where
  "in_text_order \<equiv> sorted_wrt (\<lambda>d e. (fst d, fst e) \<in> lexord {(i, j). i < j})"

lemma jag001_warning: "jag001 fn line = confusing_name fn line"
  by (simp add: jag001_def confusing_name_def make_diag_def or_default_def Let_def)

inductive_simps stmt_at_block: "stmt_at (S_BLOCK l ss) p (S_VARDECL n x ty ini fx)"
inductive_simps stmt_at_if: "stmt_at (S_IF l c th elifs el) p (S_VARDECL n x ty ini fx)"

lemma stmt_at_leaf:
  assumes "stmt_at s p t" "\<And>l ss. s \<noteq> S_BLOCK l ss" "\<And>l c th elifs el. s \<noteq> S_IF l c th elifs el"
  shows "p = [] \<and> t = s"
  using assms by (cases rule: stmt_at.cases) blast+

lemma declares_leaf:
  assumes "\<And>l ss. s \<noteq> S_BLOCK l ss" "\<And>l c th elifs el. s \<noteq> S_IF l c th elifs el"
  shows "declares_l s d \<longleftrightarrow> fst d = [] \<and> (\<exists>ty ini fx. s = S_VARDECL (snd d) ''l'' ty ini fx)"
proof
  assume "declares_l s d"
  then obtain ty ini fx where "stmt_at s (fst d) (S_VARDECL (snd d) ''l'' ty ini fx)" by (auto simp: declares_l_def)
  from stmt_at_leaf [OF this assms] show "fst d = [] \<and> (\<exists>ty ini fx. s = S_VARDECL (snd d) ''l'' ty ini fx)" by auto
qed (auto simp: declares_l_def intro: here)

lemma declares_block:
  "declares_l (S_BLOCK l ss) d \<longleftrightarrow> (\<exists>i p. fst d = i # p \<and> i < length ss \<and> declares_l (ss ! i) (p, snd d))"
  unfolding declares_l_def stmt_at_block by (cases d) (auto, blast+)

lemma declares_if:
  "declares_l (S_IF l c th elifs el) d \<longleftrightarrow>
     (\<exists>p. fst d = 0 # p \<and> declares_l th (p, snd d)) \<or>
     (\<exists>p e. fst d = 1 # p \<and> el = Some e \<and> declares_l e (p, snd d))"
  unfolding declares_l_def stmt_at_if by (cases d) (auto, blast+)

text \<open>The visitor goes through them in the order of the text.\<close>

definition listed :: "nat list \<Rightarrow> (nat list \<times> nat \<Rightarrow> bool) \<Rightarrow> bool" where
  "listed lines D \<longleftrightarrow> (\<exists>ds. map snd ds = lines \<and> in_text_order ds \<and> set ds = {d. D d})"

lemma listed_none: "(\<And>d. \<not> D d) \<Longrightarrow> listed [] D"
  by (simp add: listed_def)

lemma listed_one: "listed [line] (\<lambda>d. fst d = [] \<and> line = snd d)"
  unfolding listed_def by (rule exI [of _ "[([], line)]"]) auto

lemma listed_append:
  assumes "listed xs D" "listed ys E" "\<And>d e. D d \<Longrightarrow> E e \<Longrightarrow> (fst d, fst e) \<in> lexord {(i, j). i < j}"
  shows "listed (xs @ ys) (\<lambda>d. D d \<or> E d)"
proof -
  obtain ds es where "map snd ds = xs" "in_text_order ds" "set ds = {d. D d}"
    "map snd es = ys" "in_text_order es" "set es = {d. E d}"
    using assms(1,2) by (auto simp: listed_def)
  with assms(3) have "map snd (ds @ es) = xs @ ys" "in_text_order (ds @ es)" "set (ds @ es) = {d. D d \<or> E d}"
    by (auto simp: sorted_wrt_append)
  then show ?thesis unfolding listed_def by blast
qed

lemma listed_below:
  assumes "listed xs D"
  shows "listed xs (\<lambda>d. \<exists>p. fst d = i # p \<and> D (p, snd d))"
proof -
  obtain ds where "map snd ds = xs" "in_text_order ds" "set ds = {d. D d}"
    using assms by (auto simp: listed_def)
  then have "map snd (map (\<lambda>(p, l). (i # p, l)) ds) = xs" "in_text_order (map (\<lambda>(p, l). (i # p, l)) ds)"
    "set (map (\<lambda>(p, l). (i # p, l)) ds) = {d. \<exists>p. fst d = i # p \<and> D (p, snd d)}"
    by (auto simp: sorted_wrt_map split_def o_def image_iff elim: sorted_wrt_mono_rel [rotated])
  then show ?thesis unfolding listed_def by blast
qed

lemma listed_stmts:
  assumes "\<And>s. s \<in> set ss \<Longrightarrow> listed (ambiguous s) (declares_l s)"
  shows "listed (concat (map ambiguous ss)) (declares_l (S_BLOCK l ss))"
  using assms
proof (induction ss rule: rev_induct)
  case Nil
  then show ?case by (auto simp: declares_block intro: listed_none)
next
  case (snoc s ss)
  let ?E = "\<lambda>d. \<exists>p. fst d = length ss # p \<and> declares_l s (p, snd d)"
  have "listed (concat (map ambiguous ss) @ ambiguous s) (\<lambda>d. declares_l (S_BLOCK l ss) d \<or> ?E d)"
    by (rule listed_append [OF snoc.IH listed_below]) (use snoc.prems in \<open>auto simp: declares_block\<close>)
  moreover have "(\<lambda>d. declares_l (S_BLOCK l ss) d \<or> ?E d) = declares_l (S_BLOCK l (ss @ [s]))"
    by (auto simp: fun_eq_iff declares_block nth_append less_Suc_eq)
  ultimately show ?case by simp
qed

lemma listed_stmt:
  "(e :: expr) = e \<and> (p :: strpart) = p \<and> listed (ambiguous s) (declares_l s)"
proof (induction rule: expr_strpart_stmt.induct)
  case (S_BLOCK l ss)
  then show ?case using listed_stmts [of ss l] by simp
next
  case (S_IF l c t elifs el)
  let ?E = "\<lambda>d. \<exists>p e. fst d = 1 # p \<and> el = Some e \<and> declares_l e (p, snd d)"
  have "listed (case map_option ambiguous el of None \<Rightarrow> [] | Some ls \<Rightarrow> ls) ?E"
  proof (cases el)
    case (Some e)
    with S_IF have "listed (ambiguous e) (declares_l e)" by simp
    from listed_below [OF this, of 1] Some show ?thesis by simp
  qed (auto intro: listed_none)
  moreover have "listed (ambiguous t) (declares_l t)" using S_IF by simp
  ultimately have "listed (ambiguous (S_IF l c t elifs el)) (\<lambda>d. (\<exists>p. fst d = 0 # p \<and> declares_l t (p, snd d)) \<or> ?E d)"
    unfolding ambiguous.simps by (intro listed_append listed_below) auto
  moreover have "(\<lambda>d. (\<exists>p. fst d = 0 # p \<and> declares_l t (p, snd d)) \<or> ?E d) = declares_l (S_IF l c t elifs el)"
    by (rule ext) (rule declares_if [symmetric])
  ultimately show ?case by simp
next
  case (S_VARDECL l name ty ini fx)
  have "declares_l (S_VARDECL l name ty ini fx) = (\<lambda>d. name = ''l'' \<and> fst d = [] \<and> l = snd d)"
    by (rule ext) (auto simp: declares_leaf)
  then show ?case using listed_one [of l] by (auto intro: listed_none)
qed (auto simp: declares_leaf intro!: listed_none)

text \<open>
  C28. The linter appends to the bag exactly one \<^verbatim>\<open>JAG001\<close> warning, with the text, the position and the
  hint that \<^const>\<open>confusing_name\<close> spells out, for each declaration of a variable named \<^verbatim>\<open>l\<close> in the program,
  in its blocks and in the two branches of its \<^verbatim>\<open>if\<close> statements, in the order of the text, and returns
  their number.  It adds nothing else and no error, with or without \<^verbatim>\<open>--fix\<close>: the rules \<^verbatim>\<open>JAG002\<close> to
  \<^verbatim>\<open>JAG004\<close> and the fixes of \<^verbatim>\<open>docs/LINTING.md\<close> do not exist.
\<close>
theorem lint_program_exact:
  "\<exists>ds. in_text_order ds \<and> set ds = {d. declares_l (S_BLOCK 0 ss) d} \<and>
     lint_program ss fn (Some bag, g) fx =
       (int (length ds),
        (Some \<lparr>db_nodes = db_nodes bag @ map (\<lambda>(p, line). confusing_name fn line) ds,
           db_count = db_count bag + length ds, db_error_count = db_error_count bag,
           db_warning_count = db_warning_count bag + length ds\<rparr>, g))"
proof -
  obtain ds where ds: "map snd ds = concat (map ambiguous ss)" "in_text_order ds"
    "set ds = {d. declares_l (S_BLOCK 0 ss) d}"
    using listed_stmts [of ss 0] listed_stmt by (auto simp: listed_def)
  have "map (\<lambda>(p, line). confusing_name fn line) ds = map (jag001 fn) (concat (map ambiguous ss))"
    "length ds = length (concat (map ambiguous ss))"
    by (simp_all add: jag001_warning split_def flip: ds(1))
  with ds show ?thesis
    by (intro exI [of _ ds]) (simp add: lint_program_def lint_fold append_fold bag_count_def)
qed

text \<open>
  The linter does not look into loops, functions, classes, \<^verbatim>\<open>elif\<close> branches or \<^verbatim>\<open>try\<close>
  blocks: whatever is declared there, it reports nothing.
\<close>
theorem lint_skips_nested:
  "\<forall>s \<in> {S_LOOP_WHILE l e b, S_DO_WHILE l e b, S_FOR_IN l x e c b, S_ITERATE l e x b,
      S_FUN_DECL l x ps ret b a, S_CLASS l x ms v p, S_TRY_CATCH l b x b'}.
     lint_program [s] fn (Some bag, g) fx = (0, (Some bag, g))"
  by (simp add: lint_program_def bag_count_def)

theorem lint_skips_nested_witness:
  "lint_program [S_LOOP_WHILE 1 (E_LIT_BOOL 1 True) (S_BLOCK 1 [S_VARDECL 1 ''l'' (type_new T_NUM) None False])]
     None (Some diag_bag_init, diag_bag_init) False = (0, (Some diag_bag_init, diag_bag_init)) \<and>
   fst (lint_program [S_BLOCK 1 [S_VARDECL 1 ''l'' (type_new T_NUM) None False]]
     None (Some diag_bag_init, diag_bag_init) False) = 1"
proof
  show "lint_program [S_LOOP_WHILE 1 (E_LIT_BOOL 1 True) (S_BLOCK 1 [S_VARDECL 1 ''l'' (type_new T_NUM) None False])]
     None (Some diag_bag_init, diag_bag_init) False = (0, (Some diag_bag_init, diag_bag_init))"
    using lint_skips_nested [of 1 "E_LIT_BOOL 1 True" "S_BLOCK 1 [S_VARDECL 1 ''l'' (type_new T_NUM) None False]"]
    by blast
  show "fst (lint_program [S_BLOCK 1 [S_VARDECL 1 ''l'' (type_new T_NUM) None False]]
     None (Some diag_bag_init, diag_bag_init) False) = 1" by code_simp
qed

end
