(* ===== verification/Double_Ops.thy ===== *)
theory Double_Ops
  imports Double
begin

text \<open>
  Arithmetic on the C type \<^verbatim>\<open>double\<close>, as the interpreter uses it: the operations of IEEE 754
  are the exact result rounded once, \<^verbatim>\<open>fmod\<close> is exact, a conversion to \<^verbatim>\<open>long long\<close>
  truncates and is undefined outside the range, and \<^verbatim>\<open>%g\<close> rounds to six significant
  digits.  There is one NaN, printed without the sign the C library gives it.
\<close>

section \<open>Arithmetic\<close>

text \<open>\<open>(-1)^s * m * 2^e\<close>, rounded; the sign also of a zero.\<close>

definition dscale :: "bool \<Rightarrow> nat \<Rightarrow> int \<Rightarrow> dbl" where
  "dscale s m e = (if 0 \<le> e then dround s (m * 2 ^ nat e) 1 else dround s m (2 ^ nat (- e)))"

definition signed :: "bool \<Rightarrow> nat \<Rightarrow> int" where
  "signed s m = (if s then - int m else int m)"

text \<open>The integer \<open>m * 2^e\<close> in units of \<open>2^k\<close>, for \<open>k \<le> e\<close>.\<close>

definition units :: "int \<Rightarrow> nat \<Rightarrow> int \<Rightarrow> nat" where
  "units k m e = m * 2 ^ nat (e - k)"

fun dneg :: "dbl \<Rightarrow> dbl" where
  "dneg DNaN = DNaN"
| "dneg (DInf s) = DInf (\<not> s)"
| "dneg (DFin s m e) = DFin (\<not> s) m e"

fun dadd :: "dbl \<Rightarrow> dbl \<Rightarrow> dbl" where
  "dadd (DFin s m e) (DFin t n f) =
     (let k = min e f; z = signed s (units k m e) + signed t (units k n f)
      in if z = 0 then DFin (s \<and> t) 0 0 else dscale (z < 0) (nat \<bar>z\<bar>) k)"
| "dadd (DInf s) (DInf t) = (if s = t then DInf s else DNaN)"
| "dadd (DInf s) (DFin _ _ _) = DInf s"
| "dadd (DFin _ _ _) (DInf t) = DInf t"
| "dadd DNaN _ = DNaN"
| "dadd _ DNaN = DNaN"

definition dsub :: "dbl \<Rightarrow> dbl \<Rightarrow> dbl" where
  "dsub a b = dadd a (dneg b)"

fun dmul :: "dbl \<Rightarrow> dbl \<Rightarrow> dbl" where
  "dmul (DFin s m e) (DFin t n f) = dscale (s \<noteq> t) (m * n) (e + f)"
| "dmul (DInf s) (DInf t) = DInf (s \<noteq> t)"
| "dmul (DInf s) (DFin t n _) = (if n = 0 then DNaN else DInf (s \<noteq> t))"
| "dmul (DFin s m _) (DInf t) = (if m = 0 then DNaN else DInf (s \<noteq> t))"
| "dmul DNaN _ = DNaN"
| "dmul _ DNaN = DNaN"

fun ddiv :: "dbl \<Rightarrow> dbl \<Rightarrow> dbl" where
  "ddiv (DFin s m e) (DFin t n f) =
     (if n = 0 then (if m = 0 then DNaN else DInf (s \<noteq> t))
      else if 0 \<le> e - f then dround (s \<noteq> t) (m * 2 ^ nat (e - f)) n
      else dround (s \<noteq> t) m (n * 2 ^ nat (f - e)))"
| "ddiv (DInf s) (DInf t) = DNaN"
| "ddiv (DInf s) (DFin t _ _) = DInf (s \<noteq> t)"
| "ddiv (DFin s _ _) (DInf t) = DFin (s \<noteq> t) 0 0"
| "ddiv DNaN _ = DNaN"
| "ddiv _ DNaN = DNaN"

text \<open>\<^verbatim>\<open>fmod\<close>: the remainder has the sign of the first argument and is exact.\<close>

fun dmod :: "dbl \<Rightarrow> dbl \<Rightarrow> dbl" where
  "dmod (DFin s m e) (DFin t n f) =
     (if n = 0 then DNaN
      else let k = min e f in dscale s (units k m e mod units k n f) k)"
| "dmod (DFin s m e) (DInf _) = DFin s m e"
| "dmod (DInf _) _ = DNaN"
| "dmod DNaN _ = DNaN"
| "dmod _ DNaN = DNaN"

section \<open>Comparison and conversion\<close>

fun dle :: "dbl \<Rightarrow> dbl \<Rightarrow> bool" where
  "dle (DFin s m e) (DFin t n f) =
     (let k = min e f in signed s (units k m e) \<le> signed t (units k n f))"
| "dle (DInf s) (DInf t) = (s \<or> \<not> t)"
| "dle (DInf s) (DFin _ _ _) = s"
| "dle (DFin _ _ _) (DInf t) = (\<not> t)"
| "dle DNaN _ = False"
| "dle _ DNaN = False"

definition dlt :: "dbl \<Rightarrow> dbl \<Rightarrow> bool" where
  "dlt a b \<longleftrightarrow> dle a b \<and> \<not> dle b a"

definition deq :: "dbl \<Rightarrow> dbl \<Rightarrow> bool" where
  "deq a b \<longleftrightarrow> dle a b \<and> dle b a"

fun is_nan :: "dbl \<Rightarrow> bool" where
  "is_nan DNaN = True"
| "is_nan _ = False"

text \<open>The integer nearest to zero; \<open>None\<close> for what has none.\<close>

fun dtrunc :: "dbl \<Rightarrow> int option" where
  "dtrunc (DFin s m e) =
     Some (signed s (if 0 \<le> e then m * 2 ^ nat e else m div 2 ^ nat (- e)))"
| "dtrunc _ = None"

text \<open>\<^verbatim>\<open>(long long)d\<close>, undefined behaviour where this is \<open>None\<close>.\<close>

definition dbl_to_llong :: "dbl \<Rightarrow> llong option" where
  "dbl_to_llong d =
     (case dtrunc d of
        None \<Rightarrow> None
      | Some n \<Rightarrow> if LLONG_MIN \<le> n \<and> n \<le> LLONG_MAX then Some (word_of_int n) else None)"

definition llong_to_dbl :: "llong \<Rightarrow> dbl" where
  "llong_to_dbl n = dbl_of_int (sint n)"

section \<open>Printing\<close>

text \<open>The power of ten to multiply \<open>p / q\<close> by to reach 1, for \<open>0 < p\<close>.\<close>

function tens_below :: "nat \<Rightarrow> nat \<Rightarrow> nat" where
  "tens_below p q = (if q \<le> p \<or> p = 0 then 0 else Suc (tens_below (10 * p) q))"
  by pat_completeness auto
termination
  by (relation "measure (\<lambda>(p, q). q - p)") auto

declare tens_below.simps [simp del]

definition floor_log10 :: "nat \<Rightarrow> nat \<Rightarrow> int" where
  "floor_log10 p q =
     (if q \<le> p then int (length (show_nat (p div q))) - 1 else - int (tens_below p q))"

text \<open>\<open>p / q\<close> to six significant digits: the digits and the exponent of the first.\<close>

definition six_digits :: "nat \<Rightarrow> nat \<Rightarrow> nat \<times> int" where
  "six_digits p q =
     (let x = floor_log10 p q;
          d = (if x \<le> 5 then div_rne (p * 10 ^ nat (5 - x)) q else div_rne p (q * 10 ^ nat (x - 5)))
      in if d = 1000000 then (100000, x + 1) else (d, x))"

definition strip_zeros :: "string \<Rightarrow> string" where
  "strip_zeros s = rev (dropWhile (\<lambda>c. c = CHR ''0'') (rev s))"

definition with_fraction :: "string \<Rightarrow> string \<Rightarrow> string" where
  "with_fraction ip fp = (if fp = [] then ip else ip @ ''.'' @ fp)"

definition show_exponent :: "int \<Rightarrow> string" where
  "show_exponent x =
     (let s = show_nat (nat \<bar>x\<bar>)
      in ''e'' @ (if x < 0 then ''-'' else ''+'') @ (if length s < 2 then ''0'' @ s else s))"

text \<open>\<^verbatim>\<open>%g\<close>\<close>

fun show_g :: "dbl \<Rightarrow> string" where
  "show_g DNaN = ''nan''"
| "show_g (DInf s) = (if s then ''-inf'' else ''inf'')"
| "show_g (DFin s m e) =
     (if s then ''-'' else []) @
     (if m = 0 then ''0''
      else
        (let (p, q) = (if 0 \<le> e then (m * 2 ^ nat e, 1) else (m, 2 ^ nat (- e)));
             (d, x) = six_digits p q;
             ds = show_nat d
         in if - 4 \<le> x \<and> x < 0 then
              with_fraction ''0'' (replicate (nat (- x) - 1) (CHR ''0'') @ strip_zeros ds)
            else if 0 \<le> x \<and> x < 6 then
              with_fraction (take (nat x + 1) ds) (strip_zeros (drop (nat x + 1) ds))
            else with_fraction (take 1 ds) (strip_zeros (drop 1 ds)) @ show_exponent x))"

end
