(* ===== verification/Value.thy ===== *)
theory Value
  imports Ast Double_Ops
begin

text \<open>
  Run-time values and environments: \<^verbatim>\<open>include/value.h\<close>, \<^verbatim>\<open>src/interp/value.c\<close> and the
  handles of \<^verbatim>\<open>include/native.h\<close>.  What the code mutates or compares by address lives in an
  explicit store, the record \<open>store\<close>: every kind of object has its own list, an address is an
  index into it, and objects are only ever appended.  The values of C's scalar kinds are never
  written after they are made, so a pointer to one is the value itself.  A node of a list is a
  cell of its own, because a loop over a list holds on to a node while the body changes the
  list; a cell that has been freed is \<open>None\<close>.  The entries of a \<^verbatim>\<open>data\<close> value have the order
  of the C list, last defined first.
\<close>

section \<open>Values\<close>

type_synonym addr = nat

datatype val =
    V_NUM llong
  | V_DECIMAL dbl
  | V_SCIFI dbl
  | V_BOOL bool
  | V_STRING string
  | V_VOID
  | V_LIST addr
  | V_DATA addr
  | V_FUNC addr
  | V_CLASS addr
  | V_INSTANCE addr
  | V_NATIVE addr

record FuncValue =
  fv_params :: "param list"
  fv_body :: stmt
  fv_closure :: addr
  fv_is_async :: bool
  fv_name :: string

record ClassInfo =
  ci_name :: string
  ci_parent_name :: "string option"
  ci_parent :: "addr option"
  ci_members :: "stmt list"
  ci_closure :: addr

record Instance =
  in_class :: addr
  in_fields :: addr

text \<open>
  \<^verbatim>\<open>native.h\<close>: the state of a task is \<^verbatim>\<open>TASK_DONE\<close> with a result or \<^verbatim>\<open>TASK_ERROR\<close> with a
  message; workers, pools and connections are handles of the runtime.
\<close>

datatype native =
    NATIVE_TASK "string + val option"
  | NATIVE_WORKER nat
  | NATIVE_WORKER_POOL nat
  | NATIVE_SOCKET_CONN nat
  | NATIVE_SUPER_REF "addr option" val

record EnvEntry =
  en_name :: string
  en_value :: val
  en_is_fixed :: bool

record Env =
  env_entries :: "EnvEntry list"
  env_parent :: "addr option"

type_synonym ListNode = "val \<times> addr option"

record store =
  st_nodes :: "ListNode option list"
  st_lists :: "addr option list"
  st_datas :: "(string \<times> val) list list"
  st_funcs :: "FuncValue list"
  st_classes :: "ClassInfo list"
  st_instances :: "Instance list"
  st_natives :: "native list"
  st_envs :: "Env list"

definition empty_store :: store where
  "empty_store = \<lparr>st_nodes = [], st_lists = [], st_datas = [], st_funcs = [], st_classes = [],
                  st_instances = [], st_natives = [], st_envs = []\<rparr>"

text \<open>
  Reading the store.  No program reaches an address outside of it (\<open>Interp_Safe\<close>), so the
  values given to these reads there do not matter; a freed node is another matter.
\<close>

definition entry_at :: "'a list \<Rightarrow> 'a \<Rightarrow> addr \<Rightarrow> 'a" where
  "entry_at xs d a = (if a < length xs then xs ! a else d)"

definition node_at :: "store \<Rightarrow> addr \<Rightarrow> ListNode option" where
  "node_at st a = entry_at (st_nodes st) None a"

definition head_at :: "store \<Rightarrow> addr \<Rightarrow> addr option" where
  "head_at st a = entry_at (st_lists st) None a"

definition data_at :: "store \<Rightarrow> addr \<Rightarrow> (string \<times> val) list" where
  "data_at st a = entry_at (st_datas st) [] a"

definition func_at :: "store \<Rightarrow> addr \<Rightarrow> FuncValue" where
  "func_at st a =
     entry_at (st_funcs st) \<lparr>fv_params = [], fv_body = S_BLOCK 0 [], fv_closure = 0, fv_is_async = False, fv_name = []\<rparr> a"

definition class_at :: "store \<Rightarrow> addr \<Rightarrow> ClassInfo" where
  "class_at st a =
     entry_at (st_classes st) \<lparr>ci_name = [], ci_parent_name = None, ci_parent = None, ci_members = [], ci_closure = 0\<rparr> a"

definition instance_at :: "store \<Rightarrow> addr \<Rightarrow> Instance" where
  "instance_at st a = entry_at (st_instances st) \<lparr>in_class = 0, in_fields = 0\<rparr> a"

definition native_at :: "store \<Rightarrow> addr \<Rightarrow> native" where
  "native_at st a = entry_at (st_natives st) (NATIVE_TASK (Inr None)) a"

definition env_at :: "store \<Rightarrow> addr \<Rightarrow> Env" where
  "env_at st a = entry_at (st_envs st) \<lparr>env_entries = [], env_parent = None\<rparr> a"

section \<open>Lists\<close>

definition value_list_empty :: "store \<Rightarrow> val \<times> store" where
  "value_list_empty st = (V_LIST (length (st_lists st)), st\<lparr>st_lists := st_lists st @ [None]\<rparr>)"

definition set_head :: "addr \<Rightarrow> addr option \<Rightarrow> store \<Rightarrow> store" where
  "set_head l h st = st\<lparr>st_lists := (st_lists st)[l := h]\<rparr>"

definition set_node :: "addr \<Rightarrow> ListNode option \<Rightarrow> store \<Rightarrow> store" where
  "set_node a n st = st\<lparr>st_nodes := (st_nodes st)[a := n]\<rparr>"

definition new_node :: "ListNode \<Rightarrow> store \<Rightarrow> addr \<times> store" where
  "new_node n st = (length (st_nodes st), st\<lparr>st_nodes := st_nodes st @ [Some n]\<rparr>)"

text \<open>
  \<^verbatim>\<open>while (cur->next) cur = cur->next\<close>, for at most as many steps as there are nodes: a
  list that is well formed (\<open>List_Ops\<close>) is no longer than that.
\<close>

fun last_node :: "nat \<Rightarrow> store \<Rightarrow> addr \<Rightarrow> addr" where
  "last_node 0 st cur = cur"
| "last_node (Suc n) st cur =
     (case node_at st cur of
        Some (_, Some next) \<Rightarrow> last_node n st next
      | _ \<Rightarrow> cur)"

definition set_next :: "addr \<Rightarrow> addr option \<Rightarrow> store \<Rightarrow> store" where
  "set_next a next st =
     (case node_at st a of None \<Rightarrow> st | Some (v, _) \<Rightarrow> set_node a (Some (v, next)) st)"

definition value_list_append :: "addr \<Rightarrow> val \<Rightarrow> store \<Rightarrow> store" where
  "value_list_append l item st =
     (let (node, st) = new_node (item, None) st
      in case head_at st l of
           None \<Rightarrow> set_head l (Some node) st
         | Some h \<Rightarrow> set_next (last_node (length (st_nodes st)) st h) (Some node) st)"

definition value_list_insert_front :: "addr \<Rightarrow> val \<Rightarrow> store \<Rightarrow> store" where
  "value_list_insert_front l item st =
     (let (node, st) = new_node (item, head_at st l) st in set_head l (Some node) st)"

text \<open>The items from a node on, again for at most as many steps as there are nodes.\<close>

fun items_from :: "nat \<Rightarrow> store \<Rightarrow> addr option \<Rightarrow> val list" where
  "items_from 0 st c = []"
| "items_from (Suc n) st c =
     (case Option.bind c (node_at st) of
        None \<Rightarrow> []
      | Some (v, next) \<Rightarrow> v # items_from n st next)"

definition list_items :: "store \<Rightarrow> addr \<Rightarrow> val list" where
  "list_items st l = items_from (length (st_nodes st)) st (head_at st l)"

definition value_list_length :: "store \<Rightarrow> addr \<Rightarrow> nat" where
  "value_list_length st l = length (list_items st l)"

section \<open>Data\<close>

definition value_data_empty :: "store \<Rightarrow> val \<times> store" where
  "value_data_empty st = (V_DATA (length (st_datas st)), st\<lparr>st_datas := st_datas st @ [[]]\<rparr>)"

definition value_data_get :: "store \<Rightarrow> addr \<Rightarrow> string \<Rightarrow> val option" where
  "value_data_get st d key = map_of (data_at st d) key"

fun data_put :: "string \<Rightarrow> val \<Rightarrow> (string \<times> val) list \<Rightarrow> (string \<times> val) list" where
  "data_put key v [] = []"
| "data_put key v ((k, w) # es) = (if k = key then (k, v) # es else (k, w) # data_put key v es)"

definition value_data_set :: "addr \<Rightarrow> string \<Rightarrow> val \<Rightarrow> store \<Rightarrow> store" where
  "value_data_set d key v st =
     st\<lparr>st_datas := (st_datas st)[d :=
       (if map_of (data_at st d) key \<noteq> None then data_put key v (data_at st d)
        else (key, v) # data_at st d)]\<rparr>"

section \<open>Numbers, truth and equality\<close>

fun value_as_number :: "val \<Rightarrow> dbl" where
  "value_as_number (V_NUM n) = llong_to_dbl n"
| "value_as_number (V_DECIMAL d) = d"
| "value_as_number (V_SCIFI d) = d"
| "value_as_number (V_BOOL b) = dbl_of_int (if b then 1 else 0)"
| "value_as_number _ = dbl_of_int 0"

definition dzero :: dbl where "dzero = DFin False 0 0"

definition value_truthy :: "store \<Rightarrow> val \<Rightarrow> bool" where
  "value_truthy st v =
     (case v of
        V_BOOL b \<Rightarrow> b
      | V_NUM n \<Rightarrow> n \<noteq> 0
      | V_DECIMAL d \<Rightarrow> \<not> deq d dzero
      | V_SCIFI d \<Rightarrow> \<not> deq d dzero
      | V_STRING s \<Rightarrow> s \<noteq> []
      | V_VOID \<Rightarrow> False
      | V_LIST l \<Rightarrow> head_at st l \<noteq> None
      | V_DATA d \<Rightarrow> data_at st d \<noteq> []
      | _ \<Rightarrow> True)"

fun is_numericish :: "val \<Rightarrow> bool" where
  "is_numericish (V_NUM _) = True"
| "is_numericish (V_DECIMAL _) = True"
| "is_numericish (V_SCIFI _) = True"
| "is_numericish (V_BOOL _) = True"
| "is_numericish _ = False"

text \<open>The last case compares addresses, which are equal only for one and the same object.\<close>

definition value_equal :: "val \<Rightarrow> val \<Rightarrow> bool" where
  "value_equal a b =
     (case (a, b) of
        (V_STRING s, V_STRING t) \<Rightarrow> s = t
      | _ \<Rightarrow>
          (if is_numericish a \<and> is_numericish b then deq (value_as_number a) (value_as_number b)
           else a = b))"

section \<open>Printing\<close>

text \<open>\<^verbatim>\<open>n\<close> bounds the depth: the recursion of the C code does not end on a value that holds itself.\<close>

fun comma_join :: "string list \<Rightarrow> string" where
  "comma_join [] = []"
| "comma_join [s] = s"
| "comma_join (s # ss) = s @ '', '' @ comma_join ss"

fun all_some :: "'a option list \<Rightarrow> 'a list option" where
  "all_some [] = Some []"
| "all_some (x # xs) = do { y \<leftarrow> x; ys \<leftarrow> all_some xs; Some (y # ys) }"

definition show_entry :: "string \<Rightarrow> string \<Rightarrow> string" where
  "show_entry key s = [DQUOTE] @ key @ [DQUOTE] @ '': '' @ s"

fun value_to_display_string :: "nat \<Rightarrow> store \<Rightarrow> val \<Rightarrow> string option" where
  "value_to_display_string 0 st v = None"
| "value_to_display_string (Suc n) st v =
     (case v of
        V_STRING s \<Rightarrow> Some s
      | V_NUM k \<Rightarrow> Some (show_int (sint k))
      | V_DECIMAL d \<Rightarrow> Some (show_g d)
      | V_SCIFI d \<Rightarrow> Some (show_g d)
      | V_BOOL b \<Rightarrow> Some (if b then ''true'' else ''false'')
      | V_VOID \<Rightarrow> Some ''void''
      | V_FUNC _ \<Rightarrow> Some ''<function>''
      | V_CLASS c \<Rightarrow> Some (take 255 (''<class '' @ ci_name (class_at st c) @ ''>''))
      | V_INSTANCE i \<Rightarrow>
          map_option (\<lambda>s. ci_name (class_at st (in_class (instance_at st i))) @ '' '' @ s)
            (value_to_display_string n st (V_DATA (in_fields (instance_at st i))))
      | V_LIST l \<Rightarrow>
          map_option (\<lambda>ss. ''['' @ comma_join ss @ '']'')
            (all_some (map (value_to_display_string n st) (list_items st l)))
      | V_DATA d \<Rightarrow>
          map_option (\<lambda>ss. ''{'' @ comma_join (map2 show_entry (map fst (data_at st d)) ss) @ ''}'')
            (all_some (map (\<lambda>(k, w). value_to_display_string n st w) (data_at st d)))
      | V_NATIVE _ \<Rightarrow> Some ''<native>'')"

section \<open>Copies\<close>

text \<open>\<^verbatim>\<open>value_copy\<close>, which no other part of the program calls: \<open>n\<close> bounds the depth.\<close>

fun copy_items :: "(val \<Rightarrow> store \<Rightarrow> (val \<times> store) option) \<Rightarrow> addr \<Rightarrow> val list \<Rightarrow> store \<Rightarrow> store option" where
  "copy_items cp l [] st = Some st"
| "copy_items cp l (v # vs) st = do {
     (w, st) \<leftarrow> cp v st;
     copy_items cp l vs (value_list_append l w st)
   }"

fun copy_entries ::
  "(val \<Rightarrow> store \<Rightarrow> (val \<times> store) option) \<Rightarrow> addr \<Rightarrow> (string \<times> val) list \<Rightarrow> store \<Rightarrow> store option" where
  "copy_entries cp d [] st = Some st"
| "copy_entries cp d ((k, v) # es) st = do {
     (w, st) \<leftarrow> cp v st;
     copy_entries cp d es (value_data_set d k w st)
   }"

fun value_copy :: "nat \<Rightarrow> val \<Rightarrow> store \<Rightarrow> (val \<times> store) option" where
  "value_copy 0 v st = None"
| "value_copy (Suc n) v st =
     (case v of
        V_LIST l \<Rightarrow> do {
          let out = length (st_lists st);
          st' \<leftarrow> copy_items (value_copy n) out (list_items st l) (snd (value_list_empty st));
          Some (V_LIST out, st')
        }
      | V_DATA d \<Rightarrow> do {
          let out = length (st_datas st);
          st' \<leftarrow> copy_entries (value_copy n) out (rev (data_at st d)) (snd (value_data_empty st));
          Some (V_DATA out, st')
        }
      | _ \<Rightarrow> Some (v, st))"

section \<open>Environments\<close>

definition env_new :: "addr option \<Rightarrow> store \<Rightarrow> addr \<times> store" where
  "env_new parent st =
     (length (st_envs st), st\<lparr>st_envs := st_envs st @ [\<lparr>env_entries = [], env_parent = parent\<rparr>]\<rparr>)"

definition set_entries :: "addr \<Rightarrow> EnvEntry list \<Rightarrow> store \<Rightarrow> store" where
  "set_entries env es st = st\<lparr>st_envs := (st_envs st)[env := (env_at st env)\<lparr>env_entries := es\<rparr>]\<rparr>"

definition env_define :: "addr \<Rightarrow> string \<Rightarrow> val \<Rightarrow> bool \<Rightarrow> store \<Rightarrow> store" where
  "env_define env name v is_fixed st =
     set_entries env (\<lparr>en_name = name, en_value = v, en_is_fixed = is_fixed\<rparr> # env_entries (env_at st env)) st"

text \<open>
  The parent of an environment is always an older one, which the test \<open>p < env\<close> makes visible;
  the result is where the entry is and the entry.
\<close>

function env_find :: "store \<Rightarrow> addr \<Rightarrow> string \<Rightarrow> (addr \<times> EnvEntry) option" where
  "env_find st env name =
     (case find (\<lambda>c. en_name c = name) (env_entries (env_at st env)) of
        Some c \<Rightarrow> Some (env, c)
      | None \<Rightarrow>
          (case env_parent (env_at st env) of
             None \<Rightarrow> None
           | Some p \<Rightarrow> if p < env then env_find st p name else None))"
  by pat_completeness auto
termination
  by (relation "measure (\<lambda>(st, env, name). env)") auto

declare env_find.simps [simp del]

definition env_get :: "store \<Rightarrow> addr \<Rightarrow> string \<Rightarrow> val option" where
  "env_get st env name = map_option (\<lambda>(_, c). en_value c) (env_find st env name)"

fun entry_put :: "string \<Rightarrow> val \<Rightarrow> EnvEntry list \<Rightarrow> EnvEntry list" where
  "entry_put name v [] = []"
| "entry_put name v (c # cs) =
     (if en_name c = name then c\<lparr>en_value := v\<rparr> # cs else c # entry_put name v cs)"

definition env_set :: "addr \<Rightarrow> string \<Rightarrow> val \<Rightarrow> store \<Rightarrow> bool \<times> store" where
  "env_set env name v st =
     (case env_find st env name of
        None \<Rightarrow> (False, st)
      | Some (e, c) \<Rightarrow>
          (if en_is_fixed c then (False, st)
           else (True, set_entries e (entry_put name v (env_entries (env_at st e))) st)))"

definition env_is_fixed :: "store \<Rightarrow> addr \<Rightarrow> string \<Rightarrow> bool" where
  "env_is_fixed st env name =
     (case env_find st env name of None \<Rightarrow> False | Some (_, c) \<Rightarrow> en_is_fixed c)"

section \<open>Handles\<close>

definition native_wrap :: "native \<Rightarrow> store \<Rightarrow> val \<times> store" where
  "native_wrap payload st =
     (V_NATIVE (length (st_natives st)), st\<lparr>st_natives := st_natives st @ [payload]\<rparr>)"

definition task_done :: "val option \<Rightarrow> store \<Rightarrow> val \<times> store" where
  "task_done result st = native_wrap (NATIVE_TASK (Inr result)) st"

definition task_error :: "string \<Rightarrow> store \<Rightarrow> val \<times> store" where
  "task_error message st = native_wrap (NATIVE_TASK (Inl message)) st"

end
