(* ===== verification/Json.thy ===== *)
theory Json
  imports Value
begin

text \<open>
  JSON: \<^verbatim>\<open>src/runtime/json.c\<close>, on the values of the interpreter.  A pointer into the text is
  the rest of the text; the buffer that a string is collected in grows with it and is left
  out.  The recursion of the reader is bounded by \<open>n\<close>, that of the printer too;
  \<open>Json_Correct\<close> shows which bounds are enough.
\<close>

section \<open>Reading\<close>

definition json_skip_ws :: "string \<Rightarrow> string" where
  "json_skip_ws s = dropWhile (\<lambda>c. c = SPACE \<or> c = TAB \<or> c = NL \<or> c = CR) s"

fun starts :: "char \<Rightarrow> string \<Rightarrow> bool" where
  "starts c [] = False"
| "starts c (d # _) = (d = c)"

fun json_unescape :: "char \<Rightarrow> char" where
  "json_unescape n = (if n = CHR ''n'' then NL else if n = CHR ''t'' then TAB else n)"

text \<open>The loop of \<^verbatim>\<open>json_parse_string_raw\<close>, up to the closing quote.\<close>

fun json_string_body :: "string \<Rightarrow> string \<times> string" where
  "json_string_body [] = ([], [])"
| "json_string_body [c] = (if c = DQUOTE then ([], [c]) else ([c], []))"
| "json_string_body (c # n # s) =
     (if c = DQUOTE then ([], c # n # s)
      else if c = BACKSLASH then
        (let (t, r) = json_string_body s in (json_unescape n # t, r))
      else (let (t, r) = json_string_body (n # s) in (c # t, r)))"

definition json_parse_string_raw :: "string \<Rightarrow> string \<times> string" where
  "json_parse_string_raw s =
     (if \<not> starts DQUOTE s then ([], s)
      else (let (t, r) = json_string_body (tl s) in (t, if starts DQUOTE r then tl r else r)))"

text \<open>The text of a number, with the flag \<^verbatim>\<open>is_float\<close>, and the rest.\<close>

definition json_digits :: "string \<Rightarrow> string \<times> string" where
  "json_digits s = (takeWhile isdigit s, dropWhile isdigit s)"

definition json_sign :: "string \<Rightarrow> string \<times> string" where
  "json_sign s = (if starts (CHR ''-'') s then ([hd s], tl s) else ([], s))"

definition json_fraction :: "string \<Rightarrow> string \<times> string" where
  "json_fraction s =
     (if starts (CHR ''.'') s then let (d, r) = json_digits (tl s) in (hd s # d, r) else ([], s))"

definition json_exponent :: "string \<Rightarrow> string \<times> string" where
  "json_exponent s =
     (if starts (CHR ''e'') s \<or> starts (CHR ''E'') s then
        (let (sg, r) = (if starts (CHR ''+'') (tl s) \<or> starts (CHR ''-'') (tl s)
                        then ([hd (tl s)], tl (tl s)) else ([], tl s));
             (d, r) = json_digits r
         in (hd s # sg @ d, r))
      else ([], s))"

definition json_number :: "string \<Rightarrow> val \<times> string" where
  "json_number s =
     (let (sign, r) = json_sign s;
          (ip, r) = json_digits r;
          (fp, r) = json_fraction r;
          (ex, r) = json_exponent r;
          numbuf = take 63 (sign @ ip @ fp @ ex)
      in (if fp \<noteq> [] \<or> ex \<noteq> [] then V_DECIMAL (atof numbuf) else V_NUM (atoll numbuf), r))"

type_synonym json_reader = "string \<Rightarrow> store \<Rightarrow> (val \<times> string \<times> store) option"

text \<open>The loops over the members of an object and the items of a list; \<open>pv\<close> reads a value.\<close>

fun json_members :: "nat \<Rightarrow> json_reader \<Rightarrow> addr \<Rightarrow> string \<Rightarrow> store \<Rightarrow> (string \<times> store) option" where
  "json_members 0 pv obj s st = None"
| "json_members (Suc n) pv obj s st = do {
     let (key, s) = json_parse_string_raw (json_skip_ws s);
     let s = json_skip_ws s;
     let s = (if starts (CHR '':'') s then tl s else s);
     (v, s, st) \<leftarrow> pv s st;
     let st = value_data_set obj key v st;
     let s = json_skip_ws s;
     if starts (CHR '','') s then json_members n pv obj (tl s) st
     else if starts (CHR ''}'') s then Some (tl s, st)
     else Some (s, st)
   }"

fun json_items :: "nat \<Rightarrow> json_reader \<Rightarrow> addr \<Rightarrow> string \<Rightarrow> store \<Rightarrow> (string \<times> store) option" where
  "json_items 0 pv l s st = None"
| "json_items (Suc n) pv l s st = do {
     (v, s, st) \<leftarrow> pv s st;
     let st = value_list_append l v st;
     let s = json_skip_ws s;
     if starts (CHR '','') s then json_items n pv l (tl s) st
     else if starts (CHR '']'') s then Some (tl s, st)
     else Some (s, st)
   }"

definition json_object :: "nat \<Rightarrow> json_reader \<Rightarrow> json_reader" where
  "json_object n pv s st = do {
     let obj = length (st_datas st);
     let st = snd (value_data_empty st);
     let s = json_skip_ws s;
     if starts (CHR ''}'') s then Some (V_DATA obj, tl s, st)
     else do { (s, st) \<leftarrow> json_members n pv obj s st; Some (V_DATA obj, s, st) }
   }"

definition json_list :: "nat \<Rightarrow> json_reader \<Rightarrow> json_reader" where
  "json_list n pv s st = do {
     let l = length (st_lists st);
     let st = snd (value_list_empty st);
     let s = json_skip_ws s;
     if starts (CHR '']'') s then Some (V_LIST l, tl s, st)
     else do { (s, st) \<leftarrow> json_items n pv l s st; Some (V_LIST l, s, st) }
   }"

fun json_parse_value :: "nat \<Rightarrow> json_reader" where
  "json_parse_value 0 s st = None"
| "json_parse_value (Suc n) s st =
     (let s = json_skip_ws s
      in if starts DQUOTE s then (let (t, s) = json_parse_string_raw s in Some (V_STRING t, s, st))
         else if starts (CHR ''{'') s then json_object n (json_parse_value n) (tl s) st
         else if starts (CHR ''['') s then json_list n (json_parse_value n) (tl s) st
         else if take 4 s = ''true'' then Some (V_BOOL True, drop 4 s, st)
         else if take 5 s = ''false'' then Some (V_BOOL False, drop 5 s, st)
         else if take 4 s = ''null'' then Some (V_VOID, drop 4 s, st)
         else (let (v, s) = json_number s in Some (v, s, st)))"

text \<open>The rest of the text after the value is not looked at.\<close>

definition json_parse :: "string \<Rightarrow> store \<Rightarrow> (val \<times> store) option" where
  "json_parse s st = do {
     (v, _, st) \<leftarrow> json_parse_value (length s + 2) s st;
     Some (v, st)
   }"

section \<open>Printing\<close>

definition json_escape :: "char \<Rightarrow> string" where
  "json_escape c =
     (if c = DQUOTE \<or> c = BACKSLASH then [BACKSLASH, c]
      else if c = NL then [BACKSLASH, CHR ''n''] else [c])"

fun commas :: "string list \<Rightarrow> string" where
  "commas [] = []"
| "commas [s] = s"
| "commas (s # ss) = s @ '','' @ commas ss"

definition json_member :: "string \<Rightarrow> string \<Rightarrow> string" where
  "json_member key s = [DQUOTE] @ key @ [DQUOTE] @ '':'' @ s"

fun json_stringify_into :: "nat \<Rightarrow> store \<Rightarrow> val \<Rightarrow> string option" where
  "json_stringify_into 0 st v = None"
| "json_stringify_into (Suc n) st v =
     (case v of
        V_STRING s \<Rightarrow> Some ([DQUOTE] @ concat (map json_escape s) @ [DQUOTE])
      | V_NUM k \<Rightarrow> Some (show_int (sint k))
      | V_DECIMAL d \<Rightarrow> Some (show_g d)
      | V_SCIFI d \<Rightarrow> Some (show_g d)
      | V_BOOL b \<Rightarrow> Some (if b then ''true'' else ''false'')
      | V_LIST l \<Rightarrow>
          map_option (\<lambda>ss. ''['' @ commas ss @ '']'')
            (all_some (map (json_stringify_into n st) (list_items st l)))
      | V_DATA d \<Rightarrow>
          map_option (\<lambda>ss. ''{'' @ commas (map2 json_member (rev (map fst (data_at st d))) ss) @ ''}'')
            (all_some (map (\<lambda>(k, w). json_stringify_into n st w) (rev (data_at st d))))
      | _ \<Rightarrow> Some ''null'')"

definition json_stringify :: "nat \<Rightarrow> store \<Rightarrow> val \<Rightarrow> string option" where
  "json_stringify = json_stringify_into"

end
