(* ===== verification/Interp.thy ===== *)
theory Interp
  imports Json
begin

text \<open>
  The tree-walking interpreter: \<^verbatim>\<open>include/interp.h\<close> and \<^verbatim>\<open>src/interp/interp.c\<close>, with the
  response objects of \<^verbatim>\<open>src/runtime/http.c\<close> that its calls reach.  The state \<^verbatim>\<open>Interp\<close> is the
  record \<open>interp\<close>: it holds the store, what was printed and the input that is left, and notes
  undefined behaviour of the C code in \<open>it_ub\<close>.  An evaluation gives a value and the state
  after it, in an option that is \<open>None\<close> when the fuel runs out.  The mutual recursion is an
  argument: \<open>ev\<close> is \<^verbatim>\<open>eval_expr\<close>, \<open>ex\<close> is \<^verbatim>\<open>exec_stmt\<close>; it is tied at the end of the
  theory.  The other parts of the runtime and the operating system, which keep a state of
  their own, are the parameter \<open>sys\<close>.
\<close>

section \<open>State\<close>

datatype ub = UB_overflow | UB_shift | UB_conversion | UB_freed_node | UB_null | UB_uninitialised

record 'w interp =
  it_store :: store
  it_globals :: addr
  it_had_runtime_error :: bool
  it_error_message :: "string option"
  it_open_file :: "nat option"
  it_open_dir_path :: "string option"
  it_out :: string
  it_in :: string
  it_ub :: "ub list"
  it_world :: 'w

type_synonym ('a, 'w) act = "'w interp \<Rightarrow> ('a \<times> 'w interp) option"
type_synonym 'w evaluator = "expr \<Rightarrow> addr \<Rightarrow> (val, 'w) act"

text \<open>The calls that leave the interpreter; a result \<open>None\<close> is NULL.\<close>

datatype sys_call =
    GETENV string
  | FOPEN string
  | FREAD nat
  | FCLOSE nat
  | READDIR string
  | RMDIR string
  | ADD_TIMER llong llong val
  | CLEAR_TIMER llong
  | HTTP_CLIENT_GET string
  | HTTP_CLIENT_POST string "val option"
  | HTTP_SERVER_ON llong
  | HTTP_SERVER_ROUTE string string val
  | HTTP_SERVER_LISTEN
  | WS_SERVER_ON llong
  | WS_SERVER_ROUTE string val
  | WS_SERVER_LISTEN
  | WS_CONN_CALL addr string "val list"
  | WORKER_SPAWN_FUNC "val option"
  | WORKER_SPAWN_FILE string
  | WORKER_JOIN nat
  | POOL_CREATE llong
  | POOL_SUBMIT nat val
  | POOL_WAIT_ALL nat

text \<open>
  One field per kind of result: values, handles of files, workers and pools, texts, and names
  of directory entries.  \<^verbatim>\<open>pow\<close> is the one of the C library.
\<close>

record 'w sys =
  sys_value :: "sys_call \<Rightarrow> (val option, 'w) act"
  sys_handle :: "sys_call \<Rightarrow> (nat option, 'w) act"
  sys_text :: "sys_call \<Rightarrow> (string option, 'w) act"
  sys_names :: "sys_call \<Rightarrow> (string list, 'w) act"
  sys_pow :: "dbl \<Rightarrow> dbl \<Rightarrow> dbl"

datatype ExecResult = SIG_NONE | SIG_RETURN val | SIG_THROW val

type_synonym 'w executor = "stmt \<Rightarrow> addr \<Rightarrow> (ExecResult, 'w) act"

definition on_store :: "(store \<Rightarrow> store) \<Rightarrow> 'w interp \<Rightarrow> 'w interp" where
  "on_store f it = it\<lparr>it_store := f (it_store it)\<rparr>"

definition alloc :: "(store \<Rightarrow> 'a \<times> store) \<Rightarrow> 'w interp \<Rightarrow> 'a \<times> 'w interp" where
  "alloc f it = (let (x, st) = f (it_store it) in (x, it\<lparr>it_store := st\<rparr>))"

definition undefined_behaviour :: "ub \<Rightarrow> 'w interp \<Rightarrow> 'w interp" where
  "undefined_behaviour u it = it\<lparr>it_ub := u # it_ub it\<rparr>"

definition print_out :: "string \<Rightarrow> 'w interp \<Rightarrow> 'w interp" where
  "print_out s it = it\<lparr>it_out := it_out it @ s\<rparr>"

text \<open>The message is cut to the 899 characters that \<^verbatim>\<open>buf\<close> holds.\<close>

definition rt_error :: "nat \<Rightarrow> string \<Rightarrow> 'w interp \<Rightarrow> 'w interp" where
  "rt_error line msg it =
     it\<lparr>it_had_runtime_error := True,
        it_error_message := Some (''line '' @ show_nat line @ '': '' @ take 899 msg)\<rparr>"

definition void_error :: "nat \<Rightarrow> string \<Rightarrow> (val, 'w) act" where
  "void_error line msg it = Some (V_VOID, rt_error line msg it)"

definition interp_init :: "string \<Rightarrow> 'w \<Rightarrow> 'w interp" where
  "interp_init input world =
     (let (globals, st) = env_new None empty_store
      in \<lparr>it_store = st, it_globals = globals, it_had_runtime_error = False, it_error_message = None,
          it_open_file = None, it_open_dir_path = None, it_out = [], it_in = input, it_ub = [],
          it_world = world\<rparr>)"

text \<open>\<^verbatim>\<open>(long long)d\<close>\<close>

definition to_llong :: "dbl \<Rightarrow> 'w interp \<Rightarrow> llong \<times> 'w interp" where
  "to_llong d it =
     (case dbl_to_llong d of Some k \<Rightarrow> (k, it) | None \<Rightarrow> (0, undefined_behaviour UB_conversion it))"

definition display :: "nat \<Rightarrow> val \<Rightarrow> 'w interp \<Rightarrow> string option" where
  "display n v it = value_to_display_string n (it_store it) v"

definition safe_str :: "val \<Rightarrow> string" where
  "safe_str v = (case v of V_STRING s \<Rightarrow> s | _ \<Rightarrow> [])"

text \<open>A closing single quote cannot end a string literal of the logic.\<close>

definition in_quotes :: "string \<Rightarrow> string" where
  "in_quotes s = [CHR 0x27] @ s @ [CHR 0x27]"

section \<open>String interpolation and lists\<close>

fun interp_parts :: "nat \<Rightarrow> 'w evaluator \<Rightarrow> strpart list \<Rightarrow> addr \<Rightarrow> string \<Rightarrow> (val, 'w) act" where
  "interp_parts n ev [] env out it = Some (V_STRING out, it)"
| "interp_parts n ev (PartLiteral s # ps) env out it = interp_parts n ev ps env (out @ s) it"
| "interp_parts n ev (PartExpr e # ps) env out it = do {
     (v, it) \<leftarrow> ev e env it;
     if it_had_runtime_error it then Some (V_STRING [], it)
     else do { piece \<leftarrow> display n v it; interp_parts n ev ps env (out @ piece) it }
   }"

definition eval_string_interp :: "nat \<Rightarrow> 'w evaluator \<Rightarrow> strpart list \<Rightarrow> addr \<Rightarrow> (val, 'w) act" where
  "eval_string_interp n ev parts env = interp_parts n ev parts env []"

text \<open>The loop of \<^verbatim>\<open>delete\<close>: \<open>n\<close> bounds the steps by the number of nodes.\<close>

fun list_unlink :: "nat \<Rightarrow> addr \<Rightarrow> int \<Rightarrow> int \<Rightarrow> addr option \<Rightarrow> addr option \<Rightarrow> store \<Rightarrow> store" where
  "list_unlink 0 l idx i prev c st = st"
| "list_unlink (Suc n) l idx i prev c st =
     (case (c, Option.bind c (node_at st)) of
        (Some cur, Some (_, next)) \<Rightarrow>
          (if i = idx then
             set_node cur None (case prev of Some p \<Rightarrow> set_next p next st | None \<Rightarrow> set_head l next st)
           else list_unlink n l idx (i + 1) (Some cur) next st)
      | _ \<Rightarrow> st)"

definition list_delete :: "addr \<Rightarrow> int \<Rightarrow> store \<Rightarrow> store" where
  "list_delete l idx st = list_unlink (length (st_nodes st)) l idx 0 None (head_at st l) st"

text \<open>\<^verbatim>\<open>strcmp(s, t) > 0\<close> on bytes, and the comparison of \<^verbatim>\<open>sort\<close>.\<close>

fun strcmp_gt :: "string \<Rightarrow> string \<Rightarrow> bool" where
  "strcmp_gt [] t = False"
| "strcmp_gt (c # s) [] = True"
| "strcmp_gt (c # s) (d # t) = (code d < code c \<or> (c = d \<and> strcmp_gt s t))"

definition sort_gt :: "val \<Rightarrow> val \<Rightarrow> bool" where
  "sort_gt a b =
     (case (a, b) of
        (V_STRING s, V_STRING t) \<Rightarrow> strcmp_gt s t
      | _ \<Rightarrow> dlt (value_as_number b) (value_as_number a))"

definition sort_swap :: "nat \<Rightarrow> nat \<Rightarrow> val list \<Rightarrow> val list" where
  "sort_swap a b arr = (if sort_gt (arr ! a) (arr ! b) then arr[a := arr ! b, b := arr ! a] else arr)"

definition sort_array :: "val list \<Rightarrow> val list" where
  "sort_array arr =
     foldl (\<lambda>arr a. foldl (\<lambda>arr b. sort_swap a b arr) arr [Suc a ..< length arr]) arr [0 ..< length arr]"

text \<open>New nodes for the sorted items, one after the other, from the address \<open>base\<close> on.\<close>

fun chain_nodes :: "addr \<Rightarrow> val list \<Rightarrow> ListNode option list" where
  "chain_nodes base [] = []"
| "chain_nodes base (v # vs) =
     Some (v, if vs = [] then None else Some (base + 1)) # chain_nodes (base + 1) vs"

definition list_sort :: "addr \<Rightarrow> store \<Rightarrow> store" where
  "list_sort l st =
     (let arr = sort_array (list_items st l); base = length (st_nodes st)
      in set_head l (if arr = [] then None else Some base)
           (st\<lparr>st_nodes := st_nodes st @ chain_nodes base arr\<rparr>))"

text \<open>The loop of \<^verbatim>\<open>concat\<close>, which does not end when a list is appended to itself.\<close>

fun list_concat :: "nat \<Rightarrow> addr \<Rightarrow> addr option \<Rightarrow> store \<Rightarrow> store option" where
  "list_concat 0 l c st = None"
| "list_concat (Suc n) l c st =
     (case Option.bind c (node_at st) of
        None \<Rightarrow> Some st
      | Some (v, _) \<Rightarrow>
          (let st = value_list_append l v st
           in list_concat n l (case Option.bind c (node_at st) of Some (_, next) \<Rightarrow> next | None \<Rightarrow> None) st))"

definition call_list_method ::
  "nat \<Rightarrow> 'w evaluator \<Rightarrow> addr \<Rightarrow> string \<Rightarrow> expr list \<Rightarrow> addr \<Rightarrow> nat \<Rightarrow> (val, 'w) act" where
  "call_list_method n ev l name args env line it =
     (if name = ''append'' then
        (case args of
           [] \<Rightarrow> Some (V_VOID, it)
         | a # _ \<Rightarrow> do { (v, it) \<leftarrow> ev a env it; Some (V_VOID, on_store (value_list_append l v) it) })
      else if name = ''insert'' then
        (case args of
           [] \<Rightarrow> Some (V_VOID, it)
         | a # _ \<Rightarrow> do { (v, it) \<leftarrow> ev a env it; Some (V_VOID, on_store (value_list_insert_front l v) it) })
      else if name = ''delete'' then
        (case args of
           [] \<Rightarrow> Some (V_VOID, it)
         | a # _ \<Rightarrow> do {
             (idxv, it) \<leftarrow> ev a env it;
             let (idx, it) = to_llong (value_as_number idxv) it;
             Some (V_VOID, on_store (list_delete l (sint idx)) it)
           })
      else if name = ''sort'' then Some (V_VOID, on_store (list_sort l) it)
      else if name = ''concat'' then
        (case args of
           [] \<Rightarrow> Some (V_VOID, it)
         | a # _ \<Rightarrow> do {
             (other, it) \<leftarrow> ev a env it;
             (case other of
                V_LIST o' \<Rightarrow> do {
                  st \<leftarrow> list_concat n l (head_at (it_store it) o') (it_store it);
                  Some (V_VOID, it\<lparr>it_store := st\<rparr>)
                }
              | _ \<Rightarrow> Some (V_VOID, it))
           })
      else void_error line (''unknown list method '' @ in_quotes (''.'' @ name)) it)"

text \<open>\<^verbatim>\<open>(int)d\<close>\<close>

definition to_cint :: "dbl \<Rightarrow> 'w interp \<Rightarrow> llong \<times> 'w interp" where
  "to_cint d it =
     (case dtrunc d of
        Some k \<Rightarrow>
          if - 2147483648 \<le> k \<and> k \<le> 2147483647 then (word_of_int k, it)
          else (0, undefined_behaviour UB_conversion it)
      | None \<Rightarrow> (0, undefined_behaviour UB_conversion it))"

section \<open>Calling functions\<close>

text \<open>Arguments that are evaluated already are bound to the parameters, missing ones to \<^verbatim>\<open>void\<close>.\<close>

fun bind_params :: "addr \<Rightarrow> param list \<Rightarrow> val list \<Rightarrow> store \<Rightarrow> store" where
  "bind_params env [] argv st = st"
| "bind_params env ((name, _) # ps) argv st =
     bind_params env ps (tl argv)
       (env_define env name (case argv of [] \<Rightarrow> V_VOID | v # _ \<Rightarrow> v) False st)"

fun eval_args :: "'w evaluator \<Rightarrow> expr list \<Rightarrow> addr \<Rightarrow> (val list, 'w) act" where
  "eval_args ev [] env it = Some ([], it)"
| "eval_args ev (a # as) env it = do {
     (v, it) \<leftarrow> ev a env it;
     (vs, it) \<leftarrow> eval_args ev as env it;
     Some (v # vs, it)
   }"

fun bind_args :: "'w evaluator \<Rightarrow> addr \<Rightarrow> addr \<Rightarrow> param list \<Rightarrow> expr list \<Rightarrow> (unit, 'w) act" where
  "bind_args ev env call_env [] as it = Some ((), it)"
| "bind_args ev env call_env ((name, _) # ps) as it = do {
     (v, it) \<leftarrow> (case as of [] \<Rightarrow> Some (V_VOID, it) | a # _ \<Rightarrow> ev a env it);
     bind_args ev env call_env ps (tl as) (on_store (env_define call_env name v False) it)
   }"

fun hoist_class :: "addr \<Rightarrow> store \<Rightarrow> stmt \<Rightarrow> store" where
  "hoist_class env st (S_CLASS _ name members _ parent) =
     env_define env name (V_CLASS (length (st_classes st))) True
       (st\<lparr>st_classes := st_classes st @
         [\<lparr>ci_name = name, ci_parent_name = parent, ci_parent = None, ci_members = members,
           ci_closure = env\<rparr>]\<rparr>)"
| "hoist_class env st _ = st"

fun link_parent :: "addr \<Rightarrow> store \<Rightarrow> stmt \<Rightarrow> store" where
  "link_parent env st (S_CLASS _ name _ _ (Some parent)) =
     (case (env_get st env name, env_get st env parent) of
        (Some (V_CLASS c), Some (V_CLASS p)) \<Rightarrow>
          st\<lparr>st_classes := (st_classes st)[c := (class_at st c)\<lparr>ci_parent := Some p\<rparr>]\<rparr>
      | _ \<Rightarrow> st)"
| "link_parent env st _ = st"

definition hoist_classes :: "stmt list \<Rightarrow> addr \<Rightarrow> store \<Rightarrow> store" where
  "hoist_classes ss env st = foldl (link_parent env) (foldl (hoist_class env) st ss) ss"

definition new_func :: "FuncValue \<Rightarrow> store \<Rightarrow> val \<times> store" where
  "new_func f st = (V_FUNC (length (st_funcs st)), st\<lparr>st_funcs := st_funcs st @ [f]\<rparr>)"

fun hoist_fun :: "addr \<Rightarrow> store \<Rightarrow> stmt \<Rightarrow> store" where
  "hoist_fun env st (S_FUN_DECL _ name ps _ body is_async) =
     (let (v, st) = new_func \<lparr>fv_params = ps, fv_body = body, fv_closure = env,
                              fv_is_async = is_async, fv_name = name\<rparr> st
      in env_define env name v True st)"
| "hoist_fun env st _ = st"

definition hoist_funs :: "stmt list \<Rightarrow> addr \<Rightarrow> store \<Rightarrow> store" where
  "hoist_funs ss env st = foldl (hoist_fun env) st ss"

fun exec_seq :: "'w executor \<Rightarrow> stmt list \<Rightarrow> addr \<Rightarrow> (ExecResult, 'w) act" where
  "exec_seq ex [] env it = Some (SIG_NONE, it)"
| "exec_seq ex (s # ss) env it = do {
     (r, it) \<leftarrow> ex s env it;
     if r \<noteq> SIG_NONE \<or> it_had_runtime_error it then Some (r, it) else exec_seq ex ss env it
   }"

definition exec_block :: "'w executor \<Rightarrow> stmt list \<Rightarrow> addr \<Rightarrow> (ExecResult, 'w) act" where
  "exec_block ex ss parent_env it =
     (let (env, it) = alloc (env_new (Some parent_env)) it;
          it = on_store (hoist_classes ss env) it;
          it = on_store (hoist_funs ss env) it
      in exec_seq ex ss env it)"

fun block_stmts :: "stmt \<Rightarrow> stmt list" where
  "block_stmts (S_BLOCK _ ss) = ss"
| "block_stmts _ = []"

fun returned :: "ExecResult \<Rightarrow> val" where
  "returned (SIG_RETURN v) = v"
| "returned _ = V_VOID"

definition call_value ::
  "nat \<Rightarrow> 'w evaluator \<Rightarrow> 'w executor \<Rightarrow> val \<Rightarrow> expr list \<Rightarrow> addr \<Rightarrow> nat \<Rightarrow> (val, 'w) act" where
  "call_value n ev ex callee args env line it =
     (case callee of
        V_FUNC f \<Rightarrow> do {
          let fn = func_at (it_store it) f;
          let (call_env, it) = alloc (env_new (Some (fv_closure fn))) it;
          (_, it) \<leftarrow> bind_args ev env call_env (fv_params fn) args it;
          (r, it) \<leftarrow> exec_block ex (block_stmts (fv_body fn)) call_env it;
          (case r of
             SIG_RETURN v \<Rightarrow> Some (v, it)
           | SIG_NONE \<Rightarrow> Some (V_VOID, it)
           | SIG_THROW v \<Rightarrow>
               (if it_had_runtime_error it then Some (V_VOID, it)
                else do { s \<leftarrow> display n v it; void_error line (''uncaught error: '' @ s) it }))
        }
      | _ \<Rightarrow> void_error line ''attempted to call a non-function value'' it)"

text \<open>\<^verbatim>\<open>interp_invoke\<close> and \<^verbatim>\<open>interp_invoke_closure\<close> differ in the parent of the new environment.\<close>

definition invoke_in :: "'w executor \<Rightarrow> addr \<Rightarrow> FuncValue \<Rightarrow> val list \<Rightarrow> (val, 'w) act" where
  "invoke_in ex parent fn argv it = do {
     let (call_env, it) = alloc (env_new (Some parent)) it;
     let it = on_store (bind_params call_env (fv_params fn) argv) it;
     (r, it) \<leftarrow> exec_block ex (block_stmts (fv_body fn)) call_env it;
     Some (returned r, it)
   }"

definition interp_invoke :: "'w executor \<Rightarrow> val \<Rightarrow> val list \<Rightarrow> (val, 'w) act" where
  "interp_invoke ex callee argv it =
     (case callee of
        V_FUNC f \<Rightarrow> invoke_in ex (it_globals it) (func_at (it_store it) f) argv it
      | _ \<Rightarrow> void_error 0 ''attempted to call a non-function value'' it)"

definition interp_invoke_closure :: "'w executor \<Rightarrow> val \<Rightarrow> val list \<Rightarrow> (val, 'w) act" where
  "interp_invoke_closure ex callee argv it =
     (case callee of
        V_FUNC f \<Rightarrow>
          (let fn = func_at (it_store it) f in invoke_in ex (fv_closure fn) fn argv it)
      | _ \<Rightarrow> void_error 0 ''attempted to call a non-function value'' it)"

section \<open>Classes and instances\<close>

fun is_method :: "string \<Rightarrow> stmt \<Rightarrow> bool" where
  "is_method name (S_FUN_DECL _ m _ _ _ _) = (m = name)"
| "is_method name _ = False"

text \<open>
  The class that has the method and the method.  The walk along the parents does not end when
  they form a cycle, which is the outer \<open>None\<close>.
\<close>

fun find_method :: "nat \<Rightarrow> store \<Rightarrow> addr \<Rightarrow> string \<Rightarrow> (addr \<times> stmt) option option" where
  "find_method 0 st c name = None"
| "find_method (Suc n) st c name =
     (case find (is_method name) (ci_members (class_at st c)) of
        Some m \<Rightarrow> Some (Some (c, m))
      | None \<Rightarrow>
          (case ci_parent (class_at st c) of
             None \<Rightarrow> Some None
           | Some p \<Rightarrow> find_method n st p name))"

fun method_params :: "stmt \<Rightarrow> param list" where
  "method_params (S_FUN_DECL _ _ ps _ _ _) = ps"
| "method_params _ = []"

fun method_body :: "stmt \<Rightarrow> stmt" where
  "method_body (S_FUN_DECL _ _ _ _ body _) = body"
| "method_body s = s"

definition bind_this :: "addr \<Rightarrow> addr \<Rightarrow> val \<Rightarrow> store \<Rightarrow> store" where
  "bind_this call_env c this st =
     (let st = env_define call_env ''this'' this True st
      in case ci_parent (class_at st c) of
           None \<Rightarrow> st
         | Some p \<Rightarrow>
             (let (super_v, st) = native_wrap (NATIVE_SUPER_REF (Some p) this) st
              in env_define call_env ''super'' super_v True st))"

definition invoke_method :: "'w executor \<Rightarrow> addr \<Rightarrow> stmt \<Rightarrow> val \<Rightarrow> val list \<Rightarrow> (val, 'w) act" where
  "invoke_method ex c m this argv it = do {
     let (call_env, it) = alloc (env_new (Some (ci_closure (class_at (it_store it) c)))) it;
     let it = on_store (bind_this call_env c this) it;
     let it = on_store (bind_params call_env (method_params m) argv) it;
     (r, it) \<leftarrow> exec_block ex (block_stmts (method_body m)) call_env it;
     Some (returned r, it)
   }"

fun init_members :: "'w evaluator \<Rightarrow> stmt list \<Rightarrow> addr \<Rightarrow> addr \<Rightarrow> (unit, 'w) act" where
  "init_members ev [] env obj it = Some ((), it)"
| "init_members ev (S_VARDECL _ name _ ini _ # ms) env obj it = do {
     (v, it) \<leftarrow> (case ini of None \<Rightarrow> Some (V_VOID, it) | Some e \<Rightarrow> ev e env it);
     init_members ev ms env obj (on_store (value_data_set obj name v) it)
   }"
| "init_members ev (_ # ms) env obj it = init_members ev ms env obj it"

fun init_fields :: "nat \<Rightarrow> 'w evaluator \<Rightarrow> addr \<Rightarrow> addr \<Rightarrow> (unit, 'w) act" where
  "init_fields 0 ev c obj it = None"
| "init_fields (Suc n) ev c obj it = do {
     (_, it) \<leftarrow> (case ci_parent (class_at (it_store it) c) of
                  None \<Rightarrow> Some ((), it)
                | Some p \<Rightarrow> init_fields n ev p obj it);
     let ci = class_at (it_store it) c;
     let (field_env, it) = alloc (env_new (Some (ci_closure ci))) it;
     init_members ev (ci_members ci) field_env obj it
   }"

definition new_instance :: "addr \<Rightarrow> addr \<Rightarrow> store \<Rightarrow> val \<times> store" where
  "new_instance c obj st =
     (V_INSTANCE (length (st_instances st)),
      st\<lparr>st_instances := st_instances st @ [\<lparr>in_class = c, in_fields = obj\<rparr>]\<rparr>)"

definition construct_instance ::
  "nat \<Rightarrow> 'w evaluator \<Rightarrow> 'w executor \<Rightarrow> addr \<Rightarrow> expr list \<Rightarrow> addr \<Rightarrow> (val, 'w) act" where
  "construct_instance n ev ex c args env it = do {
     let obj = length (st_datas (it_store it));
     let (_, it) = alloc value_data_empty it;
     (_, it) \<leftarrow> init_fields n ev c obj it;
     let (this, it) = alloc (new_instance c obj) it;
     ctor \<leftarrow> find_method n (it_store it) c ''constructor'';
     (case ctor of
        None \<Rightarrow> Some (this, it)
      | Some (ctor_class, m) \<Rightarrow> do {
          (argv, it) \<leftarrow> eval_args ev args env it;
          (_, it) \<leftarrow> invoke_method ex ctor_class m this argv it;
          Some (this, it)
        })
   }"

section \<open>Operators\<close>

text \<open>The result of integer arithmetic, which is undefined where it does not fit.\<close>

definition checked :: "int \<Rightarrow> 'w interp \<Rightarrow> val \<times> 'w interp" where
  "checked k it =
     (V_NUM (word_of_int k),
      if LLONG_MIN \<le> k \<and> k \<le> LLONG_MAX then it else undefined_behaviour UB_overflow it)"

text \<open>\<^verbatim>\<open>(long long)ld op (long long)rd\<close>\<close>

definition on_llongs ::
  "(int \<Rightarrow> int \<Rightarrow> 'w interp \<Rightarrow> val \<times> 'w interp) \<Rightarrow> dbl \<Rightarrow> dbl \<Rightarrow> 'w interp \<Rightarrow> val \<times> 'w interp" where
  "on_llongs f ld rd it =
     (let (a, it) = to_llong ld it; (b, it) = to_llong rd it in f (sint a) (sint b) it)"

definition shift_left :: "int \<Rightarrow> int \<Rightarrow> 'w interp \<Rightarrow> val \<times> 'w interp" where
  "shift_left a b it =
     (if b < 0 \<or> 64 \<le> b then (V_NUM 0, undefined_behaviour UB_shift it)
      else (V_NUM (word_of_int (a * 2 ^ nat b)),
            if a < 0 \<or> LLONG_MAX < a * 2 ^ nat b then undefined_behaviour UB_shift it else it))"

definition shift_right :: "int \<Rightarrow> int \<Rightarrow> 'w interp \<Rightarrow> val \<times> 'w interp" where
  "shift_right a b it =
     (if b < 0 \<or> 64 \<le> b then (V_NUM 0, undefined_behaviour UB_shift it)
      else (V_NUM (word_of_int (a div 2 ^ nat b)), it))"

text \<open>The remainder of C has the sign of the dividend; of the least number by \<open>-1\<close> it is undefined.\<close>

definition remainder :: "int \<Rightarrow> int \<Rightarrow> 'w interp \<Rightarrow> val \<times> 'w interp" where
  "remainder a b it =
     (V_NUM (word_of_int (sgn a * (\<bar>a\<bar> mod \<bar>b\<bar>))),
      if a = LLONG_MIN \<and> b = - 1 then undefined_behaviour UB_overflow it else it)"

definition truncated :: "dbl \<Rightarrow> 'w interp \<Rightarrow> val \<times> 'w interp" where
  "truncated d it = (let (k, it) = to_llong d it in (V_NUM k, it))"

fun both_num :: "val \<Rightarrow> val \<Rightarrow> bool" where
  "both_num (V_NUM _) (V_NUM _) = True"
| "both_num _ _ = False"

text \<open>The operators on numbers, after the tests for strings, equality and logic.\<close>

definition eval_arith ::
  "'w sys \<Rightarrow> token_type \<Rightarrow> val \<Rightarrow> val \<Rightarrow> nat \<Rightarrow> (val, 'w) act" where
  "eval_arith sys opr l r line it =
     (let ld = value_as_number l; rd = value_as_number r; both_int = both_num l r
      in if opr = TOK_GT then Some (V_BOOL (dlt rd ld), it)
         else if opr = TOK_LT then Some (V_BOOL (dlt ld rd), it)
         else if opr = TOK_GE then Some (V_BOOL (dle rd ld), it)
         else if opr = TOK_LE then Some (V_BOOL (dle ld rd), it)
         else if opr = TOK_SHL then Some (on_llongs shift_left ld rd it)
         else if opr = TOK_SHR then Some (on_llongs shift_right ld rd it)
         else if opr = TOK_PLUS then
           Some (if both_int then on_llongs (\<lambda>a b. checked (a + b)) ld rd it else (V_DECIMAL (dadd ld rd), it))
         else if opr = TOK_MINUS then
           Some (if both_int then on_llongs (\<lambda>a b. checked (a - b)) ld rd it else (V_DECIMAL (dsub ld rd), it))
         else if opr = TOK_STAR then
           Some (if both_int then on_llongs (\<lambda>a b. checked (a * b)) ld rd it else (V_DECIMAL (dmul ld rd), it))
         else if opr = TOK_SLASH then
           (if deq rd dzero then void_error line ''division by zero'' it
            else Some (V_DECIMAL (ddiv ld rd), it))
         else if opr = TOK_PERCENT then
           (let (b, it) = to_llong rd it
            in if b = 0 then void_error line ''modulo by zero'' it
               else Some (if both_int then on_llongs remainder ld rd it else (V_DECIMAL (dmod ld rd), it)))
         else if opr = TOK_POW then
           Some (if both_int \<and> dle dzero rd then truncated (sys_pow sys ld rd) it
                 else (V_DECIMAL (sys_pow sys ld rd), it))
         else void_error line ''unsupported binary operator'' it)"

fun is_string :: "val \<Rightarrow> bool" where
  "is_string (V_STRING _) = True"
| "is_string _ = False"

definition eval_binary ::
  "nat \<Rightarrow> 'w sys \<Rightarrow> token_type \<Rightarrow> val \<Rightarrow> val \<Rightarrow> nat \<Rightarrow> (val, 'w) act" where
  "eval_binary n sys opr l r line it =
     (if opr = TOK_PLUS \<and> (is_string l \<or> is_string r) then do {
        ls \<leftarrow> display n l it;
        rs \<leftarrow> display n r it;
        Some (V_STRING (ls @ rs), it)
      }
      else if opr = TOK_EQ then Some (V_BOOL (value_equal l r), it)
      else if opr = TOK_NE then Some (V_BOOL (\<not> value_equal l r), it)
      else if opr = TOK_AND then
        Some (V_BOOL (value_truthy (it_store it) l \<and> value_truthy (it_store it) r), it)
      else if opr = TOK_OR then
        Some (V_BOOL (value_truthy (it_store it) l \<or> value_truthy (it_store it) r), it)
      else if \<not> is_numericish l \<or> \<not> is_numericish r then
        void_error line ''operator requires numeric operands'' it
      else eval_arith sys opr l r line it)"

definition eval_unary :: "token_type \<Rightarrow> val \<Rightarrow> 'w interp \<Rightarrow> val \<times> 'w interp" where
  "eval_unary opr v it =
     (if opr = TOK_NOT then (V_BOOL (\<not> value_truthy (it_store it) v), it)
      else if opr = TOK_MINUS then
        (case v of
           V_NUM k \<Rightarrow> checked (- sint k) it
         | _ \<Rightarrow> (V_DECIMAL (dneg (value_as_number v)), it))
      else (V_VOID, it))"

section \<open>Members, elements and assignment\<close>

definition eval_member :: "val \<Rightarrow> string \<Rightarrow> nat \<Rightarrow> (val, 'w) act" where
  "eval_member obj name line it =
     (case obj of
        V_DATA d \<Rightarrow> Some (case value_data_get (it_store it) d name of Some v \<Rightarrow> v | None \<Rightarrow> V_VOID, it)
      | V_INSTANCE i \<Rightarrow>
          (let inst = instance_at (it_store it) i
           in case value_data_get (it_store it) (in_fields inst) name of
                Some v \<Rightarrow> Some (v, it)
              | None \<Rightarrow>
                  void_error line (in_quotes (ci_name (class_at (it_store it) (in_class inst))) @
                    '' has no field '' @ in_quotes name) it)
      | _ \<Rightarrow> void_error line (''cannot access member '' @ in_quotes name @ '' on this value'') it)"

definition nth_int :: "'a list \<Rightarrow> int \<Rightarrow> 'a option" where
  "nth_int xs i = (if 0 \<le> i \<and> nat i < length xs then Some (xs ! nat i) else None)"

definition eval_index :: "val \<Rightarrow> val \<Rightarrow> nat \<Rightarrow> (val, 'w) act" where
  "eval_index obj idx line it =
     (case obj of
        V_LIST l \<Rightarrow>
          (let (i, it) = to_llong (value_as_number idx) it
           in case nth_int (list_items (it_store it) l) (sint i) of
                Some v \<Rightarrow> Some (v, it)
              | None \<Rightarrow> void_error line ''list index out of range'' it)
      | V_DATA d \<Rightarrow>
          Some (case value_data_get (it_store it) d (safe_str idx) of Some v \<Rightarrow> v | None \<Rightarrow> V_VOID, it)
      | V_STRING s \<Rightarrow>
          (let (i, it) = to_llong (value_as_number idx) it
           in case nth_int s (sint i) of
                Some c \<Rightarrow> Some (V_STRING [c], it)
              | None \<Rightarrow> void_error line ''string index out of range'' it)
      | _ \<Rightarrow> void_error line ''value is not indexable'' it)"

definition builtin_ns :: "string list" where
  "builtin_ns = [''live'', ''json'', ''env'', ''file'', ''dir'', ''Task'', ''server'', ''socket'',
                 ''worker'', ''http'']"

definition is_reserved_namespace :: "string \<Rightarrow> bool" where
  "is_reserved_namespace name = List.member builtin_ns name"

text \<open>\<^verbatim>\<open>for (c = list; c; c = c->next, k++) if (k == i) { c->item = v; return; }\<close>: \<open>None\<close> if there is none.\<close>

fun set_item :: "nat \<Rightarrow> store \<Rightarrow> addr option \<Rightarrow> int \<Rightarrow> int \<Rightarrow> val \<Rightarrow> store option" where
  "set_item 0 st c k i v = None"
| "set_item (Suc n) st c k i v =
     (case (c, Option.bind c (node_at st)) of
        (Some cur, Some (w, next)) \<Rightarrow>
          (if k = i then Some (set_node cur (Some (v, next)) st) else set_item n st next (k + 1) i v)
      | _ \<Rightarrow> None)"

definition set_element :: "val \<Rightarrow> val \<Rightarrow> val \<Rightarrow> nat \<Rightarrow> (unit, 'w) act" where
  "set_element obj idx v line it =
     (case obj of
        V_LIST l \<Rightarrow>
          (let (i, it) = to_llong (value_as_number idx) it; st = it_store it
           in case set_item (length (st_nodes st)) st (head_at st l) 0 (sint i) v of
                Some st \<Rightarrow> Some ((), it\<lparr>it_store := st\<rparr>)
              | None \<Rightarrow> Some ((), rt_error line ''list index out of range'' it))
      | V_DATA d \<Rightarrow> Some ((), on_store (value_data_set d (safe_str idx) v) it)
      | _ \<Rightarrow> Some ((), rt_error line ''value is not assignable by index'' it))"

definition set_member :: "val \<Rightarrow> string \<Rightarrow> val \<Rightarrow> nat \<Rightarrow> (unit, 'w) act" where
  "set_member obj name v line it =
     (case obj of
        V_DATA d \<Rightarrow> Some ((), on_store (value_data_set d name v) it)
      | V_INSTANCE i \<Rightarrow>
          Some ((), on_store (value_data_set (in_fields (instance_at (it_store it) i)) name v) it)
      | _ \<Rightarrow> Some ((), rt_error line (''cannot assign member '' @ in_quotes name @ '' on this value'') it))"

definition set_variable :: "string \<Rightarrow> val \<Rightarrow> addr \<Rightarrow> nat \<Rightarrow> 'w interp \<Rightarrow> 'w interp" where
  "set_variable name v env line it =
     (if is_reserved_namespace name \<and> env_get (it_store it) env name = None then it
      else if env_is_fixed (it_store it) env name then
        rt_error line (''cannot reassign fixed variable '' @ in_quotes name) it
      else
        (let (found, st) = env_set env name v (it_store it)
         in if found then it\<lparr>it_store := st\<rparr> else on_store (env_define env name v False) it))"

definition set_lvalue :: "'w evaluator \<Rightarrow> expr \<Rightarrow> val \<Rightarrow> addr \<Rightarrow> nat \<Rightarrow> (unit, 'w) act" where
  "set_lvalue ev target v env line it =
     (case target of
        E_IDENT _ name \<Rightarrow> Some ((), set_variable name v env line it)
      | E_INDEX _ object index \<Rightarrow> do {
          (obj, it) \<leftarrow> ev object env it;
          (idx, it) \<leftarrow> ev index env it;
          set_element obj idx v line it
        }
      | E_MEMBER _ object name \<Rightarrow> do {
          (obj, it) \<leftarrow> ev object env it;
          set_member obj name v line it
        }
      | _ \<Rightarrow> Some ((), rt_error line ''invalid assignment target'' it))"

definition assign_binop :: "token_type \<Rightarrow> token_type" where
  "assign_binop opr =
     (if opr = TOK_PLUS_EQ then TOK_PLUS else if opr = TOK_MINUS_EQ then TOK_MINUS
      else if opr = TOK_STAR_EQ then TOK_STAR else if opr = TOK_SLASH_EQ then TOK_SLASH
      else if opr = TOK_PERCENT_EQ then TOK_PERCENT else TOK_POW)"

definition eval_assign ::
  "nat \<Rightarrow> 'w sys \<Rightarrow> 'w evaluator \<Rightarrow> expr \<Rightarrow> expr \<Rightarrow> token_type \<Rightarrow> addr \<Rightarrow> nat \<Rightarrow> (val, 'w) act" where
  "eval_assign n sys ev target rhs opr env line it = do {
     (newval, it) \<leftarrow>
       (if opr = TOK_ASSIGN then ev rhs env it
        else do {
          (cur, it) \<leftarrow> ev target env it;
          (r, it) \<leftarrow> ev rhs env it;
          eval_binary n sys (assign_binop opr) cur r line it
        });
     (_, it) \<leftarrow> set_lvalue ev target newval env line it;
     Some (newval, it)
   }"

section \<open>Calls of methods\<close>

text \<open>Response objects, from \<^verbatim>\<open>http.c\<close>; \<open>None\<close> is NULL, for an unknown method.\<close>

definition http_make_response :: "store \<Rightarrow> val \<times> store" where
  "http_make_response st =
     (let res = length (st_datas st);
          st = snd (value_data_empty st);
          st = value_data_set res ''__is_response__'' (V_BOOL True) st;
          st = value_data_set res ''__status'' (V_NUM 200) st;
          st = value_data_set res ''__body'' (V_STRING []) st;
          (h, st) = value_data_empty st
      in (V_DATA res, value_data_set res ''__headers'' h st))"

definition http_is_response_object :: "store \<Rightarrow> val \<Rightarrow> bool" where
  "http_is_response_object st v =
     (case v of V_DATA d \<Rightarrow> value_data_get st d ''__is_response__'' \<noteq> None | _ \<Rightarrow> False)"

text \<open>\<^verbatim>\<open>value_data_set(headers, ...)\<close>, where there may be no headers.\<close>

definition set_header :: "addr \<Rightarrow> string \<Rightarrow> string \<Rightarrow> 'w interp \<Rightarrow> 'w interp" where
  "set_header obj key v it =
     (case value_data_get (it_store it) obj ''__headers'' of
        Some (V_DATA h) \<Rightarrow> on_store (value_data_set h key (V_STRING v)) it
      | _ \<Rightarrow> undefined_behaviour UB_null it)"

definition http_response_call_method :: "nat \<Rightarrow> addr \<Rightarrow> string \<Rightarrow> val list \<Rightarrow> (val option, 'w) act" where
  "http_response_call_method n obj meth argv it =
     (if meth = ''send'' then do {
        s \<leftarrow> (case argv of [] \<Rightarrow> Some [] | v # _ \<Rightarrow> display n v it);
        Some (Some (V_DATA obj), on_store (value_data_set obj ''__body'' (V_STRING s)) it)
      }
      else if meth = ''json'' then do {
        let (data, it) = (case argv of [] \<Rightarrow> alloc value_data_empty it | v # _ \<Rightarrow> (v, it));
        s \<leftarrow> json_stringify n (it_store it) data;
        Some (Some (V_DATA obj),
              set_header obj ''Content-Type'' ''application/json''
                (on_store (value_data_set obj ''__body'' (V_STRING s)) it))
      }
      else if meth = ''status'' then
        (let (status, it) = (case argv of [] \<Rightarrow> (200, it) | v # _ \<Rightarrow> to_llong (value_as_number v) it)
         in Some (Some (V_DATA obj), on_store (value_data_set obj ''__status'' (V_NUM status)) it))
      else if meth = ''header'' then
        (case argv of
           V_STRING key # v # _ \<Rightarrow> do {
             s \<leftarrow> display n v it;
             Some (Some (V_DATA obj), set_header obj key s it)
           }
         | _ \<Rightarrow> Some (Some (V_DATA obj), it))
      else Some (None, it))"

definition or_void :: "val option \<Rightarrow> val" where
  "or_void v = (case v of Some v \<Rightarrow> v | None \<Rightarrow> V_VOID)"

definition call_task ::
  "'w executor \<Rightarrow> val \<Rightarrow> string + val option \<Rightarrow> string \<Rightarrow> val list \<Rightarrow> nat \<Rightarrow> (val, 'w) act" where
  "call_task ex obj task name argv line it =
     (if name = ''then'' then
        (case (task, argv) of
           (Inr r, f # _) \<Rightarrow> do { (_, it) \<leftarrow> interp_invoke_closure ex f [or_void r] it; Some (obj, it) }
         | _ \<Rightarrow> Some (obj, it))
      else if name = ''catch'' then
        (case (task, argv) of
           (Inl msg, f # _) \<Rightarrow> do { (_, it) \<leftarrow> interp_invoke_closure ex f [V_STRING msg] it; Some (obj, it) }
         | _ \<Rightarrow> Some (obj, it))
      else if name = ''await'' then
        (case task of
           Inl msg \<Rightarrow> void_error line msg it
         | Inr r \<Rightarrow> Some (or_void r, it))
      else void_error line (''unknown Task method '' @ in_quotes (''.'' @ name)) it)"

definition call_worker ::
  "'w sys \<Rightarrow> 'w executor \<Rightarrow> nat \<Rightarrow> string \<Rightarrow> val list \<Rightarrow> nat \<Rightarrow> (val, 'w) act" where
  "call_worker sys ex h name argv line it =
     (case (name = ''on'', argv) of
        (True, V_STRING ev # f # _) \<Rightarrow>
          (if ev = ''done'' then do {
             (wr, it) \<leftarrow> sys_value sys (WORKER_JOIN h) it;
             (_, it) \<leftarrow> interp_invoke_closure ex f [or_void wr] it;
             Some (V_VOID, it)
           }
           else void_error line (''unknown Worker method '' @ in_quotes (''.'' @ name)) it)
      | _ \<Rightarrow>
          (if name = ''terminate'' then do {
             (_, it) \<leftarrow> sys_value sys (WORKER_JOIN h) it;
             Some (V_VOID, it)
           }
           else void_error line (''unknown Worker method '' @ in_quotes (''.'' @ name)) it))"

definition call_pool ::
  "'w sys \<Rightarrow> 'w executor \<Rightarrow> nat \<Rightarrow> string \<Rightarrow> val list \<Rightarrow> nat \<Rightarrow> (val, 'w) act" where
  "call_pool sys ex h name argv line it =
     (case argv of
        f # _ \<Rightarrow>
          (if name = ''submit'' then do {
             (_, it) \<leftarrow> sys_value sys (POOL_SUBMIT h f) it;
             Some (V_VOID, it)
           }
           else if name = ''onAll'' then do {
             (results, it) \<leftarrow> sys_value sys (POOL_WAIT_ALL h) it;
             (_, it) \<leftarrow> interp_invoke_closure ex f [or_void results] it;
             Some (V_VOID, it)
           }
           else void_error line (''unknown Worker pool method '' @ in_quotes (''.'' @ name)) it)
      | [] \<Rightarrow> void_error line (''unknown Worker pool method '' @ in_quotes (''.'' @ name)) it)"

definition call_super_method ::
  "nat \<Rightarrow> 'w executor \<Rightarrow> addr option \<Rightarrow> val \<Rightarrow> string \<Rightarrow> val list \<Rightarrow> nat \<Rightarrow> (val, 'w) act" where
  "call_super_method n ex parent this name argv line it = do {
     m \<leftarrow> (case parent of None \<Rightarrow> Some None | Some p \<Rightarrow> find_method n (it_store it) p name);
     (case m of
        Some (c, m) \<Rightarrow> invoke_method ex c m this argv it
      | None \<Rightarrow> void_error line (''no parent method '' @ in_quotes name @ '' to call via super'') it)
   }"

definition call_native ::
  "nat \<Rightarrow> 'w sys \<Rightarrow> 'w executor \<Rightarrow> addr \<Rightarrow> string \<Rightarrow> val list \<Rightarrow> nat \<Rightarrow> (val, 'w) act" where
  "call_native n sys ex a name argv line it =
     (case native_at (it_store it) a of
        NATIVE_TASK task \<Rightarrow> call_task ex (V_NATIVE a) task name argv line it
      | NATIVE_WORKER h \<Rightarrow> call_worker sys ex h name argv line it
      | NATIVE_WORKER_POOL h \<Rightarrow> call_pool sys ex h name argv line it
      | NATIVE_SOCKET_CONN h \<Rightarrow> do {
          (r, it) \<leftarrow> sys_value sys (WS_CONN_CALL a name argv) it;
          (case r of
             Some v \<Rightarrow> Some (v, it)
           | None \<Rightarrow> void_error line (''unknown Socket method '' @ in_quotes (''.'' @ name)) it)
        }
      | NATIVE_SUPER_REF parent this \<Rightarrow> call_super_method n ex parent this name argv line it)"

definition call_instance ::
  "nat \<Rightarrow> 'w evaluator \<Rightarrow> 'w executor \<Rightarrow> addr \<Rightarrow> string \<Rightarrow> expr list \<Rightarrow> addr \<Rightarrow> nat \<Rightarrow> (val, 'w) act" where
  "call_instance n ev ex i name args env line it = do {
     let c = in_class (instance_at (it_store it) i);
     m \<leftarrow> find_method n (it_store it) c name;
     (case m of
        Some (c', m) \<Rightarrow> do {
          (argv, it) \<leftarrow> eval_args ev args env it;
          invoke_method ex c' m (V_INSTANCE i) argv it
        }
      | None \<Rightarrow>
          void_error line (in_quotes (ci_name (class_at (it_store it) c)) @ '' has no method '' @ in_quotes name) it)
   }"

definition call_on_value ::
  "nat \<Rightarrow> 'w sys \<Rightarrow> 'w evaluator \<Rightarrow> 'w executor \<Rightarrow> val \<Rightarrow> string \<Rightarrow> expr list \<Rightarrow> addr \<Rightarrow> nat \<Rightarrow> (val, 'w) act" where
  "call_on_value n sys ev ex obj name args env line it =
     (case obj of
        V_LIST l \<Rightarrow> call_list_method n ev l name args env line it
      | V_INSTANCE i \<Rightarrow> call_instance n ev ex i name args env line it
      | V_NATIVE a \<Rightarrow> do {
          (argv, it) \<leftarrow> eval_args ev args env it;
          call_native n sys ex a name argv line it
        }
      | V_DATA d \<Rightarrow>
          (if http_is_response_object (it_store it) obj then do {
             (argv, it) \<leftarrow> eval_args ev args env it;
             (r, it) \<leftarrow> http_response_call_method n d name argv it;
             (case r of
                Some v \<Rightarrow> Some (v, it)
              | None \<Rightarrow> void_error line (''unknown response method '' @ in_quotes (''.'' @ name)) it)
           }
           else void_error line (''unknown method '' @ in_quotes (''.'' @ name) @ '' for this value'') it)
      | _ \<Rightarrow> void_error line (''unknown method '' @ in_quotes (''.'' @ name) @ '' for this value'') it)"

text \<open>\<^verbatim>\<open>super(args)\<close>, in a constructor.\<close>

definition call_super ::
  "nat \<Rightarrow> 'w evaluator \<Rightarrow> 'w executor \<Rightarrow> addr option \<Rightarrow> val \<Rightarrow> expr list \<Rightarrow> addr \<Rightarrow> (val, 'w) act" where
  "call_super n ev ex parent this args env it = do {
     m \<leftarrow> (case parent of None \<Rightarrow> Some None | Some p \<Rightarrow> find_method n (it_store it) p ''constructor'');
     (case m of
        Some (c, m) \<Rightarrow> do {
          (argv, it) \<leftarrow> eval_args ev args env it;
          invoke_method ex c m this argv it
        }
      | None \<Rightarrow> Some (V_VOID, it))
   }"

definition super_ref :: "store \<Rightarrow> val \<Rightarrow> (addr option \<times> val) option" where
  "super_ref st v =
     (case v of
        V_NATIVE a \<Rightarrow> (case native_at st a of NATIVE_SUPER_REF p this \<Rightarrow> Some (p, this) | _ \<Rightarrow> None)
      | _ \<Rightarrow> None)"

section \<open>Built-in namespaces\<close>

text \<open>
  \<^verbatim>\<open>builtin_dispatch\<close>, one definition per namespace: \<open>None\<close> when \<^verbatim>\<open>*handled\<close> is cleared.
\<close>

definition unhandled :: "(val option, 'w) act" where
  "unhandled it = Some (None, it)"

definition give :: "val \<Rightarrow> (val option, 'w) act" where
  "give v it = Some (Some v, it)"

text \<open>\<^verbatim>\<open>args ? eval_expr(it, args->item, env) : d\<close>\<close>

definition arg_or :: "'w evaluator \<Rightarrow> val \<Rightarrow> expr list \<Rightarrow> addr \<Rightarrow> (val, 'w) act" where
  "arg_or ev d args env it = (case args of [] \<Rightarrow> Some (d, it) | a # _ \<Rightarrow> ev a env it)"

text \<open>\<^verbatim>\<open>fgets(buf, 4096, stdin)\<close>, then the newline at the end of \<^verbatim>\<open>buf\<close> cut off.\<close>

definition fgets_line :: "string \<Rightarrow> string \<times> string" where
  "fgets_line s =
     (let l = takeWhile (\<lambda>c. c \<noteq> NL) s
      in if length l < length s \<and> length l < 4095 then (l @ [NL], drop (length l + 1) s)
         else (take 4095 s, drop 4095 s))"

definition chomp :: "string \<Rightarrow> string" where
  "chomp s = (if s \<noteq> [] \<and> last s = NL then butlast s else s)"

definition read_line :: "'w interp \<Rightarrow> val \<times> 'w interp" where
  "read_line it =
     (let (l, rest) = fgets_line (it_in it) in (V_STRING (chomp (cstr l)), it\<lparr>it_in := rest\<rparr>))"

fun deg_matches :: "string \<Rightarrow> val \<Rightarrow> bool option" where
  "deg_matches expect v =
     (if expect = ''string'' then Some (case v of V_STRING _ \<Rightarrow> True | _ \<Rightarrow> False)
      else if expect = ''num'' then Some (case v of V_NUM _ \<Rightarrow> True | _ \<Rightarrow> False)
      else if expect = ''decimal'' then Some (case v of V_DECIMAL _ \<Rightarrow> True | _ \<Rightarrow> False)
      else if expect = ''bool'' then Some (case v of V_BOOL _ \<Rightarrow> True | _ \<Rightarrow> False)
      else None)"

definition deg_report :: "string \<Rightarrow> nat \<Rightarrow> val \<Rightarrow> string" where
  "deg_report expect idx v =
     (case deg_matches expect v of
        None \<Rightarrow> ''live.deg: not defined (unknown type '' @ in_quotes expect @ '')''
      | Some False \<Rightarrow> ''live.deg: type mismatch on argument '' @ show_nat (idx + 1) @ '' (expected '' @ expect @ '')''
      | Some True \<Rightarrow> ''live.deg: expectation met for argument '' @ show_nat (idx + 1)) @ [NL]"

fun deg_loop :: "'w evaluator \<Rightarrow> string \<Rightarrow> nat \<Rightarrow> expr list \<Rightarrow> addr \<Rightarrow> (unit, 'w) act" where
  "deg_loop ev expect idx [] env it = Some ((), it)"
| "deg_loop ev expect idx (a # as) env it = do {
     (v, it) \<leftarrow> ev a env it;
     deg_loop ev expect (idx + 1) as env (print_out (deg_report expect idx v) it)
   }"

definition live_timer ::
  "'w sys \<Rightarrow> 'w evaluator \<Rightarrow> string \<Rightarrow> expr list \<Rightarrow> addr \<Rightarrow> nat \<Rightarrow> (val option, 'w) act" where
  "live_timer sys ev meth args env line it =
     (case args of
        a # b # _ \<Rightarrow> do {
          (delay_v, it) \<leftarrow> ev a env it;
          (fn, it) \<leftarrow> ev b env it;
          let (delay, it) = to_llong (value_as_number delay_v) it;
          (id', it) \<leftarrow> sys_handle sys (ADD_TIMER delay (if meth = ''every'' then delay else 0) fn) it;
          give (V_NUM (case id' of Some k \<Rightarrow> of_nat k | None \<Rightarrow> 0)) it
        }
      | _ \<Rightarrow> give V_VOID (rt_error line (''live.'' @ meth @ '' expects (delay_ms, callback)'') it))"

definition builtin_live ::
  "nat \<Rightarrow> 'w sys \<Rightarrow> 'w evaluator \<Rightarrow> string \<Rightarrow> expr list \<Rightarrow> addr \<Rightarrow> nat \<Rightarrow> (val option, 'w) act" where
  "builtin_live n sys ev meth args env line it =
     (if meth = ''on'' then do {
        (v, it) \<leftarrow> arg_or ev V_VOID args env it;
        if it_had_runtime_error it then give V_VOID it
        else do { s \<leftarrow> display n v it; give V_VOID (print_out (s @ [NL]) it) }
      }
      else if meth = ''in'' then do {
        it \<leftarrow> (case args of
                [] \<Rightarrow> Some it
              | a # _ \<Rightarrow> do { (p, it) \<leftarrow> ev a env it; s \<leftarrow> display n p it; Some (print_out s it) });
        let (v, it) = read_line it;
        give v it
      }
      else if meth = ''deg'' then
        (case args of
           [] \<Rightarrow> give V_VOID (rt_error line ''live.deg expects at least a type name'' it)
         | a # as \<Rightarrow> do {
             (tname, it) \<leftarrow> ev a env it;
             (_, it) \<leftarrow> deg_loop ev (safe_str tname) 0 as env it;
             give V_VOID it
           })
      else if meth = ''after'' \<or> meth = ''every'' then live_timer sys ev meth args env line it
      else if meth = ''clear'' then
        (case args of
           [] \<Rightarrow> give V_VOID it
         | a # _ \<Rightarrow> do {
             (v, it) \<leftarrow> ev a env it;
             let (k, it) = to_cint (value_as_number v) it;
             (_, it) \<leftarrow> sys_value sys (CLEAR_TIMER k) it;
             give V_VOID it
           })
      else unhandled it)"

definition builtin_json ::
  "nat \<Rightarrow> 'w evaluator \<Rightarrow> string \<Rightarrow> expr list \<Rightarrow> addr \<Rightarrow> nat \<Rightarrow> (val option, 'w) act" where
  "builtin_json n ev meth args env line it =
     (if meth = ''parse'' then do {
        (v, it) \<leftarrow> arg_or ev (V_STRING []) args env it;
        (case v of
           V_STRING s \<Rightarrow> do {
             (w, st) \<leftarrow> json_parse s (it_store it);
             give w (it\<lparr>it_store := st\<rparr>)
           }
         | _ \<Rightarrow> give V_VOID (rt_error line ''json.parse expects a string'' it))
      }
      else if meth = ''stringify'' then do {
        (v, it) \<leftarrow> arg_or ev V_VOID args env it;
        s \<leftarrow> json_stringify n (it_store it) v;
        give (V_STRING s) it
      }
      else unhandled it)"

definition builtin_env ::
  "'w sys \<Rightarrow> 'w evaluator \<Rightarrow> string \<Rightarrow> expr list \<Rightarrow> addr \<Rightarrow> (val option, 'w) act" where
  "builtin_env sys ev meth args env it =
     (if meth = ''get'' then
        (case args of
           [] \<Rightarrow> give V_VOID it
         | a # as \<Rightarrow> do {
             (key, it) \<leftarrow> ev a env it;
             (val, it) \<leftarrow> sys_text sys (GETENV (safe_str key)) it;
             (case val of
                Some s \<Rightarrow> give (V_STRING s) it
              | None \<Rightarrow> do { (d, it) \<leftarrow> arg_or ev V_VOID as env it; give d it })
           })
      else unhandled it)"

definition file_close :: "'w sys \<Rightarrow> (unit, 'w) act" where
  "file_close sys it =
     (case it_open_file it of
        None \<Rightarrow> Some ((), it)
      | Some h \<Rightarrow> do { (_, it) \<leftarrow> sys_value sys (FCLOSE h) it; Some ((), it) })"

definition builtin_file ::
  "'w sys \<Rightarrow> 'w evaluator \<Rightarrow> string \<Rightarrow> expr list \<Rightarrow> addr \<Rightarrow> nat \<Rightarrow> (val option, 'w) act" where
  "builtin_file sys ev meth args env line it =
     (if meth = ''on'' then do {
        (_, it) \<leftarrow> file_close sys it;
        (path, it) \<leftarrow> arg_or ev (V_STRING []) args env it;
        (h, it) \<leftarrow> sys_handle sys (FOPEN (safe_str path)) it;
        let it = it\<lparr>it_open_file := h\<rparr>;
        give V_VOID (if h = None then rt_error line (''cannot open file '' @ in_quotes (safe_str path)) it else it)
      }
      else if meth = ''read'' then
        (case it_open_file it of
           None \<Rightarrow> give (V_STRING []) (rt_error line ''file.read() with no file open (call file.on() first)'' it)
         | Some h \<Rightarrow> do {
             (s, it) \<leftarrow> sys_text sys (FREAD h) it;
             give (V_STRING (case s of Some s \<Rightarrow> cstr s | None \<Rightarrow> [])) it
           })
      else if meth = ''loop'' then give V_VOID it
      else if meth = ''close'' then do {
        (_, it) \<leftarrow> file_close sys it;
        give V_VOID (it\<lparr>it_open_file := None\<rparr>)
      }
      else unhandled it)"

definition builtin_dir ::
  "'w sys \<Rightarrow> 'w evaluator \<Rightarrow> string \<Rightarrow> expr list \<Rightarrow> addr \<Rightarrow> (val option, 'w) act" where
  "builtin_dir sys ev meth args env it =
     (if meth = ''on'' then do {
        (path, it) \<leftarrow> arg_or ev (V_STRING ''.'') args env it;
        give V_VOID (it\<lparr>it_open_dir_path := Some (safe_str path)\<rparr>)
      }
      else if meth = ''read'' \<or> meth = ''loop'' then do {
        let l = length (st_lists (it_store it));
        let (_, it) = alloc value_list_empty it;
        (names, it) \<leftarrow> (case it_open_dir_path it of
                         None \<Rightarrow> Some ([], it)
                       | Some path \<Rightarrow> sys_names sys (READDIR path) it);
        let names = filter (\<lambda>s. s \<noteq> ''.'' \<and> s \<noteq> ''..'') names;
        give (V_LIST l) (on_store (\<lambda>st. foldl (\<lambda>st s. value_list_append l (V_STRING s) st) st names) it)
      }
      else if meth = ''close'' then give V_VOID it
      else if meth = ''del'' then
        (case it_open_dir_path it of
           None \<Rightarrow> give V_VOID it
         | Some path \<Rightarrow> do { (_, it) \<leftarrow> sys_value sys (RMDIR path) it; give V_VOID it })
      else unhandled it)"

definition builtin_Task ::
  "'w evaluator \<Rightarrow> string \<Rightarrow> expr list \<Rightarrow> addr \<Rightarrow> (val option, 'w) act" where
  "builtin_Task ev meth args env it =
     (if meth = ''all'' then do {
        (v, it) \<leftarrow> (case args of
                     [] \<Rightarrow> Some (alloc value_list_empty it)
                   | a # _ \<Rightarrow> ev a env it);
        let (t, it) = alloc (task_done (Some v)) it;
        give t it
      }
      else unhandled it)"

definition builtin_http ::
  "'w sys \<Rightarrow> 'w evaluator \<Rightarrow> string \<Rightarrow> expr list \<Rightarrow> addr \<Rightarrow> (val option, 'w) act" where
  "builtin_http sys ev meth args env it =
     (if meth = ''get'' then do {
        (url, it) \<leftarrow> arg_or ev (V_STRING []) args env it;
        (r, it) \<leftarrow> sys_value sys (HTTP_CLIENT_GET (safe_str url)) it;
        give (or_void r) it
      }
      else if meth = ''post'' then do {
        (url, it) \<leftarrow> arg_or ev (V_STRING []) args env it;
        (body, it) \<leftarrow> (case args of
                        _ # b # _ \<Rightarrow> do { (v, it) \<leftarrow> ev b env it; Some (Some v, it) }
                      | _ \<Rightarrow> Some (None, it));
        (r, it) \<leftarrow> sys_value sys (HTTP_CLIENT_POST (safe_str url) body) it;
        give (or_void r) it
      }
      else unhandled it)"

definition builtin_server ::
  "'w sys \<Rightarrow> 'w evaluator \<Rightarrow> string \<Rightarrow> expr list \<Rightarrow> addr \<Rightarrow> (val option, 'w) act" where
  "builtin_server sys ev meth args env it =
     (if meth = ''on'' then do {
        (port, it) \<leftarrow> arg_or ev (V_NUM 8080) args env it;
        let (k, it) = to_cint (value_as_number port) it;
        (_, it) \<leftarrow> sys_value sys (HTTP_SERVER_ON k) it;
        give V_VOID it
      }
      else if meth = ''route'' then
        (case args of
           a # b # c # _ \<Rightarrow> do {
             (m, it) \<leftarrow> ev a env it;
             (pattern, it) \<leftarrow> ev b env it;
             (handler, it) \<leftarrow> ev c env it;
             (_, it) \<leftarrow> sys_value sys (HTTP_SERVER_ROUTE (safe_str m) (safe_str pattern) handler) it;
             give V_VOID it
           }
         | _ \<Rightarrow> give V_VOID it)
      else if meth = ''listen'' then do {
        (_, it) \<leftarrow> sys_value sys HTTP_SERVER_LISTEN it;
        give V_VOID it
      }
      else unhandled it)"

definition builtin_socket ::
  "'w sys \<Rightarrow> 'w evaluator \<Rightarrow> string \<Rightarrow> expr list \<Rightarrow> addr \<Rightarrow> nat \<Rightarrow> (val option, 'w) act" where
  "builtin_socket sys ev meth args env line it =
     (if meth = ''on'' then do {
        (port, it) \<leftarrow> arg_or ev (V_NUM 9090) args env it;
        let (k, it) = to_cint (value_as_number port) it;
        (_, it) \<leftarrow> sys_value sys (WS_SERVER_ON k) it;
        give V_VOID it
      }
      else if meth = ''route'' then
        (case args of
           a # b # _ \<Rightarrow> do {
             (path, it) \<leftarrow> ev a env it;
             (handler, it) \<leftarrow> ev b env it;
             (_, it) \<leftarrow> sys_value sys (WS_SERVER_ROUTE (safe_str path) handler) it;
             give V_VOID it
           }
         | _ \<Rightarrow> give V_VOID it)
      else if meth = ''listen'' then do {
        (_, it) \<leftarrow> sys_value sys WS_SERVER_LISTEN it;
        give V_VOID it
      }
      else if meth = ''connect'' then
        give V_VOID (rt_error line
          (''socket.connect(): the WebSocket *client* is not implemented in this build '' @
           ''(the server side - socket.on/route/listen - is real; see DESIGN_DECISIONS.md)'') it)
      else unhandled it)"

definition builtin_worker ::
  "'w sys \<Rightarrow> 'w evaluator \<Rightarrow> 'w executor \<Rightarrow> string \<Rightarrow> expr list \<Rightarrow> addr \<Rightarrow> (val option, 'w) act" where
  "builtin_worker sys ev ex meth args env it =
     (if meth = ''spawn'' then do {
        (fn, it) \<leftarrow> (case args of
                      [] \<Rightarrow> Some (None, it)
                    | a # _ \<Rightarrow> do { (v, it) \<leftarrow> ev a env it; Some (Some v, it) });
        (h, it) \<leftarrow> sys_handle sys (WORKER_SPAWN_FUNC fn) it;
        let (w, it) = alloc (native_wrap (NATIVE_WORKER (case h of Some k \<Rightarrow> k | None \<Rightarrow> 0))) it;
        give w it
      }
      else if meth = ''run'' then
        (case args of
           a # b # _ \<Rightarrow> do {
             (path, it) \<leftarrow> ev a env it;
             (cb, it) \<leftarrow> ev b env it;
             (h, it) \<leftarrow> sys_handle sys (WORKER_SPAWN_FILE (safe_str path)) it;
             (r, it) \<leftarrow> sys_value sys (WORKER_JOIN (case h of Some k \<Rightarrow> k | None \<Rightarrow> 0)) it;
             (_, it) \<leftarrow> interp_invoke_closure ex cb [or_void r] it;
             give V_VOID it
           }
         | _ \<Rightarrow> give V_VOID it)
      else if meth = ''pool'' then do {
        (m, it) \<leftarrow> arg_or ev (V_NUM 4) args env it;
        let (k, it) = to_cint (value_as_number m) it;
        (h, it) \<leftarrow> sys_handle sys (POOL_CREATE k) it;
        let (w, it) = alloc (native_wrap (NATIVE_WORKER_POOL (case h of Some k \<Rightarrow> k | None \<Rightarrow> 0))) it;
        give w it
      }
      else unhandled it)"

definition builtin_dispatch ::
  "nat \<Rightarrow> 'w sys \<Rightarrow> 'w evaluator \<Rightarrow> 'w executor \<Rightarrow> string \<Rightarrow> string \<Rightarrow> expr list \<Rightarrow> addr \<Rightarrow> nat \<Rightarrow>
   (val option, 'w) act" where
  "builtin_dispatch n sys ev ex ns meth args env line it =
     (if ns = ''live'' then builtin_live n sys ev meth args env line it
      else if ns = ''json'' then builtin_json n ev meth args env line it
      else if ns = ''env'' then builtin_env sys ev meth args env it
      else if ns = ''file'' then builtin_file sys ev meth args env line it
      else if ns = ''dir'' then builtin_dir sys ev meth args env it
      else if ns = ''Task'' then builtin_Task ev meth args env it
      else if ns = ''http'' then builtin_http sys ev meth args env it
      else if ns = ''server'' then builtin_server sys ev meth args env it
      else if ns = ''socket'' then builtin_socket sys ev meth args env line it
      else if ns = ''worker'' then builtin_worker sys ev ex meth args env it
      else unhandled it)"

section \<open>Expressions\<close>

fun fill_data :: "'w evaluator \<Rightarrow> (string \<times> expr) list \<Rightarrow> addr \<Rightarrow> addr \<Rightarrow> (unit, 'w) act" where
  "fill_data ev [] d env it = Some ((), it)"
| "fill_data ev ((k, e) # es) d env it = do {
     (v, it) \<leftarrow> ev e env it;
     fill_data ev es d env (on_store (value_data_set d k v) it)
   }"

fun fill_list :: "'w evaluator \<Rightarrow> expr list \<Rightarrow> addr \<Rightarrow> addr \<Rightarrow> (unit, 'w) act" where
  "fill_list ev [] l env it = Some ((), it)"
| "fill_list ev (e # es) l env it = do {
     (v, it) \<leftarrow> ev e env it;
     fill_list ev es l env (on_store (value_list_append l v) it)
   }"

definition eval_await :: "val \<Rightarrow> nat \<Rightarrow> (val, 'w) act" where
  "eval_await v line it =
     (case v of
        V_NATIVE a \<Rightarrow>
          (case native_at (it_store it) a of
             NATIVE_TASK (Inl msg) \<Rightarrow> void_error line msg it
           | NATIVE_TASK (Inr r) \<Rightarrow> Some (or_void r, it)
           | _ \<Rightarrow> Some (v, it))
      | _ \<Rightarrow> Some (v, it))"

text \<open>The builtin namespace that a call on an identifier goes to, unless a variable hides it.\<close>

definition builtin_target :: "store \<Rightarrow> addr \<Rightarrow> expr \<Rightarrow> string option" where
  "builtin_target st env object =
     (case object of
        E_IDENT _ x \<Rightarrow> if env_get st env x = None \<and> is_reserved_namespace x then Some x else None
      | _ \<Rightarrow> None)"

definition eval_method_call ::
  "nat \<Rightarrow> 'w sys \<Rightarrow> 'w evaluator \<Rightarrow> 'w executor \<Rightarrow> expr \<Rightarrow> string \<Rightarrow> expr list \<Rightarrow> addr \<Rightarrow> nat \<Rightarrow> (val, 'w) act" where
  "eval_method_call n sys ev ex object name args env line it = do {
     (r, it) \<leftarrow> (case builtin_target (it_store it) env object of
                  Some ns \<Rightarrow> builtin_dispatch n sys ev ex ns name args env line it
                | None \<Rightarrow> Some (None, it));
     (case r of
        Some v \<Rightarrow> Some (v, it)
      | None \<Rightarrow> do {
          (obj, it) \<leftarrow> ev object env it;
          if it_had_runtime_error it then Some (V_VOID, it)
          else call_on_value n sys ev ex obj name args env line it
        })
   }"

definition eval_call ::
  "nat \<Rightarrow> 'w sys \<Rightarrow> 'w evaluator \<Rightarrow> 'w executor \<Rightarrow> expr \<Rightarrow> expr list \<Rightarrow> addr \<Rightarrow> nat \<Rightarrow> (val, 'w) act" where
  "eval_call n sys ev ex callee args env line it =
     (case callee of
        E_MEMBER _ object name \<Rightarrow> eval_method_call n sys ev ex object name args env line it
      | _ \<Rightarrow> do {
          (fn, it) \<leftarrow> ev callee env it;
          if it_had_runtime_error it then Some (V_VOID, it)
          else (case super_ref (it_store it) fn of
                  Some (parent, this) \<Rightarrow> call_super n ev ex parent this args env it
                | None \<Rightarrow> call_value n ev ex fn args env line it)
        })"

definition eval_new ::
  "nat \<Rightarrow> 'w evaluator \<Rightarrow> 'w executor \<Rightarrow> string \<Rightarrow> expr list \<Rightarrow> addr \<Rightarrow> nat \<Rightarrow> (val, 'w) act" where
  "eval_new n ev ex cname args env line it =
     (case env_get (it_store it) env cname of
        Some (V_CLASS c) \<Rightarrow> construct_instance n ev ex c args env it
      | _ \<Rightarrow> void_error line (in_quotes cname @ '' is not a known class'') it)"

definition eval_body ::
  "nat \<Rightarrow> 'w sys \<Rightarrow> 'w evaluator \<Rightarrow> 'w executor \<Rightarrow> 'w evaluator" where
  "eval_body n sys ev ex e env it =
     (case e of
        E_LIT_NUM _ k \<Rightarrow> Some (V_NUM k, it)
      | E_LIT_DECIMAL _ d \<Rightarrow> Some (V_DECIMAL d, it)
      | E_LIT_SCIFI _ d \<Rightarrow> Some (V_SCIFI d, it)
      | E_LIT_BOOL _ b \<Rightarrow> Some (V_BOOL b, it)
      | E_LIT_STRING_INTERP _ parts \<Rightarrow> eval_string_interp n ev parts env it
      | E_IDENT line x \<Rightarrow>
          (case env_get (it_store it) env x of
             Some v \<Rightarrow> Some (v, it)
           | None \<Rightarrow> void_error line (''undefined variable '' @ in_quotes x) it)
      | E_BINARY line l r opr \<Rightarrow> do {
          (lv, it) \<leftarrow> ev l env it;
          (rv, it) \<leftarrow> ev r env it;
          if it_had_runtime_error it then Some (V_VOID, it) else eval_binary n sys opr lv rv line it
        }
      | E_UNARY _ operand opr \<Rightarrow> do {
          (v, it) \<leftarrow> ev operand env it;
          Some (eval_unary opr v it)
        }
      | E_BETWEEN _ v lo hi \<Rightarrow> do {
          (vv, it) \<leftarrow> ev v env it;
          (lv, it) \<leftarrow> ev lo env it;
          (hv, it) \<leftarrow> ev hi env it;
          Some (V_BOOL (dle (value_as_number lv) (value_as_number vv) \<and>
                        dle (value_as_number vv) (value_as_number hv)), it)
        }
      | E_TERNARY _ c t f \<Rightarrow> do {
          (cv, it) \<leftarrow> ev c env it;
          if value_truthy (it_store it) cv then ev t env it else ev f env it
        }
      | E_LIST _ es \<Rightarrow> do {
          let (lv, it) = alloc value_list_empty it;
          (_, it) \<leftarrow> fill_list ev es (case lv of V_LIST l \<Rightarrow> l | _ \<Rightarrow> 0) env it;
          Some (lv, it)
        }
      | E_DATA _ es \<Rightarrow> do {
          let (dv, it) = alloc value_data_empty it;
          (_, it) \<leftarrow> fill_data ev es (case dv of V_DATA d \<Rightarrow> d | _ \<Rightarrow> 0) env it;
          Some (dv, it)
        }
      | E_FUNC_LIT _ ps _ body is_async \<Rightarrow>
          Some (alloc (new_func \<lparr>fv_params = ps, fv_body = body, fv_closure = env,
                                 fv_is_async = is_async, fv_name = ''<anonymous>''\<rparr>) it)
      | E_AWAIT line a \<Rightarrow> do {
          (v, it) \<leftarrow> ev a env it;
          if it_had_runtime_error it then Some (V_VOID, it) else eval_await v line it
        }
      | E_MEMBER line object name \<Rightarrow> do {
          (obj, it) \<leftarrow> ev object env it;
          if it_had_runtime_error it then Some (V_VOID, it) else eval_member obj name line it
        }
      | E_INDEX line object index \<Rightarrow> do {
          (obj, it) \<leftarrow> ev object env it;
          (idx, it) \<leftarrow> ev index env it;
          eval_index obj idx line it
        }
      | E_ASSIGN line target rhs opr \<Rightarrow> eval_assign n sys ev target rhs opr env line it
      | E_CALL line callee args \<Rightarrow> eval_call n sys ev ex callee args env line it
      | E_NEW line cname args \<Rightarrow> eval_new n ev ex cname args env line it)"

section \<open>Statements\<close>

fun exec_elifs :: "'w evaluator \<Rightarrow> 'w executor \<Rightarrow> (expr \<times> stmt) list \<Rightarrow> stmt option \<Rightarrow>
   addr \<Rightarrow> (ExecResult, 'w) act" where
  "exec_elifs ev ex [] els env it =
     (case els of None \<Rightarrow> Some (SIG_NONE, it) | Some b \<Rightarrow> ex b env it)"
| "exec_elifs ev ex ((c, b) # es) els env it = do {
     (v, it) \<leftarrow> ev c env it;
     if value_truthy (it_store it) v then ex b env it else exec_elifs ev ex es els env it
   }"

text \<open>\<^verbatim>\<open>while (value_truthy(eval_expr(cond))) { ... }\<close>, for at most \<open>k\<close> turns.\<close>

fun while_loop ::
  "nat \<Rightarrow> 'w evaluator \<Rightarrow> 'w executor \<Rightarrow> expr \<Rightarrow> stmt \<Rightarrow> addr \<Rightarrow> (ExecResult, 'w) act" where
  "while_loop 0 ev ex c body env it = None"
| "while_loop (Suc k) ev ex c body env it = do {
     (v, it) \<leftarrow> ev c env it;
     if \<not> value_truthy (it_store it) v \<or> it_had_runtime_error it then Some (SIG_NONE, it)
     else do {
       (r, it) \<leftarrow> ex body env it;
       if r \<noteq> SIG_NONE \<or> it_had_runtime_error it then Some (r, it)
       else while_loop k ev ex c body env it
     }
   }"

fun do_loop ::
  "nat \<Rightarrow> 'w evaluator \<Rightarrow> 'w executor \<Rightarrow> expr \<Rightarrow> stmt \<Rightarrow> addr \<Rightarrow> (ExecResult, 'w) act" where
  "do_loop 0 ev ex c body env it = None"
| "do_loop (Suc k) ev ex c body env it = do {
     (r, it) \<leftarrow> ex body env it;
     if r \<noteq> SIG_NONE \<or> it_had_runtime_error it then Some (r, it)
     else do {
       (v, it) \<leftarrow> ev c env it;
       if value_truthy (it_store it) v \<and> \<not> it_had_runtime_error it
       then do_loop k ev ex c body env it
       else Some (SIG_NONE, it)
     }
   }"

text \<open>
  The loops over a list: a node is read when its turn comes and again, for \<^verbatim>\<open>c->next\<close>, after
  the body, when it may have been freed.  In \<^verbatim>\<open>for\<close> a condition can skip the body.
\<close>

fun each_node ::
  "nat \<Rightarrow> 'w evaluator \<Rightarrow> 'w executor \<Rightarrow> string \<Rightarrow> expr option \<Rightarrow> stmt \<Rightarrow> addr \<Rightarrow> addr option \<Rightarrow>
   (ExecResult, 'w) act" where
  "each_node 0 ev ex x c body env a it = None"
| "each_node (Suc k) ev ex x c body env a it =
     (case map_option (node_at (it_store it)) a of
        None \<Rightarrow> Some (SIG_NONE, it)
      | Some None \<Rightarrow> Some (SIG_NONE, undefined_behaviour UB_freed_node it)
      | Some (Some (item, _)) \<Rightarrow> do {
          let (loop_env, it) = alloc (env_new (Some env)) it;
          let it = on_store (env_define loop_env x item False) it;
          (run, it) \<leftarrow> (case c of
                         None \<Rightarrow> Some (True, it)
                       | Some c \<Rightarrow> do {
                           (v, it) \<leftarrow> ev c loop_env it;
                           Some (value_truthy (it_store it) v, it)
                         });
          (r, it) \<leftarrow> (if run then ex body loop_env it else Some (SIG_NONE, it));
          if r \<noteq> SIG_NONE then Some (r, it)
          else if run \<and> it_had_runtime_error it then Some (SIG_NONE, it)
          else (case Option.bind a (node_at (it_store it)) of
                  None \<Rightarrow> Some (SIG_NONE, undefined_behaviour UB_freed_node it)
                | Some (_, next) \<Rightarrow> each_node k ev ex x c body env next it)
        })"

fun each_value ::
  "'w executor \<Rightarrow> string \<Rightarrow> stmt \<Rightarrow> addr \<Rightarrow> val list \<Rightarrow> (ExecResult, 'w) act" where
  "each_value ex x body env [] it = Some (SIG_NONE, it)"
| "each_value ex x body env (v # vs) it = do {
     let (loop_env, it) = alloc (env_new (Some env)) it;
     let it = on_store (env_define loop_env x v False) it;
     (r, it) \<leftarrow> ex body loop_env it;
     if r \<noteq> SIG_NONE then Some (r, it)
     else if it_had_runtime_error it then Some (SIG_NONE, it)
     else each_value ex x body env vs it
   }"

definition exec_for ::
  "nat \<Rightarrow> 'w evaluator \<Rightarrow> 'w executor \<Rightarrow> string \<Rightarrow> expr \<Rightarrow> expr option \<Rightarrow> stmt \<Rightarrow> nat \<Rightarrow> addr \<Rightarrow>
   (ExecResult, 'w) act" where
  "exec_for n ev ex x iterable c body line env it = do {
     (coll, it) \<leftarrow> ev iterable env it;
     (case coll of
        V_LIST l \<Rightarrow> each_node n ev ex x c body env (head_at (it_store it) l) it
      | _ \<Rightarrow> Some (SIG_NONE, rt_error line ''for-in requires a list'' it))
   }"

text \<open>Over a \<^verbatim>\<open>data\<close> value the loop goes through a reversed copy of its entries.\<close>

definition exec_iterate ::
  "nat \<Rightarrow> 'w evaluator \<Rightarrow> 'w executor \<Rightarrow> expr \<Rightarrow> string \<Rightarrow> stmt \<Rightarrow> nat \<Rightarrow> addr \<Rightarrow> (ExecResult, 'w) act" where
  "exec_iterate n ev ex collection x body line env it = do {
     (coll, it) \<leftarrow> ev collection env it;
     (case coll of
        V_LIST l \<Rightarrow> each_node n ev ex x None body env (head_at (it_store it) l) it
      | V_DATA d \<Rightarrow> each_value ex x body env (rev (map snd (data_at (it_store it) d))) it
      | _ \<Rightarrow> Some (SIG_NONE, rt_error line ''iterate() requires a list or data collection'' it))
   }"

fun thrown :: "ExecResult \<Rightarrow> bool" where
  "thrown (SIG_THROW _) = True"
| "thrown _ = False"

text \<open>A signal of the body other than a throw is dropped, \<^verbatim>\<open>return\<close> included.\<close>

definition exec_try :: "'w executor \<Rightarrow> stmt \<Rightarrow> string \<Rightarrow> stmt \<Rightarrow> addr \<Rightarrow> (ExecResult, 'w) act" where
  "exec_try ex try_b err_name catch_b env it = do {
     let saved_error_flag = it_had_runtime_error it;
     let saved_msg = it_error_message it;
     (r, it) \<leftarrow> ex try_b env (it\<lparr>it_error_message := None, it_had_runtime_error := False\<rparr>);
     if thrown r \<or> it_had_runtime_error it then do {
       let (catch_env, it) = alloc (env_new (Some env)) it;
       let msg = (case it_error_message it of Some m \<Rightarrow> m | None \<Rightarrow> ''error'');
       let it = on_store (env_define catch_env err_name (V_STRING msg) False) it;
       ex catch_b catch_env (it\<lparr>it_error_message := None, it_had_runtime_error := False\<rparr>)
     }
     else Some (SIG_NONE, it\<lparr>it_had_runtime_error := saved_error_flag, it_error_message := saved_msg\<rparr>)
   }"

definition exec_body ::
  "nat \<Rightarrow> 'w sys \<Rightarrow> 'w evaluator \<Rightarrow> 'w executor \<Rightarrow> 'w executor" where
  "exec_body n sys ev ex s env it =
     (case s of
        S_VARDECL _ name _ ini is_fixed \<Rightarrow> do {
          (v, it) \<leftarrow> (case ini of None \<Rightarrow> Some (V_VOID, it) | Some e \<Rightarrow> ev e env it);
          Some (SIG_NONE, if it_had_runtime_error it then it
                          else on_store (env_define env name v is_fixed) it)
        }
      | S_EXPR _ e \<Rightarrow> do { (_, it) \<leftarrow> ev e env it; Some (SIG_NONE, it) }
      | S_IF _ c then_b elifs else_b \<Rightarrow> do {
          (v, it) \<leftarrow> ev c env it;
          if it_had_runtime_error it then Some (SIG_NONE, it)
          else if value_truthy (it_store it) v then ex then_b env it
          else exec_elifs ev ex elifs else_b env it
        }
      | S_LOOP_WHILE _ c body \<Rightarrow> while_loop n ev ex c body env it
      | S_DO_WHILE _ c body \<Rightarrow> do_loop n ev ex c body env it
      | S_FOR_IN line x iterable c body \<Rightarrow> exec_for n ev ex x iterable c body line env it
      | S_ITERATE line collection x body \<Rightarrow> exec_iterate n ev ex collection x body line env it
      | S_RETURN _ e \<Rightarrow> do {
          (v, it) \<leftarrow> (case e of None \<Rightarrow> Some (V_VOID, it) | Some e \<Rightarrow> ev e env it);
          Some (SIG_RETURN v, it)
        }
      | S_BLOCK _ ss \<Rightarrow> exec_block ex ss env it
      | S_TRY_CATCH _ try_b err_name catch_b \<Rightarrow> exec_try ex try_b err_name catch_b env it
      | _ \<Rightarrow> Some (SIG_NONE, it))"

section \<open>The recursion, and whole programs\<close>

text \<open>Both procedures do nothing while a run-time error is pending.\<close>

fun eval_expr :: "nat \<Rightarrow> 'w sys \<Rightarrow> 'w evaluator"
and exec_stmt :: "nat \<Rightarrow> 'w sys \<Rightarrow> 'w executor" where
  "eval_expr 0 sys e env it = None"
| "eval_expr (Suc n) sys e env it =
     (if it_had_runtime_error it then Some (V_VOID, it)
      else eval_body n sys (eval_expr n sys) (exec_stmt n sys) e env it)"
| "exec_stmt 0 sys s env it = None"
| "exec_stmt (Suc n) sys s env it =
     (if it_had_runtime_error it then Some (SIG_NONE, it)
      else exec_body n sys (eval_expr n sys) (exec_stmt n sys) s env it)"

text \<open>The exit code of \<^verbatim>\<open>interp_run\<close>, with what it writes to \<^verbatim>\<open>stderr\<close>.\<close>

definition interp_run :: "nat \<Rightarrow> 'w sys \<Rightarrow> stmt list \<Rightarrow> (nat \<times> string, 'w) act" where
  "interp_run n sys ss it = do {
     let it = on_store (hoist_classes ss (it_globals it)) it;
     let it = on_store (hoist_funs ss (it_globals it)) it;
     (_, it) \<leftarrow> exec_seq (exec_stmt n sys) ss (it_globals it) it;
     (_, it) \<leftarrow> file_close sys it;
     let it = it\<lparr>it_open_file := None\<rparr>;
     Some (if it_had_runtime_error it
           then (1, ''runtime error: '' @
                    (case it_error_message it of Some m \<Rightarrow> m | None \<Rightarrow> ''unknown error'') @ [NL])
           else (0, []), it)
   }"

end
