(* ===== verification/List_Ops.thy ===== *)
theory List_Ops
  imports Interp
begin

text \<open>
  The linked lists of the store.  \<open>is_chain\<close> says that the nodes from a pointer on are given
  ones, all of them live; \<open>lists_ok\<close>, the invariant, that every list is such a chain and that
  no node is in two places.  The operations of \<^verbatim>\<open>value.c\<close> and of the list methods of
  \<^verbatim>\<open>interp.c\<close> keep it, and on the items of the lists they are the operations on HOL lists.
\<close>

section \<open>Chains of nodes\<close>

definition cell :: "ListNode option list \<Rightarrow> addr \<Rightarrow> ListNode option" where
  "cell ns a = entry_at ns None a"

lemma node_at_cell: "node_at st a = cell (st_nodes st) a"
  by (simp add: node_at_def cell_def)

lemma cell_lt: "cell ns a = Some x \<Longrightarrow> a < length ns"
  by (auto simp: cell_def entry_at_def split: if_splits)

lemma cell_append [simp]: "a < length ns \<Longrightarrow> cell (ns @ ms) a = cell ns a"
  by (simp add: cell_def entry_at_def nth_append)

lemma cell_append_new [simp]: "cell (ns @ x # ms) (length ns) = x"
  by (simp add: cell_def entry_at_def)

lemma cell_update: "cell (ns[a := x]) b = (if a = b \<and> a < length ns then x else cell ns b)"
  by (auto simp: cell_def entry_at_def)

fun is_chain :: "ListNode option list \<Rightarrow> addr option \<Rightarrow> addr list \<Rightarrow> bool" where
  "is_chain ns c [] \<longleftrightarrow> c = None"
| "is_chain ns c (a # as) \<longleftrightarrow> c = Some a \<and> (\<exists>v nx. cell ns a = Some (v, nx) \<and> is_chain ns nx as)"

definition item_of :: "ListNode option list \<Rightarrow> addr \<Rightarrow> val" where
  "item_of ns a = (case cell ns a of Some (v, _) \<Rightarrow> v | None \<Rightarrow> V_VOID)"

lemma is_chain_unique: "is_chain ns c as \<Longrightarrow> is_chain ns c bs \<Longrightarrow> as = bs"
proof (induction as arbitrary: c bs)
  case Nil
  then show ?case by (cases bs) auto
next
  case (Cons a as)
  then show ?case by (cases bs) auto
qed

lemma is_chain_lt: "is_chain ns c as \<Longrightarrow> a \<in> set as \<Longrightarrow> a < length ns"
  by (induction as arbitrary: c) (auto dest: cell_lt)

lemma is_chain_live: "is_chain ns c as \<Longrightarrow> a \<in> set as \<Longrightarrow> cell ns a \<noteq> None"
  by (induction as arbitrary: c) auto

lemma is_chain_cong:
  "is_chain ns c as \<Longrightarrow> (\<And>a. a \<in> set as \<Longrightarrow> cell ns' a = cell ns a) \<Longrightarrow> is_chain ns' c as"
  by (induction as arbitrary: c) auto

lemma is_chain_length:
  assumes "is_chain ns c as" "distinct as"
  shows "length as \<le> length ns"
proof -
  have "set as \<subseteq> {..<length ns}" using is_chain_lt [OF assms(1)] by auto
  then have "card (set as) \<le> card {..<length ns}" by (intro card_mono) auto
  with assms(2) show ?thesis by (simp add: distinct_card)
qed

lemma items_chain:
  "is_chain (st_nodes st) c as \<Longrightarrow> length as \<le> n \<Longrightarrow>
   items_from n st c = map (item_of (st_nodes st)) as"
proof (induction as arbitrary: c n)
  case Nil
  then show ?case by (cases n) auto
next
  case (Cons a as)
  then show ?case by (cases n) (auto simp: node_at_cell item_of_def)
qed

lemma last_chain:
  "is_chain (st_nodes st) (Some a) as \<Longrightarrow> length as \<le> Suc n \<Longrightarrow> last_node n st a = last as"
proof (induction n arbitrary: a as)
  case 0
  then show ?case by (cases as) (auto simp: length_Suc_conv)
next
  case (Suc n)
  then obtain v nx bs where as: "as = a # bs" "cell (st_nodes st) a = Some (v, nx)"
    "is_chain (st_nodes st) nx bs" by (cases as) auto
  show ?case
  proof (cases nx)
    case None
    with as show ?thesis by (cases bs) (auto simp: node_at_cell)
  next
    case (Some b)
    with as Suc.IH [of b bs] Suc.prems(2) show ?thesis by (cases bs) (auto simp: node_at_cell)
  qed
qed

lemma chain_last:
  "is_chain ns c as \<Longrightarrow> as \<noteq> [] \<Longrightarrow> \<exists>v. cell ns (last as) = Some (v, None)"
  by (induction as arbitrary: c) auto

text \<open>A node linked behind the last one.\<close>

lemma is_chain_snoc:
  assumes "is_chain ns c as" "as \<noteq> []" "distinct as" "b \<notin> set as"
    "cell ns (last as) = Some (v, None)" "cell ns b = Some (w, None)"
  shows "is_chain (ns[last as := Some (v, Some b)]) c (as @ [b])"
  using assms
proof (induction as arbitrary: c)
  case (Cons a as)
  show ?case
  proof (cases as)
    case Nil
    with Cons.prems show ?thesis by (auto simp: cell_update dest: cell_lt)
  next
    case (Cons a' as')
    with Cons.prems Cons.IH show ?thesis by (auto simp: cell_update)
  qed
qed simp

section \<open>The invariant\<close>

definition lists_by :: "store \<Rightarrow> addr list list \<Rightarrow> bool" where
  "lists_by st cs \<longleftrightarrow>
     length cs = length (st_lists st) \<and> distinct (concat cs) \<and>
     (\<forall>l < length cs. is_chain (st_nodes st) (st_lists st ! l) (cs ! l))"

definition lists_ok :: "store \<Rightarrow> bool" where
  "lists_ok st \<longleftrightarrow> (\<exists>cs. lists_by st cs)"

lemma distinct_concat_update:
  assumes "distinct (concat cs)" "l < length cs" "distinct xs"
    "\<And>x. x \<in> set xs \<Longrightarrow> x \<in> set (cs ! l) \<or> x \<notin> set (concat cs)"
  shows "distinct (concat (cs[l := xs]))"
proof -
  let ?a = "concat (take l cs)" and ?b = "cs ! l" and ?c = "concat (drop (Suc l) cs)"
  have cs: "concat cs = ?a @ ?b @ ?c"
    using arg_cong [OF id_take_nth_drop [OF assms(2)], of concat] by simp
  have d: "distinct (?a @ ?b @ ?c)" using assms(1) by (simp only: cs)
  have "x \<notin> set ?a \<and> x \<notin> set ?c" if "x \<in> set xs" for x
    using assms(4) [OF that] d unfolding cs by (simp only: distinct_append set_append) blast
  then have "distinct (?a @ xs @ ?c)" using d assms(3) by (simp only: distinct_append set_append) blast
  then show ?thesis by (simp add: upd_conv_take_nth_drop [OF assms(2)])
qed

lemma concat_disjoint:
  assumes "distinct (concat cs)" "l < length cs" "k < length cs" "l \<noteq> k" "a \<in> set (cs ! l)"
  shows "a \<notin> set (cs ! k)"
proof
  assume a: "a \<in> set (cs ! k)"
  let ?a = "concat (take l cs)" and ?b = "cs ! l" and ?c = "concat (drop (Suc l) cs)"
  have d: "distinct (?a @ ?b @ ?c)"
    using assms(1) arg_cong [OF id_take_nth_drop [OF assms(2)], of concat] by simp
  have "cs ! k \<in> set (take l cs) \<or> cs ! k \<in> set (drop (Suc l) cs)"
  proof (cases "k < l")
    case True
    then have "take l cs ! k = cs ! k" "k < length (take l cs)" using assms(3) by simp_all
    then show ?thesis unfolding in_set_conv_nth by blast
  next
    case False
    then have "drop (Suc l) cs ! (k - Suc l) = cs ! k" "k - Suc l < length (drop (Suc l) cs)"
      using assms(2-4) by simp_all
    then show ?thesis unfolding in_set_conv_nth by blast
  qed
  then have "a \<in> set ?a \<or> a \<in> set ?c" using a by auto
  with d assms(5) show False by (simp only: distinct_append set_append) blast
qed

lemma distinct_chain: "distinct (concat cs) \<Longrightarrow> l < length cs \<Longrightarrow> distinct (cs ! l)"
  using nth_mem [of l cs] by (simp only: distinct_concat_iff)

text \<open>One list changed: the nodes of the others are as they were.\<close>

lemma lists_by_update:
  assumes "lists_by st cs" "l < length cs"
    "st_lists st' = (st_lists st)[l := h]" "is_chain (st_nodes st') h xs" "distinct xs"
    "\<And>x. x \<in> set xs \<Longrightarrow> x \<in> set (cs ! l) \<or> x \<notin> set (concat cs)"
    "\<And>a. a \<in> set (concat cs) \<Longrightarrow> a \<notin> set (cs ! l) \<Longrightarrow> cell (st_nodes st') a = cell (st_nodes st) a"
  shows "lists_by st' (cs[l := xs])"
proof -
  have "is_chain (st_nodes st') (st_lists st' ! k) (cs[l := xs] ! k)" if k: "k < length cs" for k
  proof (cases "k = l")
    case True
    with assms(1-4) show ?thesis by (simp add: lists_by_def)
  next
    case False
    have "is_chain (st_nodes st) (st_lists st ! k) (cs ! k)" using assms(1) k by (simp add: lists_by_def)
    then have "is_chain (st_nodes st') (st_lists st ! k) (cs ! k)"
    proof (rule is_chain_cong)
      fix a assume a: "a \<in> set (cs ! k)"
      then have "a \<in> set (concat cs)" using k by auto
      moreover have "a \<notin> set (cs ! l)"
        using concat_disjoint [of cs k l a] assms(1,2) k a False by (auto simp: lists_by_def)
      ultimately show "cell (st_nodes st') a = cell (st_nodes st) a" by (rule assms(7))
    qed
    with False k assms(1-3) show ?thesis by (simp add: lists_by_def)
  qed
  moreover have "distinct (concat (cs[l := xs]))"
    using assms(1,2,5,6) by (intro distinct_concat_update) (auto simp: lists_by_def)
  ultimately show ?thesis using assms(1,3) by (simp add: lists_by_def)
qed

lemma lists_by_chain:
  assumes "lists_by st cs" "l < length (st_lists st)"
  shows "l < length cs" "is_chain (st_nodes st) (head_at st l) (cs ! l)" "distinct (cs ! l)"
    "list_items st l = map (item_of (st_nodes st)) (cs ! l)"
proof -
  show l: "l < length cs" using assms by (simp add: lists_by_def)
  show c: "is_chain (st_nodes st) (head_at st l) (cs ! l)"
    using assms l by (simp add: lists_by_def head_at_def entry_at_def)
  show d: "distinct (cs ! l)" using assms(1) distinct_chain [OF _ l] by (simp add: lists_by_def)
  show "list_items st l = map (item_of (st_nodes st)) (cs ! l)"
    unfolding list_items_def by (rule items_chain [OF c is_chain_length [OF c d]])
qed

text \<open>The items of the lists that are not changed.\<close>

lemma other_items:
  assumes "lists_by st cs" "lists_by st' (cs[l := xs])" "k < length (st_lists st)" "k \<noteq> l"
    "\<And>a. a \<in> set (cs ! k) \<Longrightarrow> cell (st_nodes st') a = cell (st_nodes st) a"
  shows "list_items st' k = list_items st k"
proof -
  have k: "k < length (st_lists st')" using assms(1-3) by (simp add: lists_by_def)
  have "cs[l := xs] ! k = cs ! k" using assms(4) by simp
  moreover have "map (item_of (st_nodes st')) (cs ! k) = map (item_of (st_nodes st)) (cs ! k)"
    using assms(5) by (simp add: item_of_def)
  ultimately show ?thesis
    using lists_by_chain(4) [OF assms(1,3)] lists_by_chain(4) [OF assms(2) k] by simp
qed

section \<open>Appending and inserting\<close>

text \<open>
  What an operation on the list \<open>l\<close> does: the list has the items \<open>vs\<close> afterwards, the other
  lists have theirs, and nothing else changes but the nodes.
\<close>

definition list_effect :: "store \<Rightarrow> store \<Rightarrow> addr \<Rightarrow> val list \<Rightarrow> bool" where
  "list_effect st st' l vs \<longleftrightarrow>
     lists_ok st' \<and> list_items st' l = vs \<and>
     (\<forall>k < length (st_lists st). k \<noteq> l \<longrightarrow> list_items st' k = list_items st k) \<and>
     length (st_lists st') = length (st_lists st) \<and> length (st_nodes st) \<le> length (st_nodes st') \<and>
     st' = st\<lparr>st_nodes := st_nodes st', st_lists := st_lists st'\<rparr>"

lemma list_effectI:
  assumes "lists_by st cs" "l < length (st_lists st)"
    "st_lists st' = (st_lists st)[l := h]" "is_chain (st_nodes st') h xs" "distinct xs"
    "\<And>x. x \<in> set xs \<Longrightarrow> x \<in> set (cs ! l) \<or> x \<notin> set (concat cs)"
    "\<And>a. a \<in> set (concat cs) \<Longrightarrow> a \<notin> set (cs ! l) \<Longrightarrow> cell (st_nodes st') a = cell (st_nodes st) a"
    "map (item_of (st_nodes st')) xs = vs" "length (st_nodes st) \<le> length (st_nodes st')"
    "st' = st\<lparr>st_nodes := st_nodes st', st_lists := st_lists st'\<rparr>"
  shows "list_effect st st' l vs"
proof -
  have l: "l < length cs" using assms(1,2) by (simp add: lists_by_def)
  have by': "lists_by st' (cs[l := xs])" by (rule lists_by_update [OF assms(1) l assms(3-7)])
  have items: "list_items st' l = vs"
    using lists_by_chain(4) [OF by', of l] assms(2,3,8) l by simp
  have "list_items st' k = list_items st k" if k: "k < length (st_lists st)" "k \<noteq> l" for k
  proof (rule other_items [OF assms(1) by' k])
    fix a assume a: "a \<in> set (cs ! k)"
    have "k < length cs" using assms(1) k by (simp add: lists_by_def)
    with a have "a \<in> set (concat cs)" by auto
    moreover have "a \<notin> set (cs ! l)"
      using concat_disjoint [of cs k l a] assms(1) l \<open>k < length cs\<close> a k by (auto simp: lists_by_def)
    ultimately show "cell (st_nodes st') a = cell (st_nodes st) a" by (rule assms(7))
  qed
  with by' items assms(3,9,10) show ?thesis unfolding list_effect_def lists_ok_def by auto
qed

lemma list_effect_trans:
  assumes "list_effect st st1 l vs" "list_effect st1 st2 l ws"
  shows "list_effect st st2 l ws"
proof -
  have "st2 = st\<lparr>st_nodes := st_nodes st2, st_lists := st_lists st2\<rparr>"
    using assms by (cases st; cases st1; cases st2) (simp add: list_effect_def)
  with assms show ?thesis unfolding list_effect_def by simp
qed

lemma concat_lt:
  assumes "lists_by st cs" "a \<in> set (concat cs)"
  shows "a < length (st_nodes st)"
proof -
  obtain c where "c \<in> set cs" "a \<in> set c" using assms(2) by auto
  then obtain l where "l < length cs" "a \<in> set (cs ! l)" by (metis in_set_conv_nth)
  with assms(1) show ?thesis using is_chain_lt by (auto simp: lists_by_def)
qed

lemma concat_new: "lists_by st cs \<Longrightarrow> length (st_nodes st) \<le> a \<Longrightarrow> a \<notin> set (concat cs)"
  using concat_lt by fastforce

text \<open>
  How an operation does it: the list \<open>l\<close> now consists of the nodes \<open>xs\<close>, some of its own and
  some new ones, and the nodes outside it are as they were.
\<close>

definition relinked :: "store \<Rightarrow> addr list list \<Rightarrow> addr \<Rightarrow> store \<Rightarrow> addr list \<Rightarrow> bool" where
  "relinked st cs l st' xs \<longleftrightarrow>
     (\<exists>h. st_lists st' = (st_lists st)[l := h] \<and> is_chain (st_nodes st') h xs) \<and> distinct xs \<and>
     (\<forall>x \<in> set xs. x \<in> set (cs ! l) \<or> length (st_nodes st) \<le> x) \<and>
     (\<forall>a < length (st_nodes st). a \<notin> set (cs ! l) \<longrightarrow> cell (st_nodes st') a = cell (st_nodes st) a) \<and>
     length (st_nodes st) \<le> length (st_nodes st') \<and>
     st' = st\<lparr>st_nodes := st_nodes st', st_lists := st_lists st'\<rparr>"

lemma relinked_effect:
  assumes "lists_by st cs" "l < length (st_lists st)" "relinked st cs l st' xs"
  shows "lists_by st' (cs[l := xs])" "list_effect st st' l (map (item_of (st_nodes st')) xs)"
proof -
  obtain h where h: "st_lists st' = (st_lists st)[l := h]" "is_chain (st_nodes st') h xs"
    using assms(3) by (auto simp: relinked_def)
  have d: "distinct xs" using assms(3) by (simp add: relinked_def)
  have new: "x \<in> set (cs ! l) \<or> x \<notin> set (concat cs)" if "x \<in> set xs" for x
    using that assms(3) concat_new [OF assms(1), of x] by (auto simp: relinked_def)
  have old: "cell (st_nodes st') a = cell (st_nodes st) a"
    if "a \<in> set (concat cs)" "a \<notin> set (cs ! l)" for a
    using that assms(3) concat_lt [OF assms(1), of a] by (simp add: relinked_def)
  have l: "l < length cs" using assms(1,2) by (simp add: lists_by_def)
  show "lists_by st' (cs[l := xs])" by (rule lists_by_update [OF assms(1) l h d new old])
  show "list_effect st st' l (map (item_of (st_nodes st')) xs)"
    using assms(3) by (intro list_effectI [OF assms(1,2) h d new old]) (simp_all add: relinked_def)
qed

text \<open>The effect, when the nodes are known.\<close>

lemma effect_of_relinked:
  assumes "lists_ok st" "l < length (st_lists st)"
    "\<And>cs. lists_by st cs \<Longrightarrow> l < length cs \<Longrightarrow> is_chain (st_nodes st) (head_at st l) (cs ! l) \<Longrightarrow>
      distinct (cs ! l) \<Longrightarrow> list_items st l = map (item_of (st_nodes st)) (cs ! l) \<Longrightarrow>
      \<exists>xs. relinked st cs l st' xs \<and> map (item_of (st_nodes st')) xs = vs"
  shows "list_effect st st' l vs"
proof -
  obtain cs where cs: "lists_by st cs" using assms(1) by (auto simp: lists_ok_def)
  obtain xs where "relinked st cs l st' xs" "map (item_of (st_nodes st')) xs = vs"
    using assms(3) [OF cs lists_by_chain [OF cs assms(2)]] by auto
  with relinked_effect(2) [OF cs assms(2)] show ?thesis by auto
qed

lemma insert_front_effect:
  assumes "lists_ok st" "l < length (st_lists st)"
  shows "list_effect st (value_list_insert_front l v st) l (v # list_items st l)"
proof (rule effect_of_relinked [OF assms])
  fix cs
  assume c: "is_chain (st_nodes st) (head_at st l) (cs ! l)" "distinct (cs ! l)"
    "list_items st l = map (item_of (st_nodes st)) (cs ! l)"
  let ?n = "length (st_nodes st)" and ?ns = "st_nodes st @ [Some (v, head_at st l)]"
  have st: "value_list_insert_front l v st = st\<lparr>st_nodes := ?ns, st_lists := (st_lists st)[l := Some ?n]\<rparr>"
    by (simp add: value_list_insert_front_def new_node_def set_head_def)
  have old: "cell ?ns a = cell (st_nodes st) a" if "a \<in> set (cs ! l)" for a
    using is_chain_lt [OF c(1) that] by simp
  have "is_chain ?ns (head_at st l) (cs ! l)" by (rule is_chain_cong [OF c(1) old])
  moreover have "?n \<notin> set (cs ! l)" using is_chain_lt [OF c(1)] by auto
  ultimately have "relinked st cs l (value_list_insert_front l v st) (?n # cs ! l)"
    unfolding st relinked_def using c(2) by simp
  moreover have "map (item_of ?ns) (?n # cs ! l) = v # list_items st l"
    using old c(3) by (simp add: item_of_def)
  ultimately show "\<exists>xs. relinked st cs l (value_list_insert_front l v st) xs \<and>
      map (item_of (st_nodes (value_list_insert_front l v st))) xs = v # list_items st l"
    unfolding st by auto
qed

text \<open>Appending, on the nodes: the new one comes behind the last.\<close>

lemma append_store:
  assumes "is_chain (st_nodes st) (head_at st l) as" "distinct as"
  shows "\<exists>h ns. value_list_append l v st = st\<lparr>st_nodes := ns, st_lists := (st_lists st)[l := h]\<rparr> \<and>
    is_chain ns h (as @ [length (st_nodes st)]) \<and> length ns = Suc (length (st_nodes st)) \<and>
    (\<forall>a < length (st_nodes st). a \<notin> set as \<longrightarrow> cell ns a = cell (st_nodes st) a) \<and>
    map (item_of ns) (as @ [length (st_nodes st)]) = map (item_of (st_nodes st)) as @ [v]"
proof -
  let ?n = "length (st_nodes st)" and ?ns = "st_nodes st @ [Some (v, None)]"
  let ?st1 = "st\<lparr>st_nodes := ?ns\<rparr>"
  have lt: "a < ?n" if "a \<in> set as" for a using is_chain_lt [OF assms(1) that] .
  have ch: "is_chain ?ns (head_at st l) as"
    by (rule is_chain_cong [OF assms(1)]) (use lt in simp)
  show ?thesis
  proof (cases "head_at st l")
    case None
    then have "as = []" using assms(1) by (cases as) auto
    moreover have "value_list_append l v st =
      st\<lparr>st_nodes := ?ns, st_lists := (st_lists st)[l := Some ?n]\<rparr>"
      using None by (simp add: value_list_append_def new_node_def set_head_def head_at_def)
    ultimately show ?thesis
      by (intro exI [of _ "Some ?n"] exI [of _ ?ns]) (simp add: item_of_def)
  next
    case (Some h)
    then have ne: "as \<noteq> []" using assms(1) by (cases as) auto
    obtain w where w: "cell ?ns (last as) = Some (w, None)" using chain_last [OF ch ne] ..
    have last: "last as \<in> set as" "?n \<notin> set as" using ne lt by (simp, blast dest: lt)
    have "length as \<le> length ?ns" by (rule is_chain_length [OF ch assms(2)])
    then have "last_node (length ?ns) ?st1 h = last as"
      using ch Some by (intro last_chain) simp_all
    then have "value_list_append l v st = st\<lparr>st_nodes := ?ns[last as := Some (w, Some ?n)]\<rparr>"
      using Some w by (simp add: value_list_append_def new_node_def set_next_def set_node_def
        head_at_def node_at_cell)
    moreover have "(st_lists st)[l := Some h] = st_lists st"
      using Some by (auto simp: head_at_def entry_at_def list_update_same_conv split: if_splits)
    moreover have "is_chain (?ns[last as := Some (w, Some ?n)]) (Some h) (as @ [?n])"
      using is_chain_snoc [OF ch ne assms(2) last(2) w] Some by simp
    moreover have "item_of (?ns[last as := Some (w, Some ?n)]) a = item_of (st_nodes st) a"
      if "a \<in> set as" for a using lt [OF that] w by (auto simp: item_of_def cell_update)
    moreover have "last as \<noteq> ?n" using last by auto
    ultimately show ?thesis using last lt
      by (intro exI [of _ "Some h"] exI [of _ "?ns[last as := Some (w, Some ?n)]"])
        (auto simp: item_of_def cell_update)
  qed
qed

lemma append_relinked:
  assumes "is_chain (st_nodes st) (head_at st l) (cs ! l)" "distinct (cs ! l)"
  shows "relinked st cs l (value_list_append l v st) (cs ! l @ [length (st_nodes st)])"
    "map (item_of (st_nodes (value_list_append l v st))) (cs ! l @ [length (st_nodes st)]) =
      map (item_of (st_nodes st)) (cs ! l) @ [v]"
  using append_store [OF assms, of v] is_chain_lt [OF assms(1)] assms(2)
  by (auto simp: relinked_def)

lemma append_effect:
  assumes "lists_ok st" "l < length (st_lists st)"
  shows "list_effect st (value_list_append l v st) l (list_items st l @ [v])"
  by (rule effect_of_relinked [OF assms]) (use append_relinked in metis)

section \<open>Assigning and deleting an element\<close>

text \<open>A part of a chain, from the pointer \<open>c\<close> to the pointer \<open>d\<close>.\<close>

fun segment :: "ListNode option list \<Rightarrow> addr option \<Rightarrow> addr list \<Rightarrow> addr option \<Rightarrow> bool" where
  "segment ns c [] d \<longleftrightarrow> c = d"
| "segment ns c (a # as) d \<longleftrightarrow> c = Some a \<and> (\<exists>v nx. cell ns a = Some (v, nx) \<and> segment ns nx as d)"

lemma segment_None: "is_chain ns c as \<longleftrightarrow> segment ns c as None"
  by (induction as arbitrary: c) auto

lemma segment_append: "segment ns c (as @ bs) d \<longleftrightarrow> (\<exists>m. segment ns c as m \<and> segment ns m bs d)"
  by (induction as arbitrary: c) auto

lemma segment_cong:
  "segment ns c as d \<Longrightarrow> (\<And>a. a \<in> set as \<Longrightarrow> cell ns' a = cell ns a) \<Longrightarrow> segment ns' c as d"
  by (induction as arbitrary: c) auto

lemma is_chain_set_value:
  "is_chain ns c as \<Longrightarrow> cell ns a = Some (w, nx) \<Longrightarrow> is_chain (ns[a := Some (v, nx)]) c as"
  by (induction as arbitrary: c) (auto simp: cell_update dest: cell_lt)

lemma set_item_chain:
  "is_chain (st_nodes st) c as \<Longrightarrow> length as \<le> n \<Longrightarrow>
   set_item n st c k i v =
     (if k \<le> i \<and> nat (i - k) < length as
      then (case cell (st_nodes st) (as ! nat (i - k)) of
              Some (_, nx) \<Rightarrow> Some (set_node (as ! nat (i - k)) (Some (v, nx)) st) | None \<Rightarrow> None)
      else None)"
proof (induction as arbitrary: c n k)
  case Nil
  then show ?case by (cases n) auto
next
  case (Cons a as)
  from Cons.prems obtain m w nx where m: "n = Suc m" "c = Some a" "cell (st_nodes st) a = Some (w, nx)"
    "is_chain (st_nodes st) nx as" "length as \<le> m" by (cases n) auto
  show ?case
  proof (cases "k = i")
    case True
    with m show ?thesis by (simp add: node_at_cell)
  next
    case False
    have "k < i \<Longrightarrow> nat (i - k) = Suc (nat (i - (k + 1)))" by simp
    with False m Cons.IH [OF m(4,5), of "k + 1"] show ?thesis
      by (auto simp: node_at_cell split: option.split)
  qed
qed

lemma set_item_relinked:
  assumes "is_chain (st_nodes st) (head_at st l) (cs ! l)" "distinct (cs ! l)" "j < length (cs ! l)"
    "l < length (st_lists st)" "cell (st_nodes st) (cs ! l ! j) = Some (w, nx)"
  shows "relinked st cs l (set_node (cs ! l ! j) (Some (v, nx)) st) (cs ! l)"
    "map (item_of (st_nodes (set_node (cs ! l ! j) (Some (v, nx)) st))) (cs ! l) =
      (map (item_of (st_nodes st)) (cs ! l))[j := v]"
proof -
  let ?a = "cs ! l ! j" and ?ns = "(st_nodes st)[cs ! l ! j := Some (v, nx)]"
  have a: "?a \<in> set (cs ! l)" using assms(3) by simp
  have "is_chain ?ns (head_at st l) (cs ! l)" by (rule is_chain_set_value [OF assms(1,5)])
  moreover have "st_lists st = (st_lists st)[l := head_at st l]"
    using assms(4) by (simp add: head_at_def entry_at_def)
  ultimately show "relinked st cs l (set_node ?a (Some (v, nx)) st) (cs ! l)"
    using a assms(2) by (auto simp: relinked_def set_node_def cell_update)
  have "?a < length (st_nodes st)" by (rule cell_lt [OF assms(5)])
  then show "map (item_of (st_nodes (set_node ?a (Some (v, nx)) st))) (cs ! l) =
      (map (item_of (st_nodes st)) (cs ! l))[j := v]"
    using assms(2,3)
    by (intro nth_equalityI) (auto simp: item_of_def set_node_def cell_update nth_list_update nth_eq_iff_index_eq)
qed

lemma set_item_effect:
  assumes "lists_ok st" "l < length (st_lists st)" "0 \<le> i" "nat i < length (list_items st l)"
  obtains st' where "set_item (length (st_nodes st)) st (head_at st l) 0 i v = Some st'"
    "list_effect st st' l ((list_items st l)[nat i := v])"
proof -
  obtain cs where cs: "lists_by st cs" using assms(1) by (auto simp: lists_ok_def)
  note c = lists_by_chain [OF cs assms(2)]
  have i: "nat i < length (cs ! l)" using assms(4) c(4) by simp
  obtain w nx where w: "cell (st_nodes st) (cs ! l ! nat i) = Some (w, nx)"
    using is_chain_live [OF c(2) nth_mem [OF i]] by auto
  note r = set_item_relinked [OF c(2,3) i assms(2) w, of v]
  show thesis
  proof
    show "set_item (length (st_nodes st)) st (head_at st l) 0 i v =
      Some (set_node (cs ! l ! nat i) (Some (v, nx)) st)"
      using set_item_chain [OF c(2) is_chain_length [OF c(2,3)], of 0 i v] assms(3) i w by simp
    show "list_effect st (set_node (cs ! l ! nat i) (Some (v, nx)) st) l ((list_items st l)[nat i := v])"
      using relinked_effect(2) [OF cs assms(2) r(1)] r(2) c(4) by simp
  qed
qed

lemma set_item_outside:
  assumes "lists_ok st" "l < length (st_lists st)" "\<not> (0 \<le> i \<and> nat i < length (list_items st l))"
  shows "set_item (length (st_nodes st)) st (head_at st l) 0 i v = None"
proof -
  obtain cs where cs: "lists_by st cs" using assms(1) by (auto simp: lists_ok_def)
  note c = lists_by_chain [OF cs assms(2)]
  have "\<not> (0 \<le> i \<and> nat (i - 0) < length (cs ! l))" using assms(3) c(4) by simp
  then show ?thesis
    using set_item_chain [OF c(2) is_chain_length [OF c(2,3)], of 0 i v] by (simp only: if_False)
qed

text \<open>The node that the walk of \<^verbatim>\<open>delete\<close> comes to, and the pointer to it that is changed.\<close>

lemma unlink_chain:
  "is_chain (st_nodes st) c as \<Longrightarrow> length as \<le> n \<Longrightarrow>
   list_unlink n l idx i prev c st =
     (if i \<le> idx \<and> nat (idx - i) < length as
      then let j = nat (idx - i); a = as ! j; p = (if j = 0 then prev else Some (as ! (j - 1)))
           in (case cell (st_nodes st) a of
                 Some (_, nx) \<Rightarrow>
                   set_node a None (case p of Some p \<Rightarrow> set_next p nx st | None \<Rightarrow> set_head l nx st)
               | None \<Rightarrow> st)
      else st)"
proof (induction as arbitrary: c n i prev)
  case Nil
  then show ?case by (cases n) auto
next
  case (Cons a as)
  from Cons.prems obtain m w nx where m: "n = Suc m" "c = Some a" "cell (st_nodes st) a = Some (w, nx)"
    "is_chain (st_nodes st) nx as" "length as \<le> m" by (cases n) auto
  show ?case
  proof (cases "i = idx")
    case True
    with m show ?thesis by (simp add: node_at_cell)
  next
    case False
    show ?thesis
    proof (cases "i < idx")
      case True
      have j: "nat (idx - i) = Suc (nat (idx - (i + 1)))" using True by simp
      show ?thesis
        using True m Cons.IH [OF m(4,5), of "i + 1" "Some a"] j
        by (cases "nat (idx - (i + 1))") (simp_all add: node_at_cell Let_def split: option.split)
    next
      case False
      with \<open>i \<noteq> idx\<close> m Cons.IH [OF m(4,5), of "i + 1" "Some a"] show ?thesis
        by (simp add: node_at_cell)
    qed
  qed
qed

text \<open>Unlinking, on the nodes: of the first one, and of one behind \<open>p\<close>.\<close>

lemma unlink_first:
  assumes "segment ns c (a # bs) None" "distinct (a # bs)" "cell ns a = Some (w, nx)"
  shows "is_chain (ns[a := None]) nx bs"
proof -
  have s: "segment ns nx bs None" using assms(1,3) by simp
  show ?thesis
    unfolding segment_None by (rule segment_cong [OF s]) (use assms(2) in \<open>auto simp: cell_update\<close>)
qed

lemma unlink_behind:
  assumes "segment ns c (qs @ p # a # bs) None" "distinct (qs @ p # a # bs)"
    "cell ns p = Some (u, Some a)" "cell ns a = Some (w, nx)"
  shows "is_chain (ns[p := Some (u, nx), a := None]) c (qs @ p # bs)"
    "b \<noteq> a \<Longrightarrow> item_of (ns[p := Some (u, nx), a := None]) b = item_of ns b"
proof -
  let ?ns = "ns[p := Some (u, nx), a := None]"
  have old: "cell ?ns b = cell ns b" if "b \<noteq> a" "b \<noteq> p" for b
    using that by (simp add: cell_update)
  have p: "cell ?ns p = Some (u, nx)"
    using assms(2) cell_lt [OF assms(3)] by (auto simp: cell_update)
  have s: "segment ns c qs (Some p)" "segment ns nx bs None"
    using assms(1,3,4) by (auto simp: segment_append)
  have "segment ?ns c qs (Some p)" by (rule segment_cong [OF s(1) old]) (use assms(2) in auto)
  moreover have "segment ?ns nx bs None" by (rule segment_cong [OF s(2) old]) (use assms(2) in auto)
  ultimately show "is_chain ?ns c (qs @ p # bs)"
    unfolding segment_None using p by (auto simp: segment_append)
  show "item_of ?ns b = item_of ns b" if "b \<noteq> a"
    using old [OF that] p assms(3) by (cases "b = p") (simp_all add: item_of_def)
qed

lemma delete_store:
  assumes "is_chain (st_nodes st) (head_at st l) (qs @ a # bs)" "distinct (qs @ a # bs)"
    "int (length qs) = i"
  shows "\<exists>h ns. list_delete l i st = st\<lparr>st_nodes := ns, st_lists := (st_lists st)[l := h]\<rparr> \<and>
    is_chain ns h (qs @ bs) \<and> length ns = length (st_nodes st) \<and>
    (\<forall>b. b \<notin> set (qs @ a # bs) \<longrightarrow> cell ns b = cell (st_nodes st) b) \<and>
    map (item_of ns) (qs @ bs) = map (item_of (st_nodes st)) (qs @ bs)"
proof -
  let ?as = "qs @ a # bs"
  have n: "length ?as \<le> length (st_nodes st)" by (rule is_chain_length [OF assms(1,2)])
  have i: "nat (i - 0) = length qs" using assms(3) by simp
  note walk = unlink_chain [OF assms(1) n, of l i 0 None, unfolded i]
  have seg: "segment (st_nodes st) (head_at st l) ?as None" using assms(1) segment_None by metis
  then obtain w nx where w: "cell (st_nodes st) a = Some (w, nx)" by (auto simp: segment_append)
  show ?thesis
  proof (cases qs rule: rev_cases)
    case Nil
    have "list_delete l i st = st\<lparr>st_nodes := (st_nodes st)[a := None], st_lists := (st_lists st)[l := nx]\<rparr>"
      using walk w assms(3) Nil by (simp add: list_delete_def set_head_def set_node_def Let_def)
    moreover have "is_chain ((st_nodes st)[a := None]) nx bs"
      using unlink_first [OF _ _ w] seg assms(2) Nil by simp
    moreover have "item_of ((st_nodes st)[a := None]) b = item_of (st_nodes st) b" if "b \<in> set bs" for b
      using that assms(2) by (auto simp: item_of_def cell_update)
    ultimately show ?thesis using Nil
      by (intro exI [of _ nx] exI [of _ "(st_nodes st)[a := None]"]) (auto simp: cell_update)
  next
    case (snoc ps p)
    let ?ns = "\<lambda>u. (st_nodes st)[p := Some (u, nx), a := None]"
    obtain u where u: "cell (st_nodes st) p = Some (u, Some a)"
      using seg snoc by (auto simp: segment_append)
    have "list_delete l i st = st\<lparr>st_nodes := ?ns u\<rparr>"
      using walk w u assms(3) snoc
      by (simp add: list_delete_def set_next_def set_node_def node_at_cell Let_def nth_append)
    moreover have "st_lists st = (st_lists st)[l := head_at st l]"
      by (auto simp: head_at_def entry_at_def list_update_beyond)
    moreover have "is_chain (?ns u) (head_at st l) (ps @ p # bs)"
      using seg assms(2) unfolding snoc by (intro unlink_behind(1) [OF _ _ u w]) simp_all
    moreover have "item_of (?ns u) b = item_of (st_nodes st) b" if "b \<in> set (qs @ bs)" for b
    proof (rule unlink_behind(2) [OF _ _ u w, of "head_at st l" ps bs])
      show "b \<noteq> a" using that assms(2) by auto
    qed (use seg assms(2) snoc in simp_all)
    ultimately show ?thesis unfolding snoc
      by (intro exI [of _ "head_at st l"] exI [of _ "?ns u"]) (auto simp: cell_update)
  qed
qed

definition without :: "nat \<Rightarrow> 'a list \<Rightarrow> 'a list" where
  "without j xs = take j xs @ drop (Suc j) xs"

lemma delete_outside:
  assumes "lists_ok st" "l < length (st_lists st)" "\<not> (0 \<le> i \<and> nat i < length (list_items st l))"
  shows "list_delete l i st = st"
proof -
  obtain cs where cs: "lists_by st cs" using assms(1) by (auto simp: lists_ok_def)
  note c = lists_by_chain [OF cs assms(2)]
  have "\<not> (0 \<le> i \<and> nat (i - 0) < length (cs ! l))" using assms(3) c(4) by simp
  then show ?thesis
    using unlink_chain [OF c(2) is_chain_length [OF c(2,3)], of l i 0 None]
    unfolding list_delete_def by (simp only: if_False)
qed

lemma delete_effect:
  assumes "lists_ok st" "l < length (st_lists st)"
  shows "list_effect st (list_delete l i st) l
     (if 0 \<le> i then without (nat i) (list_items st l) else list_items st l)"
proof (cases "0 \<le> i \<and> nat i < length (list_items st l)")
  case False
  have "list_effect st st l (list_items st l)" using assms by (simp add: list_effect_def)
  with delete_outside [OF assms False] False show ?thesis by (auto simp: without_def)
next
  case True
  have "list_effect st (list_delete l i st) l (without (nat i) (list_items st l))"
  proof (rule effect_of_relinked [OF assms])
    fix cs
    assume c: "is_chain (st_nodes st) (head_at st l) (cs ! l)" "distinct (cs ! l)"
      "list_items st l = map (item_of (st_nodes st)) (cs ! l)"
    define qs a bs where "qs = take (nat i) (cs ! l)" "a = cs ! l ! nat i" "bs = drop (Suc (nat i)) (cs ! l)"
    have split: "cs ! l = qs @ a # bs"
      using True c(3) unfolding qs_a_bs_def by (simp add: id_take_nth_drop)
    have "int (length qs) = i" using True c(3) by (simp add: qs_a_bs_def)
    then obtain h ns where r: "list_delete l i st = st\<lparr>st_nodes := ns, st_lists := (st_lists st)[l := h]\<rparr>"
      "is_chain ns h (qs @ bs)" "length ns = length (st_nodes st)"
      "\<forall>b. b \<notin> set (qs @ a # bs) \<longrightarrow> cell ns b = cell (st_nodes st) b"
      "map (item_of ns) (qs @ bs) = map (item_of (st_nodes st)) (qs @ bs)"
      using delete_store [of st l qs a bs i] c(1,2) unfolding split by blast
    have "relinked st cs l (list_delete l i st) (qs @ bs)"
      unfolding relinked_def split using r c(2) split by auto
    moreover have "without (nat i) (list_items st l) = map (item_of (st_nodes st)) (qs @ bs)"
      using c(3) by (simp add: without_def take_map drop_map qs_a_bs_def)
    ultimately show "\<exists>xs. relinked st cs l (list_delete l i st) xs \<and>
        map (item_of (st_nodes (list_delete l i st))) xs = without (nat i) (list_items st l)"
      using r by auto
  qed
  with True show ?thesis by simp
qed

end
