(* ===== verification/List_Sort.thy ===== *)
theory List_Sort
  imports List_Ops "HOL-Library.Multiset"
begin

text \<open>
  The methods \<^verbatim>\<open>sort\<close> and \<^verbatim>\<open>concat\<close> of lists.  The exchange sort of \<^verbatim>\<open>interp.c\<close> permutes the
  items, and puts them in order when they can be compared: all are strings, or none is and no
  number is a NaN.
\<close>

section \<open>The order\<close>

text \<open>Two finite doubles in units of a power of two below both exponents.\<close>

lemma signed_units_shift:
  assumes "k \<le> j" "j \<le> e"
  shows "signed s (units k m e) = signed s (units j m e) * 2 ^ nat (j - k)"
proof -
  have "nat (e - k) = nat (e - j) + nat (j - k)" using assms by simp
  then show ?thesis by (simp add: signed_def units_def power_add mult.assoc)
qed

lemma dle_units:
  assumes "k \<le> e" "k \<le> f"
  shows "dle (DFin s m e) (DFin t n f) \<longleftrightarrow> signed s (units k m e) \<le> signed t (units k n f)"
  using signed_units_shift [of k "min e f" e s m] signed_units_shift [of k "min e f" f t n] assms
  by (simp add: Let_def)

lemma dle_trans: "dle a b \<Longrightarrow> dle b c \<Longrightarrow> dle a c"
proof (cases "\<exists>s m e t n f u p g. a = DFin s m e \<and> b = DFin t n f \<and> c = DFin u p g")
  case True
  then obtain s m e t n f u p g where abc: "a = DFin s m e" "b = DFin t n f" "c = DFin u p g" by blast
  define k where "k = min e (min f g)"
  have k: "k \<le> e" "k \<le> f" "k \<le> g" by (simp_all add: k_def)
  assume "dle a b" "dle b c"
  then show "dle a c" using k unfolding abc by (simp only: dle_units [of k])
next
  case False
  assume "dle a b" "dle b c"
  with False show "dle a c" by (cases a; cases b; cases c) auto
qed

lemma dle_total: "\<not> is_nan a \<Longrightarrow> \<not> is_nan b \<Longrightarrow> dle a b \<or> dle b a"
  by (cases a; cases b) (auto simp: min.commute Let_def)

lemma dlt_asym: "dlt a b \<Longrightarrow> \<not> dlt b a"
  by (simp add: dlt_def)

lemma not_dlt_trans:
  assumes "\<not> dlt b a" "\<not> dlt c b" "\<not> is_nan a" "\<not> is_nan b" "\<not> is_nan c"
  shows "\<not> dlt c a"
  using assms dle_total [of a b] dle_total [of b c] dle_trans [of a b c] by (auto simp: dlt_def)

lemma strcmp_gt_asym: "strcmp_gt s t \<Longrightarrow> \<not> strcmp_gt t s"
  by (induction s t rule: strcmp_gt.induct) auto

lemma code_inject: "code c = code d \<longleftrightarrow> c = d"
  by (simp add: code_def)

lemma strcmp_gt_split: "strcmp_gt s u \<Longrightarrow> strcmp_gt s t \<or> strcmp_gt t u"
proof (induction s u arbitrary: t rule: strcmp_gt.induct)
  case (2 c s)
  then show ?case by (cases t) auto
next
  case (3 c s d u)
  show ?case
  proof (cases t)
    case (Cons x t')
    with 3 show ?thesis using code_inject [of c x] code_inject [of x d] by (auto simp: linorder_neq_iff)
  qed simp
qed simp

definition sort_le :: "val \<Rightarrow> val \<Rightarrow> bool" where
  "sort_le a b \<longleftrightarrow> \<not> sort_gt a b"

definition comparable :: "val list \<Rightarrow> bool" where
  "comparable vs \<longleftrightarrow>
     list_all is_string vs \<or> list_all (\<lambda>v. \<not> is_string v \<and> \<not> is_nan (value_as_number v)) vs"

lemma sort_gt_strings: "sort_gt (V_STRING s) (V_STRING t) = strcmp_gt s t"
  by (simp add: sort_gt_def)

lemma sort_gt_numbers:
  "\<not> (is_string a \<and> is_string b) \<Longrightarrow> sort_gt a b = dlt (value_as_number b) (value_as_number a)"
  by (cases a; simp add: sort_gt_def; cases b; simp)

lemma is_string_iff: "is_string v \<longleftrightarrow> (\<exists>s. v = V_STRING s)"
  by (cases v) auto

lemma sort_gt_asym: "sort_gt a b \<Longrightarrow> \<not> sort_gt b a"
proof (cases "is_string a \<and> is_string b")
  case True
  assume "sort_gt a b"
  with True show ?thesis by (auto simp: is_string_iff sort_gt_strings strcmp_gt_asym)
next
  case False
  assume "sort_gt a b"
  with False show ?thesis by (auto simp: sort_gt_numbers dlt_asym)
qed

lemma sort_le_trans:
  assumes "comparable vs" "a \<in> set vs" "b \<in> set vs" "c \<in> set vs" "sort_le a b" "sort_le b c"
  shows "sort_le a c"
proof (cases "list_all is_string vs")
  case True
  then obtain s t u where "a = V_STRING s" "b = V_STRING t" "c = V_STRING u"
    using assms(2-4) unfolding list_all_iff is_string_iff by blast
  with assms(5,6) show ?thesis using strcmp_gt_split [of s u t] by (auto simp: sort_le_def sort_gt_strings)
next
  case False
  with assms(1) have "\<not> is_string v \<and> \<not> is_nan (value_as_number v)" if "v \<in> set vs" for v
    using that by (auto simp: comparable_def list_all_iff)
  with assms(2-6) show ?thesis
    using not_dlt_trans [of "value_as_number b" "value_as_number a" "value_as_number c"]
    by (simp add: sort_le_def sort_gt_numbers)
qed

section \<open>The exchange sort\<close>

lemma sort_swap_length [simp]: "length (sort_swap a b vs) = length vs"
  by (simp add: sort_swap_def)

lemma sort_swap_mset: "a < length vs \<Longrightarrow> b < length vs \<Longrightarrow> mset (sort_swap a b vs) = mset vs"
  by (simp add: sort_swap_def mset_swap)

lemma sort_swap_nth:
  assumes "a < b" "b < length vs"
  shows "j \<noteq> a \<Longrightarrow> j \<noteq> b \<Longrightarrow> sort_swap a b vs ! j = vs ! j"
    "sort_le (sort_swap a b vs ! a) (sort_swap a b vs ! b)"
    "sort_le (sort_swap a b vs ! a) (vs ! a)"
  using assms sort_gt_asym [of "vs ! a" "vs ! b"] sort_gt_asym [of "vs ! a" "vs ! a"]
  by (auto simp: sort_swap_def sort_le_def)

text \<open>After the outer loop has done \<open>a\<close> turns, each of the first \<open>a\<close> items is no greater than any behind it.\<close>

definition sorted_upto :: "nat \<Rightarrow> val list \<Rightarrow> bool" where
  "sorted_upto a vs \<longleftrightarrow> (\<forall>i < a. \<forall>j < length vs. i < j \<longrightarrow> sort_le (vs ! i) (vs ! j))"

definition inner :: "nat \<Rightarrow> nat \<Rightarrow> val list \<Rightarrow> val list" where
  "inner a k vs = foldl (\<lambda>arr b. sort_swap a b arr) vs [Suc a ..< k]"

lemma inner_Suc: "Suc a \<le> k \<Longrightarrow> inner a (Suc k) vs = sort_swap a k (inner a k vs)"
  by (simp add: inner_def)

lemma inner_mset:
  "a < length vs \<Longrightarrow> k \<le> length vs \<Longrightarrow> length (inner a k vs) = length vs \<and> mset (inner a k vs) = mset vs"
proof (induction k)
  case (Suc k)
  then show ?case by (cases "Suc a \<le> k") (simp_all add: inner_Suc sort_swap_mset, simp add: inner_def)
qed (simp add: inner_def)

lemma sorted_upto_swap:
  assumes "sorted_upto a vs" "a < b" "b < length vs"
  shows "sorted_upto a (sort_swap a b vs)"
  unfolding sorted_upto_def
proof (intro allI impI)
  fix i j assume j: "i < a" "j < length (sort_swap a b vs)" "i < j"
  have "sort_le (vs ! i) (vs ! k)" if "i < k" "k < length vs" for k
    using that j(1) assms(1) by (simp add: sorted_upto_def)
  moreover have "j < length vs" using j(2) by simp
  ultimately show "sort_le (sort_swap a b vs ! i) (sort_swap a b vs ! j)"
    using j(1,3) assms(2,3) by (cases "j = a"; cases "j = b") (simp_all add: sort_swap_def)
qed

lemma inner_sorted:
  assumes "comparable vs" "a < length vs" "sorted_upto a vs"
  shows "k \<le> length vs \<Longrightarrow> sorted_upto a (inner a k vs) \<and>
    (\<forall>j. a < j \<longrightarrow> j < k \<longrightarrow> sort_le (inner a k vs ! a) (inner a k vs ! j))"
proof (induction k)
  case 0
  with assms(3) show ?case by (simp add: inner_def)
next
  case (Suc k)
  let ?ws = "inner a k vs"
  have ws: "length ?ws = length vs" "mset ?ws = mset vs" using inner_mset [OF assms(2)] Suc.prems by simp_all
  then have set: "set ?ws = set vs" using mset_eq_setD by blast
  show ?case
  proof (cases "Suc a \<le> k")
    case False
    with assms(3) show ?thesis by (simp add: inner_def)
  next
    case True
    have k: "a < k" "k < length ?ws" using True Suc.prems ws by simp_all
    note sw = sort_swap_nth [OF k]
    have IH: "sorted_upto a ?ws" "\<And>j. a < j \<Longrightarrow> j < k \<Longrightarrow> sort_le (?ws ! a) (?ws ! j)"
      using Suc by simp_all
    have "sort_le (sort_swap a k ?ws ! a) (sort_swap a k ?ws ! j)" if j: "a < j" "j < Suc k" for j
    proof (cases "j = k")
      case True
      with sw(2) show ?thesis by simp
    next
      case False
      have in_vs: "sort_swap a k ?ws ! a \<in> set vs" "?ws ! a \<in> set vs" "?ws ! j \<in> set vs"
        using k j assms(2) set ws(1) sort_swap_mset [of a ?ws k] mset_eq_setD [of "sort_swap a k ?ws" ?ws]
        by (metis less_trans nth_mem sort_swap_length less_SucE)+
      with False sw(1) [of j] sw(3) IH(2) j show ?thesis
        by (auto intro: sort_le_trans [OF assms(1)])
    qed
    with sorted_upto_swap [OF IH(1) k] True show ?thesis by (simp add: inner_Suc)
  qed
qed

lemma comparable_mset: "mset vs = mset ws \<Longrightarrow> comparable vs \<longleftrightarrow> comparable ws"
  unfolding comparable_def list_all_iff using mset_eq_setD [of vs ws] by auto

definition turns :: "nat \<Rightarrow> val list \<Rightarrow> val list" where
  "turns n vs = foldl (\<lambda>arr a. foldl (\<lambda>arr b. sort_swap a b arr) arr [Suc a ..< length arr]) vs [0 ..< n]"

lemma turns_Suc: "turns (Suc n) vs = inner n (length (turns n vs)) (turns n vs)"
  by (simp add: turns_def inner_def)

lemma turns_mset: "n \<le> length vs \<Longrightarrow> length (turns n vs) = length vs \<and> mset (turns n vs) = mset vs"
proof (induction n)
  case (Suc n)
  then show ?case using inner_mset [of n "turns n vs" "length vs"] by (simp add: turns_Suc)
qed (simp add: turns_def)

lemma turns_sorted: "comparable vs \<Longrightarrow> n \<le> length vs \<Longrightarrow> sorted_upto n (turns n vs)"
proof (induction n)
  case (Suc n)
  let ?ws = "turns n vs"
  have ws: "length ?ws = length vs" "mset ?ws = mset vs" using turns_mset [of n vs] Suc.prems by simp_all
  have "comparable ?ws" using comparable_mset [OF ws(2)] Suc.prems(1) by simp
  then have "sorted_upto n (inner n (length ?ws) ?ws) \<and>
      (\<forall>j. n < j \<longrightarrow> j < length ?ws \<longrightarrow> sort_le (inner n (length ?ws) ?ws ! n) (inner n (length ?ws) ?ws ! j))"
    using inner_sorted [of ?ws n "length ?ws"] Suc ws by simp
  moreover have "length (inner n (length ?ws) ?ws) = length ?ws"
    using inner_mset [of n ?ws "length ?ws"] Suc.prems ws by simp
  ultimately show ?case by (auto simp: turns_Suc sorted_upto_def less_Suc_eq)
qed (simp add: sorted_upto_def)

lemma sort_array_turns: "sort_array vs = turns (length vs) vs"
  by (simp add: sort_array_def turns_def)

lemma sort_array_mset: "mset (sort_array vs) = mset vs"
  using turns_mset [of "length vs" vs] by (simp add: sort_array_turns)

lemma sort_array_sorted: "comparable vs \<Longrightarrow> sorted_wrt sort_le (sort_array vs)"
  using turns_sorted [of vs "length vs"] turns_mset [of "length vs" vs]
  by (simp add: sort_array_turns sorted_upto_def sorted_wrt_iff_nth_less)


section \<open>The list methods\<close>

lemma chain_nodes_length [simp]: "length (chain_nodes base vs) = length vs"
  by (induction vs arbitrary: base) auto

lemma chain_nodes_cell:
  "k < length vs \<Longrightarrow> base = length ns \<Longrightarrow>
   cell (ns @ chain_nodes base vs) (base + k) =
     Some (vs ! k, if Suc k = length vs then None else Some (base + Suc k))"
proof (induction vs arbitrary: base ns k)
  case (Cons v vs)
  show ?case
  proof (cases k)
    case 0
    with Cons.prems show ?thesis by (simp add: cell_def entry_at_def nth_append)
  next
    case (Suc j)
    with Cons.IH [of j "base + 1" "ns @ [Some (v, if vs = [] then None else Some (base + 1))]"] Cons.prems
    show ?thesis by auto
  qed
qed simp

lemma chain_nodes_chain:
  "k \<le> length vs \<Longrightarrow> base = length ns \<Longrightarrow>
   is_chain (ns @ chain_nodes base vs) (if k = length vs then None else Some (base + k)) [base + k ..< base + length vs]"
proof (induction "length vs - k" arbitrary: k)
  case 0
  then show ?case by simp
next
  case (Suc n)
  then have k: "k < length vs" "n = length vs - Suc k" by simp_all
  then have "[base + k ..< base + length vs] = (base + k) # [base + Suc k ..< base + length vs]"
    by (simp add: upt_conv_Cons)
  with Suc.hyps(1) [OF k(2)] k Suc.prems chain_nodes_cell [OF k(1) Suc.prems(2)] show ?case
    by (auto split: if_splits)
qed

lemma sort_effect:
  assumes "lists_ok st" "l < length (st_lists st)"
  shows "list_effect st (list_sort l st) l (sort_array (list_items st l))"
proof (rule effect_of_relinked [OF assms])
  fix cs :: "addr list list"
  let ?n = "length (st_nodes st)" and ?vs = "sort_array (list_items st l)"
  let ?ns = "st_nodes st @ chain_nodes ?n ?vs" and ?xs = "[?n ..< ?n + length (sort_array (list_items st l))]"
  have st: "list_sort l st = st\<lparr>st_nodes := ?ns,
      st_lists := (st_lists st)[l := if ?vs = [] then None else Some ?n]\<rparr>"
    by (simp add: list_sort_def Let_def set_head_def)
  have "is_chain ?ns (if ?vs = [] then None else Some ?n) ?xs"
    using chain_nodes_chain [of 0 ?vs ?n "st_nodes st"] by auto
  moreover have "cell ?ns a = cell (st_nodes st) a" if "a < ?n" for a using that by simp
  ultimately have "relinked st cs l (list_sort l st) ?xs"
    unfolding relinked_def st by (intro conjI exI) auto
  moreover have "map (item_of ?ns) ?xs = ?vs"
    by (intro nth_equalityI) (auto simp: item_of_def chain_nodes_cell)
  ultimately show "\<exists>xs. relinked st cs l (list_sort l st) xs \<and>
      map (item_of (st_nodes (list_sort l st))) xs = ?vs"
    by (auto simp: st)
qed

text \<open>The loop of \<^verbatim>\<open>concat\<close> over the nodes of another list, which appending leaves alone.\<close>

lemma concat_loop:
  "lists_by st cs \<Longrightarrow> l < length (st_lists st) \<Longrightarrow> is_chain (st_nodes st) c bs \<Longrightarrow>
   set bs \<inter> set (cs ! l) = {} \<Longrightarrow> length bs < n \<Longrightarrow>
   \<exists>st'. list_concat n l c st = Some st' \<and>
     list_effect st st' l (list_items st l @ map (item_of (st_nodes st)) bs)"
proof (induction bs arbitrary: st cs c n)
  case Nil
  then obtain m where "n = Suc m" by (cases n) auto
  moreover have "list_effect st st l (list_items st l)"
    using Nil.prems(1) by (auto simp: list_effect_def lists_ok_def)
  ultimately show ?case using Nil.prems(3) by simp
next
  case (Cons b bs)
  obtain m v nx where m: "n = Suc m" "c = Some b" "cell (st_nodes st) b = Some (v, nx)"
    "is_chain (st_nodes st) nx bs" "length bs < m"
    using Cons.prems(3,5) by (cases n) auto
  note ch = lists_by_chain [OF Cons.prems(1,2)]
  let ?st = "value_list_append l v st" and ?cs = "cs[l := cs ! l @ [length (st_nodes st)]]"
  note app = append_relinked [OF ch(2,3), of v]
  note eff = relinked_effect [OF Cons.prems(1,2) app(1)]
  have lt: "a < length (st_nodes st)" if "a \<in> set (b # bs)" for a
    using is_chain_lt [OF Cons.prems(3) that] .
  have same: "cell (st_nodes ?st) a = cell (st_nodes st) a" if "a \<in> set (b # bs)" for a
    using app(1) lt [OF that] that Cons.prems(4) unfolding relinked_def by blast
  have "is_chain (st_nodes ?st) nx bs" by (rule is_chain_cong [OF m(4) same]) simp
  moreover have "set bs \<inter> set (?cs ! l) = {}" using Cons.prems(4) lt ch(1) by auto
  moreover have "l < length (st_lists ?st)" using eff(2) Cons.prems(2) by (simp add: list_effect_def)
  ultimately obtain st' where st': "list_concat m l nx ?st = Some st'"
    "list_effect ?st st' l (list_items ?st l @ map (item_of (st_nodes ?st)) bs)"
    using Cons.IH [OF eff(1) _ _ _ m(5)] by blast
  have items: "list_items ?st l = list_items st l @ [v]"
    using eff(2) app(2) ch(4) by (simp add: list_effect_def)
  have rest: "map (item_of (st_nodes ?st)) bs = map (item_of (st_nodes st)) bs"
    using same by (simp add: item_of_def)
  have "item_of (st_nodes st) b = v" using m(3) by (simp add: item_of_def)
  moreover have "list_concat n l c st = Some st'"
    using st'(1) m(1-3) same [of b] by (simp add: node_at_cell)
  ultimately show ?case
    using list_effect_trans [OF eff(2) st'(2)] unfolding items rest by simp
qed

lemma concat_effect:
  assumes "lists_ok st" "l < length (st_lists st)" "k < length (st_lists st)" "k \<noteq> l"
    "length (st_nodes st) < n"
  shows "\<exists>st'. list_concat n l (head_at st k) st = Some st' \<and>
    list_effect st st' l (list_items st l @ list_items st k)"
proof -
  obtain cs where cs: "lists_by st cs" using assms(1) by (auto simp: lists_ok_def)
  note c = lists_by_chain [OF cs assms(2)] and d = lists_by_chain [OF cs assms(3)]
  have "set (cs ! k) \<inter> set (cs ! l) = {}"
    using concat_disjoint [of cs k l] cs c(1) d(1) assms(4) by (auto simp: lists_by_def)
  moreover have "length (cs ! k) < n" using is_chain_length [OF d(2,3)] assms(5) by simp
  ultimately show ?thesis using concat_loop [OF cs assms(2) d(2)] d(4) by simp
qed

text \<open>A list that is appended to itself grows before the loop gets to its end.\<close>

lemma concat_self_chain:
  "lists_by st cs \<Longrightarrow> l < length (st_lists st) \<Longrightarrow> is_chain (st_nodes st) c bs \<Longrightarrow> bs \<noteq> [] \<Longrightarrow>
   suffix bs (cs ! l) \<Longrightarrow> list_concat n l c st = None"
proof (induction n arbitrary: st cs c bs)
  case (Suc n)
  obtain b bs' v nx where b: "bs = b # bs'" "c = Some b" "cell (st_nodes st) b = Some (v, nx)"
    using Suc.prems(3,4) by (cases bs) auto
  note ch = lists_by_chain [OF Suc.prems(1,2)]
  let ?n = "length (st_nodes st)"
  let ?st = "value_list_append l v st" and ?cs = "cs[l := cs ! l @ [length (st_nodes st)]]"
  note app = append_relinked [OF ch(2,3), of v]
  note eff = relinked_effect [OF Suc.prems(1,2) app(1)]
  have l': "l < length (st_lists ?st)" using eff(2) Suc.prems(2) by (simp add: list_effect_def)
  obtain ps where ps: "cs ! l = ps @ b # bs'" using Suc.prems(5) b(1) by (auto simp: suffix_def)
  have "is_chain (st_nodes ?st) (head_at ?st l) (ps @ b # bs' @ [?n])"
    using lists_by_chain(2) [OF eff(1) l'] ch(1) ps by simp
  then obtain w mx where w: "cell (st_nodes ?st) b = Some (w, mx)" "is_chain (st_nodes ?st) mx (bs' @ [?n])"
    by (auto simp: segment_None segment_append)
  have "suffix (bs' @ [?n]) (?cs ! l)" using ch(1) ps by (auto simp: suffix_def)
  then have "list_concat n l mx ?st = None"
    using Suc.IH [OF eff(1) l' w(2)] by simp
  with b w(1) show ?case by (simp add: node_at_cell)
qed simp

end
