(* ===== verification/List_Methods.thy ===== *)
theory List_Methods
  imports List_Sort
begin

text \<open>
  What the list methods promise, over the items of the lists: the interface \<open>list_store\<close> that
  the interpreter, the JSON reader and the directory listing use, with its interpretation on
  the linked lists of \<^verbatim>\<open>value.c\<close>, and the properties of the methods.
\<close>

section \<open>The interface of the lists\<close>

locale list_store =
  fixes ok :: "'s \<Rightarrow> bool"
    and count :: "'s \<Rightarrow> nat"
    and items :: "'s \<Rightarrow> nat \<Rightarrow> 'v list"
    and create :: "'s \<Rightarrow> 's"
    and push :: "nat \<Rightarrow> 'v \<Rightarrow> 's \<Rightarrow> 's"
  assumes create_ok: "ok s \<Longrightarrow> ok (create s)"
    and create_count: "count (create s) = Suc (count s)"
    and create_items: "ok s \<Longrightarrow> items (create s) k = (if k = count s then [] else items s k)"
    and push_ok: "ok s \<Longrightarrow> l < count s \<Longrightarrow> ok (push l v s)"
    and push_count: "ok s \<Longrightarrow> l < count s \<Longrightarrow> count (push l v s) = count s"
    and push_items: "ok s \<Longrightarrow> l < count s \<Longrightarrow> k < count s \<Longrightarrow>
      items (push l v s) k = (if k = l then items s k @ [v] else items s k)"
begin

lemma push_all:
  "ok s \<Longrightarrow> l < count s \<Longrightarrow>
   ok (fold (push l) vs s) \<and> count (fold (push l) vs s) = count s \<and>
   (\<forall>k < count s. items (fold (push l) vs s) k = (if k = l then items s k @ vs else items s k))"
  by (induction vs arbitrary: s) (auto simp: push_ok push_count push_items)

lemma build:
  assumes "ok s"
  shows "ok (fold (push (count s)) vs (create s))"
    "items (fold (push (count s)) vs (create s)) (count s) = vs"
    "k < count s \<Longrightarrow> items (fold (push (count s)) vs (create s)) k = items s k"
  using push_all [of "create s" "count s" vs] assms by (simp_all add: create_ok create_count create_items)

end

lemma create_lists_ok:
  assumes "lists_ok st"
  shows "lists_ok (snd (value_list_empty st))"
    "list_items (snd (value_list_empty st)) k = (if k = length (st_lists st) then [] else list_items st k)"
proof -
  obtain cs where cs: "lists_by st cs" using assms by (auto simp: lists_ok_def)
  let ?st = "snd (value_list_empty st)"
  have st: "?st = st\<lparr>st_lists := st_lists st @ [None]\<rparr>" by (simp add: value_list_empty_def)
  have "lists_by ?st (cs @ [[]])"
    using cs by (auto simp: lists_by_def st nth_append less_Suc_eq)
  then show "lists_ok ?st" by (auto simp: lists_ok_def)
  have "node_at ?st = node_at st" by (rule ext) (simp add: st node_at_def)
  then have items: "items_from n ?st c = items_from n st c" for n c
    by (induction n arbitrary: c) (auto split: option.split)
  have "items_from n st None = []" for n by (cases n) auto
  then show "list_items ?st k = (if k = length (st_lists st) then [] else list_items st k)"
    unfolding list_items_def items by (auto simp: st head_at_def entry_at_def nth_append)
qed

interpretation linked: list_store lists_ok "\<lambda>st. length (st_lists st)" list_items
  "\<lambda>st. snd (value_list_empty st)" value_list_append
proof
  fix s l v k assume "lists_ok s" "l < length (st_lists s)"
  note eff = append_effect [OF this, of v]
  show "lists_ok (value_list_append l v s)" "length (st_lists (value_list_append l v s)) = length (st_lists s)"
    using eff by (simp_all add: list_effect_def)
  show "k < length (st_lists s) \<Longrightarrow> list_items (value_list_append l v s) k =
      (if k = l then list_items s k @ [v] else list_items s k)"
    using eff by (simp add: list_effect_def)
qed (simp_all add: create_lists_ok, simp add: value_list_empty_def)

section \<open>Properties of the methods\<close>

text \<open>
  C3. The methods of lists refine the operations on HOL lists: \<^verbatim>\<open>append\<close> adds behind the last
  item, \<^verbatim>\<open>insert\<close> before the first, \<^verbatim>\<open>delete\<close> removes the item at an index and does nothing
  for an index outside, \<^verbatim>\<open>concat\<close> with another list adds its items, and \<^verbatim>\<open>sort\<close> permutes the
  items; the nodes stay unshared and without cycles, and no other list changes.
\<close>

theorem list_methods_refine:
  assumes "lists_ok st" "l < length (st_lists st)" "k < length (st_lists st)" "k \<noteq> l"
  shows "list_effect st (value_list_append l v st) l (list_items st l @ [v]) \<and>
    list_effect st (value_list_insert_front l v st) l (v # list_items st l) \<and>
    list_effect st (list_delete l i st) l
      (if 0 \<le> i then take (nat i) (list_items st l) @ drop (Suc (nat i)) (list_items st l)
       else list_items st l) \<and>
    (\<exists>st'. list_concat (Suc (length (st_nodes st))) l (head_at st k) st = Some st' \<and>
       list_effect st st' l (list_items st l @ list_items st k)) \<and>
    (\<exists>vs. mset vs = mset (list_items st l) \<and> list_effect st (list_sort l st) l vs)"
  using append_effect [OF assms(1,2)] insert_front_effect [OF assms(1,2)]
    delete_effect [OF assms(1,2), of i] sort_effect [OF assms(1,2)] sort_array_mset
    concat_effect [OF assms, of "Suc (length (st_nodes st))"]
  unfolding without_def by blast

definition two_lists :: store where
  "two_lists =
     value_list_append 1 (V_STRING ''a'') (value_list_append 0 (V_STRING ''x'')
       (value_list_append 0 (V_STRING ''y'') (snd (value_list_empty (snd (value_list_empty empty_store))))))"

lemma two_lists_ok: "lists_ok two_lists" "length (st_lists two_lists) = 2"
proof -
  have "lists_by empty_store []" by (simp add: lists_by_def empty_store_def)
  then have "lists_ok empty_store" by (auto simp: lists_ok_def)
  then show "lists_ok two_lists" unfolding two_lists_def
    by (intro linked.push_ok create_lists_ok) (simp_all add: value_list_empty_def empty_store_def
      value_list_append_def new_node_def set_head_def set_next_def set_node_def head_at_def
      entry_at_def node_at_def)
  show "length (st_lists two_lists) = 2" by code_simp
qed

lemma list_methods_refine_witness:
  "list_effect two_lists (list_delete 0 1 two_lists) 0 [V_STRING ''y'']"
proof -
  have "list_items two_lists 0 = [V_STRING ''y'', V_STRING ''x'']" by code_simp
  with list_methods_refine [OF two_lists_ok(1), of 0 1 V_VOID 1] two_lists_ok(2) show ?thesis by simp
qed

text \<open>
  C29. \<^verbatim>\<open>sort\<close> puts the items in order when they can be compared: all are strings, or none is
  and no number is a NaN.
\<close>

theorem list_sort_sorts:
  assumes "lists_ok st" "l < length (st_lists st)" "comparable (list_items st l)"
  shows "sorted_wrt (\<lambda>a b. \<not> sort_gt a b) (list_items (list_sort l st) l) \<and>
    mset (list_items (list_sort l st) l) = mset (list_items st l)"
  using sort_effect [OF assms(1,2)] sort_array_mset sort_array_sorted [OF assms(3)]
  by (simp add: list_effect_def sort_le_def [abs_def])

lemma list_sort_sorts_witness:
  "list_items (list_sort 0 two_lists) 0 = [V_STRING ''x'', V_STRING ''y''] \<and>
   sorted_wrt (\<lambda>a b. \<not> sort_gt a b) (list_items (list_sort 0 two_lists) 0)"
proof -
  have items: "list_items two_lists 0 = [V_STRING ''y'', V_STRING ''x'']" by code_simp
  then have "comparable (list_items two_lists 0)" by (simp add: comparable_def)
  moreover have "list_items (list_sort 0 two_lists) 0 = [V_STRING ''x'', V_STRING ''y'']" by code_simp
  ultimately show ?thesis using list_sort_sorts [of two_lists 0] two_lists_ok by simp
qed

text \<open>
  C35. \<^verbatim>\<open>l.concat(l)\<close> never returns when \<open>l\<close> has an item: the loop follows the nodes that it
  appends itself, so that no bound on the steps is enough.
\<close>

theorem concat_self_never_returns:
  assumes "ev a env it = Some (V_LIST l, it')" "lists_ok (it_store it')"
    "l < length (st_lists (it_store it'))" "list_items (it_store it') l \<noteq> []"
  shows "call_list_method n ev l ''concat'' [a] env line it = None"
proof -
  obtain cs where cs: "lists_by (it_store it') cs" using assms(2) by (auto simp: lists_ok_def)
  note c = lists_by_chain [OF cs assms(3)]
  have "cs ! l \<noteq> []" using c(4) assms(4) by auto
  then have "list_concat n l (head_at (it_store it') l) (it_store it') = None"
    using concat_self_chain [OF cs assms(3) c(2)] by simp
  with assms(1) show ?thesis by (simp add: call_list_method_def)
qed

lemma concat_self_never_returns_witness:
  "call_list_method 1000 (\<lambda>e env it. Some (V_LIST 1, it)) 1 ''concat'' [E_IDENT 1 ''l''] 0 1
     ((interp_init [] ())\<lparr>it_store := two_lists\<rparr>) = None"
proof -
  have "list_items two_lists 1 = [V_STRING ''a'']" by code_simp
  with concat_self_never_returns [of "\<lambda>e env it. Some (V_LIST 1, it)" "E_IDENT 1 ''l''" 0
      "(interp_init [] ())\<lparr>it_store := two_lists\<rparr>" 1 "(interp_init [] ())\<lparr>it_store := two_lists\<rparr>" 1000 1]
    two_lists_ok show ?thesis by simp
qed

end
