(* ===== verification/Store_Ok.thy ===== *)
theory Store_Ok
  imports List_Methods
begin

text \<open>
  Well-formed stores: every address in the store is one of the store, the parent of an
  environment is older than it, and the lists are well linked.  \<open>evolves\<close> is what the
  interpreter may do to a store: objects are never removed, functions, instances and handles
  never change, an environment keeps its parent and its entries, of which only those that are
  not fixed get new values, and new entries come in front.
\<close>

section \<open>Roots\<close>

text \<open>What a procedure holds on to: values, environments, classes and other objects.\<close>

datatype root =
    RVal val
  | RVals "val list"
  | REnv addr
  | RClass addr
  | RData addr
  | RList addr
  | RNode addr

fun val_ok :: "store \<Rightarrow> val \<Rightarrow> bool" where
  "val_ok st (V_LIST l) \<longleftrightarrow> l < length (st_lists st)"
| "val_ok st (V_DATA d) \<longleftrightarrow> d < length (st_datas st)"
| "val_ok st (V_FUNC f) \<longleftrightarrow> f < length (st_funcs st)"
| "val_ok st (V_CLASS c) \<longleftrightarrow> c < length (st_classes st)"
| "val_ok st (V_INSTANCE i) \<longleftrightarrow> i < length (st_instances st)"
| "val_ok st (V_NATIVE a) \<longleftrightarrow> a < length (st_natives st)"
| "val_ok st _ \<longleftrightarrow> True"

fun root_ok :: "store \<Rightarrow> root \<Rightarrow> bool" where
  "root_ok st (RVal v) \<longleftrightarrow> val_ok st v"
| "root_ok st (RVals vs) \<longleftrightarrow> list_all (val_ok st) vs"
| "root_ok st (REnv e) \<longleftrightarrow> e < length (st_envs st)"
| "root_ok st (RClass c) \<longleftrightarrow> c < length (st_classes st)"
| "root_ok st (RData d) \<longleftrightarrow> d < length (st_datas st)"
| "root_ok st (RList l) \<longleftrightarrow> l < length (st_lists st)"
| "root_ok st (RNode a) \<longleftrightarrow> a < length (st_nodes st)"

definition larger :: "store \<Rightarrow> store \<Rightarrow> bool" where
  "larger st st' \<longleftrightarrow>
     length (st_nodes st) \<le> length (st_nodes st') \<and> length (st_lists st) \<le> length (st_lists st') \<and>
     length (st_datas st) \<le> length (st_datas st') \<and> length (st_funcs st) \<le> length (st_funcs st') \<and>
     length (st_classes st) \<le> length (st_classes st') \<and>
     length (st_instances st) \<le> length (st_instances st') \<and>
     length (st_natives st) \<le> length (st_natives st') \<and> length (st_envs st) \<le> length (st_envs st')"

lemma larger_refl [simp]: "larger st st"
  by (simp add: larger_def)

lemma val_ok_larger: "larger st st' \<Longrightarrow> val_ok st v \<Longrightarrow> val_ok st' v"
  by (cases v) (auto simp: larger_def)

lemma root_ok_larger: "larger st st' \<Longrightarrow> root_ok st r \<Longrightarrow> root_ok st' r"
proof (cases r)
  case (RVals vs)
  assume "larger st st'" "root_ok st r"
  with RVals val_ok_larger show ?thesis by (auto simp: list_all_iff)
qed (auto simp: larger_def intro: val_ok_larger [unfolded larger_def])

section \<open>The invariant\<close>

fun node_ok :: "store \<Rightarrow> ListNode option \<Rightarrow> bool" where
  "node_ok st None \<longleftrightarrow> True"
| "node_ok st (Some (v, nx)) \<longleftrightarrow> val_ok st v \<and> (\<forall>a. nx = Some a \<longrightarrow> a < length (st_nodes st))"

definition data_ok :: "store \<Rightarrow> (string \<times> val) list \<Rightarrow> bool" where
  "data_ok st es \<longleftrightarrow> (\<forall>e \<in> set es. val_ok st (snd e))"

definition func_ok :: "store \<Rightarrow> FuncValue \<Rightarrow> bool" where
  "func_ok st f \<longleftrightarrow> fv_closure f < length (st_envs st)"

definition class_ok :: "store \<Rightarrow> ClassInfo \<Rightarrow> bool" where
  "class_ok st c \<longleftrightarrow> ci_closure c < length (st_envs st) \<and>
     (\<forall>p. ci_parent c = Some p \<longrightarrow> p < length (st_classes st))"

definition instance_ok :: "store \<Rightarrow> Instance \<Rightarrow> bool" where
  "instance_ok st i \<longleftrightarrow> in_class i < length (st_classes st) \<and> in_fields i < length (st_datas st)"

fun native_ok :: "store \<Rightarrow> native \<Rightarrow> bool" where
  "native_ok st (NATIVE_TASK (Inr r)) \<longleftrightarrow> (\<forall>v. r = Some v \<longrightarrow> val_ok st v)"
| "native_ok st (NATIVE_SUPER_REF p this) \<longleftrightarrow>
     (\<forall>c. p = Some c \<longrightarrow> c < length (st_classes st)) \<and> val_ok st this"
| "native_ok st _ \<longleftrightarrow> True"

definition env_ok :: "store \<Rightarrow> Env \<Rightarrow> bool" where
  "env_ok st e \<longleftrightarrow> (\<forall>c \<in> set (env_entries e). val_ok st (en_value c))"

definition wf_store :: "store \<Rightarrow> bool" where
  "wf_store st \<longleftrightarrow>
     lists_ok st \<and>
     (\<forall>n \<in> set (st_nodes st). node_ok st n) \<and> (\<forall>es \<in> set (st_datas st). data_ok st es) \<and>
     (\<forall>f \<in> set (st_funcs st). func_ok st f) \<and> (\<forall>c \<in> set (st_classes st). class_ok st c) \<and>
     (\<forall>i \<in> set (st_instances st). instance_ok st i) \<and> (\<forall>n \<in> set (st_natives st). native_ok st n) \<and>
     (\<forall>e \<in> set (st_envs st). env_ok st e) \<and>
     (\<forall>e < length (st_envs st). \<forall>p. env_parent (st_envs st ! e) = Some p \<longrightarrow> p < e)"

lemma node_ok_larger: "larger st st' \<Longrightarrow> node_ok st n \<Longrightarrow> node_ok st' n"
  using val_ok_larger [of st st'] by (induction st n rule: node_ok.induct) (auto simp: larger_def)

lemma data_ok_larger: "larger st st' \<Longrightarrow> data_ok st es \<Longrightarrow> data_ok st' es"
  using val_ok_larger [of st st'] by (auto simp: data_ok_def)

lemma func_ok_larger: "larger st st' \<Longrightarrow> func_ok st f \<Longrightarrow> func_ok st' f"
  by (auto simp: func_ok_def larger_def)

lemma class_ok_larger: "larger st st' \<Longrightarrow> class_ok st c \<Longrightarrow> class_ok st' c"
  by (auto simp: class_ok_def larger_def)

lemma instance_ok_larger: "larger st st' \<Longrightarrow> instance_ok st i \<Longrightarrow> instance_ok st' i"
  by (auto simp: instance_ok_def larger_def)

lemma native_ok_larger: "larger st st' \<Longrightarrow> native_ok st n \<Longrightarrow> native_ok st' n"
  using val_ok_larger [of st st']
  by (induction st n rule: native_ok.induct) (auto simp: larger_def)

lemma env_ok_larger: "larger st st' \<Longrightarrow> env_ok st e \<Longrightarrow> env_ok st' e"
  using val_ok_larger [of st st'] by (auto simp: env_ok_def)

lemmas parts_grow = node_ok_larger data_ok_larger func_ok_larger class_ok_larger instance_ok_larger
  native_ok_larger env_ok_larger

section \<open>Evolution\<close>

definition entry_kept :: "EnvEntry \<Rightarrow> EnvEntry \<Rightarrow> bool" where
  "entry_kept c c' \<longleftrightarrow> en_name c' = en_name c \<and> en_is_fixed c' = en_is_fixed c \<and>
     (en_is_fixed c \<longrightarrow> en_value c' = en_value c)"

definition env_kept :: "Env \<Rightarrow> Env \<Rightarrow> bool" where
  "env_kept e e' \<longleftrightarrow> env_parent e' = env_parent e \<and>
     (\<exists>new old. env_entries e' = new @ old \<and> list_all2 entry_kept (env_entries e) old)"

definition class_kept :: "ClassInfo \<Rightarrow> ClassInfo \<Rightarrow> bool" where
  "class_kept c c' \<longleftrightarrow> c' = c\<lparr>ci_parent := ci_parent c'\<rparr>"

definition evolves :: "store \<Rightarrow> store \<Rightarrow> bool" where
  "evolves st st' \<longleftrightarrow>
     larger st st' \<and> prefix (st_funcs st) (st_funcs st') \<and> prefix (st_instances st) (st_instances st') \<and>
     prefix (st_natives st) (st_natives st') \<and>
     (\<forall>c < length (st_classes st). class_kept (st_classes st ! c) (st_classes st' ! c)) \<and>
     (\<forall>e < length (st_envs st). env_kept (st_envs st ! e) (st_envs st' ! e))"

lemma entry_kept_refl [simp]: "entry_kept c c"
  by (simp add: entry_kept_def)

lemma entries_kept_refl [simp]: "list_all2 entry_kept es es"
  by (simp add: list_all2_refl)

lemma env_kept_refl [simp]: "env_kept e e"
  unfolding env_kept_def by (intro conjI exI [of _ "[]"] exI [of _ "env_entries e"]) simp_all

lemma class_kept_refl [simp]: "class_kept c c"
  by (simp add: class_kept_def)

lemma class_kept_trans: "class_kept c d \<Longrightarrow> class_kept d e \<Longrightarrow> class_kept c e"
  by (cases c; cases d; cases e) (simp add: class_kept_def)

lemma entries_kept_trans:
  "list_all2 entry_kept xs ys \<Longrightarrow> list_all2 entry_kept ys zs \<Longrightarrow> list_all2 entry_kept xs zs"
  by (rule list_all2_trans) (auto simp: entry_kept_def)

lemma env_kept_trans:
  assumes "env_kept e f" "env_kept f g"
  shows "env_kept e g"
proof -
  obtain n o' n2 o2 where f: "env_entries f = n @ o'" "list_all2 entry_kept (env_entries e) o'"
    and g: "env_entries g = n2 @ o2" "list_all2 entry_kept (n @ o') o2"
    using assms by (auto simp: env_kept_def)
  then obtain a b where ab: "o2 = a @ b" "list_all2 entry_kept o' b" by (auto simp: list_all2_append1)
  have "env_entries g = (n2 @ a) @ b" using g(1) ab(1) by simp
  moreover have "list_all2 entry_kept (env_entries e) b" by (rule entries_kept_trans [OF f(2) ab(2)])
  moreover have "env_parent g = env_parent e" using assms by (simp add: env_kept_def)
  ultimately show ?thesis unfolding env_kept_def by blast
qed

lemma evolves_refl [simp]: "evolves st st"
  by (simp add: evolves_def)

lemma evolves_trans: "evolves st st1 \<Longrightarrow> evolves st1 st2 \<Longrightarrow> evolves st st2"
  unfolding evolves_def larger_def
  by (meson class_kept_trans env_kept_trans le_trans less_le_trans prefix_order.trans)

lemma evolves_larger: "evolves st st' \<Longrightarrow> larger st st'"
  by (simp add: evolves_def)

text \<open>A step of the store: it keeps the invariant and evolves.\<close>

definition step_ok :: "store \<Rightarrow> store \<Rightarrow> bool" where
  "step_ok st st' \<longleftrightarrow> wf_store st' \<and> evolves st st'"

lemma step_ok_trans: "step_ok st st1 \<Longrightarrow> step_ok st1 st2 \<Longrightarrow> step_ok st st2"
  by (auto simp: step_ok_def intro: evolves_trans)

lemma step_ok_root: "step_ok st st' \<Longrightarrow> root_ok st r \<Longrightarrow> root_ok st' r"
  by (auto simp: step_ok_def intro: root_ok_larger evolves_larger)


section \<open>Reading a well-formed store\<close>

lemma entry_at_in: "a < length xs \<Longrightarrow> entry_at xs d a \<in> set xs"
  by (simp add: entry_at_def)

lemma cell_in: "cell ns a = Some n \<Longrightarrow> Some n \<in> set ns"
  by (auto simp: cell_def entry_at_def split: if_splits) (metis nth_mem)

lemma wf_node:
  assumes "wf_store st" "node_at st a = Some (v, nx)"
  shows "val_ok st v" "nx = Some b \<Longrightarrow> b < length (st_nodes st)"
proof -
  have "Some (v, nx) \<in> set (st_nodes st)" using assms(2) by (simp add: node_at_cell cell_in)
  then have "node_ok st (Some (v, nx))" using assms(1) unfolding wf_store_def by blast
  then show "val_ok st v" "nx = Some b \<Longrightarrow> b < length (st_nodes st)" by auto
qed

lemma wf_head:
  assumes "wf_store st" "head_at st l = Some a"
  shows "a < length (st_nodes st)"
proof -
  obtain cs where cs: "lists_by st cs" using assms(1) by (auto simp: wf_store_def lists_ok_def)
  have l: "l < length (st_lists st)" using assms(2) by (auto simp: head_at_def entry_at_def split: if_splits)
  have "is_chain (st_nodes st) (Some a) (cs ! l)" using lists_by_chain(2) [OF cs l] assms(2) by simp
  then show ?thesis by (cases "cs ! l") (auto dest: cell_lt)
qed

lemma wf_items_from: "wf_store st \<Longrightarrow> v \<in> set (items_from n st c) \<Longrightarrow> val_ok st v"
proof (induction n arbitrary: c)
  case (Suc n)
  show ?case
  proof (cases "Option.bind c (node_at st)")
    case None
    with Suc.prems(2) show ?thesis by simp
  next
    case (Some n)
    then obtain a w nx where "node_at st a = Some (w, nx)" "n = (w, nx)"
      by (cases c; cases n) auto
    with Some Suc wf_node(1) [OF Suc.prems(1)] show ?thesis by auto
  qed
qed simp

lemma wf_items: "wf_store st \<Longrightarrow> list_all (val_ok st) (list_items st l)"
  using wf_items_from [of st] by (auto simp: list_items_def list_all_iff)

lemma wf_data: "wf_store st \<Longrightarrow> e \<in> set (data_at st d) \<Longrightarrow> val_ok st (snd e)"
  using entry_at_in [of d "st_datas st" "[]"]
  by (auto simp: wf_store_def data_ok_def data_at_def entry_at_def split: if_splits)

lemma wf_data_get: "wf_store st \<Longrightarrow> value_data_get st d key = Some v \<Longrightarrow> val_ok st v"
  using wf_data [of st "(key, v)" d] by (auto simp: value_data_get_def dest: map_of_SomeD)

lemma wf_func: "wf_store st \<Longrightarrow> f < length (st_funcs st) \<Longrightarrow> fv_closure (func_at st f) < length (st_envs st)"
  using entry_at_in [of f "st_funcs st"] by (auto simp: wf_store_def func_ok_def func_at_def)

lemma wf_class:
  assumes "wf_store st" "c < length (st_classes st)"
  shows "ci_closure (class_at st c) < length (st_envs st)"
    "ci_parent (class_at st c) = Some p \<Longrightarrow> p < length (st_classes st)"
  using assms entry_at_in [of c "st_classes st"] by (auto simp: wf_store_def class_ok_def class_at_def)

lemma wf_instance:
  assumes "wf_store st" "i < length (st_instances st)"
  shows "in_class (instance_at st i) < length (st_classes st)"
    "in_fields (instance_at st i) < length (st_datas st)"
  using assms entry_at_in [of i "st_instances st"]
  by (auto simp: wf_store_def instance_ok_def instance_at_def)

lemma wf_native: "wf_store st \<Longrightarrow> a < length (st_natives st) \<Longrightarrow> native_ok st (native_at st a)"
  using entry_at_in [of a "st_natives st"] by (auto simp: wf_store_def native_at_def)

lemma wf_env_find:
  assumes "wf_store st" "env < length (st_envs st)" "env_find st env x = Some (e, c)"
  shows "e < length (st_envs st)" "c \<in> set (env_entries (env_at st e))" "en_name c = x" "val_ok st (en_value c)"
proof -
  have "e < length (st_envs st) \<and> c \<in> set (env_entries (env_at st e)) \<and> en_name c = x"
    using assms(2,3)
  proof (induction st env x rule: env_find.induct)
    case (1 st env x)
    show ?case
    proof (cases "find (\<lambda>c. en_name c = x) (env_entries (env_at st env))")
      case None
      with 1 show ?thesis
        by (subst (asm) (2) env_find.simps) (auto split: option.splits if_splits)
    next
      case (Some d)
      then have "e = env" "c = d" using 1(3) by (simp_all add: env_find.simps [of st env])
      with Some 1(2) show ?thesis by (auto simp: find_Some_iff)
    qed
  qed
  then show c: "e < length (st_envs st)" "c \<in> set (env_entries (env_at st e))" "en_name c = x" by auto
  have "env_ok st (env_at st e)"
    using assms(1) c(1) entry_at_in [of e "st_envs st"] by (auto simp: wf_store_def env_at_def)
  with c(2) show "val_ok st (en_value c)" by (auto simp: env_ok_def)
qed

lemma wf_env_get: "wf_store st \<Longrightarrow> env < length (st_envs st) \<Longrightarrow> env_get st env x = Some v \<Longrightarrow> val_ok st v"
  using wf_env_find by (auto simp: env_get_def)

lemma wf_empty_store: "wf_store empty_store"
proof -
  have "lists_by empty_store []" by (simp add: lists_by_def empty_store_def)
  then show ?thesis by (auto simp: wf_store_def empty_store_def lists_ok_def)
qed

end
