(* ===== verification/Store_Steps.thy ===== *)
theory Store_Steps
  imports Store_Ok
begin

text \<open>Every operation on the store is a step: it keeps the invariant, and the store evolves.\<close>

named_theorems steps \<open>operations that are steps of the store\<close>

section \<open>One kind of object\<close>

lemma lists_ok_cong: "st_nodes st' = st_nodes st \<Longrightarrow> st_lists st' = st_lists st \<Longrightarrow> lists_ok st' = lists_ok st"
  by (simp add: lists_ok_def lists_by_def)

lemma step_lists:
  assumes wf: "wf_store st" and st': "st' = st\<lparr>st_nodes := st_nodes st', st_lists := st_lists st'\<rparr>"
    and ok: "lists_ok st'" and len: "length (st_nodes st) \<le> length (st_nodes st')"
      "length (st_lists st) \<le> length (st_lists st')"
    and nodes: "\<And>n. n \<in> set (st_nodes st') \<Longrightarrow> node_ok st' n"
  shows "step_ok st st'"
proof -
  have same: "st_datas st' = st_datas st" "st_funcs st' = st_funcs st" "st_classes st' = st_classes st"
    "st_instances st' = st_instances st" "st_natives st' = st_natives st" "st_envs st' = st_envs st"
    by (subst st', simp)+
  have g: "larger st st'" using len same by (simp add: larger_def)
  then have "wf_store st'"
    using wf ok nodes unfolding wf_store_def same by (auto dest: parts_grow [OF g])
  with g same show ?thesis by (simp add: step_ok_def evolves_def)
qed

lemma step_datas:
  assumes "wf_store st" "length (st_datas st) \<le> length ds"
    "\<And>es. es \<in> set ds \<Longrightarrow> data_ok (st\<lparr>st_datas := ds\<rparr>) es"
  shows "step_ok st (st\<lparr>st_datas := ds\<rparr>)"
proof -
  have g: "larger st (st\<lparr>st_datas := ds\<rparr>)" using assms(2) by (simp add: larger_def)
  have "wf_store (st\<lparr>st_datas := ds\<rparr>)"
    using assms(1,3) lists_ok_cong [of "st\<lparr>st_datas := ds\<rparr>" st] unfolding wf_store_def
    by (auto dest: parts_grow [OF g])
  with g show ?thesis by (simp add: step_ok_def evolves_def)
qed

lemma step_funcs:
  assumes "wf_store st" "func_ok st f"
  shows "step_ok st (st\<lparr>st_funcs := st_funcs st @ [f]\<rparr>)"
proof -
  let ?st = "st\<lparr>st_funcs := st_funcs st @ [f]\<rparr>"
  have g: "larger st ?st" by (simp add: larger_def)
  have "wf_store ?st"
    using assms lists_ok_cong [of ?st st] unfolding wf_store_def by (auto dest: parts_grow [OF g])
  with g show ?thesis by (simp add: step_ok_def evolves_def)
qed

lemma step_instances:
  assumes "wf_store st" "instance_ok st i"
  shows "step_ok st (st\<lparr>st_instances := st_instances st @ [i]\<rparr>)"
proof -
  let ?st = "st\<lparr>st_instances := st_instances st @ [i]\<rparr>"
  have g: "larger st ?st" by (simp add: larger_def)
  have "wf_store ?st"
    using assms lists_ok_cong [of ?st st] unfolding wf_store_def by (auto dest: parts_grow [OF g])
  with g show ?thesis by (simp add: step_ok_def evolves_def)
qed

lemma step_natives:
  assumes "wf_store st" "native_ok st n"
  shows "step_ok st (st\<lparr>st_natives := st_natives st @ [n]\<rparr>)"
proof -
  let ?st = "st\<lparr>st_natives := st_natives st @ [n]\<rparr>"
  have g: "larger st ?st" by (simp add: larger_def)
  have "wf_store ?st"
    using assms lists_ok_cong [of ?st st] unfolding wf_store_def by (auto dest: parts_grow [OF g])
  with g show ?thesis by (simp add: step_ok_def evolves_def)
qed

lemma step_classes:
  assumes "wf_store st" "length (st_classes st) \<le> length cs"
    "\<And>c. c \<in> set cs \<Longrightarrow> class_ok (st\<lparr>st_classes := cs\<rparr>) c"
    "\<And>c. c < length (st_classes st) \<Longrightarrow> class_kept (st_classes st ! c) (cs ! c)"
  shows "step_ok st (st\<lparr>st_classes := cs\<rparr>)"
proof -
  have g: "larger st (st\<lparr>st_classes := cs\<rparr>)" using assms(2) by (simp add: larger_def)
  have "wf_store (st\<lparr>st_classes := cs\<rparr>)"
    using assms(1,3) lists_ok_cong [of "st\<lparr>st_classes := cs\<rparr>" st] unfolding wf_store_def
    by (auto dest: parts_grow [OF g])
  with g assms(4) show ?thesis by (simp add: step_ok_def evolves_def)
qed

lemma step_envs:
  assumes "wf_store st" "length (st_envs st) \<le> length es"
    "\<And>e. e \<in> set es \<Longrightarrow> env_ok st e"
    "\<And>e p. e < length es \<Longrightarrow> env_parent (es ! e) = Some p \<Longrightarrow> p < e"
    "\<And>e. e < length (st_envs st) \<Longrightarrow> env_kept (st_envs st ! e) (es ! e)"
  shows "step_ok st (st\<lparr>st_envs := es\<rparr>)"
proof -
  have g: "larger st (st\<lparr>st_envs := es\<rparr>)" using assms(2) by (simp add: larger_def)
  have "wf_store (st\<lparr>st_envs := es\<rparr>)"
    using assms(1,3,4) lists_ok_cong [of "st\<lparr>st_envs := es\<rparr>" st] unfolding wf_store_def
    by (auto dest: parts_grow [OF g])
  with g assms(5) show ?thesis by (simp add: step_ok_def evolves_def)
qed

section \<open>Lists\<close>

lemma step_list_effect:
  assumes "wf_store st" "list_effect st st' l vs"
    "\<And>n. n \<in> set (st_nodes st') \<Longrightarrow> n \<notin> set (st_nodes st) \<Longrightarrow> node_ok st' n"
  shows "step_ok st st'"
proof -
  have st': "st' = st\<lparr>st_nodes := st_nodes st', st_lists := st_lists st'\<rparr>"
    "length (st_nodes st) \<le> length (st_nodes st')" "length (st_lists st') = length (st_lists st)"
    "lists_ok st'"
    using assms(2) by (simp_all add: list_effect_def)
  have same: "st_datas st' = st_datas st" "st_funcs st' = st_funcs st" "st_classes st' = st_classes st"
    "st_instances st' = st_instances st" "st_natives st' = st_natives st" "st_envs st' = st_envs st"
    by (subst st'(1), simp)+
  have g: "larger st st'" using st'(2,3) same by (simp add: larger_def)
  have "node_ok st' n" if "n \<in> set (st_nodes st')" for n
    using assms(1,3) that node_ok_larger [OF g] unfolding wf_store_def by blast
  then show ?thesis using step_lists [OF assms(1) st'(1)] st' by simp
qed

lemma value_list_empty_step [steps]:
  assumes "wf_store st"
  shows "step_ok st (snd (value_list_empty st))" "val_ok (snd (value_list_empty st)) (fst (value_list_empty st))"
proof -
  have g: "larger st (snd (value_list_empty st))" by (simp add: value_list_empty_def larger_def)
  show "step_ok st (snd (value_list_empty st))"
    using assms create_lists_ok(1) [of st] node_ok_larger [OF g]
    by (intro step_lists) (auto simp: value_list_empty_def wf_store_def)
qed (simp add: value_list_empty_def)

lemma set_next_nodes:
  "n \<in> set (st_nodes (set_next a nx st)) \<Longrightarrow>
   n \<in> set (st_nodes st) \<or> (\<exists>v nx'. n = Some (v, nx) \<and> node_at st a = Some (v, nx'))"
  by (auto simp: set_next_def set_node_def split: option.splits
      dest!: set_update_subset_insert [THEN subsetD])

lemma append_nodes:
  assumes "n \<in> set (st_nodes (value_list_append l v st))"
  shows "n \<in> set (st_nodes st) \<or> n = Some (v, None) \<or> (\<exists>w nx. n = Some (w, Some (length (st_nodes st))) \<and>
    (w = v \<or> Some (w, nx) \<in> set (st_nodes st)))"
proof (cases "head_at st l")
  case None
  with assms show ?thesis
    by (auto simp: value_list_append_def new_node_def set_head_def head_at_def)
next
  case (Some h)
  let ?st = "st\<lparr>st_nodes := st_nodes st @ [Some (v, None)]\<rparr>"
  have "n \<in> set (st_nodes (set_next (last_node (length (st_nodes ?st)) ?st h) (Some (length (st_nodes st))) ?st))"
    using assms Some by (simp add: value_list_append_def new_node_def head_at_def)
  then show ?thesis using set_next_nodes cell_in by (fastforce simp: node_at_cell)
qed

lemma val_ok_list_effect: "list_effect st st' l vs \<Longrightarrow> val_ok st v \<Longrightarrow> val_ok st' v"
proof -
  assume "list_effect st st' l vs" "val_ok st v"
  then have "length (st_nodes st) \<le> length (st_nodes st')" "length (st_lists st') = length (st_lists st)"
    "st' = st\<lparr>st_nodes := st_nodes st', st_lists := st_lists st'\<rparr>" by (simp_all add: list_effect_def)
  then have "larger st st'" by (cases st; cases st') (simp add: larger_def)
  then show ?thesis using \<open>val_ok st v\<close> by (rule val_ok_larger)
qed

lemma wf_node_in: "wf_store st \<Longrightarrow> Some (v, nx) \<in> set (st_nodes st) \<Longrightarrow> val_ok st v"
  by (fastforce simp: wf_store_def)

lemma value_list_append_step [steps]:
  assumes "wf_store st" "l < length (st_lists st)" "val_ok st v"
  shows "step_ok st (value_list_append l v st)"
proof -
  have eff: "list_effect st (value_list_append l v st) l (list_items st l @ [v])"
    using assms(1,2) by (intro append_effect) (simp_all add: wf_store_def)
  have len: "length (st_nodes (value_list_append l v st)) = Suc (length (st_nodes st))"
    by (simp add: value_list_append_def new_node_def set_head_def set_next_def set_node_def split: option.split)
  show ?thesis
  proof (rule step_list_effect [OF assms(1) eff])
    fix n assume "n \<in> set (st_nodes (value_list_append l v st))" "n \<notin> set (st_nodes st)"
    then show "node_ok (value_list_append l v st) n"
      using append_nodes [of n l v st] assms(3) wf_node_in [OF assms(1)] val_ok_list_effect [OF eff] len
      by fastforce
  qed
qed

lemma value_list_insert_front_step [steps]:
  assumes "wf_store st" "l < length (st_lists st)" "val_ok st v"
  shows "step_ok st (value_list_insert_front l v st)"
proof -
  have eff: "list_effect st (value_list_insert_front l v st) l (v # list_items st l)"
    using assms(1,2) by (intro insert_front_effect) (simp_all add: wf_store_def)
  show ?thesis
  proof (rule step_list_effect [OF assms(1) eff])
    fix n assume "n \<in> set (st_nodes (value_list_insert_front l v st))" "n \<notin> set (st_nodes st)"
    then show "node_ok (value_list_insert_front l v st) n"
      using val_ok_list_effect [OF eff assms(3)] wf_head [OF assms(1)]
      by (auto simp: value_list_insert_front_def new_node_def set_head_def intro: less_SucI)
  qed
qed


lemma set_node_nodes: "n \<in> set (st_nodes (set_node a m st)) \<Longrightarrow> n \<in> set (st_nodes st) \<or> n = m"
  by (auto simp: set_node_def dest!: set_update_subset_insert [THEN subsetD])

text \<open>What \<^verbatim>\<open>delete\<close> writes: a freed node, and a pointer that was in the freed node.\<close>

lemma list_unlink_nodes:
  "n \<in> set (st_nodes (list_unlink k l idx i prev c st)) \<Longrightarrow>
   n \<in> set (st_nodes st) \<or> n = None \<or>
   (\<exists>v nx nx' w. n = Some (v, nx) \<and> Some (v, nx') \<in> set (st_nodes st) \<and> Some (w, nx) \<in> set (st_nodes st))"
proof (induction k l idx i prev c st rule: list_unlink.induct)
  case (2 k l idx i prev c st)
  show ?case
  proof (cases "Option.bind c (node_at st)")
    case None
    with 2(2) show ?thesis by (cases c) auto
  next
    case (Some m)
    then obtain a w nx where m: "c = Some a" "node_at st a = Some (w, nx)" "m = (w, nx)"
      by (cases c; cases m) auto
    then have w: "Some (w, nx) \<in> set (st_nodes st)" by (simp add: node_at_cell cell_in)
    show ?thesis
    proof (cases "i = idx")
      case True
      then have "n \<in> set (st_nodes (case prev of Some p \<Rightarrow> set_next p nx st | None \<Rightarrow> set_head l nx st)) \<or> n = None"
        using 2(2) m set_node_nodes by auto
      then show ?thesis
        using w set_next_nodes cell_in by (fastforce simp: set_head_def node_at_cell split: option.splits)
    next
      case False
      with 2 m show ?thesis by auto
    qed
  qed
qed auto

lemma length_list_effect:
  "list_effect st st' l vs \<Longrightarrow> length (st_nodes st) \<le> length (st_nodes st')"
  by (simp add: list_effect_def)

lemma wf_next_in: "wf_store st \<Longrightarrow> Some (v, Some a) \<in> set (st_nodes st) \<Longrightarrow> a < length (st_nodes st)"
  by (fastforce simp: wf_store_def)

lemma list_delete_step [steps]:
  assumes "wf_store st" "l < length (st_lists st)"
  shows "step_ok st (list_delete l i st)"
proof -
  have eff: "list_effect st (list_delete l i st) l
      (if 0 \<le> i then without (nat i) (list_items st l) else list_items st l)"
    using assms by (intro delete_effect) (simp_all add: wf_store_def)
  note len = length_list_effect [OF eff]
  show ?thesis
  proof (rule step_list_effect [OF assms(1) eff])
    fix n assume n: "n \<in> set (st_nodes (list_delete l i st))" "n \<notin> set (st_nodes st)"
    then consider "n = None" | v nx nx' w where "n = Some (v, nx)" "Some (v, nx') \<in> set (st_nodes st)"
        "Some (w, nx) \<in> set (st_nodes st)"
      using list_unlink_nodes unfolding list_delete_def by blast
    then show "node_ok (list_delete l i st) n"
    proof cases
      case 2
      then have "val_ok (list_delete l i st) v"
        using val_ok_list_effect [OF eff wf_node_in [OF assms(1)]] by blast
      moreover have "a < length (st_nodes (list_delete l i st))" if "nx = Some a" for a
        using wf_next_in [OF assms(1)] 2(3) that len by fastforce
      ultimately show ?thesis using 2(1) by simp
    qed simp
  qed
qed

lemma set_item_step [steps]:
  assumes "wf_store st" "l < length (st_lists st)" "val_ok st v"
    "set_item (length (st_nodes st)) st (head_at st l) 0 i v = Some st'"
  shows "step_ok st st'"
proof -
  have "lists_ok st" using assms(1) by (simp add: wf_store_def)
  then obtain cs where cs: "lists_by st cs" by (auto simp: lists_ok_def)
  note c = lists_by_chain [OF cs assms(2)]
  let ?a = "cs ! l ! nat i"
  note walk = set_item_chain [OF c(2) is_chain_length [OF c(2,3)], of 0 i v]
  have i: "0 \<le> i" "nat i < length (cs ! l)" using walk assms(4) by (simp_all split: if_splits)
  obtain w nx where w0: "cell (st_nodes st) ?a = Some (w, nx)"
    using is_chain_live [OF c(2) nth_mem [OF i(2)]] by auto
  then have w: "cell (st_nodes st) ?a = Some (w, nx)" "st' = set_node ?a (Some (v, nx)) st"
    using walk assms(4) i by simp_all
  note r = set_item_relinked [OF c(2,3) i(2) assms(2) w(1), of v]
  have eff: "list_effect st st' l ((map (item_of (st_nodes st)) (cs ! l))[nat i := v])"
    using relinked_effect(2) [OF cs assms(2) r(1)] r(2) w(2) by simp
  show ?thesis
  proof (rule step_list_effect [OF assms(1) eff])
    fix n assume "n \<in> set (st_nodes st')" "n \<notin> set (st_nodes st)"
    then have "n = Some (v, nx)" using set_node_nodes w(2) by blast
    then show "node_ok st' n"
      using val_ok_list_effect [OF eff assms(3)] wf_next_in [OF assms(1)] cell_in [OF w(1)]
        length_list_effect [OF eff] by fastforce
  qed
qed

lemma chain_nodes_in:
  "n \<in> set (chain_nodes base vs) \<Longrightarrow>
   \<exists>v nx. n = Some (v, nx) \<and> v \<in> set vs \<and> (\<forall>a. nx = Some a \<longrightarrow> a < base + length vs)"
proof (induction vs arbitrary: base)
  case (Cons v vs)
  show ?case
  proof (cases "n \<in> set (chain_nodes (base + 1) vs)")
    case True
    with Cons.IH [OF True] show ?thesis by auto
  next
    case False
    with Cons.prems show ?thesis by (cases vs) auto
  qed
qed simp

lemma list_sort_step [steps]:
  assumes "wf_store st" "l < length (st_lists st)"
  shows "step_ok st (list_sort l st)"
proof -
  have eff: "list_effect st (list_sort l st) l (sort_array (list_items st l))"
    using assms by (intro sort_effect) (simp_all add: wf_store_def)
  have set: "set (sort_array (list_items st l)) = set (list_items st l)"
    using sort_array_mset mset_eq_setD by blast
  show ?thesis
  proof (rule step_list_effect [OF assms(1) eff])
    fix n assume "n \<in> set (st_nodes (list_sort l st))" "n \<notin> set (st_nodes st)"
    then have "n \<in> set (chain_nodes (length (st_nodes st)) (sort_array (list_items st l)))"
      by (auto simp: list_sort_def Let_def set_head_def)
    then obtain v nx where n: "n = Some (v, nx)" "v \<in> set (list_items st l)"
      "\<And>a. nx = Some a \<Longrightarrow> a < length (st_nodes st) + length (sort_array (list_items st l))"
      using chain_nodes_in set by blast
    have "val_ok (list_sort l st) v"
      using val_ok_list_effect [OF eff] n(2) wf_items [OF assms(1), of l] by (simp add: list_all_iff)
    then show "node_ok (list_sort l st) n"
      using n(1,3) by (auto simp: list_sort_def Let_def set_head_def)
  qed
qed

lemma step_wf: "step_ok st st' \<Longrightarrow> wf_store st'"
  by (simp add: step_ok_def)

lemma step_larger: "step_ok st st' \<Longrightarrow> larger st st'"
  by (simp add: step_ok_def evolves_larger)

lemma step_ok_refl: "wf_store st \<Longrightarrow> step_ok st st"
  by (simp add: step_ok_def)

lemma list_concat_step [steps]:
  "wf_store st \<Longrightarrow> l < length (st_lists st) \<Longrightarrow> list_concat n l c st = Some st' \<Longrightarrow> step_ok st st'"
proof (induction n l c st rule: list_concat.induct)
  case (2 n l c st)
  show ?case
  proof (cases "Option.bind c (node_at st)")
    case None
    with 2 show ?thesis by (simp add: step_ok_refl)
  next
    case (Some m)
    then obtain a v nx where m: "c = Some a" "node_at st a = Some (v, nx)" "m = (v, nx)"
      by (cases c; cases m) auto
    let ?st = "value_list_append l v st"
    have s: "step_ok st ?st" by (rule value_list_append_step [OF 2(2,3) wf_node(1) [OF 2(2) m(2)]])
    have "l < length (st_lists ?st)" using step_larger [OF s] 2(3) by (simp add: larger_def)
    moreover have "list_concat n l (case Option.bind c (node_at ?st) of Some (uu, next) \<Rightarrow> next | None \<Rightarrow> None) ?st = Some st'"
      using 2(4) Some m by (simp add: Let_def)
    ultimately have "step_ok ?st st'" using 2(1) [OF Some] m(3) step_wf [OF s] by auto
    with s show ?thesis by (rule step_ok_trans)
  qed
qed simp

section \<open>Data, functions, instances and handles\<close>

lemma value_data_empty_step [steps]:
  assumes "wf_store st"
  shows "step_ok st (snd (value_data_empty st))" "val_ok (snd (value_data_empty st)) (fst (value_data_empty st))"
  using assms unfolding value_data_empty_def
  by (auto intro!: step_datas simp: data_ok_def wf_store_def)
    (fastforce simp: data_ok_def intro: val_ok_larger [rotated] simp: larger_def)

lemma data_put_in: "e \<in> set (data_put key v es) \<Longrightarrow> e \<in> set es \<or> snd e = v"
  by (induction key v es rule: data_put.induct) (auto split: if_splits)

lemma value_data_set_step [steps]:
  assumes "wf_store st" "d < length (st_datas st)" "val_ok st v"
  shows "step_ok st (value_data_set d key v st)"
  unfolding value_data_set_def
proof (rule step_datas [OF assms(1)])
  let ?es = "if map_of (data_at st d) key \<noteq> None then data_put key v (data_at st d) else (key, v) # data_at st d"
  let ?st = "st\<lparr>st_datas := (st_datas st)[d := ?es]\<rparr>"
  have g: "larger st ?st" by (simp add: larger_def)
  fix es assume "es \<in> set ((st_datas st)[d := ?es])"
  then consider "es \<in> set (st_datas st)" | "es = ?es" by (auto dest!: set_update_subset_insert [THEN subsetD])
  then show "data_ok ?st es"
  proof cases
    case 1
    then have "data_ok st es" using assms(1) by (auto simp: wf_store_def)
    then show ?thesis by (rule data_ok_larger [OF g])
  next
    case 2
    have "val_ok st (snd e)" if "e \<in> set ?es" for e
      using that assms(3) wf_data [OF assms(1), of e d] data_put_in [of e key v "data_at st d"]
      by (auto split: if_splits)
    then show ?thesis using val_ok_larger [OF g] unfolding 2 data_ok_def by blast
  qed
qed simp

lemma new_func_step [steps]:
  assumes "wf_store st" "fv_closure f < length (st_envs st)"
  shows "step_ok st (snd (new_func f st))" "val_ok (snd (new_func f st)) (fst (new_func f st))"
  using assms step_funcs [of st f] by (simp_all add: new_func_def func_ok_def)

lemma new_instance_step [steps]:
  assumes "wf_store st" "c < length (st_classes st)" "d < length (st_datas st)"
  shows "step_ok st (snd (new_instance c d st))" "val_ok (snd (new_instance c d st)) (fst (new_instance c d st))"
  using assms step_instances [of st "\<lparr>in_class = c, in_fields = d\<rparr>"]
  by (simp_all add: new_instance_def instance_ok_def)

lemma native_wrap_step [steps]:
  assumes "wf_store st" "native_ok st n"
  shows "step_ok st (snd (native_wrap n st))" "val_ok (snd (native_wrap n st)) (fst (native_wrap n st))"
  using assms step_natives [of st n] by (simp_all add: native_wrap_def)

section \<open>Environments\<close>

lemma env_new_step [steps]:
  assumes "wf_store st" "\<And>p. parent = Some p \<Longrightarrow> p < length (st_envs st)"
  shows "step_ok st (snd (env_new parent st))" "fst (env_new parent st) < length (st_envs (snd (env_new parent st)))"
proof -
  show "step_ok st (snd (env_new parent st))"
    unfolding env_new_def snd_conv using assms
    by (intro step_envs) (auto simp: wf_store_def env_ok_def nth_append split: if_splits)
qed (simp add: env_new_def)

lemma set_entries_step:
  assumes "wf_store st" "env < length (st_envs st)" "\<And>c. c \<in> set es \<Longrightarrow> val_ok st (en_value c)"
    "env_kept (env_at st env) ((env_at st env)\<lparr>env_entries := es\<rparr>)"
  shows "step_ok st (set_entries env es st)"
  unfolding set_entries_def
proof (rule step_envs [OF assms(1)])
  let ?e = "(env_at st env)\<lparr>env_entries := es\<rparr>"
  fix e assume "e \<in> set ((st_envs st)[env := ?e])"
  then have "e \<in> set (st_envs st) \<or> e = ?e" by (auto dest!: set_update_subset_insert [THEN subsetD])
  then show "env_ok st e" using assms(1,3) by (auto simp: wf_store_def env_ok_def)
next
  fix e p
  assume "e < length ((st_envs st)[env := (env_at st env)\<lparr>env_entries := es\<rparr>])"
    "env_parent ((st_envs st)[env := (env_at st env)\<lparr>env_entries := es\<rparr>] ! e) = Some p"
  then show "p < e"
    using assms(1,2) by (cases "e = env") (auto simp: wf_store_def env_at_def entry_at_def)
next
  fix e assume "e < length (st_envs st)"
  then show "env_kept (st_envs st ! e) ((st_envs st)[env := (env_at st env)\<lparr>env_entries := es\<rparr>] ! e)"
    using assms(2,4) by (cases "e = env") (auto simp: env_at_def entry_at_def)
qed simp

lemma wf_entries:
  assumes "wf_store st" "env < length (st_envs st)" "c \<in> set (env_entries (env_at st env))"
  shows "val_ok st (en_value c)"
proof -
  have "env_ok st (env_at st env)"
    using assms(1,2) entry_at_in [of env "st_envs st"] by (auto simp: wf_store_def env_at_def)
  with assms(3) show ?thesis by (simp add: env_ok_def)
qed

lemma env_define_step [steps]:
  assumes "wf_store st" "env < length (st_envs st)" "val_ok st v"
  shows "step_ok st (env_define env x v fixd st)"
  unfolding env_define_def
proof (rule set_entries_step [OF assms(1,2)])
  let ?es = "\<lparr>en_name = x, en_value = v, en_is_fixed = fixd\<rparr> # env_entries (env_at st env)"
  show "val_ok st (en_value c)" if "c \<in> set ?es" for c
    using that assms wf_entries by auto
  show "env_kept (env_at st env) ((env_at st env)\<lparr>env_entries := ?es\<rparr>)"
    unfolding env_kept_def by (intro conjI exI [of _ "[_]"] exI) (auto simp: list_all2_refl)
qed

lemma entry_put_in: "c \<in> set (entry_put x v es) \<Longrightarrow> c \<in> set es \<or> en_value c = v"
  by (induction x v es rule: entry_put.induct) (auto split: if_splits)

lemma entry_put_kept:
  "find (\<lambda>c. en_name c = x) es = Some c \<Longrightarrow> \<not> en_is_fixed c \<Longrightarrow>
   list_all2 entry_kept es (entry_put x v es)"
  by (induction x v es rule: entry_put.induct) (auto simp: entry_kept_def list_all2_refl split: if_splits)

lemma env_find_first:
  "env_find st env x = Some (e, c) \<Longrightarrow> find (\<lambda>c. en_name c = x) (env_entries (env_at st e)) = Some c"
proof (induction st env x rule: env_find.induct)
  case (1 st env x)
  show ?case
  proof (cases "find (\<lambda>c. en_name c = x) (env_entries (env_at st env))")
    case None
    with 1 show ?thesis by (subst (asm) (2) env_find.simps) (auto split: option.splits if_splits)
  next
    case (Some d)
    with 1(2) show ?thesis by (simp add: env_find.simps [of st env])
  qed
qed

lemma env_set_step [steps]:
  assumes "wf_store st" "env < length (st_envs st)" "val_ok st v"
  shows "step_ok st (snd (env_set env x v st))"
proof (cases "env_find st env x")
  case None
  then show ?thesis using assms(1) by (simp add: env_set_def step_ok_refl)
next
  case (Some ec)
  then obtain e c where ec: "env_find st env x = Some (e, c)" by (cases ec) auto
  note found = wf_env_find [OF assms(1,2) ec]
  show ?thesis
  proof (cases "en_is_fixed c")
    case True
    then show ?thesis using ec assms(1) by (simp add: env_set_def step_ok_refl)
  next
    case False
    have "step_ok st (set_entries e (entry_put x v (env_entries (env_at st e))) st)"
    proof (rule set_entries_step [OF assms(1) found(1)])
      show "val_ok st (en_value d)" if "d \<in> set (entry_put x v (env_entries (env_at st e)))" for d
        using entry_put_in [OF that] assms(3) wf_entries [OF assms(1) found(1)] by auto
      show "env_kept (env_at st e)
          ((env_at st e)\<lparr>env_entries := entry_put x v (env_entries (env_at st e))\<rparr>)"
        unfolding env_kept_def using entry_put_kept [OF env_find_first [OF ec] False]
        by (intro conjI exI [of _ "[]"] exI) auto
    qed
    with ec False show ?thesis by (simp add: env_set_def)
  qed
qed

section \<open>Procedures on the store\<close>

lemma step_val_ok: "step_ok st st' \<Longrightarrow> val_ok st v \<Longrightarrow> val_ok st' v"
  by (rule val_ok_larger [OF step_larger])

lemma step_env_lt: "step_ok st st' \<Longrightarrow> e < length (st_envs st) \<Longrightarrow> e < length (st_envs st')"
  by (drule step_larger) (simp add: larger_def)

lemma step_vals: "step_ok st st' \<Longrightarrow> list_all (val_ok st) vs \<Longrightarrow> list_all (val_ok st') vs"
  using step_val_ok by (auto simp: list_all_iff)

lemma step_ok_foldl:
  assumes "wf_store st" "P st" "\<And>x st. wf_store st \<Longrightarrow> P st \<Longrightarrow> step_ok st (f st x) \<and> P (f st x)"
  shows "step_ok st (foldl f st xs) \<and> P (foldl f st xs)"
  using assms(1,2)
proof (induction xs arbitrary: st)
  case (Cons x xs)
  then have s: "step_ok st (f st x)" "P (f st x)" using assms(3) by blast+
  with Cons.IH [OF step_wf [OF s(1)]] show ?case by (auto intro: step_ok_trans)
qed (simp add: step_ok_refl)

lemma bind_params_step [steps]:
  "wf_store st \<Longrightarrow> env < length (st_envs st) \<Longrightarrow> list_all (val_ok st) argv \<Longrightarrow>
   step_ok st (bind_params env ps argv st)"
proof (induction env ps argv st rule: bind_params.induct)
  case (2 env x t ps argv st)
  let ?st = "env_define env x (case argv of [] \<Rightarrow> V_VOID | v # _ \<Rightarrow> v) False st"
  have s: "step_ok st ?st" using 2(2-4) by (intro env_define_step) (auto split: list.split)
  have "list_all (val_ok ?st) (tl argv)" using step_vals [OF s 2(4)] by (cases argv) auto
  then show ?case using 2(1) [OF step_wf [OF s] step_env_lt [OF s 2(3)]] s by (auto intro: step_ok_trans)
qed (simp add: step_ok_refl)

lemma hoist_class_step:
  assumes "wf_store st" "env < length (st_envs st)"
  shows "step_ok st (hoist_class env st s)"
proof (cases s)
  case (S_CLASS a x ms c parent)
  let ?ci = "\<lparr>ci_name = x, ci_parent_name = parent, ci_parent = None, ci_members = ms, ci_closure = env\<rparr>"
  let ?st = "st\<lparr>st_classes := st_classes st @ [?ci]\<rparr>"
  have g: "larger st ?st" by (simp add: larger_def)
  have ci: "class_ok ?st ?ci" using assms(2) by (simp add: class_ok_def)
  have old: "class_ok ?st c" if "c \<in> set (st_classes st)" for c
    using assms(1) that class_ok_larger [OF g] by (simp add: wf_store_def)
  have s1: "step_ok st ?st"
    using ci old by (intro step_classes [OF assms(1)]) (auto simp: nth_append)
  have "step_ok ?st (env_define env x (V_CLASS (length (st_classes st))) True ?st)"
    using step_wf [OF s1] step_env_lt [OF s1 assms(2)] by (intro env_define_step) simp_all
  with s1 S_CLASS show ?thesis by (auto intro: step_ok_trans)
qed (use assms(1) in \<open>simp_all add: step_ok_refl\<close>)

lemma class_at_kept: "c < length (st_classes st) \<Longrightarrow> class_kept (st_classes st ! c) ((class_at st c)\<lparr>ci_parent := p\<rparr>)"
  by (simp add: class_kept_def class_at_def entry_at_def)

lemma link_parent_step:
  assumes "wf_store st" "env < length (st_envs st)"
  shows "step_ok st (link_parent env st s)"
proof (cases "\<exists>a x ms b parent c p. s = S_CLASS a x ms b (Some parent) \<and>
    env_get st env x = Some (V_CLASS c) \<and> env_get st env parent = Some (V_CLASS p)")
  case True
  then obtain a x ms b parent c p where s: "s = S_CLASS a x ms b (Some parent)"
    "env_get st env x = Some (V_CLASS c)" "env_get st env parent = Some (V_CLASS p)" by blast
  have lt: "c < length (st_classes st)" "p < length (st_classes st)"
    using wf_env_get [OF assms s(2)] wf_env_get [OF assms s(3)] by simp_all
  let ?cs = "(st_classes st)[c := (class_at st c)\<lparr>ci_parent := Some p\<rparr>]"
  have "step_ok st (st\<lparr>st_classes := ?cs\<rparr>)"
  proof (rule step_classes [OF assms(1)])
    fix d assume "d \<in> set ?cs"
    then have "d \<in> set (st_classes st) \<or> d = (class_at st c)\<lparr>ci_parent := Some p\<rparr>"
      by (auto dest!: set_update_subset_insert [THEN subsetD])
    then show "class_ok (st\<lparr>st_classes := ?cs\<rparr>) d"
      using assms(1) wf_class(1) [OF assms(1) lt(1)] lt(2) by (auto simp: wf_store_def class_ok_def)
  next
    fix d assume "d < length (st_classes st)"
    then show "class_kept (st_classes st ! d) (?cs ! d)"
      using class_at_kept [OF lt(1)] by (cases "d = c") auto
  qed simp
  with s show ?thesis by simp
next
  case False
  then have "link_parent env st s = st"
    by (cases "(env, st, s)" rule: link_parent.cases) (auto split: option.split val.split)
  with assms(1) show ?thesis by (simp add: step_ok_refl)
qed

lemma hoist_classes_step [steps]:
  assumes "wf_store st" "env < length (st_envs st)"
  shows "step_ok st (hoist_classes ss env st)"
proof -
  let ?P = "\<lambda>st. env < length (st_envs st)"
  have 1: "step_ok st (foldl (hoist_class env) st ss) \<and> ?P (foldl (hoist_class env) st ss)"
    using assms by (intro step_ok_foldl) (auto intro: hoist_class_step step_env_lt)
  then have "step_ok (foldl (hoist_class env) st ss) (hoist_classes ss env st)"
    unfolding hoist_classes_def
    using step_ok_foldl [of "foldl (hoist_class env) st ss" ?P "link_parent env" ss] step_wf
    by (auto intro: link_parent_step step_env_lt)
  with 1 show ?thesis by (auto intro: step_ok_trans)
qed

lemma hoist_fun_step:
  assumes "wf_store st" "env < length (st_envs st)"
  shows "step_ok st (hoist_fun env st s)"
proof (cases s)
  case (S_FUN_DECL a x ps t body as)
  let ?f = "\<lparr>fv_params = ps, fv_body = body, fv_closure = env, fv_is_async = as, fv_name = x\<rparr>"
  have s1: "step_ok st (snd (new_func ?f st))" "val_ok (snd (new_func ?f st)) (fst (new_func ?f st))"
    using new_func_step [of st ?f] assms by simp_all
  have "step_ok (snd (new_func ?f st)) (env_define env x (fst (new_func ?f st)) True (snd (new_func ?f st)))"
    by (rule env_define_step [OF step_wf [OF s1(1)] step_env_lt [OF s1(1) assms(2)] s1(2)])
  with s1(1) S_FUN_DECL show ?thesis by (auto simp: case_prod_beta intro: step_ok_trans)
qed (use assms(1) in \<open>simp_all add: step_ok_refl\<close>)

lemma hoist_funs_step [steps]:
  "wf_store st \<Longrightarrow> env < length (st_envs st) \<Longrightarrow> step_ok st (hoist_funs ss env st)"
  unfolding hoist_funs_def
  using step_ok_foldl [of st "\<lambda>st. env < length (st_envs st)" "hoist_fun env" ss]
  by (auto intro: hoist_fun_step step_env_lt)

lemma bind_this_step [steps]:
  assumes "wf_store st" "env < length (st_envs st)" "c < length (st_classes st)" "val_ok st this"
  shows "step_ok st (bind_this env c this st)"
proof -
  let ?st = "env_define env ''this'' this True st"
  have s: "step_ok st ?st" by (rule env_define_step [OF assms(1,2,4)])
  have "step_ok ?st (bind_this env c this st)"
  proof (cases "ci_parent (class_at ?st c)")
    case None
    then show ?thesis using step_wf [OF s] by (simp add: bind_this_def step_ok_refl)
  next
    case (Some p)
    let ?w = "native_wrap (NATIVE_SUPER_REF (Some p) this) ?st"
    have "c < length (st_classes ?st)" using step_larger [OF s] assms(3) by (simp add: larger_def)
    then have "p < length (st_classes ?st)" using wf_class(2) [OF step_wf [OF s] _ Some] by simp
    then have w: "step_ok ?st (snd ?w)" "val_ok (snd ?w) (fst ?w)"
      using native_wrap_step [OF step_wf [OF s]] step_val_ok [OF s assms(4)] by simp_all
    have "step_ok (snd ?w) (env_define env ''super'' (fst ?w) True (snd ?w))"
      by (rule env_define_step [OF step_wf [OF w(1)] _ w(2)])
        (rule step_env_lt [OF w(1) step_env_lt [OF s assms(2)]])
    with w(1) Some show ?thesis
      by (auto simp: bind_this_def case_prod_beta Let_def intro: step_ok_trans)
  qed
  with s show ?thesis by (rule step_ok_trans)
qed

end
