(* ===== verification/Json_Steps.thy ===== *)
theory Json_Steps
  imports Store_Steps
begin

text \<open>
  The JSON reader on the store: what it builds is well formed, and it always ends, because
  every value and every separator takes characters from the text or the text is at its end.
\<close>

section \<open>The values it builds\<close>

definition reader_ok :: "json_reader \<Rightarrow> bool" where
  "reader_ok pv \<longleftrightarrow> (\<forall>s st v s' st'. wf_store st \<longrightarrow> pv s st = Some (v, s', st') \<longrightarrow>
     step_ok st st' \<and> val_ok st' v)"

lemma reader_okD:
  "reader_ok pv \<Longrightarrow> wf_store st \<Longrightarrow> pv s st = Some (v, s', st') \<Longrightarrow> step_ok st st' \<and> val_ok st' v"
  unfolding reader_ok_def by blast

lemma step_data_lt: "step_ok st st' \<Longrightarrow> d < length (st_datas st) \<Longrightarrow> d < length (st_datas st')"
  by (drule step_larger) (simp add: larger_def)

lemma step_list_lt: "step_ok st st' \<Longrightarrow> l < length (st_lists st) \<Longrightarrow> l < length (st_lists st')"
  by (drule step_larger) (simp add: larger_def)

lemma json_members_step:
  assumes "reader_ok pv"
  shows "wf_store st \<Longrightarrow> obj < length (st_datas st) \<Longrightarrow> json_members n pv obj s st = Some (s', st') \<Longrightarrow>
    step_ok st st'"
proof (induction n arbitrary: s st)
  case (Suc n)
  obtain key r where kr: "json_parse_string_raw (json_skip_ws s) = (key, r)" by (cases "json_parse_string_raw (json_skip_ws s)")
  define s1 where "s1 = (let s = json_skip_ws r in if starts (CHR '':'') s then tl s else s)"
  obtain v s2 st1 where pv: "pv s1 st = Some (v, s2, st1)"
    using Suc.prems(3) kr by (auto simp: s1_def Let_def split: Option.bind_splits)
  note r = reader_okD [OF assms Suc.prems(1) pv]
  let ?st = "value_data_set obj key v st1"
  have s: "step_ok st1 ?st"
    using r step_wf step_data_lt [OF _ Suc.prems(2)] by (intro value_data_set_step) auto
  have run: "(if starts (CHR '','') (json_skip_ws s2) then json_members n pv obj (tl (json_skip_ws s2)) ?st
      else if starts (CHR ''}'') (json_skip_ws s2) then Some (tl (json_skip_ws s2), ?st)
      else Some (json_skip_ws s2, ?st)) = Some (s', st')"
    using Suc.prems(3) kr pv by (simp add: s1_def Let_def)
  have "step_ok ?st st'"
  proof (cases "starts (CHR '','') (json_skip_ws s2)")
    case True
    have "obj < length (st_datas ?st)" using r s Suc.prems(2) by (blast intro: step_data_lt)
    with True run show ?thesis using Suc.IH [OF step_wf [OF s]] by simp
  next
    case False
    with run show ?thesis using step_ok_refl [OF step_wf [OF s]] by (simp split: if_splits)
  qed
  with r s show ?case by (blast intro: step_ok_trans)
qed simp

lemma json_items_step:
  assumes "reader_ok pv"
  shows "wf_store st \<Longrightarrow> l < length (st_lists st) \<Longrightarrow> json_items n pv l s st = Some (s', st') \<Longrightarrow>
    step_ok st st'"
proof (induction n arbitrary: s st)
  case (Suc n)
  obtain v s2 st1 where pv: "pv s st = Some (v, s2, st1)"
    using Suc.prems(3) by (auto split: Option.bind_splits)
  note r = reader_okD [OF assms Suc.prems(1) pv]
  let ?st = "value_list_append l v st1"
  have s: "step_ok st1 ?st"
    using r step_wf step_list_lt [OF _ Suc.prems(2)] by (intro value_list_append_step) auto
  have run: "(if starts (CHR '','') (json_skip_ws s2) then json_items n pv l (tl (json_skip_ws s2)) ?st
      else if starts (CHR '']'') (json_skip_ws s2) then Some (tl (json_skip_ws s2), ?st)
      else Some (json_skip_ws s2, ?st)) = Some (s', st')"
    using Suc.prems(3) pv by (simp add: Let_def)
  have "step_ok ?st st'"
  proof (cases "starts (CHR '','') (json_skip_ws s2)")
    case True
    have "l < length (st_lists ?st)" using r s Suc.prems(2) by (blast intro: step_list_lt)
    with True run show ?thesis using Suc.IH [OF step_wf [OF s]] by simp
  next
    case False
    with run show ?thesis using step_ok_refl [OF step_wf [OF s]] by (simp split: if_splits)
  qed
  with r s show ?case by (blast intro: step_ok_trans)
qed simp

lemma json_object_ok:
  assumes "reader_ok pv"
  shows "reader_ok (json_object n pv)"
  unfolding reader_ok_def
proof (intro allI impI)
  fix s st v s' st' assume wf: "wf_store st" and run: "json_object n pv s st = Some (v, s', st')"
  let ?st = "snd (value_data_empty st)"
  note e = value_data_empty_step [OF wf]
  have obj: "length (st_datas st) < length (st_datas ?st)" by (simp add: value_data_empty_def)
  have v: "v = V_DATA (length (st_datas st))" and st': "st' = ?st \<or>
      (\<exists>t. json_members n pv (length (st_datas st)) t ?st = Some (s', st'))"
    using run by (auto simp: json_object_def Let_def split: if_splits Option.bind_splits)
  have "step_ok ?st st'"
    using st' json_members_step [OF assms step_wf [OF e(1)] obj] step_ok_refl [OF step_wf [OF e(1)]] by blast
  then show "step_ok st st' \<and> val_ok st' v"
    using e(1) step_ok_trans step_data_lt [OF _ obj] v by auto
qed

lemma json_list_ok:
  assumes "reader_ok pv"
  shows "reader_ok (json_list n pv)"
  unfolding reader_ok_def
proof (intro allI impI)
  fix s st v s' st' assume wf: "wf_store st" and run: "json_list n pv s st = Some (v, s', st')"
  let ?st = "snd (value_list_empty st)"
  note e = value_list_empty_step [OF wf]
  have l: "length (st_lists st) < length (st_lists ?st)" by (simp add: value_list_empty_def)
  have v: "v = V_LIST (length (st_lists st))" and st': "st' = ?st \<or>
      (\<exists>t. json_items n pv (length (st_lists st)) t ?st = Some (s', st'))"
    using run by (auto simp: json_list_def Let_def split: if_splits Option.bind_splits)
  have "step_ok ?st st'"
    using st' json_items_step [OF assms step_wf [OF e(1)] l] step_ok_refl [OF step_wf [OF e(1)]] by blast
  then show "step_ok st st' \<and> val_ok st' v"
    using e(1) step_ok_trans step_list_lt [OF _ l] v by auto
qed

lemma json_number_ok: "val_ok st (fst (json_number s))"
  by (simp add: json_number_def case_prod_beta Let_def)

lemma json_parse_value_ok: "reader_ok (json_parse_value n)"
proof (induction n)
  case (Suc n)
  note obj = reader_okD [OF json_object_ok [OF Suc]] and lst = reader_okD [OF json_list_ok [OF Suc]]
  show ?case
    unfolding reader_ok_def
  proof (intro allI impI)
    fix s st v s' st' assume wf: "wf_store st" and run: "json_parse_value (Suc n) s st = Some (v, s', st')"
    show "step_ok st st' \<and> val_ok st' v"
      using run obj [OF wf] lst [OF wf] step_ok_refl [OF wf] json_number_ok [of st "json_skip_ws s"]
      by (auto simp: Let_def split: if_splits prod.splits)
  qed
qed (simp add: reader_ok_def)

lemma json_parse_run:
  "json_parse s st = Some (v, st') \<longleftrightarrow> (\<exists>r. json_parse_value (length s + 2) s st = Some (v, r, st'))"
  unfolding json_parse_def by (cases "json_parse_value (length s + 2) s st") auto

lemma json_parse_step [steps]:
  "wf_store st \<Longrightarrow> json_parse s st = Some (v, st') \<Longrightarrow> step_ok st st' \<and> val_ok st' v"
  unfolding json_parse_run using reader_okD [OF json_parse_value_ok] by blast

section \<open>It ends\<close>

text \<open>
  \<open>reads k pv\<close>: on a text of at most \<open>k\<close> characters the reader returns, and leaves no more
  than it was given.
\<close>

definition reads :: "nat \<Rightarrow> json_reader \<Rightarrow> bool" where
  "reads k pv \<longleftrightarrow> (\<forall>s st. length s \<le> k \<longrightarrow>
     (\<exists>v s' st'. pv s st = Some (v, s', st') \<and> length s' \<le> length s))"

lemma json_skip_ws_length: "length (json_skip_ws s) \<le> length s"
  by (simp add: json_skip_ws_def length_dropWhile_le)

lemma json_string_body_length: "length (snd (json_string_body s)) \<le> length s"
proof (induction s rule: json_string_body.induct)
  case (3 c n s)
  then show ?case by (auto simp: case_prod_beta)
qed auto

lemma json_string_length: "length (snd (json_parse_string_raw s)) \<le> length s"
  using json_string_body_length [of "tl s"] by (auto simp: json_parse_string_raw_def Let_def case_prod_beta)

lemma json_digits_length: "length (snd (json_digits s)) \<le> length s"
  by (simp add: json_digits_def length_dropWhile_le)

lemma json_sign_length: "length (snd (json_sign s)) \<le> length s"
  by (simp add: json_sign_def)

lemma json_fraction_length: "length (snd (json_fraction s)) \<le> length s"
  using json_digits_length [of "tl s"] by (auto simp: json_fraction_def case_prod_beta)

lemma json_exponent_length: "length (snd (json_exponent s)) \<le> length s"
  using json_digits_length [of "tl s"] json_digits_length [of "tl (tl s)"]
  by (auto simp: json_exponent_def case_prod_beta Let_def)

lemma json_number_length: "length (snd (json_number s)) \<le> length s"
  unfolding json_number_def case_prod_beta Let_def snd_conv
  by (meson json_sign_length json_digits_length json_fraction_length json_exponent_length le_trans)

lemma starts_length: "starts c s \<Longrightarrow> Suc (length (tl s)) = length s"
  by (cases s) auto


lemma readsD:
  assumes "reads k pv" "length s \<le> k"
  obtains v s' st' where "pv s st = Some (v, s', st')" "length s' \<le> length s"
  using assms unfolding reads_def by meson

lemma json_members_reads:
  assumes "reads k pv"
  shows "length s \<le> k \<Longrightarrow> length s < n \<Longrightarrow>
    \<exists>s' st'. json_members n pv obj s st = Some (s', st') \<and> length s' \<le> length s"
proof (induction n arbitrary: s st)
  case (Suc n)
  obtain key r where kr: "json_parse_string_raw (json_skip_ws s) = (key, r)"
    by (cases "json_parse_string_raw (json_skip_ws s)")
  have r: "length r \<le> length s"
    using json_string_length [of "json_skip_ws s"] json_skip_ws_length [of s] kr by simp
  define s1 where "s1 = (if starts (CHR '':'') (json_skip_ws r) then tl (json_skip_ws r) else json_skip_ws r)"
  have s1: "length s1 \<le> length s" using json_skip_ws_length [of r] r by (auto simp: s1_def)
  obtain v s2 st1 where pv: "pv s1 st = Some (v, s2, st1)" "length s2 \<le> length s1"
    using readsD [OF assms le_trans [OF s1 Suc.prems(1)]] .
  let ?s3 = "json_skip_ws s2" and ?st = "value_data_set obj key v st1"
  have s3: "length ?s3 \<le> length s" using json_skip_ws_length [of s2] pv(2) s1 by simp
  have run: "json_members (Suc n) pv obj s st =
      (if starts (CHR '','') ?s3 then json_members n pv obj (tl ?s3) ?st
       else if starts (CHR ''}'') ?s3 then Some (tl ?s3, ?st) else Some (?s3, ?st))"
    using kr pv(1) by (simp add: s1_def Let_def)
  show ?case
  proof (cases "starts (CHR '','') ?s3")
    case True
    then have "length (tl ?s3) < length s" using starts_length [OF True] s3 by simp
    with Suc.IH [of "tl ?s3" ?st] Suc.prems True run show ?thesis by fastforce
  next
    case False
    with run s3 show ?thesis by auto
  qed
qed simp

lemma json_items_reads:
  assumes "reads k pv"
  shows "length s \<le> k \<Longrightarrow> length s < n \<Longrightarrow>
    \<exists>s' st'. json_items n pv l s st = Some (s', st') \<and> length s' \<le> length s"
proof (induction n arbitrary: s st)
  case (Suc n)
  obtain v s2 st1 where pv: "pv s st = Some (v, s2, st1)" "length s2 \<le> length s"
    using readsD [OF assms Suc.prems(1)] .
  let ?s3 = "json_skip_ws s2" and ?st = "value_list_append l v st1"
  have s3: "length ?s3 \<le> length s" using json_skip_ws_length [of s2] pv(2) by simp
  have run: "json_items (Suc n) pv l s st =
      (if starts (CHR '','') ?s3 then json_items n pv l (tl ?s3) ?st
       else if starts (CHR '']'') ?s3 then Some (tl ?s3, ?st) else Some (?s3, ?st))"
    using pv(1) by (simp add: Let_def)
  show ?case
  proof (cases "starts (CHR '','') ?s3")
    case True
    then have "length (tl ?s3) < length s" using starts_length [OF True] s3 by simp
    with Suc.IH [of "tl ?s3" ?st] Suc.prems True run show ?thesis by fastforce
  next
    case False
    with run s3 show ?thesis by auto
  qed
qed simp

lemma json_object_reads:
  assumes "reads k pv" "length s \<le> k" "length s < n"
  shows "\<exists>v s' st'. json_object n pv s st = Some (v, s', st') \<and> length s' \<le> length s"
proof -
  let ?s = "json_skip_ws s" and ?st = "snd (value_data_empty st)"
  have s: "length ?s \<le> length s" by (rule json_skip_ws_length)
  then obtain s' st' where "json_members n pv (length (st_datas st)) ?s ?st = Some (s', st')" "length s' \<le> length ?s"
    using json_members_reads [OF assms(1), of ?s n] assms(2,3) by fastforce
  with s show ?thesis by (auto simp: json_object_def Let_def)
qed

lemma json_list_reads:
  assumes "reads k pv" "length s \<le> k" "length s < n"
  shows "\<exists>v s' st'. json_list n pv s st = Some (v, s', st') \<and> length s' \<le> length s"
proof -
  let ?s = "json_skip_ws s" and ?st = "snd (value_list_empty st)"
  have s: "length ?s \<le> length s" by (rule json_skip_ws_length)
  then obtain s' st' where "json_items n pv (length (st_lists st)) ?s ?st = Some (s', st')" "length s' \<le> length ?s"
    using json_items_reads [OF assms(1), of ?s n] assms(2,3) by fastforce
  with s show ?thesis by (auto simp: json_list_def Let_def)
qed

lemma json_parse_value_reads: "k < n \<Longrightarrow> reads k (json_parse_value n)"
proof (induction k arbitrary: n rule: less_induct)
  case (less k)
  then obtain m where n: "n = Suc m" "k \<le> m" by (cases n) auto
  show ?case
    unfolding reads_def
  proof (intro allI impI)
    fix s :: string and st assume s: "length s \<le> k"
    let ?s = "json_skip_ws s"
    have ws: "length ?s \<le> length s" by (rule json_skip_ws_length)
    have inner: "\<exists>v s' st'. json_object m (json_parse_value m) (tl ?s) st = Some (v, s', st') \<and> length s' \<le> length (tl ?s)"
      "\<exists>v s' st'. json_list m (json_parse_value m) (tl ?s) st = Some (v, s', st') \<and> length s' \<le> length (tl ?s)"
      if "starts c ?s" for c
    proof -
      have l: "length (tl ?s) < k" using starts_length [OF that] ws s by simp
      then have "reads (k - 1) (json_parse_value m)" using less.IH [of "k - 1" m] n by simp
      moreover have "length (tl ?s) \<le> k - 1" "length (tl ?s) < m" using l n by simp_all
      ultimately show
        "\<exists>v s' st'. json_object m (json_parse_value m) (tl ?s) st = Some (v, s', st') \<and> length s' \<le> length (tl ?s)"
        "\<exists>v s' st'. json_list m (json_parse_value m) (tl ?s) st = Some (v, s', st') \<and> length s' \<le> length (tl ?s)"
        by (blast intro: json_object_reads json_list_reads)+
    qed
    have tl: "length (tl ?s) \<le> length s" using ws by simp
    consider "starts DQUOTE ?s" | "starts (CHR ''{'') ?s" | "starts (CHR ''['') ?s"
      | "\<not> starts DQUOTE ?s" "\<not> starts (CHR ''{'') ?s" "\<not> starts (CHR ''['') ?s" by blast
    then show "\<exists>v s' st'. json_parse_value n s st = Some (v, s', st') \<and> length s' \<le> length s"
    proof cases
      case 1
      have "length (snd (json_parse_string_raw ?s)) \<le> length s"
        using json_string_length [of ?s] ws by simp
      with 1 n show ?thesis by (auto simp: Let_def case_prod_beta)
    next
      case 2
      then have "\<not> starts DQUOTE ?s" by (cases ?s) auto
      with inner(1) [OF 2] tl 2 n show ?thesis by fastforce
    next
      case 3
      then have "\<not> starts DQUOTE ?s \<and> \<not> starts (CHR ''{'') ?s" by (cases ?s) auto
      with inner(2) [OF 3] tl 3 n show ?thesis by fastforce
    next
      case 4
      have "length (snd (json_number ?s)) \<le> length s" using json_number_length [of ?s] ws by simp
      with 4 ws n show ?thesis by (auto simp: Let_def case_prod_beta)
    qed
  qed
qed

section \<open>Properties\<close>

text \<open>
  C24. \<^verbatim>\<open>json_parse\<close> returns on every text, malformed ones included.  What it builds is a
  well-formed value, and everything that was in the store is still there.
\<close>

theorem json_parse_total:
  assumes "wf_store st"
  shows "\<exists>v st'. json_parse s st = Some (v, st') \<and> wf_store st' \<and> val_ok st' v \<and> evolves st st'"
proof -
  have "reads (length s + 1) (json_parse_value (length s + 2))" by (rule json_parse_value_reads) simp
  then obtain v r st' where "json_parse_value (length s + 2) s st = Some (v, r, st')"
    unfolding reads_def using le_add1 [of "length s" 1] by blast
  then have run: "json_parse s st = Some (v, st')" unfolding json_parse_run by blast
  with json_parse_step [OF assms run] show ?thesis by (auto simp: step_ok_def)
qed

lemma json_parse_total_witness:
  "\<exists>v st'. json_parse ''{\"a\": [1, tru'' empty_store = Some (v, st') \<and> v = V_DATA 0 \<and> val_ok st' v"
proof -
  from json_parse_total [OF wf_empty_store, of "''{\"a\": [1, tru''"] obtain v st'
    where run: "json_parse ''{\"a\": [1, tru'' empty_store = Some (v, st')" "val_ok st' v" by blast
  moreover have "map_option fst (json_parse ''{\"a\": [1, tru'' empty_store) = Some (V_DATA 0)" by code_simp
  ultimately show ?thesis by simp
qed

end
