(* ===== verification/Interp_Safe.thy ===== *)
theory Interp_Safe
  imports Json_Steps
begin

text \<open>
  The interpreter keeps its state well formed: no procedure makes or leaves a dangling
  address, bindings that are fixed keep their values, and what was printed is never taken back.
  \<open>safe\<close> is the contract of a procedure from a state on; its rules follow the constructs that
  the procedures are written with, and the locale \<open>evaluation\<close> holds what a procedure may
  assume of the recursive calls and of the system.
\<close>

section \<open>The contract\<close>

text \<open>
  The world of an interpreter has a preorder, what the calls of the system can do to it: the theory of
  a part of the runtime instantiates it for its state, and learns that running a script, whatever it
  does, moves the state along.
\<close>

definition live :: "'w interp \<Rightarrow> root \<Rightarrow> bool" where
  "live it r \<longleftrightarrow> root_ok (it_store it) r"

definition good :: "'w interp \<Rightarrow> bool" where
  "good it \<longleftrightarrow> wf_store (it_store it) \<and> live it (REnv (it_globals it))"

definition extends :: "'w :: preorder interp \<Rightarrow> 'w interp \<Rightarrow> bool" where
  "extends it it' \<longleftrightarrow>
     evolves (it_store it) (it_store it') \<and> it_globals it' = it_globals it \<and>
     prefix (it_out it) (it_out it') \<and> suffix (it_ub it) (it_ub it') \<and> it_world it \<le> it_world it'"

definition kept :: "'w :: preorder interp \<Rightarrow> 'w interp \<Rightarrow> bool" where
  "kept it it' \<longleftrightarrow> good it' \<and> extends it it'"

definition safe :: "('a \<Rightarrow> 'w interp \<Rightarrow> bool) \<Rightarrow> 'w :: preorder interp \<Rightarrow> ('a \<times> 'w interp) option \<Rightarrow> bool" where
  "safe Q it r \<longleftrightarrow> (\<forall>x it'. r = Some (x, it') \<longrightarrow> kept it it' \<and> Q x it')"

fun sig_ok :: "ExecResult \<Rightarrow> 'w interp \<Rightarrow> bool" where
  "sig_ok SIG_NONE it \<longleftrightarrow> True"
| "sig_ok (SIG_RETURN v) it \<longleftrightarrow> live it (RVal v)"
| "sig_ok (SIG_THROW v) it \<longleftrightarrow> False"

abbreviation val_live :: "val \<Rightarrow> 'w interp \<Rightarrow> bool" where
  "val_live v it \<equiv> live it (RVal v)"

abbreviation opt_live :: "val option \<Rightarrow> 'w interp \<Rightarrow> bool" where
  "opt_live v it \<equiv> (\<forall>w. v = Some w \<longrightarrow> live it (RVal w))"

named_theorems safe_intros \<open>the rules of the contract\<close>
named_theorems kept_intros \<open>changes of the state that keep it well formed\<close>

lemma live_simps [simp]:
  "live it (RVal (V_NUM k))" "live it (RVal (V_DECIMAL d))" "live it (RVal (V_SCIFI d))"
  "live it (RVal (V_BOOL b))" "live it (RVal (V_STRING s))" "live it (RVal V_VOID)"
  "live it (RVal (V_LIST l)) = live it (RList l)" "live it (RVal (V_DATA a)) = live it (RData a)"
  "live it (RVal (V_CLASS c)) = live it (RClass c)"
  "live it (RVals [])" "live it (RVals (v # vs)) \<longleftrightarrow> live it (RVal v) \<and> live it (RVals vs)"
  by (simp_all add: live_def)

lemma kept_refl: "good it \<Longrightarrow> kept it it"
  by (simp add: kept_def extends_def)

lemma kept_trans: "kept it it1 \<Longrightarrow> kept it1 it2 \<Longrightarrow> kept it it2"
  unfolding kept_def extends_def
  by (auto intro: evolves_trans prefix_order.trans suffix_order.trans order_trans [of "it_world it"])

lemma kept_live: "kept it it' \<Longrightarrow> live it r \<Longrightarrow> live it' r"
  unfolding kept_def extends_def live_def by (auto intro: root_ok_larger evolves_larger)

lemma kept_good: "kept it it' \<Longrightarrow> good it'"
  by (simp add: kept_def)

section \<open>The rules\<close>

lemma safe_None [safe_intros]: "safe Q it None"
  by (simp add: safe_def)

lemma safe_Some [safe_intros]:
  "kept it it' \<Longrightarrow> (good it' \<Longrightarrow> (\<And>r. live it r \<Longrightarrow> live it' r) \<Longrightarrow> Q x it') \<Longrightarrow> safe Q it (Some (x, it'))"
  using kept_live kept_good by (simp add: safe_def) blast

lemma safe_bind:
  assumes "safe Q it r"
    "\<And>x it'. good it' \<Longrightarrow> (\<And>r. live it r \<Longrightarrow> live it' r) \<Longrightarrow> Q x it' \<Longrightarrow> safe R it' (f x it')"
  shows "safe R it (r \<bind> (\<lambda>(x, it'). f x it'))"
  unfolding safe_def
proof (intro allI impI)
  fix y it2 assume run: "r \<bind> (\<lambda>(x, it'). f x it') = Some (y, it2)"
  then obtain x it1 where r: "r = Some (x, it1)" "f x it1 = Some (y, it2)" by (cases r) auto
  with assms(1) have k: "kept it it1" "Q x it1" by (auto simp: safe_def)
  then have "safe R it1 (f x it1)" by (intro assms(2)) (auto intro: kept_good kept_live)
  with r(2) k(1) show "kept it it2 \<and> R y it2" by (auto simp: safe_def intro: kept_trans)
qed

text \<open>Results that are not a value with a state: texts and stores.\<close>

lemma safe_bind_pure: "(\<And>s. m = Some s \<Longrightarrow> safe Q it (f s)) \<Longrightarrow> safe Q it (m \<bind> f)"
  by (cases m) (simp_all add: safe_def)

lemmas safe_bind_text [safe_intros] = safe_bind_pure [where 'a = string]
lemmas safe_bind_store [safe_intros] = safe_bind_pure [where 'a = store]

lemma safe_step:
  "kept it it1 \<Longrightarrow> (good it1 \<Longrightarrow> (\<And>r. live it r \<Longrightarrow> live it1 r) \<Longrightarrow> safe Q it1 r) \<Longrightarrow> safe Q it r"
proof -
  assume k: "kept it it1" and "good it1 \<Longrightarrow> (\<And>r. live it r \<Longrightarrow> live it1 r) \<Longrightarrow> safe Q it1 r"
  then have "safe Q it1 r" using kept_good [OF k] kept_live [OF k] by blast
  with kept_trans [OF k] show ?thesis unfolding safe_def by blast
qed

lemma safe_Let:
  "kept it t \<Longrightarrow> (\<And>it1. it1 = t \<Longrightarrow> good it1 \<Longrightarrow> (\<And>r. live it r \<Longrightarrow> live it1 r) \<Longrightarrow> safe Q it1 (f it1)) \<Longrightarrow>
   safe Q it (Let t f)"
  unfolding Let_def by (rule safe_step) auto

lemma safe_if [safe_intros]:
  "(c \<Longrightarrow> safe Q it a) \<Longrightarrow> (\<not> c \<Longrightarrow> safe Q it b) \<Longrightarrow> safe Q it (if c then a else b)"
  by simp

lemma safe_case_option [safe_intros]:
  "(x = None \<Longrightarrow> safe Q it a) \<Longrightarrow> (\<And>y. x = Some y \<Longrightarrow> safe Q it (f y)) \<Longrightarrow>
   safe Q it (case x of None \<Rightarrow> a | Some y \<Rightarrow> f y)"
  by (cases x) auto

lemma safe_case_list [safe_intros]:
  "(x = [] \<Longrightarrow> safe Q it a) \<Longrightarrow> (\<And>y ys. x = y # ys \<Longrightarrow> safe Q it (f y ys)) \<Longrightarrow>
   safe Q it (case x of [] \<Rightarrow> a | y # ys \<Rightarrow> f y ys)"
  by (cases x) auto

lemma safe_case_prod [safe_intros]:
  "(\<And>a b. x = (a, b) \<Longrightarrow> safe Q it (f a b)) \<Longrightarrow> safe Q it (case x of (a, b) \<Rightarrow> f a b)"
  by (cases x) auto

lemma safe_case_bool [safe_intros]:
  "(b \<Longrightarrow> safe Q it x) \<Longrightarrow> (\<not> b \<Longrightarrow> safe Q it y) \<Longrightarrow> safe Q it (case b of True \<Rightarrow> x | False \<Rightarrow> y)"
  by (cases b) auto

lemma safe_case_sum [safe_intros]:
  "(\<And>a. x = Inl a \<Longrightarrow> safe Q it (f a)) \<Longrightarrow> (\<And>b. x = Inr b \<Longrightarrow> safe Q it (g b)) \<Longrightarrow>
   safe Q it (case x of Inl a \<Rightarrow> f a | Inr b \<Rightarrow> g b)"
  by (cases x) auto

lemma safe_case_sig [safe_intros]:
  "(r = SIG_NONE \<Longrightarrow> safe Q it a) \<Longrightarrow> (\<And>v. r = SIG_RETURN v \<Longrightarrow> safe Q it (f v)) \<Longrightarrow>
   (\<And>v. r = SIG_THROW v \<Longrightarrow> safe Q it (g v)) \<Longrightarrow>
   safe Q it (case r of SIG_NONE \<Rightarrow> a | SIG_RETURN v \<Rightarrow> f v | SIG_THROW v \<Rightarrow> g v)"
  by (cases r) auto

lemma safe_case_val [safe_intros]:
  assumes "\<And>x. v = V_NUM x \<Longrightarrow> safe Q it (f1 x)" "\<And>x. v = V_DECIMAL x \<Longrightarrow> safe Q it (f2 x)"
    "\<And>x. v = V_SCIFI x \<Longrightarrow> safe Q it (f3 x)" "\<And>x. v = V_BOOL x \<Longrightarrow> safe Q it (f4 x)"
    "\<And>x. v = V_STRING x \<Longrightarrow> safe Q it (f5 x)" "v = V_VOID \<Longrightarrow> safe Q it f6"
    "\<And>x. v = V_LIST x \<Longrightarrow> safe Q it (f7 x)" "\<And>x. v = V_DATA x \<Longrightarrow> safe Q it (f8 x)"
    "\<And>x. v = V_FUNC x \<Longrightarrow> safe Q it (f9 x)" "\<And>x. v = V_CLASS x \<Longrightarrow> safe Q it (f10 x)"
    "\<And>x. v = V_INSTANCE x \<Longrightarrow> safe Q it (f11 x)" "\<And>x. v = V_NATIVE x \<Longrightarrow> safe Q it (f12 x)"
  shows "safe Q it (case v of V_NUM x \<Rightarrow> f1 x | V_DECIMAL x \<Rightarrow> f2 x | V_SCIFI x \<Rightarrow> f3 x | V_BOOL x \<Rightarrow> f4 x
    | V_STRING x \<Rightarrow> f5 x | V_VOID \<Rightarrow> f6 | V_LIST x \<Rightarrow> f7 x | V_DATA x \<Rightarrow> f8 x | V_FUNC x \<Rightarrow> f9 x
    | V_CLASS x \<Rightarrow> f10 x | V_INSTANCE x \<Rightarrow> f11 x | V_NATIVE x \<Rightarrow> f12 x)"
  using assms by (cases v) auto

lemma safe_case_native [safe_intros]:
  assumes "\<And>x. v = NATIVE_TASK x \<Longrightarrow> safe Q it (f1 x)" "\<And>x. v = NATIVE_WORKER x \<Longrightarrow> safe Q it (f2 x)"
    "\<And>x. v = NATIVE_WORKER_POOL x \<Longrightarrow> safe Q it (f3 x)" "\<And>x. v = NATIVE_SOCKET_CONN x \<Longrightarrow> safe Q it (f4 x)"
    "\<And>x y. v = NATIVE_SUPER_REF x y \<Longrightarrow> safe Q it (f5 x y)"
  shows "safe Q it (case v of NATIVE_TASK x \<Rightarrow> f1 x | NATIVE_WORKER x \<Rightarrow> f2 x | NATIVE_WORKER_POOL x \<Rightarrow> f3 x
    | NATIVE_SOCKET_CONN x \<Rightarrow> f4 x | NATIVE_SUPER_REF x y \<Rightarrow> f5 x y)"
  using assms by (cases v) auto

lemma safe_conseq: "safe Q it r \<Longrightarrow> (\<And>x it'. good it' \<Longrightarrow> Q x it' \<Longrightarrow> R x it') \<Longrightarrow> safe R it r"
  unfolding safe_def using kept_good by blast

section \<open>Changes of the state\<close>

lemma step_kept: "good it \<Longrightarrow> step_ok (it_store it) st \<Longrightarrow> kept it (it\<lparr>it_store := st\<rparr>)"
proof -
  assume "good it" and s: "step_ok (it_store it) st"
  moreover have "root_ok st (REnv (it_globals it))"
    using step_ok_root [OF s] \<open>good it\<close> unfolding good_def live_def by blast
  ultimately show ?thesis by (simp add: kept_def good_def extends_def live_def step_ok_def)
qed

lemma kept_step: "kept it it' \<Longrightarrow> good it \<Longrightarrow> step_ok (it_store it) (it_store it')"
  by (simp add: kept_def good_def extends_def step_ok_def)

lemma on_store_kept: "good it \<Longrightarrow> step_ok (it_store it) (f (it_store it)) \<Longrightarrow> kept it (on_store f it)"
  unfolding on_store_def by (rule step_kept)

lemma flags_kept [kept_intros]:
  "good it \<Longrightarrow> kept it (it\<lparr>it_had_runtime_error := b\<rparr>)"
  "good it \<Longrightarrow> kept it (it\<lparr>it_error_message := m\<rparr>)"
  "good it \<Longrightarrow> kept it (it\<lparr>it_error_message := m, it_had_runtime_error := b\<rparr>)"
  "good it \<Longrightarrow> kept it (it\<lparr>it_had_runtime_error := b, it_error_message := m\<rparr>)"
  "good it \<Longrightarrow> kept it (it\<lparr>it_open_file := h\<rparr>)"
  "good it \<Longrightarrow> kept it (it\<lparr>it_open_dir_path := p\<rparr>)"
  "good it \<Longrightarrow> kept it (it\<lparr>it_in := s\<rparr>)"
  "good it \<Longrightarrow> kept it (rt_error line msg it)"
  "good it \<Longrightarrow> kept it (undefined_behaviour u it)"
  "good it \<Longrightarrow> kept it (print_out s it)"
  "good it \<Longrightarrow> kept it it"
  by (auto simp: kept_def good_def extends_def live_def rt_error_def undefined_behaviour_def print_out_def
      suffix_ConsI)

lemma store_kept [kept_intros]:
  "good it \<Longrightarrow> live it (RList l) \<Longrightarrow> live it (RVal v) \<Longrightarrow> kept it (on_store (value_list_append l v) it)"
  "good it \<Longrightarrow> live it (RList l) \<Longrightarrow> live it (RVal v) \<Longrightarrow> kept it (on_store (value_list_insert_front l v) it)"
  "good it \<Longrightarrow> live it (RList l) \<Longrightarrow> kept it (on_store (list_delete l i) it)"
  "good it \<Longrightarrow> live it (RList l) \<Longrightarrow> kept it (on_store (list_sort l) it)"
  "good it \<Longrightarrow> live it (RData d) \<Longrightarrow> live it (RVal v) \<Longrightarrow> kept it (on_store (value_data_set d key v) it)"
  "good it \<Longrightarrow> live it (REnv e) \<Longrightarrow> live it (RVal v) \<Longrightarrow> kept it (on_store (env_define e x v b) it)"
  "good it \<Longrightarrow> live it (REnv e) \<Longrightarrow> live it (RVals vs) \<Longrightarrow> kept it (on_store (bind_params e ps vs) it)"
  "good it \<Longrightarrow> live it (REnv e) \<Longrightarrow> live it (RClass c) \<Longrightarrow> live it (RVal this) \<Longrightarrow> kept it (on_store (bind_this e c this) it)"
  "good it \<Longrightarrow> live it (REnv e) \<Longrightarrow> kept it (on_store (hoist_classes ss e) it)"
  "good it \<Longrightarrow> live it (REnv e) \<Longrightarrow> kept it (on_store (hoist_funs ss e) it)"
  by (rule on_store_kept; auto simp: good_def live_def intro: value_list_append_step value_list_insert_front_step
      list_delete_step list_sort_step value_data_set_step env_define_step bind_params_step bind_this_step
      hoist_classes_step hoist_funs_step)+

lemma live_of_val:
  "good it \<Longrightarrow> a < length (st_envs (it_store it)) \<Longrightarrow> live it (REnv a)"
  by (simp add: live_def)

section \<open>New objects and conversions\<close>

lemma safe_alloc:
  assumes "good it" "step_ok (it_store it) (snd (g (it_store it)))"
    "\<And>x it1. it1 = it\<lparr>it_store := snd (g (it_store it))\<rparr> \<Longrightarrow> x = fst (g (it_store it)) \<Longrightarrow> good it1 \<Longrightarrow>
      (\<And>r. live it r \<Longrightarrow> live it1 r) \<Longrightarrow> safe Q it1 (f x it1)"
  shows "safe Q it (let (x, it1) = alloc g it in f x it1)"
proof -
  let ?it = "it\<lparr>it_store := snd (g (it_store it))\<rparr>"
  have k: "kept it ?it" by (rule step_kept [OF assms(1,2)])
  have "safe Q ?it (f (fst (g (it_store it))) ?it)"
    by (rule assms(3)) (auto intro: kept_good [OF k] kept_live [OF k])
  with k have "safe Q it (f (fst (g (it_store it))) ?it)" by (auto intro: safe_step)
  then show ?thesis by (simp add: alloc_def case_prod_beta Let_def)
qed

lemma safe_new_env [safe_intros]:
  assumes "good it" "live it (REnv p)"
    "\<And>e it1. good it1 \<Longrightarrow> (\<And>r. live it r \<Longrightarrow> live it1 r) \<Longrightarrow> live it1 (REnv e) \<Longrightarrow> safe Q it1 (f e it1)"
  shows "safe Q it (let (e, it1) = alloc (env_new (Some p)) it in f e it1)"
proof -
  have s: "step_ok (it_store it) (snd (env_new (Some p) (it_store it)))"
    "fst (env_new (Some p) (it_store it)) < length (st_envs (snd (env_new (Some p) (it_store it))))"
    using env_new_step [of "it_store it" "Some p"] assms(1,2) by (simp_all add: good_def live_def)
  show ?thesis
    by (rule safe_alloc [where g = "env_new (Some p)"])
      (use s assms(1,3) in \<open>simp_all add: live_def\<close>)
qed

lemma safe_new_value:
  assumes "good it" "step_ok (it_store it) (snd (g (it_store it)))"
    "val_ok (snd (g (it_store it))) (fst (g (it_store it)))"
    "\<And>v it1. good it1 \<Longrightarrow> (\<And>r. live it r \<Longrightarrow> live it1 r) \<Longrightarrow> live it1 (RVal v) \<Longrightarrow> safe Q it1 (f v it1)"
  shows "safe Q it (let (v, it1) = alloc g it in f v it1)"
  by (rule safe_alloc [where g = g]) (use assms in \<open>simp_all add: live_def\<close>)

lemma safe_new_list [safe_intros]:
  assumes "good it"
    "\<And>l it1. l = length (st_lists (it_store it)) \<Longrightarrow> good it1 \<Longrightarrow> (\<And>r. live it r \<Longrightarrow> live it1 r) \<Longrightarrow>
      live it1 (RList l) \<Longrightarrow> safe Q it1 (f (V_LIST l) it1)"
  shows "safe Q it (let (v, it1) = alloc value_list_empty it in f v it1)"
  by (rule safe_alloc [OF assms(1)])
    (use assms value_list_empty_step [of "it_store it"] in \<open>simp_all add: good_def value_list_empty_def live_def\<close>)

lemma safe_new_data [safe_intros]:
  assumes "good it"
    "\<And>d it1. d = length (st_datas (it_store it)) \<Longrightarrow> good it1 \<Longrightarrow> (\<And>r. live it r \<Longrightarrow> live it1 r) \<Longrightarrow>
      live it1 (RData d) \<Longrightarrow> safe Q it1 (f (V_DATA d) it1)"
  shows "safe Q it (let (v, it1) = alloc value_data_empty it in f v it1)"
  by (rule safe_alloc [OF assms(1)])
    (use assms value_data_empty_step [of "it_store it"] in \<open>simp_all add: good_def value_data_empty_def live_def\<close>)

lemma safe_new_instance [safe_intros]:
  assumes "good it" "live it (RClass c)" "live it (RData d)"
    "\<And>v it1. good it1 \<Longrightarrow> (\<And>r. live it r \<Longrightarrow> live it1 r) \<Longrightarrow> live it1 (RVal v) \<Longrightarrow> safe Q it1 (f v it1)"
  shows "safe Q it (let (v, it1) = alloc (new_instance c d) it in f v it1)"
  by (rule safe_new_value [OF assms(1) _ _ assms(4)])
    (use assms(1-3) new_instance_step [of "it_store it"] in \<open>simp_all add: good_def live_def\<close>)

lemma safe_new_native [safe_intros]:
  assumes "good it" "native_ok (it_store it) x"
    "\<And>v it1. good it1 \<Longrightarrow> (\<And>r. live it r \<Longrightarrow> live it1 r) \<Longrightarrow> live it1 (RVal v) \<Longrightarrow> safe Q it1 (f v it1)"
  shows "safe Q it (let (v, it1) = alloc (native_wrap x) it in f v it1)"
  by (rule safe_new_value [OF assms(1) _ _ assms(3)])
    (use assms(1,2) native_wrap_step [of "it_store it"] in \<open>simp_all add: good_def\<close>)

lemma safe_task_done [safe_intros]:
  assumes "good it" "live it (RVal x)"
    "\<And>v it1. good it1 \<Longrightarrow> (\<And>r. live it r \<Longrightarrow> live it1 r) \<Longrightarrow> live it1 (RVal v) \<Longrightarrow> safe Q it1 (f v it1)"
  shows "safe Q it (let (v, it1) = alloc (task_done (Some x)) it in f v it1)"
  unfolding task_done_def using assms by (intro safe_new_native) (simp_all add: live_def)

lemma safe_new_func [safe_intros]:
  assumes "good it" "live it (REnv (fv_closure fn))"
  shows "safe val_live it (Some (alloc (new_func fn) it))"
proof -
  let ?st = "snd (new_func fn (it_store it))" and ?v = "fst (new_func fn (it_store it))"
  have s: "step_ok (it_store it) ?st" "val_ok ?st ?v"
    using assms new_func_step [of "it_store it" fn] by (simp_all add: good_def live_def)
  have "kept it (it\<lparr>it_store := ?st\<rparr>)" by (rule step_kept [OF assms(1) s(1)])
  with s(2) show ?thesis by (simp add: alloc_def case_prod_beta safe_def live_def Let_def)
qed

lemma to_llong_kept: "good it \<Longrightarrow> kept it (snd (to_llong d it))"
  by (auto simp: to_llong_def split: option.split intro: kept_intros)

lemma to_cint_kept: "good it \<Longrightarrow> kept it (snd (to_cint d it))"
  by (auto simp: to_cint_def split: option.split intro: kept_intros)

lemma safe_convert [safe_intros]:
  assumes "good it"
    "\<And>k it1. good it1 \<Longrightarrow> (\<And>r. live it r \<Longrightarrow> live it1 r) \<Longrightarrow> safe Q it1 (f k it1)"
  shows "safe Q it (let (k, it1) = to_llong d it in f k it1)"
    "safe Q it (let (k, it1) = to_cint d it in f k it1)"
  unfolding Let_def case_prod_beta
  using safe_step [OF to_llong_kept [OF assms(1)]] safe_step [OF to_cint_kept [OF assms(1)]] assms(2)
  by blast+

lemma safe_let_state [safe_intros]:
  "kept it t \<Longrightarrow> (\<And>it1. good it1 \<Longrightarrow> (\<And>r. live it r \<Longrightarrow> live it1 r) \<Longrightarrow> safe Q it1 (f it1)) \<Longrightarrow>
   safe Q it (let it1 = t in f it1)"
  using safe_Let [of it t Q f] by blast

lemma void_error_safe [safe_intros]: "good it \<Longrightarrow> safe val_live it (void_error line msg it)"
  unfolding void_error_def by (intro safe_intros kept_intros) simp_all

lemma give_safe [safe_intros]: "kept it it' \<Longrightarrow> (good it' \<Longrightarrow> (\<And>r. live it r \<Longrightarrow> live it' r) \<Longrightarrow> live it' (RVal v)) \<Longrightarrow>
    safe opt_live it (give v it')"
  unfolding give_def by (intro safe_intros) simp_all

lemma unhandled_safe [safe_intros]: "good it \<Longrightarrow> safe opt_live it (unhandled it)"
  unfolding unhandled_def by (intro safe_intros kept_intros) simp_all

section \<open>What a procedure may assume\<close>

fun call_live :: "'w interp \<Rightarrow> sys_call \<Rightarrow> bool" where
  "call_live it (ADD_TIMER _ _ f) \<longleftrightarrow> live it (RVal f)"
| "call_live it (HTTP_CLIENT_POST _ b) \<longleftrightarrow> opt_live b it"
| "call_live it (HTTP_SERVER_ROUTE _ _ f) \<longleftrightarrow> live it (RVal f)"
| "call_live it (WS_SERVER_ROUTE _ f) \<longleftrightarrow> live it (RVal f)"
| "call_live it (WS_CONN_CALL a _ vs) \<longleftrightarrow> live it (RVal (V_NATIVE a)) \<and> live it (RVals vs)"
| "call_live it (WORKER_SPAWN_FUNC f) \<longleftrightarrow> opt_live f it"
| "call_live it (POOL_SUBMIT _ f) \<longleftrightarrow> live it (RVal f)"
| "call_live it _ \<longleftrightarrow> True"

definition sys_safe :: "'w :: preorder sys \<Rightarrow> bool" where
  "sys_safe sys \<longleftrightarrow> (\<forall>it c. good it \<longrightarrow> call_live it c \<longrightarrow>
     safe opt_live it (sys_value sys c it) \<and> safe (\<lambda>_ _. True) it (sys_handle sys c it) \<and>
     safe (\<lambda>_ _. True) it (sys_text sys c it) \<and> safe (\<lambda>_ _. True) it (sys_names sys c it))"

locale evaluation =
  fixes ev :: "'w :: preorder evaluator" and ex :: "'w executor" and sys :: "'w sys"
  assumes ev: "good it \<Longrightarrow> live it (REnv env) \<Longrightarrow> safe val_live it (ev e env it)"
    and ex: "good it \<Longrightarrow> live it (REnv env) \<Longrightarrow> safe sig_ok it (ex s env it)"
    and sys: "sys_safe sys"
begin

lemma sys_calls:
  assumes "good it" "call_live it c"
  shows "safe opt_live it (sys_value sys c it)" "safe (\<lambda>_ _. True) it (sys_handle sys c it)"
    "safe (\<lambda>_ _. True) it (sys_text sys c it)" "safe (\<lambda>_ _. True) it (sys_names sys c it)"
  using sys assms unfolding sys_safe_def by blast+

lemma ev_from: "kept it t \<Longrightarrow> live it (REnv env) \<Longrightarrow> safe val_live it (ev e env t)"
  by (rule safe_step, assumption, rule ev) (auto dest: kept_good kept_live)

lemma ex_from: "kept it t \<Longrightarrow> live it (REnv env) \<Longrightarrow> safe sig_ok it (ex s env t)"
  by (rule safe_step, assumption, rule ex) (auto dest: kept_good kept_live)

lemmas rules = safe_intros kept_intros ev_from ex_from safe_bind [OF ev_from] safe_bind [OF ex_from]
  safe_bind [OF sys_calls(1)] safe_bind [OF sys_calls(2)] safe_bind [OF sys_calls(3)]
  safe_bind [OF sys_calls(4)]

lemma eval_args_safe:
  "good it \<Longrightarrow> live it (REnv env) \<Longrightarrow> safe (\<lambda>vs it'. live it' (RVals vs)) it (eval_args ev as env it)"
proof (induction as arbitrary: it)
  case (Cons a as)
  show ?case
    unfolding eval_args.simps by (intro rules safe_bind [OF Cons.IH]) (use Cons.prems in auto)
qed (auto intro!: rules)

lemma arg_safe:
  "good it \<Longrightarrow> live it (REnv env) \<Longrightarrow> live it (RVal d) \<Longrightarrow>
   safe val_live it (case as of [] \<Rightarrow> Some (d, it) | a # _ \<Rightarrow> ev a env it)"
  by (intro rules) auto

text \<open>The procedures that are called on a state that was just changed start from \<open>t\<close>.\<close>

lemma bind_args_safe:
  "kept it t \<Longrightarrow> live it (REnv env) \<Longrightarrow> live it (REnv ce) \<Longrightarrow>
   safe (\<lambda>_ _. True) it (bind_args ev env ce ps as t)"
proof (induction ps arbitrary: as it t)
  case (Cons p ps)
  obtain x ty where p: "p = (x, ty)" by (cases p)
  show ?case
    unfolding p bind_args.simps
    by (rule safe_step [OF Cons.prems(1)], rule safe_bind [OF arg_safe])
      (use Cons.prems(2,3) in \<open>auto intro!: rules Cons.IH\<close>)
qed (auto intro!: rules dest: kept_good)

lemma fill_data_safe:
  "kept it t \<Longrightarrow> live it (REnv env) \<Longrightarrow> live it (RData d) \<Longrightarrow>
   safe (\<lambda>_ _. True) it (fill_data ev es d env t)"
proof (induction es arbitrary: it t)
  case (Cons e es)
  show ?case
    by (rule safe_step [OF Cons.prems(1)])
      (use Cons.prems(2,3) in \<open>cases e; auto intro!: rules Cons.IH\<close>)
qed (auto intro!: rules dest: kept_good)

lemma fill_list_safe:
  "kept it t \<Longrightarrow> live it (REnv env) \<Longrightarrow> live it (RList l) \<Longrightarrow>
   safe (\<lambda>_ _. True) it (fill_list ev es l env t)"
proof (induction es arbitrary: it t)
  case (Cons e es)
  show ?case
    by (rule safe_step [OF Cons.prems(1)]) (use Cons.prems(2,3) in \<open>auto intro!: rules Cons.IH\<close>)
qed (auto intro!: rules dest: kept_good)

lemma deg_loop_safe:
  "kept it t \<Longrightarrow> live it (REnv env) \<Longrightarrow> safe (\<lambda>_ _. True) it (deg_loop ev expect i as env t)"
proof (induction as arbitrary: i it t)
  case (Cons a as)
  show ?case
    by (rule safe_step [OF Cons.prems(1)]) (use Cons.prems(2) in \<open>auto intro!: rules Cons.IH\<close>)
qed (auto intro!: rules dest: kept_good)

lemma init_members_safe:
  "kept it t \<Longrightarrow> live it (REnv env) \<Longrightarrow> live it (RData d) \<Longrightarrow>
   safe (\<lambda>_ _. True) it (init_members ev ms env d t)"
proof (induction ms arbitrary: it t)
  case (Cons m ms)
  show ?case
  proof (cases "\<exists>a x ty ini f. m = S_VARDECL a x ty ini f")
    case True
    then obtain a x ty ini f where m: "m = S_VARDECL a x ty ini f" by blast
    show ?thesis unfolding m
      by (rule safe_step [OF Cons.prems(1)])
        (use Cons.prems(2,3) in \<open>cases ini; auto intro!: rules Cons.IH\<close>)
  next
    case False
    then have "init_members ev (m # ms) env d t = init_members ev ms env d t" by (cases m) auto
    with Cons show ?thesis by simp
  qed
qed (auto intro!: rules dest: kept_good)

lemma interp_parts_safe:
  "good it \<Longrightarrow> live it (REnv env) \<Longrightarrow> safe val_live it (interp_parts n ev ps env out it)"
proof (induction ps arbitrary: it out)
  case (Cons p ps)
  then show ?case by (cases p) (auto intro!: rules)
qed (auto intro!: rules)

lemma exec_seq_safe:
  "good it \<Longrightarrow> live it (REnv env) \<Longrightarrow> safe sig_ok it (exec_seq ex ss env it)"
  by (induction ss arbitrary: it) (auto intro!: rules)

lemma exec_block_safe:
  assumes "good it" "live it (REnv p)"
  shows "safe sig_ok it (exec_block ex ss p it)"
  unfolding exec_block_def using assms by (intro rules exec_seq_safe) auto

lemma exec_elifs_safe:
  "good it \<Longrightarrow> live it (REnv env) \<Longrightarrow> safe sig_ok it (exec_elifs ev ex es els env it)"
proof (induction es arbitrary: it)
  case Nil
  then show ?case by (cases els) (auto intro!: rules)
next
  case (Cons e es)
  then show ?case by (cases e) (auto intro!: rules)
qed

lemma while_loop_safe:
  "good it \<Longrightarrow> live it (REnv env) \<Longrightarrow> safe sig_ok it (while_loop k ev ex c body env it)"
  by (induction k arbitrary: it) (auto intro!: rules)

lemma do_loop_safe:
  "good it \<Longrightarrow> live it (REnv env) \<Longrightarrow> safe sig_ok it (do_loop k ev ex c body env it)"
  by (induction k arbitrary: it) (auto intro!: rules)

lemma node_live: "good it \<Longrightarrow> node_at (it_store it) a = Some (v, nx) \<Longrightarrow> live it (RVal v)"
  using wf_node(1) by (simp add: good_def live_def)

lemma skip_safe:
  "good it \<Longrightarrow> live it (REnv env) \<Longrightarrow> safe (\<lambda>_ _. True) it
     (case c of None \<Rightarrow> Some (True, it)
      | Some c \<Rightarrow> do { (v, it) \<leftarrow> ev c env it; Some (value_truthy (it_store it) v, it) })"
  by (intro rules) auto

lemma turn_safe:
  "good it \<Longrightarrow> live it (REnv env) \<Longrightarrow>
   safe sig_ok it (if b then ex s env it else Some (SIG_NONE, it))"
  by (intro rules) auto

lemma each_node_safe:
  "good it \<Longrightarrow> live it (REnv env) \<Longrightarrow> safe sig_ok it (each_node k ev ex x c body env a it)"
proof (induction k arbitrary: a it)
  case (Suc k)
  show ?case
  proof (cases "Option.bind a (node_at (it_store it))")
    case None
    then have "each_node (Suc k) ev ex x c body env a it =
        (if a = None then Some (SIG_NONE, it) else Some (SIG_NONE, undefined_behaviour UB_freed_node it))"
      by (cases a) auto
    with Suc.prems show ?thesis by (auto intro!: rules)
  next
    case (Some n)
    then obtain p v nx where p: "a = Some p" "node_at (it_store it) p = Some (v, nx)"
      by (cases a; cases n) auto
    note v = node_live [OF Suc.prems(1) p(2)]
    have "safe sig_ok it (do {
          let (loop_env, it) = alloc (env_new (Some env)) it;
          let it = on_store (env_define loop_env x v False) it;
          (run, it) \<leftarrow> (case c of None \<Rightarrow> Some (True, it)
            | Some c \<Rightarrow> do { (v, it) \<leftarrow> ev c loop_env it; Some (value_truthy (it_store it) v, it) });
          (r, it) \<leftarrow> (if run then ex body loop_env it else Some (SIG_NONE, it));
          if r \<noteq> SIG_NONE then Some (r, it)
          else if run \<and> it_had_runtime_error it then Some (SIG_NONE, it)
          else (case Option.bind (Some p) (node_at (it_store it)) of
                  None \<Rightarrow> Some (SIG_NONE, undefined_behaviour UB_freed_node it)
                | Some (_, next) \<Rightarrow> each_node k ev ex x c body env next it) })"
      by (intro rules Suc.IH safe_bind [OF skip_safe] safe_bind [OF turn_safe]) (use Suc.prems v in auto)
    with p show ?thesis by simp
  qed
qed (simp add: safe_None)

lemma each_value_safe:
  "good it \<Longrightarrow> live it (REnv env) \<Longrightarrow> live it (RVals vs) \<Longrightarrow>
   safe sig_ok it (each_value ex x body env vs it)"
proof (induction vs arbitrary: it)
  case (Cons v vs)
  show ?case unfolding each_value.simps by (intro rules Cons.IH) (use Cons.prems in auto)
qed (auto intro!: rules)

lemma exec_for_safe:
  "good it \<Longrightarrow> live it (REnv env) \<Longrightarrow> safe sig_ok it (exec_for n ev ex x i c body line env it)"
  unfolding exec_for_def by (intro rules each_node_safe) auto

lemma data_values_live: "good it \<Longrightarrow> live it (RVals (rev (map snd (data_at (it_store it) d))))"
  using wf_data [of "it_store it"] by (auto simp: good_def live_def list_all_iff)

lemma exec_iterate_safe:
  "good it \<Longrightarrow> live it (REnv env) \<Longrightarrow> safe sig_ok it (exec_iterate n ev ex c x body line env it)"
  unfolding exec_iterate_def by (intro rules each_node_safe each_value_safe data_values_live) auto

lemma exec_try_safe:
  assumes "good it" "live it (REnv env)"
  shows "safe sig_ok it (exec_try ex t x c env it)"
  unfolding exec_try_def Let_def [where 'a = bool] Let_def [where 'a = "string option"] Let_def [where 'a = string]
  by (intro rules) (use assms in auto)

lemma func_live:
  "good it \<Longrightarrow> live it (RVal (V_FUNC f)) \<Longrightarrow> live it (REnv (fv_closure (func_at (it_store it) f)))"
  using wf_func by (simp add: good_def live_def)

lemma class_live:
  "good it \<Longrightarrow> live it (RClass c) \<Longrightarrow> live it (REnv (ci_closure (class_at (it_store it) c)))"
  "good it \<Longrightarrow> live it (RClass c) \<Longrightarrow> ci_parent (class_at (it_store it) c) = Some p \<Longrightarrow> live it (RClass p)"
  using wf_class by (simp_all add: good_def live_def)

lemma instance_live:
  "good it \<Longrightarrow> live it (RVal (V_INSTANCE i)) \<Longrightarrow> live it (RClass (in_class (instance_at (it_store it) i)))"
  "good it \<Longrightarrow> live it (RVal (V_INSTANCE i)) \<Longrightarrow> live it (RData (in_fields (instance_at (it_store it) i)))"
  using wf_instance by (simp_all add: good_def live_def)

lemma returned_live: "sig_ok r it \<Longrightarrow> live it (RVal (returned r))"
  by (cases r) auto

lemma vals_live_hd: "live it (RVals vs) \<Longrightarrow> vs = v # ws \<Longrightarrow> live it (RVal v)"
  by simp

lemma call_value_safe:
  assumes "good it" "live it (RVal f)" "live it (REnv env)"
  shows "safe val_live it (call_value n ev ex f as env line it)"
  unfolding call_value_def Let_def [where 'a = FuncValue]
  by (intro rules safe_bind [OF bind_args_safe] safe_bind [OF exec_block_safe])
    (use assms in \<open>auto simp: func_live\<close>)

lemma invoke_in_safe:
  assumes "good it" "live it (REnv p)" "live it (RVals vs)"
  shows "safe val_live it (invoke_in ex p fn vs it)"
  unfolding invoke_in_def
  by (intro rules safe_bind [OF exec_block_safe]) (use assms returned_live in auto)

lemma interp_invoke_closure_safe:
  assumes "good it" "live it (RVal f)" "live it (RVals vs)"
  shows "safe val_live it (interp_invoke_closure ex f vs it)"
  unfolding interp_invoke_closure_def Let_def [where 'a = FuncValue]
  by (intro rules invoke_in_safe) (use assms in \<open>auto simp: func_live\<close>)

lemma interp_invoke_safe:
  assumes "good it" "live it (RVals vs)"
  shows "safe val_live it (interp_invoke ex f vs it)"
  unfolding interp_invoke_def
  by (intro rules invoke_in_safe) (use assms in \<open>auto simp: good_def\<close>)

lemma find_method_live:
  "good it \<Longrightarrow> live it (RClass c) \<Longrightarrow> find_method n (it_store it) c name = Some (Some (c', m)) \<Longrightarrow>
   live it (RClass c')"
proof (induction n arbitrary: c)
  case (Suc n)
  then show ?case using class_live(2) [OF Suc.prems(1,2)] by (auto split: option.splits)
qed simp

lemma find_method_safe:
  assumes "good it" "live it (RClass c)"
    "\<And>m. (\<And>c' s. m = Some (c', s) \<Longrightarrow> live it (RClass c')) \<Longrightarrow> safe Q it (f m)"
  shows "safe Q it (find_method n (it_store it) c name \<bind> f)"
proof (rule safe_bind_pure)
  fix m assume "find_method n (it_store it) c name = Some m"
  then show "safe Q it (f m)" by (intro assms(3)) (simp add: find_method_live [OF assms(1,2)])
qed

lemma find_parent_safe:
  assumes "good it" "\<And>p. parent = Some p \<Longrightarrow> live it (RClass p)"
    "\<And>m. (\<And>c' s. m = Some (c', s) \<Longrightarrow> live it (RClass c')) \<Longrightarrow> safe Q it (f m)"
  shows "safe Q it ((case parent of None \<Rightarrow> Some None | Some p \<Rightarrow> find_method n (it_store it) p name) \<bind> f)"
proof (cases parent)
  case None
  then show ?thesis using assms(3) [of None] by simp
next
  case (Some p)
  with find_method_safe [OF assms(1) assms(2) assms(3)] show ?thesis by simp
qed

lemma invoke_method_safe:
  assumes "good it" "live it (RClass c)" "live it (RVal this)" "live it (RVals vs)"
  shows "safe val_live it (invoke_method ex c m this vs it)"
  unfolding invoke_method_def
  by (intro rules safe_bind [OF exec_block_safe]) (use assms returned_live class_live(1) in auto)

lemma init_fields_safe:
  "good it \<Longrightarrow> live it (RClass c) \<Longrightarrow> live it (RData d) \<Longrightarrow> safe (\<lambda>_ _. True) it (init_fields n ev c d it)"
proof (induction n arbitrary: c it)
  case (Suc n)
  have "safe (\<lambda>_ _. True) it (case ci_parent (class_at (it_store it) c) of
      None \<Rightarrow> Some ((), it) | Some p \<Rightarrow> init_fields n ev p d it)"
    using Suc class_live(2) [OF Suc.prems(1,2)] by (intro rules Suc.IH) auto
  then show ?case
    unfolding init_fields.simps Let_def [where 'a = ClassInfo]
    by (intro rules safe_bind [of "\<lambda>_ _. True"] init_members_safe) (use Suc.prems class_live(1) in auto)
qed (simp add: safe_None)

lemma construct_instance_safe:
  assumes "good it" "live it (RClass c)" "live it (REnv env)"
  shows "safe val_live it (construct_instance n ev ex c as env it)"
  unfolding construct_instance_def Let_def [where 'a = addr]
  by (intro rules safe_bind [OF init_fields_safe] safe_bind [OF eval_args_safe] safe_bind [OF invoke_method_safe]
      find_method_safe)
    (use assms in auto)

lemma list_concat_kept:
  "good it \<Longrightarrow> live it (RList l) \<Longrightarrow> list_concat n l c (it_store it) = Some st \<Longrightarrow> kept it (it\<lparr>it_store := st\<rparr>)"
  using list_concat_step [of "it_store it" l n c st] by (intro step_kept) (simp_all add: good_def live_def)

lemma call_list_method_safe:
  assumes "good it" "live it (RList l)" "live it (REnv env)"
  shows "safe val_live it (call_list_method n ev l name as env line it)"
  unfolding call_list_method_def
  by (intro rules list_concat_kept) (use assms in auto)

text \<open>Operators.\<close>

lemma safe_pair: "kept it (snd p) \<Longrightarrow> Q (fst p) (snd p) \<Longrightarrow> safe Q it (Some p)"
  by (cases p) (simp add: safe_def)

lemma safe_Some_if:
  "(c \<Longrightarrow> safe Q it (Some a)) \<Longrightarrow> (\<not> c \<Longrightarrow> safe Q it (Some b)) \<Longrightarrow> safe Q it (Some (if c then a else b))"
  by simp

lemma num_ops_safe:
  assumes "good it"
  shows "safe val_live it (Some (checked k it))" "safe val_live it (Some (shift_left a b it))"
    "safe val_live it (Some (shift_right a b it))" "safe val_live it (Some (remainder a b it))"
    "safe val_live it (Some (truncated d it))"
  using assms to_llong_kept [OF assms, of d]
  by (auto simp: checked_def shift_left_def shift_right_def remainder_def truncated_def case_prod_beta Let_def
      intro!: safe_pair kept_intros)

lemma on_llongs_safe:
  assumes "good it" "\<And>a b it. good it \<Longrightarrow> safe val_live it (Some (f a b it))"
  shows "safe val_live it (Some (on_llongs f ld rd it))"
proof -
  let ?p = "to_llong ld it" let ?q = "to_llong rd (snd ?p)"
  have p: "kept it (snd ?p)" by (rule to_llong_kept [OF assms(1)])
  have q: "kept (snd ?p) (snd ?q)" by (rule to_llong_kept [OF kept_good [OF p]])
  have "safe val_live (snd ?q) (Some (f (sint (fst ?p)) (sint (fst ?q)) (snd ?q)))"
    by (rule assms(2) [OF kept_good [OF q]])
  then have "safe val_live it (Some (f (sint (fst ?p)) (sint (fst ?q)) (snd ?q)))"
    by (intro safe_step [OF kept_trans [OF p q]])
  then show ?thesis by (simp add: on_llongs_def case_prod_beta Let_def)
qed

lemma eval_arith_safe:
  assumes "good it"
  shows "safe val_live it (eval_arith sys opr l r line it)"
  unfolding eval_arith_def Let_def [where 'a = dbl] Let_def [where 'a = bool]
  by (intro rules safe_Some_if on_llongs_safe num_ops_safe) (use assms in auto)

lemma eval_binary_safe:
  assumes "good it"
  shows "safe val_live it (eval_binary n sys opr l r line it)"
  unfolding eval_binary_def by (intro rules eval_arith_safe) (use assms in auto)

lemma eval_unary_safe:
  assumes "good it"
  shows "safe val_live it (Some (eval_unary opr v it))"
  using assms num_ops_safe(1) unfolding eval_unary_def
  by (auto simp: safe_def kept_refl split: val.split)

text \<open>Members, elements and assignment.\<close>

lemma data_get_live: "good it \<Longrightarrow> value_data_get (it_store it) d key = Some v \<Longrightarrow> live it (RVal v)"
  using wf_data_get by (simp add: good_def live_def)

lemma env_get_live:
  "good it \<Longrightarrow> live it (REnv env) \<Longrightarrow> env_get (it_store it) env x = Some v \<Longrightarrow> live it (RVal v)"
  using wf_env_get by (simp add: good_def live_def)

lemma data_or_void_live:
  "good it \<Longrightarrow> live it (RVal (case value_data_get (it_store it) d key of Some v \<Rightarrow> v | None \<Rightarrow> V_VOID))"
  by (auto intro: data_get_live split: option.split)

lemma eval_member_safe:
  assumes "good it"
  shows "safe val_live it (eval_member obj x line it)"
  unfolding eval_member_def Let_def [where 'a = Instance]
  by (intro rules) (use assms in \<open>auto intro: data_get_live data_or_void_live\<close>)

lemma item_live: "good it \<Longrightarrow> nth_int (list_items (it_store it) l) i = Some v \<Longrightarrow> live it (RVal v)"
  using wf_items [of "it_store it" l] by (auto simp: good_def live_def list_all_length nth_int_def split: if_splits)

lemma eval_index_safe:
  assumes "good it"
  shows "safe val_live it (eval_index obj idx line it)"
  unfolding eval_index_def
  by (intro rules) (use assms in \<open>auto intro: data_or_void_live item_live\<close>)

lemma set_item_kept:
  assumes "good it" "live it (RList l)" "live it (RVal v)"
    "set_item (length (st_nodes (it_store it))) (it_store it) (head_at (it_store it) l) 0 i v = Some st"
  shows "kept it (it\<lparr>it_store := st\<rparr>)"
  using assms set_item_step by (intro step_kept) (auto simp: good_def live_def)

lemma set_element_safe:
  assumes "good it" "live it (RVal obj)" "live it (RVal v)"
  shows "safe (\<lambda>_ _. True) it (set_element obj idx v line it)"
  unfolding set_element_def Let_def [where 'a = store]
  by (intro rules set_item_kept) (use assms in auto)

lemma set_member_safe:
  assumes "good it" "live it (RVal obj)" "live it (RVal v)"
  shows "safe (\<lambda>_ _. True) it (set_member obj x v line it)"
  unfolding set_member_def by (intro rules) (use assms in \<open>auto simp: instance_live(2)\<close>)

lemma set_variable_kept:
  assumes "good it" "live it (REnv env)" "live it (RVal v)"
  shows "kept it (set_variable x v env line it)"
proof -
  have s: "step_ok (it_store it) (snd (env_set env x v (it_store it)))"
    using assms env_set_step by (simp add: good_def live_def)
  then have "kept it (it\<lparr>it_store := snd (env_set env x v (it_store it))\<rparr>)" by (rule step_kept [OF assms(1)])
  moreover have "kept it (on_store (env_define env x v False) it)"
    using assms by (intro kept_intros) auto
  ultimately show ?thesis
    using assms(1) by (auto simp: set_variable_def case_prod_beta Let_def intro: kept_intros)
qed

lemma set_lvalue_safe:
  assumes "good it" "live it (REnv env)" "live it (RVal v)"
  shows "safe (\<lambda>_ _. True) it (set_lvalue ev target v env line it)"
proof (cases target)
  case (E_INDEX a obj idx)
  show ?thesis unfolding set_lvalue_def E_INDEX expr.case
    by (intro rules set_element_safe) (use assms in auto)
next
  case (E_MEMBER a obj x)
  show ?thesis unfolding set_lvalue_def E_MEMBER expr.case
    by (intro rules set_member_safe) (use assms in auto)
next
  case (E_IDENT a x)
  show ?thesis unfolding set_lvalue_def E_IDENT expr.case
    by (intro rules set_variable_kept) (use assms in auto)
qed (use assms in \<open>auto simp: set_lvalue_def intro!: rules\<close>)

lemma new_value_safe:
  assumes "good it" "live it (REnv env)"
  shows "safe val_live it (if opr = TOK_ASSIGN then ev rhs env it
    else do { (cur, it) \<leftarrow> ev target env it; (r, it) \<leftarrow> ev rhs env it;
              eval_binary n sys (assign_binop opr) cur r line it })"
  by (intro rules eval_binary_safe) (use assms in auto)

lemma eval_assign_safe:
  assumes "good it" "live it (REnv env)"
  shows "safe val_live it (eval_assign n sys ev target rhs opr env line it)"
  unfolding eval_assign_def
  by (intro rules safe_bind [OF new_value_safe] safe_bind [OF set_lvalue_safe]) (use assms in auto)

text \<open>Calls of methods.\<close>

lemma set_header_kept: "good it \<Longrightarrow> kept it (set_header d key s it)"
  using data_get_live [of it d "''__headers''"]
  by (auto simp: set_header_def split: option.split val.split intro!: kept_intros)

lemma set_header_from: "kept it t \<Longrightarrow> kept it (set_header d key s t)"
  by (blast intro: kept_trans set_header_kept kept_good)

lemma safe_let_pair:
  assumes "safe Q it (Some p)"
    "\<And>x it'. good it' \<Longrightarrow> (\<And>r. live it r \<Longrightarrow> live it' r) \<Longrightarrow> Q x it' \<Longrightarrow> safe R it' (f x it')"
  shows "safe R it (let (x, it') = p in f x it')"
  using safe_bind [OF assms] by (cases p) simp

lemma response_data:
  assumes "good it" "live it (RVals vs)"
  shows "safe val_live it (Some (case vs of [] \<Rightarrow> alloc value_data_empty it | v # _ \<Rightarrow> (v, it)))"
proof (cases vs)
  case Nil
  then show ?thesis using safe_new_data [OF assms(1), of val_live "\<lambda>v it1. Some (v, it1)"] kept_refl
    by (auto simp: safe_def)
qed (use assms in \<open>auto simp: safe_def kept_refl\<close>)

lemma response_code:
  assumes "good it"
  shows "safe (\<lambda>_ _. True) it (Some (case vs of [] \<Rightarrow> (200, it) | v # _ \<Rightarrow> to_llong (value_as_number v) it))"
proof (cases vs)
  case (Cons v ws)
  with safe_pair [OF to_llong_kept [OF assms], of "\<lambda>_ _. True"] show ?thesis by simp
qed (use assms in \<open>simp add: safe_def kept_refl\<close>)

lemma response_text:
  "(\<And>s. safe Q it (f s)) \<Longrightarrow>
   safe Q it ((case vs of [] \<Rightarrow> Some [] | v # _ \<Rightarrow> display n v it) \<bind> f)"
  by (rule safe_bind_text)

lemma http_response_safe:
  assumes "good it" "live it (RData d)" "live it (RVals vs)"
  shows "safe opt_live it (http_response_call_method n d name vs it)"
  unfolding http_response_call_method_def
  by (intro response_text safe_let_pair [OF response_data] safe_let_pair [OF response_code] rules set_header_from)
    (use assms in auto)

lemma or_void_live: "opt_live r it \<Longrightarrow> live it (RVal (or_void r))"
  by (simp add: or_void_def split: option.split)

lemmas calls = safe_bind [OF interp_invoke_closure_safe] safe_bind [OF eval_args_safe]

lemma call_task_safe:
  assumes "good it" "live it (RVal obj)" "native_ok (it_store it) (NATIVE_TASK task)" "live it (RVals vs)"
  shows "safe val_live it (call_task ex obj task name vs line it)"
proof -
  have "opt_live r it" if "task = Inr r" for r
    using assms(3) that by (simp add: live_def)
  then show ?thesis
    unfolding call_task_def by (intro rules calls) (use assms in \<open>auto simp: or_void_live\<close>)
qed

lemma call_worker_safe:
  assumes "good it" "live it (RVals vs)"
  shows "safe val_live it (call_worker sys ex h name vs line it)"
  unfolding call_worker_def by (intro rules calls) (use assms in \<open>auto simp: or_void_live\<close>)

lemma call_pool_safe:
  assumes "good it" "live it (RVals vs)"
  shows "safe val_live it (call_pool sys ex h name vs line it)"
  unfolding call_pool_def by (intro rules calls) (use assms in \<open>auto simp: or_void_live\<close>)

lemma call_super_method_safe:
  assumes "good it" "\<And>p. parent = Some p \<Longrightarrow> live it (RClass p)" "live it (RVal this)" "live it (RVals vs)"
  shows "safe val_live it (call_super_method n ex parent this name vs line it)"
  unfolding call_super_method_def
  by (intro find_parent_safe rules invoke_method_safe) (use assms in auto)

lemma native_live:
  "good it \<Longrightarrow> live it (RVal (V_NATIVE a)) \<Longrightarrow> native_ok (it_store it) (native_at (it_store it) a)"
  using wf_native by (simp add: good_def live_def)

lemma super_live:
  assumes "good it" "live it (RVal (V_NATIVE a))" "native_at (it_store it) a = NATIVE_SUPER_REF parent this"
  shows "parent = Some p \<Longrightarrow> live it (RClass p)" "live it (RVal this)"
  using native_live [OF assms(1,2)] assms(3) by (simp_all add: live_def)

lemma call_native_safe:
  assumes "good it" "live it (RVal (V_NATIVE a))" "live it (RVals vs)"
  shows "safe val_live it (call_native n sys ex a name vs line it)"
  unfolding call_native_def
  by (intro rules call_task_safe call_worker_safe call_pool_safe call_super_method_safe)
    (use assms native_live [OF assms(1,2)] super_live [OF assms(1,2)] in auto)

lemma call_instance_safe:
  assumes "good it" "live it (RVal (V_INSTANCE i))" "live it (REnv env)"
  shows "safe val_live it (call_instance n ev ex i name as env line it)"
  unfolding call_instance_def Let_def [where 'a = addr]
  by (intro find_method_safe rules calls invoke_method_safe)
    (use assms instance_live(1) [OF assms(1,2)] in auto)

lemma call_on_value_safe:
  assumes "good it" "live it (RVal obj)" "live it (REnv env)"
  shows "safe val_live it (call_on_value n sys ev ex obj name as env line it)"
  unfolding call_on_value_def
  by (intro rules calls call_list_method_safe call_instance_safe call_native_safe safe_bind [OF http_response_safe])
    (use assms in auto)

lemma call_super_safe:
  assumes "good it" "\<And>p. parent = Some p \<Longrightarrow> live it (RClass p)" "live it (RVal this)" "live it (REnv env)"
  shows "safe val_live it (call_super n ev ex parent this as env it)"
  unfolding call_super_def
  by (intro find_parent_safe rules calls invoke_method_safe) (use assms in auto)

text \<open>Built-in namespaces.\<close>

lemma arg_or_safe:
  "good it \<Longrightarrow> live it (REnv env) \<Longrightarrow> live it (RVal d) \<Longrightarrow> safe val_live it (arg_or ev d as env it)"
  unfolding arg_or_def by (rule arg_safe)

lemma opt_arg_safe:
  "good it \<Longrightarrow> live it (REnv env) \<Longrightarrow>
   safe opt_live it (case as of [] \<Rightarrow> Some (None, it) | a # _ \<Rightarrow> do { (v, it) \<leftarrow> ev a env it; Some (Some v, it) })"
  by (intro rules) auto

lemmas arg_rules = rules calls safe_bind [OF arg_or_safe] safe_bind [OF opt_arg_safe]

lemma file_close_safe: "good it \<Longrightarrow> safe (\<lambda>_ _. True) it (file_close sys it)"
  unfolding file_close_def by (intro rules) auto

lemma read_line_safe: "good it \<Longrightarrow> safe val_live it (Some (read_line it))"
  by (simp add: read_line_def case_prod_beta Let_def safe_def flags_kept)

lemma live_timer_safe:
  assumes "good it" "live it (REnv env)"
  shows "safe opt_live it (live_timer sys ev meth as env line it)"
  unfolding live_timer_def by (intro arg_rules) (use assms in auto)

lemma prompt_safe:
  assumes "good it" "live it (REnv env)"
    "\<And>it'. good it' \<Longrightarrow> (\<And>r. live it r \<Longrightarrow> live it' r) \<Longrightarrow> safe Q it' (f it')"
  shows "safe Q it ((case as of [] \<Rightarrow> Some it
    | a # _ \<Rightarrow> do { (p, it) \<leftarrow> ev a env it; s \<leftarrow> display n p it; Some (print_out s it) }) \<bind> f)"
proof (cases as)
  case Nil
  then show ?thesis using assms by simp
next
  case (Cons a as')
  have "safe Q it (do { (p, it) \<leftarrow> ev a env it; s \<leftarrow> display n p it; let it' = print_out s it in f it' })"
    by (intro rules assms(3)) (use assms(1,2) in auto)
  then show ?thesis using Cons by (cases "ev a env it") auto
qed

lemma builtin_live_safe:
  assumes "good it" "live it (REnv env)"
  shows "safe opt_live it (builtin_live n sys ev meth as env line it)"
  unfolding builtin_live_def
  by (intro prompt_safe arg_rules live_timer_safe safe_let_pair [OF read_line_safe] safe_bind [OF deg_loop_safe])
    (use assms in auto)

lemma json_parse_safe:
  assumes "good it"
    "\<And>w st. kept it (it\<lparr>it_store := st\<rparr>) \<Longrightarrow> live (it\<lparr>it_store := st\<rparr>) (RVal w) \<Longrightarrow>
      safe Q it (f w st)"
  shows "safe Q it (json_parse s (it_store it) \<bind> (\<lambda>(w, st). f w st))"
proof (cases "json_parse s (it_store it)")
  case (Some r)
  obtain w st where r: "r = (w, st)" by (cases r)
  have s: "step_ok (it_store it) st \<and> val_ok st w"
    using json_parse_step [of "it_store it" s w st] assms(1) Some r by (simp add: good_def)
  with Some r show ?thesis using assms(2) [of st w] step_kept [OF assms(1), of st] by (simp add: live_def)
qed (simp add: safe_None)

lemma builtin_json_safe:
  assumes "good it" "live it (REnv env)"
  shows "safe opt_live it (builtin_json n ev meth as env line it)"
  unfolding builtin_json_def by (intro json_parse_safe arg_rules) (use assms in auto)

lemma builtin_env_safe:
  assumes "good it" "live it (REnv env)"
  shows "safe opt_live it (builtin_env sys ev meth as env it)"
  unfolding builtin_env_def by (intro arg_rules) (use assms in auto)

lemma builtin_file_safe:
  assumes "good it" "live it (REnv env)"
  shows "safe opt_live it (builtin_file sys ev meth as env line it)"
  unfolding builtin_file_def
  by (intro arg_rules safe_bind [OF file_close_safe]) (use assms in \<open>auto intro!: kept_intros\<close>)

lemma append_all_step:
  "wf_store st \<Longrightarrow> l < length (st_lists st) \<Longrightarrow>
   step_ok st (foldl (\<lambda>st s. value_list_append l (V_STRING s) st) st ss)"
  by (rule step_ok_foldl [of st "\<lambda>st. l < length (st_lists st)", THEN conjunct1])
    (auto intro: value_list_append_step step_list_lt [OF value_list_append_step])

lemma append_all_kept:
  "good it \<Longrightarrow> live it (RList l) \<Longrightarrow>
   kept it (on_store (\<lambda>st. foldl (\<lambda>st s. value_list_append l (V_STRING s) st) st ss) it)"
  by (rule on_store_kept) (auto simp: good_def live_def intro: append_all_step)

lemma names_safe:
  "good it \<Longrightarrow> safe (\<lambda>_ _. True) it (case p of None \<Rightarrow> Some ([], it) | Some path \<Rightarrow> sys_names sys (READDIR path) it)"
  by (intro rules sys_calls) auto

lemma builtin_dir_safe:
  assumes "good it" "live it (REnv env)"
  shows "safe opt_live it (builtin_dir sys ev meth as env it)"
  unfolding builtin_dir_def Let_def [where 'a = addr] Let_def [where 'a = "string list"]
  by (intro arg_rules safe_bind [OF names_safe] append_all_kept) (use assms in auto)

lemma all_arg_safe:
  assumes "good it" "live it (REnv env)"
  shows "safe val_live it (case as of [] \<Rightarrow> Some (alloc value_list_empty it) | a # _ \<Rightarrow> ev a env it)"
proof (cases as)
  case Nil
  then show ?thesis using safe_new_list [OF assms(1), of val_live "\<lambda>v it1. Some (v, it1)"] kept_refl
    by (auto simp: safe_def)
qed (use assms ev in auto)

lemma builtin_Task_safe:
  assumes "good it" "live it (REnv env)"
  shows "safe opt_live it (builtin_Task ev meth as env it)"
  unfolding builtin_Task_def by (intro safe_bind [OF all_arg_safe] arg_rules) (use assms in auto)

lemma body_arg_safe:
  assumes "good it" "live it (REnv env)"
  shows "safe opt_live it (case as of _ # b # _ \<Rightarrow> do { (v, it) \<leftarrow> ev b env it; Some (Some v, it) }
    | _ \<Rightarrow> Some (None, it))"
  by (intro arg_rules) (use assms in auto)

lemma builtin_http_safe:
  assumes "good it" "live it (REnv env)"
  shows "safe opt_live it (builtin_http sys ev meth as env it)"
  unfolding builtin_http_def
  by (intro safe_bind [OF body_arg_safe] arg_rules) (use assms in \<open>auto simp: or_void_live\<close>)

lemma builtin_server_safe:
  assumes "good it" "live it (REnv env)"
  shows "safe opt_live it (builtin_server sys ev meth as env it)"
  unfolding builtin_server_def by (intro arg_rules) (use assms in auto)

lemma builtin_socket_safe:
  assumes "good it" "live it (REnv env)"
  shows "safe opt_live it (builtin_socket sys ev meth as env line it)"
  unfolding builtin_socket_def by (intro arg_rules) (use assms in auto)

lemma builtin_worker_safe:
  assumes "good it" "live it (REnv env)"
  shows "safe opt_live it (builtin_worker sys ev ex meth as env it)"
  unfolding builtin_worker_def by (intro arg_rules) (use assms in \<open>auto simp: or_void_live\<close>)

lemma builtin_dispatch_safe:
  assumes "good it" "live it (REnv env)"
  shows "safe opt_live it (builtin_dispatch n sys ev ex ns meth as env line it)"
  unfolding builtin_dispatch_def
  by (intro safe_if builtin_live_safe builtin_json_safe builtin_env_safe builtin_file_safe builtin_dir_safe
      builtin_Task_safe builtin_http_safe builtin_server_safe builtin_socket_safe builtin_worker_safe
      unhandled_safe assms)

text \<open>Expressions and statements.\<close>

lemma eval_await_safe:
  assumes "good it" "live it (RVal v)"
  shows "safe val_live it (eval_await v line it)"
proof -
  have "opt_live r it" if "v = V_NATIVE a" "native_at (it_store it) a = NATIVE_TASK (Inr r)" for a r
    using native_live [of it a] assms that by (simp add: live_def)
  then show ?thesis
    unfolding eval_await_def by (intro rules) (use assms in \<open>auto simp: or_void_live\<close>)
qed

lemma target_safe:
  assumes "good it" "live it (REnv env)"
  shows "safe opt_live it (case t of Some ns \<Rightarrow> builtin_dispatch n sys ev ex ns meth as env line it
    | None \<Rightarrow> Some (None, it))"
  by (intro rules builtin_dispatch_safe) (use assms in auto)

lemma eval_method_call_safe:
  assumes "good it" "live it (REnv env)"
  shows "safe val_live it (eval_method_call n sys ev ex obj name as env line it)"
  unfolding eval_method_call_def
  by (intro safe_bind [OF target_safe] rules call_on_value_safe) (use assms in auto)

lemma super_ref_live:
  assumes "good it" "live it (RVal v)" "super_ref (it_store it) v = Some (parent, this)"
  shows "parent = Some p \<Longrightarrow> live it (RClass p)" "live it (RVal this)"
proof -
  obtain a where "v = V_NATIVE a" "native_at (it_store it) a = NATIVE_SUPER_REF parent this"
    using assms(3) by (auto simp: super_ref_def split: val.splits native.splits)
  with super_live [of it a] assms(1,2) show "parent = Some p \<Longrightarrow> live it (RClass p)" "live it (RVal this)"
    by blast+
qed

lemma call_callee_safe:
  assumes "good it" "live it (REnv env)"
  shows "safe val_live it (do {
          (fn, it) \<leftarrow> ev callee env it;
          if it_had_runtime_error it then Some (V_VOID, it)
          else (case super_ref (it_store it) fn of
                  Some (parent, this) \<Rightarrow> call_super n ev ex parent this args env it
                | None \<Rightarrow> call_value n ev ex fn args env line it) })"
  by (intro rules call_super_safe call_value_safe) (use assms in \<open>auto intro: super_ref_live\<close>)

lemma eval_call_safe:
  assumes "good it" "live it (REnv env)"
  shows "safe val_live it (eval_call n sys ev ex callee as env line it)"
  unfolding eval_call_def
  by (cases callee; simp only: expr.case) (intro eval_method_call_safe call_callee_safe assms)+

lemma eval_new_safe:
  assumes "good it" "live it (REnv env)"
  shows "safe val_live it (eval_new n ev ex x as env line it)"
  unfolding eval_new_def
  by (intro rules construct_instance_safe) (use assms env_get_live [OF assms] in fastforce)+

lemma eval_body_safe:
  assumes "good it" "live it (REnv env)"
  shows "safe val_live it (eval_body n sys ev ex e env it)"
  unfolding eval_body_def eval_string_interp_def
  by (cases e; simp only: expr.case)
    (intro rules interp_parts_safe eval_binary_safe eval_unary_safe safe_bind [OF fill_list_safe]
      safe_bind [OF fill_data_safe] eval_await_safe eval_member_safe eval_index_safe eval_assign_safe
      eval_call_safe eval_new_safe; use assms in \<open>auto intro: env_get_live\<close>)+

lemma init_safe:
  assumes "good it" "live it (REnv env)"
  shows "safe val_live it (case ini of None \<Rightarrow> Some (V_VOID, it) | Some e \<Rightarrow> ev e env it)"
  by (intro rules) (use assms in auto)

lemma exec_body_safe:
  assumes "good it" "live it (REnv env)"
  shows "safe sig_ok it (exec_body n sys ev ex s env it)"
  unfolding exec_body_def
  by (cases s; simp only: stmt.case)
    (intro safe_bind [OF init_safe] rules while_loop_safe do_loop_safe exec_for_safe exec_iterate_safe
      exec_block_safe exec_try_safe exec_elifs_safe; use assms in \<open>auto intro!: kept_intros\<close>)+

end

section \<open>The recursion\<close>

lemma recursion_safe:
  assumes "sys_safe sys"
  shows "(\<forall>e env it. good it \<longrightarrow> live it (REnv env) \<longrightarrow> safe val_live it (eval_expr n sys e env it)) \<and>
    (\<forall>s env it. good it \<longrightarrow> live it (REnv env) \<longrightarrow> safe sig_ok it (exec_stmt n sys s env it))"
proof (induction n)
  case (Suc n)
  then have e: "evaluation (eval_expr n sys) (exec_stmt n sys) sys"
    using assms by (simp add: evaluation_def)
  show ?case
    using evaluation.eval_body_safe [OF e] evaluation.exec_body_safe [OF e]
    by (auto intro!: safe_Some kept_refl)
qed (simp add: safe_None)

lemmas eval_expr_safe = recursion_safe [THEN conjunct1, rule_format]
lemmas exec_stmt_safe = recursion_safe [THEN conjunct2, rule_format]

lemma recursion_evaluation: "sys_safe sys \<Longrightarrow> evaluation (eval_expr n sys) (exec_stmt n sys) sys"
  by (simp add: evaluation_def eval_expr_safe exec_stmt_safe)

text \<open>
  A system without files, network and threads, where every call fails as the code expects it
  to; \<^verbatim>\<open>pow\<close> is the exact power, rounded, of a natural exponent.
\<close>

fun pow_nat :: "dbl \<Rightarrow> nat \<Rightarrow> dbl" where
  "pow_nat (DFin s m e) k = dscale (s \<and> odd k) (m ^ k) (e * int k)"
| "pow_nat d k = DNaN"

definition offline :: "'w sys" where
  "offline = \<lparr>sys_value = (\<lambda>c it. Some (None, it)), sys_handle = (\<lambda>c it. Some (None, it)),
     sys_text = (\<lambda>c it. Some (None, it)), sys_names = (\<lambda>c it. Some ([], it)),
     sys_pow = (\<lambda>x y. case dtrunc y of Some k \<Rightarrow> if 0 \<le> k then pow_nat x (nat k) else DNaN | None \<Rightarrow> DNaN)\<rparr>"

lemma offline_safe: "sys_safe offline"
  by (auto simp: sys_safe_def offline_def intro!: safe_Some kept_refl)

interpretation code: evaluation "eval_expr n offline" "exec_stmt n offline" offline
  by (rule recursion_evaluation [OF offline_safe])

lemma interp_init_good: "good (interp_init input w)"
proof -
  show ?thesis using env_new_step [OF wf_empty_store, of None]
    by (simp add: interp_init_def good_def live_def step_ok_def case_prod_beta Let_def)
qed

lemma interp_run_safe:
  assumes "sys_safe sys" "good it"
  shows "safe (\<lambda>_ _. True) it (interp_run n sys ss it)"
proof -
  note e = recursion_evaluation [OF assms(1), of n]
  have seq: "safe sig_ok it (exec_seq (exec_stmt n sys) ss env it)" if "good it" "live it (REnv env)" for env it
    using evaluation.exec_seq_safe [OF e that] .
  show ?thesis
    unfolding interp_run_def
    by (intro safe_bind [OF seq] safe_bind [OF evaluation.file_close_safe [OF e]] safe_intros kept_intros)
      (use assms(2) in \<open>auto simp: good_def\<close>)
qed

section \<open>Properties\<close>

text \<open>
  C9. Executing a statement in a well-formed state keeps the state well formed: no value,
  environment, class or object refers to an address that does not exist.  Objects are never
  removed or replaced, what was printed stays printed, and the signal is never a throw, so that
  only a run-time error gets to a \<^verbatim>\<open>catch\<close>.
\<close>

theorem exec_stmt_well_formed:
  assumes "sys_safe sys" "wf_store (it_store it)" "it_globals it < length (st_envs (it_store it))"
    "env < length (st_envs (it_store it))" "exec_stmt n sys s env it = Some (r, it')"
  shows "wf_store (it_store it') \<and> evolves (it_store it) (it_store it') \<and>
    prefix (it_out it) (it_out it') \<and> \<not> thrown r \<and> val_ok (it_store it') (returned r)"
proof -
  have "good it" "live it (REnv env)" using assms(2-4) by (simp_all add: good_def live_def)
  from exec_stmt_safe [OF assms(1) this, of n s] assms(5) have "kept it it'" "sig_ok r it'"
    by (auto simp: safe_def)
  then show ?thesis
    by (cases r) (auto simp: kept_def good_def extends_def live_def)
qed

text \<open>A state with a fixed variable \<open>x\<close>, for the witnesses.\<close>

definition with_fixed_x :: "unit interp" where
  "with_fixed_x = on_store (env_define 0 ''x'' (V_NUM 5) True) (interp_init [] ())"

lemma with_fixed_x_ok:
  "wf_store (it_store with_fixed_x)" "it_globals with_fixed_x < length (st_envs (it_store with_fixed_x))"
  "0 < length (st_envs (it_store with_fixed_x))"
proof -
  have "live (interp_init [] ()) (REnv 0)"
    by (simp add: live_def interp_init_def env_new_def Let_def)
  then have "kept (interp_init [] ()) with_fixed_x"
    unfolding with_fixed_x_def by (intro kept_intros interp_init_good) simp_all
  then have "good with_fixed_x" by (rule kept_good)
  then show "wf_store (it_store with_fixed_x)" "it_globals with_fixed_x < length (st_envs (it_store with_fixed_x))"
    "0 < length (st_envs (it_store with_fixed_x))"
    by (auto simp: good_def live_def)
qed

lemma exec_stmt_well_formed_witness:
  "\<exists>it'. exec_stmt 5 offline (S_EXPR 1 (E_LIST 1 [E_IDENT 1 ''x''])) 0 with_fixed_x = Some (SIG_NONE, it') \<and>
     wf_store (it_store it')"
proof -
  have "exec_stmt 5 offline (S_EXPR 1 (E_LIST 1 [E_IDENT 1 ''x''])) 0 with_fixed_x \<noteq> None"
    "map_option fst (exec_stmt 5 offline (S_EXPR 1 (E_LIST 1 [E_IDENT 1 ''x''])) 0 with_fixed_x) = Some SIG_NONE"
    by code_simp+
  then obtain it' where run: "exec_stmt 5 offline (S_EXPR 1 (E_LIST 1 [E_IDENT 1 ''x''])) 0 with_fixed_x = Some (SIG_NONE, it')"
    by auto
  from exec_stmt_well_formed [OF offline_safe with_fixed_x_ok run] run show ?thesis by blast
qed

text \<open>
  C10. A binding that is fixed keeps its name and its value, in every scope and whatever is
  executed: the entries of an environment, counted from the oldest, stay where they are, and a
  fixed one does not change.
\<close>

theorem fixed_binding_kept:
  assumes "sys_safe sys" "wf_store (it_store it)" "it_globals it < length (st_envs (it_store it))"
    "env < length (st_envs (it_store it))" "exec_stmt n sys s env it = Some (r, it')"
    "e < length (st_envs (it_store it))" "j < length (env_entries (env_at (it_store it) e))"
    "en_is_fixed (rev (env_entries (env_at (it_store it) e)) ! j)"
  shows "j < length (env_entries (env_at (it_store it') e)) \<and>
    rev (env_entries (env_at (it_store it') e)) ! j = rev (env_entries (env_at (it_store it) e)) ! j"
proof -
  have "good it" "live it (REnv env)" using assms(2-4) by (simp_all add: good_def live_def)
  from exec_stmt_safe [OF assms(1) this, of n s] assms(5) have "evolves (it_store it) (it_store it')"
    by (auto simp: safe_def kept_def extends_def)
  then have "env_kept (env_at (it_store it) e) (env_at (it_store it') e)"
    using assms(6) by (auto simp: evolves_def env_at_def entry_at_def larger_def)
  then obtain new old where es: "env_entries (env_at (it_store it') e) = new @ old"
    "list_all2 entry_kept (env_entries (env_at (it_store it) e)) old"
    by (auto simp: env_kept_def)
  then have "list_all2 entry_kept (rev (env_entries (env_at (it_store it) e))) (rev old)" by simp
  then have "entry_kept (rev (env_entries (env_at (it_store it) e)) ! j) (rev old ! j)"
    and len: "length old = length (env_entries (env_at (it_store it) e))"
    using assms(7) by (auto simp: list_all2_conv_all_nth)
  then have "rev old ! j = rev (env_entries (env_at (it_store it) e)) ! j"
    using assms(8) by (auto simp: entry_kept_def intro: EnvEntry.equality)
  with es(1) len assms(7) show ?thesis by (simp add: nth_append)
qed


definition assign_x :: stmt where
  "assign_x = S_EXPR 1 (E_ASSIGN 1 (E_IDENT 1 ''x'') (E_LIT_NUM 1 6) TOK_ASSIGN)"

lemma fixed_binding_kept_witness:
  "\<exists>it'. exec_stmt 5 offline assign_x 0 with_fixed_x = Some (SIG_NONE, it') \<and>
     it_had_runtime_error it' \<and> en_value (rev (env_entries (env_at (it_store it') 0)) ! 0) = V_NUM 5"
proof -
  have "map_option (\<lambda>(r, it'). (r, it_had_runtime_error it')) (exec_stmt 5 offline assign_x 0 with_fixed_x) =
      Some (SIG_NONE, True)" by code_simp
  then obtain it' where run: "exec_stmt 5 offline assign_x 0 with_fixed_x = Some (SIG_NONE, it')"
    "it_had_runtime_error it'" by auto
  have x: "env_entries (env_at (it_store with_fixed_x) 0) = [\<lparr>en_name = ''x'', en_value = V_NUM 5, en_is_fixed = True\<rparr>]"
    by code_simp
  from fixed_binding_kept [OF offline_safe with_fixed_x_ok run(1) with_fixed_x_ok(3), of 0] x run
  show ?thesis by simp
qed

end
