(* ===== verification/Fuel.thy ===== *)
theory Fuel
  imports Main
begin

text \<open>
  The order on the outcomes of a recursion that is bounded by fuel: an outcome is \<open>below\<close> another when it
  is \<open>None\<close>, which says that the fuel ran out, or the same.  The rules that compare outcomes
  are the collection \<open>fuel_intros\<close>, which \<open>Interp_Fuel\<close> extends by the procedures of the interpreter.
\<close>

definition below :: "'a option \<Rightarrow> 'a option \<Rightarrow> bool" where
  "below a b \<longleftrightarrow> a = None \<or> a = b"

named_theorems fuel_intros \<open>introduction rules that compare outcomes\<close>

lemma below_refl [fuel_intros, simp]: "below a a"
  by (simp add: below_def)

lemma below_None [fuel_intros, simp]: "below None a"
  by (simp add: below_def)

lemma below_Some: "below a b \<Longrightarrow> a = Some x \<Longrightarrow> b = Some x"
  by (auto simp: below_def)

lemma below_if [fuel_intros]:
  "(c \<Longrightarrow> below a a') \<Longrightarrow> (\<not> c \<Longrightarrow> below b b') \<Longrightarrow> below (if c then a else b) (if c then a' else b')"
  by simp

lemma below_case_prod [fuel_intros]:
  "(\<And>a b. x = (a, b) \<Longrightarrow> below (f a b) (g a b)) \<Longrightarrow>
   below (case x of (a, b) \<Rightarrow> f a b) (case x of (a, b) \<Rightarrow> g a b)"
  by (cases x) simp

lemma le_SucE: "Suc n \<le> k \<Longrightarrow> (\<And>j. k = Suc j \<Longrightarrow> n \<le> j \<Longrightarrow> P) \<Longrightarrow> P"
  by (cases k) auto

end
