(* ===== verification/Interp_Fuel.thy ===== *)
theory Interp_Fuel
  imports Interp Fuel
begin

text \<open>
  The fuel of the interpreter only says how long the model looks: once \<^verbatim>\<open>exec_stmt\<close>,
  \<^verbatim>\<open>eval_expr\<close> or a whole run has a result, every larger number gives the same result.
  Outcomes are compared by \<open>below\<close>, and there is one lemma per procedure, in the order of
  \<^verbatim>\<open>interp.c\<close>, all in the collection \<open>fuel_intros\<close>.
\<close>

section \<open>Comparing outcomes\<close>

lemma below_then [fuel_intros]:
  "below x y \<Longrightarrow> (\<And>v. below (f v) (g v)) \<Longrightarrow> below (Option.bind x f) (Option.bind y g)"
  by (cases x; cases y) (auto simp: below_def)

lemma below_map [fuel_intros]: "below x y \<Longrightarrow> below (map_option f x) (map_option f y)"
  by (auto simp: below_def)

lemma below_sum [fuel_intros]:
  "(\<And>a. below (f a) (f' a)) \<Longrightarrow> (\<And>a. below (g a) (g' a)) \<Longrightarrow>
   below (case s of Inl a \<Rightarrow> f a | Inr b \<Rightarrow> g b) (case s of Inl a \<Rightarrow> f' a | Inr b \<Rightarrow> g' b)"
  by (cases s) simp_all

lemma below_let [fuel_intros]: "(\<And>v. below (f v) (g v)) \<Longrightarrow> below (Let t f) (Let t g)"
  by simp

lemma below_option [fuel_intros]:
  "below x y \<Longrightarrow> (\<And>v. below (f v) (g v)) \<Longrightarrow>
   below (case t of None \<Rightarrow> x | Some v \<Rightarrow> f v) (case t of None \<Rightarrow> y | Some v \<Rightarrow> g v)"
  by (cases t) simp_all

lemma below_list [fuel_intros]:
  "below x y \<Longrightarrow> (\<And>v vs. below (f v vs) (g v vs)) \<Longrightarrow>
   below (case t of [] \<Rightarrow> x | v # vs \<Rightarrow> f v vs) (case t of [] \<Rightarrow> y | v # vs \<Rightarrow> g v vs)"
  by (cases t) simp_all

lemma below_bool [fuel_intros]:
  "below x y \<Longrightarrow> below x' y' \<Longrightarrow>
   below (case b of True \<Rightarrow> x | False \<Rightarrow> x') (case b of True \<Rightarrow> y | False \<Rightarrow> y')"
  by (cases b) simp_all

lemma below_val [fuel_intros]:
  "(\<And>x. below (f1 x) (g1 x)) \<Longrightarrow> (\<And>x. below (f2 x) (g2 x)) \<Longrightarrow> (\<And>x. below (f3 x) (g3 x)) \<Longrightarrow>
   (\<And>x. below (f4 x) (g4 x)) \<Longrightarrow> (\<And>x. below (f5 x) (g5 x)) \<Longrightarrow> below f6 g6 \<Longrightarrow>
   (\<And>x. below (f7 x) (g7 x)) \<Longrightarrow> (\<And>x. below (f8 x) (g8 x)) \<Longrightarrow> (\<And>x. below (f9 x) (g9 x)) \<Longrightarrow>
   (\<And>x. below (f10 x) (g10 x)) \<Longrightarrow> (\<And>x. below (f11 x) (g11 x)) \<Longrightarrow> (\<And>x. below (f12 x) (g12 x)) \<Longrightarrow>
   below (case_val f1 f2 f3 f4 f5 f6 f7 f8 f9 f10 f11 f12 v)
           (case_val g1 g2 g3 g4 g5 g6 g7 g8 g9 g10 g11 g12 v)"
  by (cases v) simp_all

lemma below_all_some:
  "(\<And>x. x \<in> set xs \<Longrightarrow> below (f x) (g x)) \<Longrightarrow> below (all_some (map f xs)) (all_some (map g xs))"
  by (induction xs) (auto intro!: below_then)

section \<open>Values, strings and lists\<close>

lemma value_to_display_string_below:
  "n \<le> m \<Longrightarrow> below (value_to_display_string n st v) (value_to_display_string m st v)"
proof (induction n arbitrary: m v)
  case (Suc n)
  from \<open>Suc n \<le> m\<close> obtain k where "m = Suc k" "n \<le> k"
    by (rule le_SucE)
  with Suc.IH show ?case
    by (cases v) (auto intro!: below_map below_all_some)
qed simp

lemma display_below [fuel_intros]: "n \<le> m \<Longrightarrow> below (display n v it) (display m v it)"
  by (simp add: display_def value_to_display_string_below)

lemma json_stringify_below [fuel_intros]:
  "n \<le> m \<Longrightarrow> below (json_stringify n st v) (json_stringify m st v)"
  unfolding json_stringify_def
proof (induction n arbitrary: m v)
  case (Suc n)
  from \<open>Suc n \<le> m\<close> obtain k where "m = Suc k" "n \<le> k"
    by (rule le_SucE)
  with Suc.IH show ?case
    by (cases v) (auto intro!: below_map below_all_some)
qed simp

lemma list_concat_below [fuel_intros]:
  "n \<le> m \<Longrightarrow> below (list_concat n l c st) (list_concat m l c st)"
proof (induction n arbitrary: m c st)
  case (Suc n)
  from \<open>Suc n \<le> m\<close> obtain k where "m = Suc k" "n \<le> k"
    by (rule le_SucE)
  then show ?case
    by (simp only: list_concat.simps) (intro fuel_intros Suc.IH)
qed simp

lemma find_method_below [fuel_intros]:
  "n \<le> m \<Longrightarrow> below (find_method n st c name) (find_method m st c name)"
proof (induction n arbitrary: m c)
  case (Suc n)
  from \<open>Suc n \<le> m\<close> obtain k where "m = Suc k" "n \<le> k"
    by (rule le_SucE)
  then show ?case
    by (simp only: find_method.simps) (intro fuel_intros Suc.IH)
qed simp

lemma below_result [fuel_intros]:
  "below x y \<Longrightarrow> (\<And>v. below (f v) (g v)) \<Longrightarrow> (\<And>v. below (f' v) (g' v)) \<Longrightarrow>
   below (case_ExecResult x f f' r) (case_ExecResult y g g' r)"
  by (cases r) simp_all

lemma below_target [fuel_intros]:
  "(\<And>l x. below (i l x) (i' l x)) \<Longrightarrow> (\<And>l o' x. below (d l o' x) (d' l o' x)) \<Longrightarrow>
   (\<And>l o' x. below (m l o' x) (m' l o' x)) \<Longrightarrow> below z z' \<Longrightarrow>
   below (case e of E_IDENT l x \<Rightarrow> i l x | E_INDEX l o' x \<Rightarrow> d l o' x | E_MEMBER l o' x \<Rightarrow> m l o' x | _ \<Rightarrow> z)
           (case e of E_IDENT l x \<Rightarrow> i' l x | E_INDEX l o' x \<Rightarrow> d' l o' x | E_MEMBER l o' x \<Rightarrow> m' l o' x | _ \<Rightarrow> z')"
  by (cases e) simp_all

lemma below_native [fuel_intros]:
  "(\<And>x. below (f1 x) (g1 x)) \<Longrightarrow> (\<And>x. below (f2 x) (g2 x)) \<Longrightarrow> (\<And>x. below (f3 x) (g3 x)) \<Longrightarrow>
   (\<And>x. below (f4 x) (g4 x)) \<Longrightarrow> (\<And>x y. below (f5 x y) (g5 x y)) \<Longrightarrow>
   below (case_native f1 f2 f3 f4 f5 t) (case_native g1 g2 g3 g4 g5 t)"
  by (cases t) simp_all

lemma eval_binary_below [fuel_intros]:
  "n \<le> m \<Longrightarrow> below (eval_binary n sys opr l r line it) (eval_binary m sys opr l r line it)"
  unfolding eval_binary_def by (intro fuel_intros)

lemma http_response_call_method_below [fuel_intros]:
  "n \<le> m \<Longrightarrow>
   below (http_response_call_method n obj name argv it) (http_response_call_method m obj name argv it)"
  unfolding http_response_call_method_def by (intro fuel_intros)

section \<open>Procedures on more fuel\<close>

text \<open>
  What a procedure of \<^verbatim>\<open>interp.c\<close> relies on: the two recursive calls on more fuel agree with
  those on less wherever these have a result.
\<close>

locale interp_fuel =
  fixes n m :: nat
    and ev ev' :: "'w evaluator"
    and ex ex' :: "'w executor"
  assumes fuel_le [fuel_intros]: "n \<le> m"
    and ev_below [fuel_intros]: "below (ev e env it) (ev' e env it)"
    and ex_below [fuel_intros]: "below (ex s env it) (ex' s env it)"
begin

lemma interp_parts_below [fuel_intros]:
  "below (interp_parts n ev ps env out it) (interp_parts m ev' ps env out it)"
proof (induction ps arbitrary: out it)
  case (Cons p ps)
  show ?case
    by (cases p) (simp_all only: interp_parts.simps, (intro fuel_intros Cons.IH)+)
qed simp

lemma eval_string_recursion_below [fuel_intros]:
  "below (eval_string_interp n ev ps env it) (eval_string_interp m ev' ps env it)"
  unfolding eval_string_interp_def by (intro fuel_intros)

lemma call_list_method_below [fuel_intros]:
  "below (call_list_method n ev l name args env line it) (call_list_method m ev' l name args env line it)"
  unfolding call_list_method_def by (intro fuel_intros)

lemma eval_args_below [fuel_intros]:
  "below (eval_args ev as env it) (eval_args ev' as env it)"
proof (induction as arbitrary: it)
  case (Cons a as)
  show ?case
    by (simp only: eval_args.simps) (intro fuel_intros Cons.IH)
qed simp

lemma bind_args_below [fuel_intros]:
  "below (bind_args ev env call_env ps as it) (bind_args ev' env call_env ps as it)"
proof (induction ps arbitrary: as it)
  case (Cons p ps)
  show ?case
    by (cases p) (simp only: bind_args.simps, intro fuel_intros Cons.IH)
qed simp

lemma exec_seq_below [fuel_intros]:
  "below (exec_seq ex ss env it) (exec_seq ex' ss env it)"
proof (induction ss arbitrary: it)
  case (Cons s ss)
  show ?case
    by (simp only: exec_seq.simps) (intro fuel_intros Cons.IH)
qed simp

lemma exec_block_below [fuel_intros]:
  "below (exec_block ex ss env it) (exec_block ex' ss env it)"
  unfolding exec_block_def by (intro fuel_intros)

lemma call_value_below [fuel_intros]:
  "below (call_value n ev ex v args env line it) (call_value m ev' ex' v args env line it)"
  unfolding call_value_def by (intro fuel_intros)

lemma invoke_in_below [fuel_intros]:
  "below (invoke_in ex parent fn argv it) (invoke_in ex' parent fn argv it)"
  unfolding invoke_in_def by (intro fuel_intros)

lemma interp_invoke_below [fuel_intros]:
  "below (interp_invoke ex v argv it) (interp_invoke ex' v argv it)"
  unfolding interp_invoke_def by (intro fuel_intros)

lemma interp_invoke_closure_below [fuel_intros]:
  "below (interp_invoke_closure ex v argv it) (interp_invoke_closure ex' v argv it)"
  unfolding interp_invoke_closure_def by (intro fuel_intros)

lemma invoke_method_below [fuel_intros]:
  "below (invoke_method ex c meth this argv it) (invoke_method ex' c meth this argv it)"
  unfolding invoke_method_def by (intro fuel_intros)

lemma init_members_below [fuel_intros]:
  "below (init_members ev ms env obj it) (init_members ev' ms env obj it)"
proof (induction ms arbitrary: it)
  case (Cons s ms)
  show ?case
    by (cases s) (simp_all only: init_members.simps, (intro fuel_intros Cons.IH)+)
qed simp

lemma init_fields_below [fuel_intros]:
  "i \<le> j \<Longrightarrow> below (init_fields i ev c obj it) (init_fields j ev' c obj it)"
proof (induction i arbitrary: j c it)
  case (Suc i)
  from \<open>Suc i \<le> j\<close> obtain k where "j = Suc k" "i \<le> k"
    by (rule le_SucE)
  then show ?case
    by (simp only: init_fields.simps) (intro fuel_intros Suc.IH)
qed simp

lemma construct_instance_below [fuel_intros]:
  "below (construct_instance n ev ex c args env it) (construct_instance m ev' ex' c args env it)"
  unfolding construct_instance_def by (intro fuel_intros)

lemma set_lvalue_below [fuel_intros]:
  "below (set_lvalue ev target v env line it) (set_lvalue ev' target v env line it)"
  unfolding set_lvalue_def by (intro fuel_intros)

lemma eval_assign_below [fuel_intros]:
  "below (eval_assign n sys ev target rhs opr env line it) (eval_assign m sys ev' target rhs opr env line it)"
  unfolding eval_assign_def by (intro fuel_intros)

lemma call_task_below [fuel_intros]:
  "below (call_task ex obj task name argv line it) (call_task ex' obj task name argv line it)"
  unfolding call_task_def by (intro fuel_intros)

lemma call_worker_below [fuel_intros]:
  "below (call_worker sys ex h name argv line it) (call_worker sys ex' h name argv line it)"
  unfolding call_worker_def by (intro fuel_intros)

lemma call_pool_below [fuel_intros]:
  "below (call_pool sys ex h name argv line it) (call_pool sys ex' h name argv line it)"
  unfolding call_pool_def by (intro fuel_intros)

lemma call_super_method_below [fuel_intros]:
  "below (call_super_method n ex parent this name argv line it)
           (call_super_method m ex' parent this name argv line it)"
  unfolding call_super_method_def by (intro fuel_intros)

lemma call_native_below [fuel_intros]:
  "below (call_native n sys ex a name argv line it) (call_native m sys ex' a name argv line it)"
  unfolding call_native_def by (intro fuel_intros)

lemma call_instance_below [fuel_intros]:
  "below (call_instance n ev ex a name args env line it) (call_instance m ev' ex' a name args env line it)"
  unfolding call_instance_def by (intro fuel_intros)

lemma call_on_value_below [fuel_intros]:
  "below (call_on_value n sys ev ex obj name args env line it) (call_on_value m sys ev' ex' obj name args env line it)"
  unfolding call_on_value_def by (intro fuel_intros)

lemma call_super_below [fuel_intros]:
  "below (call_super n ev ex parent this args env it) (call_super m ev' ex' parent this args env it)"
  unfolding call_super_def by (intro fuel_intros)

lemma arg_or_below [fuel_intros]:
  "below (arg_or ev d args env it) (arg_or ev' d args env it)"
  unfolding arg_or_def by (intro fuel_intros)

lemma deg_loop_below [fuel_intros]:
  "below (deg_loop ev expect idx as env it) (deg_loop ev' expect idx as env it)"
proof (induction as arbitrary: idx it)
  case (Cons a as)
  show ?case
    by (simp only: deg_loop.simps) (intro fuel_intros Cons.IH)
qed simp

lemma live_timer_below [fuel_intros]:
  "below (live_timer sys ev meth args env line it) (live_timer sys ev' meth args env line it)"
  unfolding live_timer_def by (intro fuel_intros)

lemma builtin_live_below [fuel_intros]:
  "below (builtin_live n sys ev meth args env line it) (builtin_live m sys ev' meth args env line it)"
  unfolding builtin_live_def by (intro fuel_intros)

lemma builtin_json_below [fuel_intros]:
  "below (builtin_json n ev meth args env line it) (builtin_json m ev' meth args env line it)"
  unfolding builtin_json_def by (intro fuel_intros)

lemma builtin_env_below [fuel_intros]:
  "below (builtin_env sys ev meth args env it) (builtin_env sys ev' meth args env it)"
  unfolding builtin_env_def by (intro fuel_intros)

lemma builtin_file_below [fuel_intros]:
  "below (builtin_file sys ev meth args env line it) (builtin_file sys ev' meth args env line it)"
  unfolding builtin_file_def by (intro fuel_intros)

lemma builtin_dir_below [fuel_intros]:
  "below (builtin_dir sys ev meth args env it) (builtin_dir sys ev' meth args env it)"
  unfolding builtin_dir_def by (intro fuel_intros)

lemma builtin_Task_below [fuel_intros]:
  "below (builtin_Task ev meth args env it) (builtin_Task ev' meth args env it)"
  unfolding builtin_Task_def by (intro fuel_intros)

lemma builtin_http_below [fuel_intros]:
  "below (builtin_http sys ev meth args env it) (builtin_http sys ev' meth args env it)"
  unfolding builtin_http_def by (intro fuel_intros)

lemma builtin_server_below [fuel_intros]:
  "below (builtin_server sys ev meth args env it) (builtin_server sys ev' meth args env it)"
  unfolding builtin_server_def by (intro fuel_intros)

lemma builtin_socket_below [fuel_intros]:
  "below (builtin_socket sys ev meth args env line it) (builtin_socket sys ev' meth args env line it)"
  unfolding builtin_socket_def by (intro fuel_intros)

lemma builtin_worker_below [fuel_intros]:
  "below (builtin_worker sys ev ex meth args env it) (builtin_worker sys ev' ex' meth args env it)"
  unfolding builtin_worker_def by (intro fuel_intros)

lemma builtin_dispatch_below [fuel_intros]:
  "below (builtin_dispatch n sys ev ex ns meth args env line it) (builtin_dispatch m sys ev' ex' ns meth args env line it)"
  unfolding builtin_dispatch_def by (intro fuel_intros)

lemma fill_data_below [fuel_intros]:
  "below (fill_data ev es d env it) (fill_data ev' es d env it)"
proof (induction es arbitrary: it)
  case (Cons e es)
  show ?case
    by (cases e) (simp only: fill_data.simps, intro fuel_intros Cons.IH)
qed simp

lemma fill_list_below [fuel_intros]:
  "below (fill_list ev es l env it) (fill_list ev' es l env it)"
proof (induction es arbitrary: it)
  case (Cons e es)
  show ?case
    by (simp only: fill_list.simps) (intro fuel_intros Cons.IH)
qed simp

lemma eval_method_call_below [fuel_intros]:
  "below (eval_method_call n sys ev ex object name args env line it) (eval_method_call m sys ev' ex' object name args env line it)"
  unfolding eval_method_call_def by (intro fuel_intros)

lemma eval_call_below [fuel_intros]:
  "below (eval_call n sys ev ex callee args env line it) (eval_call m sys ev' ex' callee args env line it)"
  unfolding eval_call_def by (intro fuel_intros)

lemma eval_new_below [fuel_intros]:
  "below (eval_new n ev ex cname args env line it) (eval_new m ev' ex' cname args env line it)"
  unfolding eval_new_def by (intro fuel_intros)

lemma eval_body_below:
  "below (eval_body n sys ev ex e env it) (eval_body m sys ev' ex' e env it)"
  by (cases e) (simp_all only: eval_body_def expr.case, (intro fuel_intros)+)

lemma exec_elifs_below [fuel_intros]:
  "below (exec_elifs ev ex es els env it) (exec_elifs ev' ex' es els env it)"
proof (induction es arbitrary: it)
  case (Cons e es)
  show ?case
    by (cases e) (simp only: exec_elifs.simps, intro fuel_intros Cons.IH)
qed (simp only: exec_elifs.simps, intro fuel_intros)

lemma while_loop_below [fuel_intros]:
  "i \<le> j \<Longrightarrow> below (while_loop i ev ex c body env it) (while_loop j ev' ex' c body env it)"
proof (induction i arbitrary: j it)
  case (Suc i)
  from \<open>Suc i \<le> j\<close> obtain k where "j = Suc k" "i \<le> k"
    by (rule le_SucE)
  then show ?case
    by (simp only: while_loop.simps) (intro fuel_intros Suc.IH)
qed simp

lemma do_loop_below [fuel_intros]:
  "i \<le> j \<Longrightarrow> below (do_loop i ev ex c body env it) (do_loop j ev' ex' c body env it)"
proof (induction i arbitrary: j it)
  case (Suc i)
  from \<open>Suc i \<le> j\<close> obtain k where "j = Suc k" "i \<le> k"
    by (rule le_SucE)
  then show ?case
    by (simp only: do_loop.simps) (intro fuel_intros Suc.IH)
qed simp

lemma each_node_below [fuel_intros]:
  "i \<le> j \<Longrightarrow> below (each_node i ev ex x c body env a it) (each_node j ev' ex' x c body env a it)"
proof (induction i arbitrary: j a it)
  case (Suc i)
  from \<open>Suc i \<le> j\<close> obtain k where "j = Suc k" "i \<le> k"
    by (rule le_SucE)
  then show ?case
    by (simp only: each_node.simps) (intro fuel_intros Suc.IH)
qed simp

lemma each_value_below [fuel_intros]:
  "below (each_value ex x body env vs it) (each_value ex' x body env vs it)"
proof (induction vs arbitrary: it)
  case (Cons v vs)
  show ?case
    by (simp only: each_value.simps) (intro fuel_intros Cons.IH)
qed simp

lemma exec_for_below [fuel_intros]:
  "below (exec_for n ev ex x iterable c body line env it) (exec_for m ev' ex' x iterable c body line env it)"
  unfolding exec_for_def by (intro fuel_intros)

lemma exec_iterate_below [fuel_intros]:
  "below (exec_iterate n ev ex collection x body line env it) (exec_iterate m ev' ex' collection x body line env it)"
  unfolding exec_iterate_def by (intro fuel_intros)

lemma exec_try_below [fuel_intros]:
  "below (exec_try ex try_b err_name catch_b env it) (exec_try ex' try_b err_name catch_b env it)"
  unfolding exec_try_def by (intro fuel_intros)

lemma exec_body_below:
  "below (exec_body n sys ev ex s env it) (exec_body m sys ev' ex' s env it)"
  by (cases s) (simp_all only: exec_body_def stmt.case, (intro fuel_intros)+)

end

section \<open>The interpreter\<close>

lemma recursion_below:
  "n \<le> m \<Longrightarrow>
   below (eval_expr n sys e env it) (eval_expr m sys e env it) \<and>
   below (exec_stmt n sys s env it) (exec_stmt m sys s env it)"
proof (induction n arbitrary: m e s env it)
  case (Suc n)
  from \<open>Suc n \<le> m\<close> obtain k where m: "m = Suc k" "n \<le> k"
    by (rule le_SucE)
  from m(2) Suc.IH have "interp_fuel n k (eval_expr n sys) (eval_expr k sys) (exec_stmt n sys) (exec_stmt k sys)"
    by (simp add: interp_fuel_def)
  then show ?case
    by (simp add: m(1) interp_fuel.eval_body_below interp_fuel.exec_body_below)
qed simp

interpretation fuel: interp_fuel n "n + k" "eval_expr n sys" "eval_expr (n + k) sys"
  "exec_stmt n sys" "exec_stmt (n + k) sys"
  for n k sys
  by unfold_locales (simp_all add: recursion_below)

end
