(* ===== verification/Big_Step.thy ===== *)
theory Big_Step
  imports Interp_Fuel Interp_Safe
begin

text \<open>
  A semantics of the statements of the language without fuel: the relation \<open>runs\<close> says what a
  statement does, rule by rule, in terms of the values of its expressions and of what its parts
  do.  The interpreter, \<^verbatim>\<open>exec_stmt\<close> of \<^verbatim>\<open>interp.c\<close>, has a result exactly where this relation
  gives one.
\<close>

section \<open>Settled outcomes\<close>

text \<open>From some fuel on the outcome is \<open>r\<close>.\<close>

definition settled :: "(nat \<Rightarrow> 'a option) \<Rightarrow> 'a \<Rightarrow> bool" where
  "settled f r = (\<forall>\<^sub>F n in sequentially. f n = Some r)"

definition evals :: "'w sys \<Rightarrow> expr \<Rightarrow> addr \<Rightarrow> 'w interp \<Rightarrow> val \<Rightarrow> 'w interp \<Rightarrow> bool" where
  "evals sys e env it v it' = (\<exists>n. eval_expr n sys e env it = Some (v, it'))"

fun evals_opt :: "'w sys \<Rightarrow> expr option \<Rightarrow> addr \<Rightarrow> 'w interp \<Rightarrow> val \<Rightarrow> 'w interp \<Rightarrow> bool" where
  "evals_opt sys None env it v it' = (v = V_VOID \<and> it' = it)"
| "evals_opt sys (Some e) env it v it' = evals sys e env it v it'"

text \<open>The condition of a \<^verbatim>\<open>for\<close> loop, which holds when there is none.\<close>

fun selects :: "'w sys \<Rightarrow> expr option \<Rightarrow> addr \<Rightarrow> 'w interp \<Rightarrow> bool \<Rightarrow> 'w interp \<Rightarrow> bool" where
  "selects sys None env it b it' = (b \<and> it' = it)"
| "selects sys (Some c) env it b it' =
     (\<exists>v. evals sys c env it v it' \<and> b = value_truthy (it_store it') v)"

definition enter_block :: "stmt list \<Rightarrow> addr \<Rightarrow> 'w interp \<Rightarrow> addr \<times> 'w interp" where
  "enter_block ss parent it =
     (let (env, it) = alloc (env_new (Some parent)) it
      in (env, on_store (hoist_funs ss env) (on_store (hoist_classes ss env) it)))"

text \<open>The scope of a turn of a loop, or of a catch block, with its one variable.\<close>

definition enter_with :: "string \<Rightarrow> val \<Rightarrow> addr \<Rightarrow> 'w interp \<Rightarrow> addr \<times> 'w interp" where
  "enter_with x v parent it =
     (let (env, it) = alloc (env_new (Some parent)) it in (env, on_store (env_define env x v False) it))"

definition no_error :: "'w interp \<Rightarrow> 'w interp" where
  "no_error it = it\<lparr>it_error_message := None, it_had_runtime_error := False\<rparr>"

definition caught_message :: "'w interp \<Rightarrow> val" where
  "caught_message it = V_STRING (case it_error_message it of Some m \<Rightarrow> m | None \<Rightarrow> ''error'')"

fun inert :: "stmt \<Rightarrow> bool" where
  "inert (S_FUN_DECL _ _ _ _ _ _) = True"
| "inert (S_CLASS _ _ _ _ _) = True"
| "inert (S_ENUM _ _ _) = True"
| "inert (S_STRUCT _ _ _) = True"
| "inert (S_IMPORT _ _) = True"
| "inert (S_EXPORT _ _) = True"
| "inert (S_BREAK _) = True"
| "inert (S_CONTINUE _) = True"
| "inert _ = False"

section \<open>The relation\<close>

abbreviation err :: "'w interp \<Rightarrow> bool" where
  "err \<equiv> it_had_runtime_error"

abbreviation truthy :: "'w interp \<Rightarrow> val \<Rightarrow> bool" where
  "truthy it v \<equiv> value_truthy (it_store it) v"

inductive
  runs :: "'w sys \<Rightarrow> stmt \<Rightarrow> addr \<Rightarrow> 'w interp \<Rightarrow> ExecResult \<Rightarrow> 'w interp \<Rightarrow> bool" and
  runs_seq :: "'w sys \<Rightarrow> stmt list \<Rightarrow> addr \<Rightarrow> 'w interp \<Rightarrow> ExecResult \<Rightarrow> 'w interp \<Rightarrow> bool" and
  runs_elifs :: "'w sys \<Rightarrow> (expr \<times> stmt) list \<Rightarrow> stmt option \<Rightarrow> addr \<Rightarrow> 'w interp \<Rightarrow> ExecResult \<Rightarrow>
    'w interp \<Rightarrow> bool" and
  runs_nodes :: "'w sys \<Rightarrow> string \<Rightarrow> expr option \<Rightarrow> stmt \<Rightarrow> addr \<Rightarrow> addr option \<Rightarrow> 'w interp \<Rightarrow>
    ExecResult \<Rightarrow> 'w interp \<Rightarrow> bool" and
  runs_values :: "'w sys \<Rightarrow> string \<Rightarrow> stmt \<Rightarrow> addr \<Rightarrow> val list \<Rightarrow> 'w interp \<Rightarrow> ExecResult \<Rightarrow>
    'w interp \<Rightarrow> bool"
  for sys :: "'w sys"
where
  Pending: "err it \<Longrightarrow> runs sys s env it SIG_NONE it"
| Inert: "inert s \<Longrightarrow> runs sys s env it SIG_NONE it"
| VarDecl: "\<not> err it \<Longrightarrow> evals_opt sys ini env it v it1 \<Longrightarrow> \<not> err it1 \<Longrightarrow>
    runs sys (S_VARDECL l x t ini fx) env it SIG_NONE (on_store (env_define env x v fx) it1)"
| VarDeclErr: "\<not> err it \<Longrightarrow> evals_opt sys ini env it v it1 \<Longrightarrow> err it1 \<Longrightarrow>
    runs sys (S_VARDECL l x t ini fx) env it SIG_NONE it1"
| Expr: "\<not> err it \<Longrightarrow> evals sys e env it v it1 \<Longrightarrow> runs sys (S_EXPR l e) env it SIG_NONE it1"
| Return: "\<not> err it \<Longrightarrow> evals_opt sys e env it v it1 \<Longrightarrow>
    runs sys (S_RETURN l e) env it (SIG_RETURN v) it1"
| IfErr: "\<not> err it \<Longrightarrow> evals sys c env it v it1 \<Longrightarrow> err it1 \<Longrightarrow>
    runs sys (S_IF l c t es f) env it SIG_NONE it1"
| IfTrue: "\<not> err it \<Longrightarrow> evals sys c env it v it1 \<Longrightarrow> \<not> err it1 \<Longrightarrow> truthy it1 v \<Longrightarrow>
    runs sys t env it1 r it2 \<Longrightarrow> runs sys (S_IF l c t es f) env it r it2"
| IfFalse: "\<not> err it \<Longrightarrow> evals sys c env it v it1 \<Longrightarrow> \<not> err it1 \<Longrightarrow> \<not> truthy it1 v \<Longrightarrow>
    runs_elifs sys es f env it1 r it2 \<Longrightarrow> runs sys (S_IF l c t es f) env it r it2"
| WhileStop: "\<not> err it \<Longrightarrow> evals sys c env it v it1 \<Longrightarrow> \<not> truthy it1 v \<or> err it1 \<Longrightarrow>
    runs sys (S_LOOP_WHILE l c b) env it SIG_NONE it1"
| WhileExit: "\<not> err it \<Longrightarrow> evals sys c env it v it1 \<Longrightarrow> truthy it1 v \<Longrightarrow> \<not> err it1 \<Longrightarrow>
    runs sys b env it1 r it2 \<Longrightarrow> r \<noteq> SIG_NONE \<or> err it2 \<Longrightarrow> runs sys (S_LOOP_WHILE l c b) env it r it2"
| WhileTurn: "\<not> err it \<Longrightarrow> evals sys c env it v it1 \<Longrightarrow> truthy it1 v \<Longrightarrow> \<not> err it1 \<Longrightarrow>
    runs sys b env it1 SIG_NONE it2 \<Longrightarrow> \<not> err it2 \<Longrightarrow> runs sys (S_LOOP_WHILE l c b) env it2 r it3 \<Longrightarrow>
    runs sys (S_LOOP_WHILE l c b) env it r it3"
| DoExit: "\<not> err it \<Longrightarrow> runs sys b env it r it1 \<Longrightarrow> r \<noteq> SIG_NONE \<or> err it1 \<Longrightarrow>
    runs sys (S_DO_WHILE l c b) env it r it1"
| DoStop: "\<not> err it \<Longrightarrow> runs sys b env it SIG_NONE it1 \<Longrightarrow> \<not> err it1 \<Longrightarrow> evals sys c env it1 v it2 \<Longrightarrow>
    \<not> truthy it2 v \<or> err it2 \<Longrightarrow> runs sys (S_DO_WHILE l c b) env it SIG_NONE it2"
| DoTurn: "\<not> err it \<Longrightarrow> runs sys b env it SIG_NONE it1 \<Longrightarrow> \<not> err it1 \<Longrightarrow> evals sys c env it1 v it2 \<Longrightarrow>
    truthy it2 v \<Longrightarrow> \<not> err it2 \<Longrightarrow> runs sys (S_DO_WHILE l c b) env it2 r it3 \<Longrightarrow>
    runs sys (S_DO_WHILE l c b) env it r it3"
| ForList: "\<not> err it \<Longrightarrow> evals sys e env it (V_LIST a) it1 \<Longrightarrow>
    runs_nodes sys x c b env (head_at (it_store it1) a) it1 r it2 \<Longrightarrow>
    runs sys (S_FOR_IN l x e c b) env it r it2"
| ForOther: "\<not> err it \<Longrightarrow> evals sys e env it v it1 \<Longrightarrow> \<forall>a. v \<noteq> V_LIST a \<Longrightarrow>
    runs sys (S_FOR_IN l x e c b) env it SIG_NONE (rt_error l ''for-in requires a list'' it1)"
| IterateList: "\<not> err it \<Longrightarrow> evals sys e env it (V_LIST a) it1 \<Longrightarrow>
    runs_nodes sys x None b env (head_at (it_store it1) a) it1 r it2 \<Longrightarrow>
    runs sys (S_ITERATE l e x b) env it r it2"
| IterateData: "\<not> err it \<Longrightarrow> evals sys e env it (V_DATA a) it1 \<Longrightarrow>
    runs_values sys x b env (rev (map snd (data_at (it_store it1) a))) it1 r it2 \<Longrightarrow>
    runs sys (S_ITERATE l e x b) env it r it2"
| IterateOther: "\<not> err it \<Longrightarrow> evals sys e env it v it1 \<Longrightarrow> \<forall>a. v \<noteq> V_LIST a \<and> v \<noteq> V_DATA a \<Longrightarrow>
    runs sys (S_ITERATE l e x b) env it SIG_NONE
      (rt_error l ''iterate() requires a list or data collection'' it1)"
| Block: "\<not> err it \<Longrightarrow> enter_block ss env it = (env', it1) \<Longrightarrow> runs_seq sys ss env' it1 r it2 \<Longrightarrow>
    runs sys (S_BLOCK l ss) env it r it2"
| TryDone: "\<not> err it \<Longrightarrow> runs sys t env (no_error it) r it1 \<Longrightarrow> \<not> thrown r \<Longrightarrow> \<not> err it1 \<Longrightarrow>
    runs sys (S_TRY_CATCH l t x c) env it SIG_NONE
      (it1\<lparr>it_had_runtime_error := False, it_error_message := it_error_message it\<rparr>)"
| TryCaught: "\<not> err it \<Longrightarrow> runs sys t env (no_error it) r it1 \<Longrightarrow> thrown r \<or> err it1 \<Longrightarrow>
    enter_with x (caught_message it1) env it1 = (env', it2) \<Longrightarrow>
    runs sys c env' (no_error it2) r' it3 \<Longrightarrow> runs sys (S_TRY_CATCH l t x c) env it r' it3"
| SeqNil: "runs_seq sys [] env it SIG_NONE it"
| SeqExit: "runs sys s env it r it1 \<Longrightarrow> r \<noteq> SIG_NONE \<or> err it1 \<Longrightarrow> runs_seq sys (s # ss) env it r it1"
| SeqNext: "runs sys s env it SIG_NONE it1 \<Longrightarrow> \<not> err it1 \<Longrightarrow> runs_seq sys ss env it1 r it2 \<Longrightarrow>
    runs_seq sys (s # ss) env it r it2"
| ElifsNone: "runs_elifs sys [] None env it SIG_NONE it"
| ElifsElse: "runs sys b env it r it1 \<Longrightarrow> runs_elifs sys [] (Some b) env it r it1"
| ElifsTrue: "evals sys c env it v it1 \<Longrightarrow> truthy it1 v \<Longrightarrow> runs sys b env it1 r it2 \<Longrightarrow>
    runs_elifs sys ((c, b) # es) f env it r it2"
| ElifsFalse: "evals sys c env it v it1 \<Longrightarrow> \<not> truthy it1 v \<Longrightarrow> runs_elifs sys es f env it1 r it2 \<Longrightarrow>
    runs_elifs sys ((c, b) # es) f env it r it2"
| NodesEnd: "runs_nodes sys x c b env None it SIG_NONE it"
| NodesFreed: "node_at (it_store it) a = None \<Longrightarrow>
    runs_nodes sys x c b env (Some a) it SIG_NONE (undefined_behaviour UB_freed_node it)"
| NodesTurn: "node_at (it_store it) a = Some (item, nx) \<Longrightarrow> enter_with x item env it = (env', it1) \<Longrightarrow>
    selects sys c env' it1 True it2 \<Longrightarrow> runs sys b env' it2 SIG_NONE it3 \<Longrightarrow> \<not> err it3 \<Longrightarrow>
    node_at (it_store it3) a = Some (item', nx') \<Longrightarrow> runs_nodes sys x c b env nx' it3 r it4 \<Longrightarrow>
    runs_nodes sys x c b env (Some a) it r it4"
| NodesSkip: "node_at (it_store it) a = Some (item, nx) \<Longrightarrow> enter_with x item env it = (env', it1) \<Longrightarrow>
    selects sys c env' it1 False it2 \<Longrightarrow> node_at (it_store it2) a = Some (item', nx') \<Longrightarrow>
    runs_nodes sys x c b env nx' it2 r it3 \<Longrightarrow> runs_nodes sys x c b env (Some a) it r it3"
| NodesExit: "node_at (it_store it) a = Some (item, nx) \<Longrightarrow> enter_with x item env it = (env', it1) \<Longrightarrow>
    selects sys c env' it1 True it2 \<Longrightarrow> runs sys b env' it2 r it3 \<Longrightarrow> r \<noteq> SIG_NONE \<or> err it3 \<Longrightarrow>
    runs_nodes sys x c b env (Some a) it r it3"
| NodesTurnFreed: "node_at (it_store it) a = Some (item, nx) \<Longrightarrow> enter_with x item env it = (env', it1) \<Longrightarrow>
    selects sys c env' it1 True it2 \<Longrightarrow> runs sys b env' it2 SIG_NONE it3 \<Longrightarrow> \<not> err it3 \<Longrightarrow>
    node_at (it_store it3) a = None \<Longrightarrow>
    runs_nodes sys x c b env (Some a) it SIG_NONE (undefined_behaviour UB_freed_node it3)"
| NodesSkipFreed: "node_at (it_store it) a = Some (item, nx) \<Longrightarrow> enter_with x item env it = (env', it1) \<Longrightarrow>
    selects sys c env' it1 False it2 \<Longrightarrow> node_at (it_store it2) a = None \<Longrightarrow>
    runs_nodes sys x c b env (Some a) it SIG_NONE (undefined_behaviour UB_freed_node it2)"
| ValuesEnd: "runs_values sys x b env [] it SIG_NONE it"
| ValuesExit: "enter_with x v env it = (env', it1) \<Longrightarrow> runs sys b env' it1 r it2 \<Longrightarrow>
    r \<noteq> SIG_NONE \<or> err it2 \<Longrightarrow> runs_values sys x b env (v # vs) it r it2"
| ValuesTurn: "enter_with x v env it = (env', it1) \<Longrightarrow> runs sys b env' it1 SIG_NONE it2 \<Longrightarrow> \<not> err it2 \<Longrightarrow>
    runs_values sys x b env vs it2 r it3 \<Longrightarrow> runs_values sys x b env (v # vs) it r it3"


section \<open>What the interpreter does is a run\<close>

lemma alloc_message: "alloc f it = (x, it') \<Longrightarrow> it_error_message it' = it_error_message it"
  by (auto simp: alloc_def split: prod.split_asm)

locale tracked =
  fixes sys :: "'w sys" and ev :: "'w evaluator" and ex :: "'w executor"
  assumes ev_evals: "ev e env it = Some (v, it') \<Longrightarrow> evals sys e env it v it'"
    and ex_runs: "ex s env it = Some (r, it') \<Longrightarrow> runs sys s env it r it'"
begin

lemma exec_seq_runs: "exec_seq ex ss env it = Some (r, it') \<Longrightarrow> runs_seq sys ss env it r it'"
proof (induction ss arbitrary: it)
  case (Cons s ss)
  then show ?case
    by (auto simp: bind_eq_Some_conv split: if_split_asm dest!: ex_runs intro: SeqExit SeqNext)
qed (simp add: SeqNil)

lemma exec_elifs_runs:
  "exec_elifs ev ex es f env it = Some (r, it') \<Longrightarrow> runs_elifs sys es f env it r it'"
proof (induction es arbitrary: it)
  case Nil
  then show ?case
    by (auto split: option.split_asm dest!: ex_runs intro: ElifsNone ElifsElse ElifsTrue ElifsFalse)
next
  case (Cons e es)
  then show ?case
    by (cases e)
      (auto simp: bind_eq_Some_conv split: if_split_asm dest!: ex_runs ev_evals
        intro: ElifsNone ElifsElse ElifsTrue ElifsFalse)
qed

lemma while_loop_runs:
  "while_loop k ev ex c b env it = Some (r, it') \<Longrightarrow> \<not> err it \<Longrightarrow>
   runs sys (S_LOOP_WHILE l c b) env it r it'"
proof (induction k arbitrary: it)
  case (Suc k)
  then show ?case
    by (auto simp: bind_eq_Some_conv split: if_split_asm dest!: ex_runs ev_evals
      intro: WhileStop WhileExit WhileTurn)
qed simp

lemma do_loop_runs:
  "do_loop k ev ex c b env it = Some (r, it') \<Longrightarrow> \<not> err it \<Longrightarrow>
   runs sys (S_DO_WHILE l c b) env it r it'"
proof (induction k arbitrary: it)
  case (Suc k)
  then show ?case
    by (auto simp: bind_eq_Some_conv split: if_split_asm dest!: ex_runs ev_evals
      intro: DoStop DoExit DoTurn)
qed simp

lemma exec_block_runs:
  "exec_block ex ss env it = Some (r, it') \<Longrightarrow> \<not> err it \<Longrightarrow> runs sys (S_BLOCK l ss) env it r it'"
  by (cases "enter_block ss env it")
    (auto simp: exec_block_def enter_block_def Let_def split: prod.split_asm
      dest!: exec_seq_runs intro!: Block [unfolded enter_block_def])

lemma each_value_runs:
  "each_value ex x b env vs it = Some (r, it') \<Longrightarrow> runs_values sys x b env vs it r it'"
proof (induction vs arbitrary: it)
  case (Cons v vs)
  obtain env' it1 where enter: "enter_with x v env it = (env', it1)"
    by fastforce
  from Cons.prems enter show ?case
    by (auto simp: bind_eq_Some_conv enter_with_def Let_def split: if_split_asm prod.split_asm dest!: ex_runs Cons.IH
      intro: ValuesExit [OF enter] ValuesTurn [OF enter])
qed (simp add: ValuesEnd)

lemma condition_selects:
  "(case c of None \<Rightarrow> Some (True, it)
    | Some c \<Rightarrow> do { (v, it) \<leftarrow> ev c env it; Some (value_truthy (it_store it) v, it) }) = Some (run, it') \<Longrightarrow>
   selects sys c env it run it'"
  by (cases c) (auto simp: bind_eq_Some_conv dest!: ev_evals)

lemma each_node_runs:
  "each_node k ev ex x c b env a it = Some (r, it') \<Longrightarrow> runs_nodes sys x c b env a it r it'"
proof (induction k arbitrary: a it)
  case (Suc k)
  show ?case
  proof (cases "Option.bind a (node_at (it_store it))")
    case None
    with Suc.prems show ?thesis
      by (cases a) (auto intro: NodesEnd NodesFreed)
  next
    case (Some node)
    then obtain i item nx where a: "a = Some i" and node: "node_at (it_store it) i = Some (item, nx)"
      by (cases a; cases node) auto
    obtain env' it1 where enter: "enter_with x item env it = (env', it1)"
      by fastforce
    from Suc.prems a node enter obtain run it2 r2 it3 where sel: "selects sys c env' it1 run it2"
      and body: "(if run then ex b env' it2 else Some (SIG_NONE, it2)) = Some (r2, it3)"
      and rest: "(if r2 \<noteq> SIG_NONE then Some (r2, it3)
          else if run \<and> it_had_runtime_error it3 then Some (SIG_NONE, it3)
          else (case Option.bind a (node_at (it_store it3)) of
                  None \<Rightarrow> Some (SIG_NONE, undefined_behaviour UB_freed_node it3)
                | Some (_, next) \<Rightarrow> each_node k ev ex x c b env next it3)) = Some (r, it')"
      by (auto simp: bind_eq_Some_conv enter_with_def Let_def split: prod.split_asm dest!: condition_selects)
    show ?thesis
    proof (cases run)
      case True
      with body have "runs sys b env' it2 r2 it3"
        by (simp add: ex_runs)
      with sel True rest a node enter show ?thesis
        by (auto split: if_split_asm option.split_asm prod.split_asm
          intro: NodesExit NodesTurn NodesTurnFreed Suc.IH)
    next
      case False
      with sel body rest a node enter show ?thesis
        by (auto split: if_split_asm option.split_asm prod.split_asm
          intro: NodesSkip NodesSkipFreed Suc.IH)
    qed
  qed
qed simp

lemma exec_try_runs:
  assumes "exec_try ex t x c env it = Some (r, it')" "\<not> err it"
  shows "runs sys (S_TRY_CATCH l t x c) env it r it'"
proof -
  from assms obtain r1 it1 where "ex t env (no_error it) = Some (r1, it1)"
    by (auto simp: exec_try_def no_error_def Let_def bind_eq_Some_conv)
  note body = this [THEN ex_runs]
  show ?thesis
  proof (cases "thrown r1 \<or> err it1")
    case True
    obtain env' it2 where enter: "enter_with x (caught_message it1) env it1 = (env', it2)"
      by fastforce
    with assms \<open>ex t _ _ = _\<close> True have "ex c env' (no_error it2) = Some (r, it')"
      by (auto simp: exec_try_def no_error_def enter_with_def caught_message_def Let_def
        split: prod.split_asm dest: alloc_message)
    then show ?thesis
      by (rule TryCaught [OF assms(2) body True enter ex_runs])
  next
    case False
    with assms \<open>ex t _ _ = _\<close> body show ?thesis
      by (auto simp: exec_try_def no_error_def intro: TryDone [unfolded no_error_def])
  qed
qed

lemma initial_evals:
  "(case e of None \<Rightarrow> Some (V_VOID, it) | Some e \<Rightarrow> ev e env it) = Some (v, it') \<Longrightarrow>
   evals_opt sys e env it v it'"
  by (cases e) (auto dest: ev_evals)

lemma exec_for_runs:
  assumes "exec_for k ev ex x e c b l env it = Some (r, it')" "\<not> err it"
  shows "runs sys (S_FOR_IN l x e c b) env it r it'"
proof -
  from assms obtain v it1 where v: "ev e env it = Some (v, it1)"
    by (auto simp: exec_for_def bind_eq_Some_conv)
  show ?thesis
  proof (cases "\<exists>a. v = V_LIST a")
    case True
    then obtain a where a: "v = V_LIST a"
      by blast
    with assms v have "each_node k ev ex x c b env (head_at (it_store it1) a) it1 = Some (r, it')"
      by (simp add: exec_for_def)
    from ForList [OF assms(2) ev_evals [OF v [unfolded a]] each_node_runs [OF this]] show ?thesis .
  next
    case False
    with assms v have "it' = rt_error l ''for-in requires a list'' it1" "r = SIG_NONE"
      by (cases v; simp add: exec_for_def)+
    with False assms(2) v show ?thesis
      by (auto intro: ForOther ev_evals)
  qed
qed

lemma exec_iterate_runs:
  assumes "exec_iterate k ev ex e x b l env it = Some (r, it')" "\<not> err it"
  shows "runs sys (S_ITERATE l e x b) env it r it'"
proof -
  from assms obtain v it1 where v: "ev e env it = Some (v, it1)"
    by (auto simp: exec_iterate_def bind_eq_Some_conv)
  consider (list) a where "v = V_LIST a" | (data) a where "v = V_DATA a"
    | (other) "\<forall>a. v \<noteq> V_LIST a \<and> v \<noteq> V_DATA a"
    by blast
  then show ?thesis
  proof cases
    case list
    with assms v show ?thesis
      by (auto simp: exec_iterate_def intro: IterateList ev_evals each_node_runs)
  next
    case data
    with assms v show ?thesis
      by (auto simp: exec_iterate_def intro: IterateData ev_evals each_value_runs)
  next
    case other
    with assms v have "it' = rt_error l ''iterate() requires a list or data collection'' it1" "r = SIG_NONE"
      by (cases v; simp add: exec_iterate_def)+
    with other assms(2) v show ?thesis
      by (auto intro: IterateOther ev_evals)
  qed
qed

lemma exec_body_runs:
  assumes "exec_body n sys ev ex s env it = Some (r, it')" "\<not> err it"
  shows "runs sys s env it r it'"
proof (cases s)
  case (S_VARDECL l x t ini fx)
  with assms show ?thesis
    by (auto simp: exec_body_def bind_eq_Some_conv dest!: initial_evals intro: VarDecl VarDeclErr)
next
  case (S_RETURN l e)
  with assms show ?thesis
    by (auto simp: exec_body_def bind_eq_Some_conv dest!: initial_evals intro: Return)
next
  case (S_IF l c t es f)
  with assms obtain v it1 where "ev c env it = Some (v, it1)"
    and rest: "(if err it1 then Some (SIG_NONE, it1) else if truthy it1 v then ex t env it1
      else exec_elifs ev ex es f env it1) = Some (r, it')"
    by (auto simp: exec_body_def bind_eq_Some_conv)
  from this(1) have "evals sys c env it v it1"
    by (rule ev_evals)
  with S_IF assms(2) rest show ?thesis
    by (auto split: if_split_asm dest: ex_runs exec_elifs_runs intro: IfErr IfTrue IfFalse)
next
  case (S_FOR_IN l x e c b)
  with assms show ?thesis
    by (simp add: exec_body_def exec_for_runs)
next
  case (S_ITERATE l e x b)
  with assms show ?thesis
    by (simp add: exec_body_def exec_iterate_runs)
qed (use assms in \<open>auto simp: exec_body_def bind_eq_Some_conv dest!: ev_evals
  intro: Inert Expr while_loop_runs do_loop_runs exec_block_runs exec_try_runs\<close>)

end

lemma recursion_tracked: "tracked sys (eval_expr n sys) (exec_stmt n sys)"
proof (induction n)
  case 0
  show ?case
    by unfold_locales simp_all
next
  case (Suc n)
  show ?case
  proof
    show "evals sys e env it v it'" if "eval_expr (Suc n) sys e env it = Some (v, it')" for e env it v it'
      unfolding evals_def using that by blast
    show "runs sys s env it r it'" if "exec_stmt (Suc n) sys s env it = Some (r, it')" for s env it r it'
      using that Pending tracked.exec_body_runs [OF Suc.IH] by (auto split: if_split_asm)
  qed
qed

interpretation code: tracked sys "eval_expr n sys" "exec_stmt n sys" for sys n
  by (rule recursion_tracked)

section \<open>What runs, the interpreter does\<close>

text \<open>With more fuel outcomes stay, so fuels that are enough for the parts are enough together.\<close>

lemma settled_Suc: "settled (\<lambda>n. f (Suc n)) r \<longleftrightarrow> settled f r"
  unfolding settled_def by (rule eventually_sequentially_Suc)

lemma settled_const [simp]: "settled (\<lambda>n. Some r) r' \<longleftrightarrow> r' = r"
  by (auto simp: settled_def)

lemma settled_bind:
  assumes "settled f r" "settled (\<lambda>n. g n r) r'"
  shows "settled (\<lambda>n. Option.bind (f n) (g n)) r'"
  using assms unfolding settled_def by eventually_elim simp

lemma settled_unique: "settled f a \<Longrightarrow> settled f b \<Longrightarrow> a = b"
  unfolding settled_def by (drule (1) eventually_conj) (auto dest: eventually_happens)

lemma settled_exists: "settled f a \<Longrightarrow> \<exists>n. f n = Some a"
  unfolding settled_def by (auto dest: eventually_happens)

lemma settled_below: "settled f r \<Longrightarrow> (\<And>n. below (f n) (g n)) \<Longrightarrow> settled g r"
  unfolding settled_def by (erule eventually_mono) (metis below_Some)

lemma up_settled:
  assumes "f n = Some r" "\<And>n m. n \<le> m \<Longrightarrow> below (f n) (f m)"
  shows "settled f r"
  unfolding settled_def eventually_sequentially using assms by (metis below_Some)

lemma evals_settled: "evals sys e env it v it' \<Longrightarrow> settled (\<lambda>n. eval_expr n sys e env it) (v, it')"
  unfolding evals_def by (blast intro: up_settled recursion_below [THEN conjunct1])

lemma exec_settled:
  "exec_stmt n sys s env it = Some (r, it') \<Longrightarrow> settled (\<lambda>n. exec_stmt n sys s env it) (r, it')"
  by (rule up_settled) (simp_all add: recursion_below)

lemma settled_body:
  "\<not> err it \<Longrightarrow>
   settled (\<lambda>n. exec_body n sys (eval_expr n sys) (exec_stmt n sys) s env it) r \<longleftrightarrow>
   settled (\<lambda>n. exec_stmt n sys s env it) r"
  using settled_Suc [of "\<lambda>n. exec_stmt n sys s env it" r] by simp

lemma settled_all:
  assumes "settled f a" "settled g b" "\<And>n. f n = Some a \<Longrightarrow> g n = Some b \<Longrightarrow> h n = Some r"
  shows "settled h r"
  using assms(1,2) unfolding settled_def by eventually_elim (rule assms(3))

lemma settled_all3:
  assumes "settled f a" "settled g b" "settled h c"
    "\<And>n. f n = Some a \<Longrightarrow> g n = Some b \<Longrightarrow> h n = Some c \<Longrightarrow> k n = Some r"
  shows "settled k r"
  using assms(1,2,3) unfolding settled_def by eventually_elim (rule assms(4))

lemma settled_map: "settled f a \<Longrightarrow> (\<And>n. f n = Some a \<Longrightarrow> h n = Some r) \<Longrightarrow> settled h r"
  by (rule settled_all)

lemma initial_settled:
  "evals_opt sys e env it v it' \<Longrightarrow>
   settled (\<lambda>n. case e of None \<Rightarrow> Some (V_VOID, it) | Some e \<Rightarrow> eval_expr n sys e env it) (v, it')"
  by (cases e) (simp_all add: evals_settled)

lemma condition_settled:
  "selects sys c env it run it' \<Longrightarrow>
   settled (\<lambda>n. case c of None \<Rightarrow> Some (True, it)
     | Some c \<Rightarrow> do { (v, it) \<leftarrow> eval_expr n sys c env it; Some (value_truthy (it_store it) v, it) }) (run, it')"
  by (cases c) (auto dest!: evals_settled intro: settled_bind)

lemma loop_up:
  "below (while_loop n (eval_expr n sys) (exec_stmt n sys) c b env it)
     (while_loop n (eval_expr (Suc n) sys) (exec_stmt (Suc n) sys) c b env it)"
  "below (do_loop n (eval_expr n sys) (exec_stmt n sys) c b env it)
     (do_loop n (eval_expr (Suc n) sys) (exec_stmt (Suc n) sys) c b env it)"
  "below (each_node n (eval_expr n sys) (exec_stmt n sys) x cc b env a it)
     (each_node n (eval_expr (Suc n) sys) (exec_stmt (Suc n) sys) x cc b env a it)"
  using fuel.while_loop_below [OF order_refl, where k = 1] fuel.do_loop_below [OF order_refl, where k = 1]
    fuel.each_node_below [OF order_refl, where k = 1]
  by simp_all

lemma while_again:
  assumes "exec_stmt n sys (S_LOOP_WHILE l c b) env it = Some r" "\<not> err it"
  shows "while_loop n (eval_expr n sys) (exec_stmt n sys) c b env it = Some r"
proof (cases n)
  case (Suc m)
  with assms have "while_loop m (eval_expr m sys) (exec_stmt m sys) c b env it = Some r"
    by (simp add: exec_body_def)
  moreover have "below (while_loop m (eval_expr m sys) (exec_stmt m sys) c b env it)
      (while_loop n (eval_expr n sys) (exec_stmt n sys) c b env it)"
    unfolding Suc Suc_eq_plus1 by (rule fuel.while_loop_below) simp
  ultimately show ?thesis
    by (rule below_Some [rotated])
qed (use assms in simp)

lemma do_again:
  assumes "exec_stmt n sys (S_DO_WHILE l c b) env it = Some r" "\<not> err it"
  shows "do_loop n (eval_expr n sys) (exec_stmt n sys) c b env it = Some r"
proof (cases n)
  case (Suc m)
  with assms have "do_loop m (eval_expr m sys) (exec_stmt m sys) c b env it = Some r"
    by (simp add: exec_body_def)
  moreover have "below (do_loop m (eval_expr m sys) (exec_stmt m sys) c b env it)
      (do_loop n (eval_expr n sys) (exec_stmt n sys) c b env it)"
    unfolding Suc Suc_eq_plus1 by (rule fuel.do_loop_below) simp
  ultimately show ?thesis
    by (rule below_Some [rotated])
qed (use assms in simp)

lemma later: "settled f r \<Longrightarrow> settled (\<lambda>n. f (Suc n)) r"
  by (simp add: settled_Suc)

lemma sooner: "settled (\<lambda>n. f (Suc n)) r \<Longrightarrow> settled f r"
  by (simp add: settled_Suc)

lemma stmt_settled:
  "\<not> err it \<Longrightarrow> settled (\<lambda>n. exec_body n sys (eval_expr n sys) (exec_stmt n sys) s env it) r \<Longrightarrow>
   settled (\<lambda>n. exec_stmt n sys s env it) r"
  by (simp add: settled_body)

lemma while_turn:
  assumes "\<not> err it" "settled (\<lambda>n. eval_expr n sys c env it) (v, it1)" "truthy it1 v" "\<not> err it1"
    "settled (\<lambda>n. exec_stmt n sys b env it1) (SIG_NONE, it2)" "\<not> err it2"
    "settled (\<lambda>n. exec_stmt n sys (S_LOOP_WHILE l c b) env it2) r"
  shows "settled (\<lambda>n. exec_stmt n sys (S_LOOP_WHILE l c b) env it) r"
proof -
  have again: "settled (\<lambda>n. while_loop n (eval_expr (Suc n) sys) (exec_stmt (Suc n) sys) c b env it2) r"
    using assms(7) by (rule settled_map) (rule below_Some [OF loop_up(1) while_again [OF _ assms(6)]])
  have "settled (\<lambda>n. while_loop (Suc n) (eval_expr (Suc n) sys) (exec_stmt (Suc n) sys) c b env it) r"
    using later [OF assms(2)] later [OF assms(5)] again
    by (rule settled_all3) (simp only: while_loop.simps bind.bind_lunit assms prod.case simp_thms if_False)
  then have "settled (\<lambda>n. while_loop n (eval_expr n sys) (exec_stmt n sys) c b env it) r"
    by (rule sooner)
  with assms(1) show ?thesis
    by (intro stmt_settled) (simp_all add: exec_body_def)
qed

lemma do_turn:
  assumes "\<not> err it" "settled (\<lambda>n. exec_stmt n sys b env it) (SIG_NONE, it1)" "\<not> err it1"
    "settled (\<lambda>n. eval_expr n sys c env it1) (v, it2)" "truthy it2 v" "\<not> err it2"
    "settled (\<lambda>n. exec_stmt n sys (S_DO_WHILE l c b) env it2) r"
  shows "settled (\<lambda>n. exec_stmt n sys (S_DO_WHILE l c b) env it) r"
proof -
  have again: "settled (\<lambda>n. do_loop n (eval_expr (Suc n) sys) (exec_stmt (Suc n) sys) c b env it2) r"
    using assms(7) by (rule settled_map) (rule below_Some [OF loop_up(2) do_again [OF _ assms(6)]])
  have "settled (\<lambda>n. do_loop (Suc n) (eval_expr (Suc n) sys) (exec_stmt (Suc n) sys) c b env it) r"
    using later [OF assms(2)] later [OF assms(4)] again
    by (rule settled_all3) (simp only: do_loop.simps bind.bind_lunit assms prod.case simp_thms if_False if_True)
  then have "settled (\<lambda>n. do_loop n (eval_expr n sys) (exec_stmt n sys) c b env it) r"
    by (rule sooner)
  with assms(1) show ?thesis
    by (intro stmt_settled) (simp_all add: exec_body_def)
qed

text \<open>What happens in a turn over a node, before the node is read again.\<close>

definition node_body :: "nat \<Rightarrow> 'w sys \<Rightarrow> string \<Rightarrow> val \<Rightarrow> expr option \<Rightarrow> stmt \<Rightarrow> addr \<Rightarrow>
    (bool \<times> ExecResult, 'w) act" where
  "node_body n sys x item c b env it = do {
     let (env, it) = enter_with x item env it;
     (run, it) \<leftarrow> (case c of None \<Rightarrow> Some (True, it)
       | Some c \<Rightarrow> do { (v, it) \<leftarrow> eval_expr n sys c env it; Some (value_truthy (it_store it) v, it) });
     (r, it) \<leftarrow> (if run then exec_stmt n sys b env it else Some (SIG_NONE, it));
     Some ((run, r), it)
   }"

lemma each_node_turn:
  assumes "node_at (it_store it) a = Some (item, nx)"
  shows "each_node (Suc k) (eval_expr n sys) (exec_stmt n sys) x c b env (Some a) it = do {
    ((run, r), it) \<leftarrow> node_body n sys x item c b env it;
    if r \<noteq> SIG_NONE then Some (r, it)
    else if run \<and> err it then Some (SIG_NONE, it)
    else (case node_at (it_store it) a of
            None \<Rightarrow> Some (SIG_NONE, undefined_behaviour UB_freed_node it)
          | Some (_, next) \<Rightarrow> each_node k (eval_expr n sys) (exec_stmt n sys) x c b env next it) }"
  using assms
  by (cases "alloc (env_new (Some env)) it"; cases c)
    (simp_all add: node_body_def enter_with_def Let_def case_prod_unfold
      cong del: if_weak_cong option.case_cong_weak)

lemma body_settled:
  assumes "enter_with x item env it = (env', it1)" "selects sys c env' it1 True it2"
    "settled (\<lambda>n. exec_stmt n sys b env' it2) (r, it3)"
  shows "settled (\<lambda>n. node_body n sys x item c b env it) ((True, r), it3)"
  using condition_settled [OF assms(2)] assms(3)
  by (rule settled_all) (simp add: node_body_def assms(1))

lemma skip_settled:
  assumes "enter_with x item env it = (env', it1)" "selects sys c env' it1 False it2"
  shows "settled (\<lambda>n. node_body n sys x item c b env it) ((False, SIG_NONE), it2)"
  using condition_settled [OF assms(2)] by (rule settled_map) (simp add: node_body_def assms(1))

lemma node_settled:
  assumes "node_at (it_store it) a = Some (item, nx)"
    "settled (\<lambda>n. node_body n sys x item c b env it) ((run, r1), it1)"
    "settled (\<lambda>n. if r1 \<noteq> SIG_NONE then Some (r1, it1)
      else if run \<and> err it1 then Some (SIG_NONE, it1)
      else (case node_at (it_store it1) a of
              None \<Rightarrow> Some (SIG_NONE, undefined_behaviour UB_freed_node it1)
            | Some (_, next) \<Rightarrow> each_node n (eval_expr n sys) (exec_stmt n sys) x c b env next it1)) r"
  shows "settled (\<lambda>n. each_node n (eval_expr n sys) (exec_stmt n sys) x c b env (Some a) it) r"
proof (rule sooner)
  from assms(3) have "settled (\<lambda>n. if r1 \<noteq> SIG_NONE then Some (r1, it1)
      else if run \<and> err it1 then Some (SIG_NONE, it1)
      else (case node_at (it_store it1) a of
              None \<Rightarrow> Some (SIG_NONE, undefined_behaviour UB_freed_node it1)
            | Some (_, next) \<Rightarrow>
                each_node n (eval_expr (Suc n) sys) (exec_stmt (Suc n) sys) x c b env next it1)) r"
    by (rule settled_below) (intro fuel_intros loop_up)
  with later [OF assms(2)]
  show "settled (\<lambda>n. each_node (Suc n) (eval_expr (Suc n) sys) (exec_stmt (Suc n) sys) x c b env (Some a) it) r"
    by (rule settled_all) (simp only: each_node_turn [OF assms(1)] bind.bind_lunit prod.case)
qed

lemma node_end [simp]:
  "settled (\<lambda>n. each_node n (eval_expr n sys) (exec_stmt n sys) x c b env None it) (SIG_NONE, it)"
  by (rule sooner) simp

lemma node_freed:
  "node_at (it_store it) a = None \<Longrightarrow>
   settled (\<lambda>n. each_node n (eval_expr n sys) (exec_stmt n sys) x c b env (Some a) it)
     (SIG_NONE, undefined_behaviour UB_freed_node it)"
  by (rule sooner) simp

lemma exec_inert: "inert s \<Longrightarrow> exec_stmt (Suc n) sys s env it = Some (SIG_NONE, it)"
  by (cases s) (simp_all add: exec_body_def)

text \<open>One lemma per rule: from settled outcomes of the parts to the one of the whole.\<close>

named_theorems settled_intros \<open>settled outcomes, by the rules of the relation\<close>

abbreviation stmt_done :: "'w sys \<Rightarrow> stmt \<Rightarrow> addr \<Rightarrow> 'w interp \<Rightarrow> ExecResult \<Rightarrow> 'w interp \<Rightarrow> bool" where
  "stmt_done sys s env it r it' \<equiv> settled (\<lambda>n. exec_stmt n sys s env it) (r, it')"

abbreviation seq_done :: "'w sys \<Rightarrow> stmt list \<Rightarrow> addr \<Rightarrow> 'w interp \<Rightarrow> ExecResult \<Rightarrow> 'w interp \<Rightarrow> bool" where
  "seq_done sys ss env it r it' \<equiv> settled (\<lambda>n. exec_seq (exec_stmt n sys) ss env it) (r, it')"

abbreviation elifs_done :: "'w sys \<Rightarrow> (expr \<times> stmt) list \<Rightarrow> stmt option \<Rightarrow> addr \<Rightarrow> 'w interp \<Rightarrow>
    ExecResult \<Rightarrow> 'w interp \<Rightarrow> bool" where
  "elifs_done sys es f env it r it' \<equiv>
     settled (\<lambda>n. exec_elifs (eval_expr n sys) (exec_stmt n sys) es f env it) (r, it')"

abbreviation nodes_done :: "'w sys \<Rightarrow> string \<Rightarrow> expr option \<Rightarrow> stmt \<Rightarrow> addr \<Rightarrow> addr option \<Rightarrow> 'w interp \<Rightarrow>
    ExecResult \<Rightarrow> 'w interp \<Rightarrow> bool" where
  "nodes_done sys x c b env a it r it' \<equiv>
     settled (\<lambda>n. each_node n (eval_expr n sys) (exec_stmt n sys) x c b env a it) (r, it')"

abbreviation values_done :: "'w sys \<Rightarrow> string \<Rightarrow> stmt \<Rightarrow> addr \<Rightarrow> val list \<Rightarrow> 'w interp \<Rightarrow>
    ExecResult \<Rightarrow> 'w interp \<Rightarrow> bool" where
  "values_done sys x b env vs it r it' \<equiv> settled (\<lambda>n. each_value (exec_stmt n sys) x b env vs it) (r, it')"

lemma Pending_settled [settled_intros]:
  assumes "err it"
  shows "stmt_done sys s env it SIG_NONE it"
  by (rule sooner) (simp add: assms)

lemma Inert_settled [settled_intros]:
  assumes "inert s"
  shows "stmt_done sys s env it SIG_NONE it"
  by (rule sooner) (simp only: exec_inert [OF assms] settled_const)

lemma VarDecl_settled [settled_intros]:
  assumes "\<not> err it" "evals_opt sys ini env it v it1" "\<not> err it1"
  shows "stmt_done sys (S_VARDECL l x t ini fx) env it SIG_NONE (on_store (env_define env x v fx) it1)"
  using assms
  by (intro stmt_settled settled_map [OF initial_settled [OF assms(2)]]) (simp_all add: exec_body_def)

lemma VarDeclErr_settled [settled_intros]:
  assumes "\<not> err it" "evals_opt sys ini env it v it1" "err it1"
  shows "stmt_done sys (S_VARDECL l x t ini fx) env it SIG_NONE it1"
  using assms
  by (intro stmt_settled settled_map [OF initial_settled [OF assms(2)]]) (simp_all add: exec_body_def)

lemma Expr_settled [settled_intros]:
  assumes "\<not> err it" "evals sys e env it v it1"
  shows "stmt_done sys (S_EXPR l e) env it SIG_NONE it1"
  using assms
  by (intro stmt_settled settled_map [OF evals_settled [OF assms(2)]]) (simp_all add: exec_body_def)

lemma Return_settled [settled_intros]:
  assumes "\<not> err it" "evals_opt sys e env it v it1"
  shows "stmt_done sys (S_RETURN l e) env it (SIG_RETURN v) it1"
  using assms
  by (intro stmt_settled settled_map [OF initial_settled [OF assms(2)]]) (simp_all add: exec_body_def)

lemma IfErr_settled [settled_intros]:
  assumes "\<not> err it" "evals sys c env it v it1" "err it1"
  shows "stmt_done sys (S_IF l c t es f) env it SIG_NONE it1"
  using assms
  by (intro stmt_settled settled_map [OF evals_settled [OF assms(2)]]) (simp_all add: exec_body_def)

lemma IfTrue_settled [settled_intros]:
  assumes "\<not> err it" "evals sys c env it v it1" "\<not> err it1" "truthy it1 v" "stmt_done sys t env it1 r it2"
  shows "stmt_done sys (S_IF l c t es f) env it r it2"
  using assms
  by (intro stmt_settled settled_all [OF evals_settled [OF assms(2)] assms(5)]) (simp_all add: exec_body_def)

lemma IfFalse_settled [settled_intros]:
  assumes "\<not> err it" "evals sys c env it v it1" "\<not> err it1" "\<not> truthy it1 v"
    "elifs_done sys es f env it1 r it2"
  shows "stmt_done sys (S_IF l c t es f) env it r it2"
  using assms
  by (intro stmt_settled settled_all [OF evals_settled [OF assms(2)] assms(5)]) (simp_all add: exec_body_def)

lemma WhileStop_settled [settled_intros]:
  assumes "\<not> err it" "evals sys c env it v it1" "\<not> truthy it1 v \<or> err it1"
  shows "stmt_done sys (S_LOOP_WHILE l c b) env it SIG_NONE it1"
proof -
  have "settled (\<lambda>n. while_loop n (eval_expr n sys) (exec_stmt n sys) c b env it) (SIG_NONE, it1)"
    by (rule sooner, rule settled_map [OF later [OF evals_settled [OF assms(2)]]])
      (use assms(3) in \<open>auto simp del: eval_expr.simps exec_stmt.simps\<close>)
  with assms(1) show ?thesis
    by (intro stmt_settled) (simp_all add: exec_body_def)
qed

lemma WhileExit_settled [settled_intros]:
  assumes "\<not> err it" "evals sys c env it v it1" "truthy it1 v" "\<not> err it1" "stmt_done sys b env it1 r it2"
    "r \<noteq> SIG_NONE \<or> err it2"
  shows "stmt_done sys (S_LOOP_WHILE l c b) env it r it2"
proof -
  have "settled (\<lambda>n. while_loop n (eval_expr n sys) (exec_stmt n sys) c b env it) (r, it2)"
    by (rule sooner,
        rule settled_all [OF later [OF evals_settled [OF assms(2)]] later [OF assms(5)]])
      (use assms(3,4,6) in \<open>auto simp del: eval_expr.simps exec_stmt.simps\<close>)
  with assms(1) show ?thesis
    by (intro stmt_settled) (simp_all add: exec_body_def)
qed

lemma WhileTurn_settled [settled_intros]:
  assumes "\<not> err it" "evals sys c env it v it1" "truthy it1 v" "\<not> err it1"
    "stmt_done sys b env it1 SIG_NONE it2" "\<not> err it2" "stmt_done sys (S_LOOP_WHILE l c b) env it2 r it3"
  shows "stmt_done sys (S_LOOP_WHILE l c b) env it r it3"
  by (rule while_turn [OF assms(1) evals_settled [OF assms(2)] assms(3,4,5,6,7)])

lemma DoExit_settled [settled_intros]:
  assumes "\<not> err it" "stmt_done sys b env it r it1" "r \<noteq> SIG_NONE \<or> err it1"
  shows "stmt_done sys (S_DO_WHILE l c b) env it r it1"
proof -
  have "settled (\<lambda>n. do_loop n (eval_expr n sys) (exec_stmt n sys) c b env it) (r, it1)"
    by (rule sooner, rule settled_map [OF later [OF assms(2)]])
      (use assms(3) in \<open>auto simp del: eval_expr.simps exec_stmt.simps\<close>)
  with assms(1) show ?thesis
    by (intro stmt_settled) (simp_all add: exec_body_def)
qed

lemma DoStop_settled [settled_intros]:
  assumes "\<not> err it" "stmt_done sys b env it SIG_NONE it1" "\<not> err it1" "evals sys c env it1 v it2"
    "\<not> truthy it2 v \<or> err it2"
  shows "stmt_done sys (S_DO_WHILE l c b) env it SIG_NONE it2"
proof -
  have "settled (\<lambda>n. do_loop n (eval_expr n sys) (exec_stmt n sys) c b env it) (SIG_NONE, it2)"
    by (rule sooner, rule settled_all [OF later [OF assms(2)] later [OF evals_settled [OF assms(4)]]])
      (use assms(3,5) in \<open>auto simp del: eval_expr.simps exec_stmt.simps\<close>)
  with assms(1) show ?thesis
    by (intro stmt_settled) (simp_all add: exec_body_def)
qed

lemma DoTurn_settled [settled_intros]:
  assumes "\<not> err it" "stmt_done sys b env it SIG_NONE it1" "\<not> err it1" "evals sys c env it1 v it2"
    "truthy it2 v" "\<not> err it2" "stmt_done sys (S_DO_WHILE l c b) env it2 r it3"
  shows "stmt_done sys (S_DO_WHILE l c b) env it r it3"
  by (rule do_turn [OF assms(1,2,3) evals_settled [OF assms(4)] assms(5,6,7)])

lemma ForList_settled [settled_intros]:
  assumes "\<not> err it" "evals sys e env it (V_LIST a) it1"
    "nodes_done sys x c b env (head_at (it_store it1) a) it1 r it2"
  shows "stmt_done sys (S_FOR_IN l x e c b) env it r it2"
  using assms
  by (intro stmt_settled settled_all [OF evals_settled [OF assms(2)] assms(3)])
    (simp_all add: exec_body_def exec_for_def)

lemma ForOther_settled [settled_intros]:
  assumes "\<not> err it" "evals sys e env it v it1" "\<forall>a. v \<noteq> V_LIST a"
  shows "stmt_done sys (S_FOR_IN l x e c b) env it SIG_NONE (rt_error l ''for-in requires a list'' it1)"
  using assms
  by (intro stmt_settled settled_map [OF evals_settled [OF assms(2)]])
    (simp_all add: exec_body_def exec_for_def split: val.split)

lemma IterateList_settled [settled_intros]:
  assumes "\<not> err it" "evals sys e env it (V_LIST a) it1"
    "nodes_done sys x None b env (head_at (it_store it1) a) it1 r it2"
  shows "stmt_done sys (S_ITERATE l e x b) env it r it2"
  using assms
  by (intro stmt_settled settled_all [OF evals_settled [OF assms(2)] assms(3)])
    (simp_all add: exec_body_def exec_iterate_def)

lemma IterateData_settled [settled_intros]:
  assumes "\<not> err it" "evals sys e env it (V_DATA a) it1"
    "values_done sys x b env (rev (map snd (data_at (it_store it1) a))) it1 r it2"
  shows "stmt_done sys (S_ITERATE l e x b) env it r it2"
  using assms
  by (intro stmt_settled settled_all [OF evals_settled [OF assms(2)] assms(3)])
    (simp_all add: exec_body_def exec_iterate_def)

lemma IterateOther_settled [settled_intros]:
  assumes "\<not> err it" "evals sys e env it v it1" "\<forall>a. v \<noteq> V_LIST a \<and> v \<noteq> V_DATA a"
  shows "stmt_done sys (S_ITERATE l e x b) env it SIG_NONE
    (rt_error l ''iterate() requires a list or data collection'' it1)"
  using assms
  by (intro stmt_settled settled_map [OF evals_settled [OF assms(2)]])
    (simp_all add: exec_body_def exec_iterate_def split: val.split)

lemma Block_settled [settled_intros]:
  assumes "\<not> err it" "enter_block ss env it = (env', it1)" "seq_done sys ss env' it1 r it2"
  shows "stmt_done sys (S_BLOCK l ss) env it r it2"
  using assms
  by (intro stmt_settled settled_map [OF assms(3)])
    (auto simp: exec_body_def exec_block_def enter_block_def Let_def split: prod.split_asm)

lemma TryDone_settled [settled_intros]:
  assumes "\<not> err it" "stmt_done sys t env (no_error it) r it1" "\<not> thrown r" "\<not> err it1"
  shows "stmt_done sys (S_TRY_CATCH l t x c) env it SIG_NONE
    (it1\<lparr>it_had_runtime_error := False, it_error_message := it_error_message it\<rparr>)"
  using assms
  by (intro stmt_settled settled_map [OF assms(2)])
    (simp_all add: exec_body_def exec_try_def no_error_def Let_def)

lemma TryCaught_settled [settled_intros]:
  assumes "\<not> err it" "stmt_done sys t env (no_error it) r it1" "thrown r \<or> err it1"
    "enter_with x (caught_message it1) env it1 = (env', it2)" "stmt_done sys c env' (no_error it2) r' it3"
  shows "stmt_done sys (S_TRY_CATCH l t x c) env it r' it3"
  using assms
  by (intro stmt_settled settled_all [OF assms(2,5)])
    (auto simp: exec_body_def exec_try_def no_error_def enter_with_def caught_message_def Let_def
      split: prod.split_asm dest: alloc_message)

lemma SeqNil_settled [settled_intros]:
  "seq_done sys [] env it SIG_NONE it"
  by simp

lemma SeqExit_settled [settled_intros]:
  assumes "stmt_done sys s env it r it1" "r \<noteq> SIG_NONE \<or> err it1"
  shows "seq_done sys (s # ss) env it r it1"
  by (rule settled_map [OF assms(1)]) (use assms(2) in auto)

lemma SeqNext_settled [settled_intros]:
  assumes "stmt_done sys s env it SIG_NONE it1" "\<not> err it1" "seq_done sys ss env it1 r it2"
  shows "seq_done sys (s # ss) env it r it2"
  by (rule settled_all [OF assms(1,3)]) (use assms(2) in simp)

lemma ElifsNone_settled [settled_intros]:
  "elifs_done sys [] None env it SIG_NONE it"
  by simp

lemma ElifsElse_settled [settled_intros]:
  assumes "stmt_done sys b env it r it1"
  shows "elifs_done sys [] (Some b) env it r it1"
  by (rule settled_map [OF assms(1)]) simp

lemma ElifsTrue_settled [settled_intros]:
  assumes "evals sys c env it v it1" "truthy it1 v" "stmt_done sys b env it1 r it2"
  shows "elifs_done sys ((c, b) # es) f env it r it2"
  by (rule settled_all [OF evals_settled [OF assms(1)] assms(3)]) (use assms(2) in simp)

lemma ElifsFalse_settled [settled_intros]:
  assumes "evals sys c env it v it1" "\<not> truthy it1 v" "elifs_done sys es f env it1 r it2"
  shows "elifs_done sys ((c, b) # es) f env it r it2"
  by (rule settled_all [OF evals_settled [OF assms(1)] assms(3)]) (use assms(2) in simp)

lemma NodesEnd_settled [settled_intros]:
  "nodes_done sys x c b env None it SIG_NONE it"
  by simp

lemma NodesFreed_settled [settled_intros]:
  assumes "node_at (it_store it) a = None"
  shows "nodes_done sys x c b env (Some a) it SIG_NONE (undefined_behaviour UB_freed_node it)"
  using assms
  by (rule node_freed)

lemma NodesTurn_settled [settled_intros]:
  assumes "node_at (it_store it) a = Some (item, nx)" "enter_with x item env it = (env', it1)"
    "selects sys c env' it1 True it2" "stmt_done sys b env' it2 SIG_NONE it3" "\<not> err it3"
    "node_at (it_store it3) a = Some (item', nx')" "nodes_done sys x c b env nx' it3 r it4"
  shows "nodes_done sys x c b env (Some a) it r it4"
proof -
  from assms(7) show ?thesis
    by (intro node_settled [OF assms(1) body_settled [OF assms(2,3,4)]])
      (simp add: assms(5,6))
qed

lemma NodesSkip_settled [settled_intros]:
  assumes "node_at (it_store it) a = Some (item, nx)" "enter_with x item env it = (env', it1)"
    "selects sys c env' it1 False it2" "node_at (it_store it2) a = Some (item', nx')"
    "nodes_done sys x c b env nx' it2 r it3"
  shows "nodes_done sys x c b env (Some a) it r it3"
proof -
  from assms(5) show ?thesis
    by (intro node_settled [OF assms(1) skip_settled [OF assms(2,3)]]) (simp add: assms(4))
qed

lemma NodesExit_settled [settled_intros]:
  assumes "node_at (it_store it) a = Some (item, nx)" "enter_with x item env it = (env', it1)"
    "selects sys c env' it1 True it2" "stmt_done sys b env' it2 r it3" "r \<noteq> SIG_NONE \<or> err it3"
  shows "nodes_done sys x c b env (Some a) it r it3"
  using assms
  by (intro node_settled [OF assms(1) body_settled [OF assms(2,3,4)]])
    (cases "r = SIG_NONE"; simp)

lemma NodesTurnFreed_settled [settled_intros]:
  assumes "node_at (it_store it) a = Some (item, nx)" "enter_with x item env it = (env', it1)"
    "selects sys c env' it1 True it2" "stmt_done sys b env' it2 SIG_NONE it3" "\<not> err it3"
    "node_at (it_store it3) a = None"
  shows "nodes_done sys x c b env (Some a) it SIG_NONE (undefined_behaviour UB_freed_node it3)"
  using assms
  by (intro node_settled [OF assms(1) body_settled [OF assms(2,3,4)]])
    simp

lemma NodesSkipFreed_settled [settled_intros]:
  assumes "node_at (it_store it) a = Some (item, nx)" "enter_with x item env it = (env', it1)"
    "selects sys c env' it1 False it2" "node_at (it_store it2) a = None"
  shows "nodes_done sys x c b env (Some a) it SIG_NONE (undefined_behaviour UB_freed_node it2)"
  using assms
  by (intro node_settled [OF assms(1) skip_settled [OF assms(2,3)]]) simp

lemma ValuesEnd_settled [settled_intros]:
  "values_done sys x b env [] it SIG_NONE it"
  by simp

lemma ValuesExit_settled [settled_intros]:
  assumes "enter_with x v env it = (env', it1)" "stmt_done sys b env' it1 r it2" "r \<noteq> SIG_NONE \<or> err it2"
  shows "values_done sys x b env (v # vs) it r it2"
  by (rule settled_map [OF assms(2)])
    (use assms(1,3) in \<open>auto simp: enter_with_def Let_def split: prod.split_asm\<close>)

lemma ValuesTurn_settled [settled_intros]:
  assumes "enter_with x v env it = (env', it1)" "stmt_done sys b env' it1 SIG_NONE it2" "\<not> err it2"
    "values_done sys x b env vs it2 r it3"
  shows "values_done sys x b env (v # vs) it r it3"
  by (rule settled_all [OF assms(2,4)])
    (use assms(1,3) in \<open>auto simp: enter_with_def Let_def split: prod.split_asm\<close>)

lemma runs_settled:
  "runs sys s env it r it' \<Longrightarrow> stmt_done sys s env it r it'"
  "runs_seq sys ss env it r it' \<Longrightarrow> seq_done sys ss env it r it'"
  "runs_elifs sys es f env it r it' \<Longrightarrow> elifs_done sys es f env it r it'"
  "runs_nodes sys x c b env a it r it' \<Longrightarrow> nodes_done sys x c b env a it r it'"
  "runs_values sys x b env vs it r it' \<Longrightarrow> values_done sys x b env vs it r it'"
  by (induction rule: runs_runs_seq_runs_elifs_runs_nodes_runs_values.inducts)
    (rule settled_intros; assumption)+

section \<open>The interpreter and the relation\<close>

lemma exec_runs: "exec_stmt n sys s env it = Some (r, it') \<Longrightarrow> runs sys s env it r it'"
  by (rule code.ex_runs)

text \<open>
  C11. Statements mean what the rules of \<open>runs\<close> say: \<^verbatim>\<open>exec_stmt\<close> has a result with some fuel
  exactly if there is a derivation of it, and then it has this result with every fuel from some
  number on.
\<close>

theorem exec_stmt_runs:
  "(runs sys s env it r it' \<longleftrightarrow> (\<exists>n. exec_stmt n sys s env it = Some (r, it'))) \<and>
   (runs sys s env it r it' \<longleftrightarrow> (\<exists>n0. \<forall>n \<ge> n0. exec_stmt n sys s env it = Some (r, it')))"
proof -
  have "\<exists>n0. \<forall>n \<ge> n0. exec_stmt n sys s env it = Some (r, it')" if "runs sys s env it r it'"
    using runs_settled(1) [OF that] by (simp add: settled_def eventually_sequentially)
  moreover have "runs sys s env it r it'" if "exec_stmt n sys s env it = Some (r, it')" for n
    using that by (rule exec_runs)
  ultimately show ?thesis
    by blast
qed

text \<open>\<^verbatim>\<open>var b: bool = true; while (b) { b = false; }\<close>\<close>

definition one_turn :: stmt where
  "one_turn = S_BLOCK 1
     [S_VARDECL 1 ''b'' (type_new T_BOOL) (Some (E_LIT_BOOL 1 True)) False,
      S_LOOP_WHILE 2 (E_IDENT 2 ''b'')
        (S_BLOCK 2 [S_EXPR 3 (E_ASSIGN 3 (E_IDENT 3 ''b'') (E_LIT_BOOL 3 False) TOK_ASSIGN)])]"

lemma exec_stmt_runs_witness:
  "\<exists>it'. runs offline one_turn 0 (interp_init [] ()) SIG_NONE it' \<and>
     exec_stmt 9 offline one_turn 0 (interp_init [] ()) = Some (SIG_NONE, it')"
proof -
  have "map_option fst (exec_stmt 9 offline one_turn 0 (interp_init [] ())) = Some SIG_NONE"
    by code_simp
  then obtain it' where "exec_stmt 9 offline one_turn 0 (interp_init [] ()) = Some (SIG_NONE, it')"
    by auto
  with exec_stmt_runs [of offline one_turn 0 "interp_init [] ()" SIG_NONE it'] show ?thesis
    by blast
qed

text \<open>
  C12. A \<^verbatim>\<open>return\<close> in a \<^verbatim>\<open>try\<close> block does not return: if the block ends in a return and no
  error is pending then the try statement ends normally, so that the statements behind it run,
  and this is its only result.
\<close>

theorem try_drops_return:
  assumes "\<not> it_had_runtime_error it" "exec_stmt k sys t env (no_error it) = Some (SIG_RETURN v, it1)"
    "\<not> it_had_runtime_error it1"
  shows "(\<exists>n it'. exec_stmt n sys (S_TRY_CATCH l t x c) env it = Some (SIG_NONE, it')) \<and>
    (\<forall>n r it'. exec_stmt n sys (S_TRY_CATCH l t x c) env it = Some (r, it') \<longrightarrow> r = SIG_NONE)"
proof -
  let ?s = "S_TRY_CATCH l t x c"
  from TryDone [OF assms(1) exec_runs [OF assms(2)] _ assms(3)]
  obtain it' where ends: "stmt_done sys ?s env it SIG_NONE it'"
    using runs_settled(1) by fastforce
  have "r = SIG_NONE" if "exec_stmt n sys ?s env it = Some (r, it2)" for n r it2
    using settled_unique [OF ends exec_settled [OF that]] by simp
  with settled_exists [OF ends] show ?thesis
    by blast
qed

text \<open>\<^verbatim>\<open>{ try { return 7; } catch (e) { } return 9; }\<close>\<close>

definition return_7 :: stmt where
  "return_7 = S_BLOCK 1 [S_RETURN 1 (Some (E_LIT_NUM 1 7))]"

lemma try_drops_return_witness:
  "map_option fst (exec_stmt 9 offline return_7 0 (no_error (interp_init [] ()))) =
     Some (SIG_RETURN (V_NUM 7)) \<and>
   (\<exists>n it'. exec_stmt n offline (S_TRY_CATCH 1 return_7 ''e'' (S_BLOCK 1 [])) 0 (interp_init [] ()) =
      Some (SIG_NONE, it')) \<and>
   map_option fst (exec_stmt 9 offline
     (S_BLOCK 1 [S_TRY_CATCH 1 return_7 ''e'' (S_BLOCK 1 []), S_RETURN 2 (Some (E_LIT_NUM 2 9))])
     0 (interp_init [] ())) = Some (SIG_RETURN (V_NUM 9))"
proof (intro conjI)
  show body: "map_option fst (exec_stmt 9 offline return_7 0 (no_error (interp_init [] ()))) =
      Some (SIG_RETURN (V_NUM 7))"
    by code_simp
  have "map_option (err \<circ> snd) (exec_stmt 9 offline return_7 0 (no_error (interp_init [] ()))) = Some False"
    "\<not> err (interp_init [] ())"
    by code_simp+
  with body obtain it1 where "exec_stmt 9 offline return_7 0 (no_error (interp_init [] ())) =
      Some (SIG_RETURN (V_NUM 7), it1)" "\<not> err it1"
    by auto
  from try_drops_return [OF \<open>\<not> err (interp_init [] ())\<close> this]
  show "\<exists>n it'. exec_stmt n offline (S_TRY_CATCH 1 return_7 ''e'' (S_BLOCK 1 [])) 0 (interp_init [] ()) =
      Some (SIG_NONE, it')"
    by blast
  show "map_option fst (exec_stmt 9 offline
     (S_BLOCK 1 [S_TRY_CATCH 1 return_7 ''e'' (S_BLOCK 1 []), S_RETURN 2 (Some (E_LIT_NUM 2 9))])
     0 (interp_init [] ())) = Some (SIG_RETURN (V_NUM 9))"
    by code_simp
qed

end
