(* ===== verification/Netutil.thy ===== *)
theory Netutil
  imports Prelude
begin

text \<open>
  Buffers and blocking input and output on sockets: \<^verbatim>\<open>src/runtime/netutil.c\<close>.  What the operating
  system returns from \<^verbatim>\<open>recv\<close> and \<^verbatim>\<open>send\<close> is a script, a list of results; a procedure that needs more
  than the script holds waits for ever, which is \<open>None\<close>.  Waiting for a socket, by suspending the
  coroutine or by sleeping, ends in the next result.  The calls that open sockets are in \<open>sys\<close> of
  \<open>Interp\<close>.
\<close>

section \<open>Buffers\<close>

record Buf =
  b_data :: string
  b_cap :: nat

abbreviation b_len :: "Buf \<Rightarrow> nat" where
  "b_len b \<equiv> length (b_data b)"

definition buf_init :: Buf where
  "buf_init = \<lparr>b_data = [], b_cap = 256\<rparr>"

text \<open>\<^verbatim>\<open>while (b->len + n + 1 > b->cap) b->cap *= 2\<close>\<close>

function double_cap :: "nat \<Rightarrow> nat \<Rightarrow> nat" where
  "double_cap need cap = (if cap < need \<and> 0 < cap then double_cap need (cap * 2) else cap)"
  by pat_completeness auto
termination
  by (relation "measure (\<lambda>(need, cap). need - cap)") auto

declare double_cap.simps [simp del]

definition buf_append :: "string \<Rightarrow> Buf \<Rightarrow> Buf" where
  "buf_append data b =
     \<lparr>b_data = b_data b @ data, b_cap = double_cap (b_len b + length data + 1) (b_cap b)\<rparr>"

text \<open>The data and the terminating NUL fit.\<close>

definition buf_ok :: "Buf \<Rightarrow> bool" where
  "buf_ok b \<longleftrightarrow> b_len b < b_cap b"

lemma double_cap_enough: "0 < cap \<Longrightarrow> need \<le> double_cap need cap \<and> cap \<le> double_cap need cap"
proof (induction need cap rule: double_cap.induct)
  case (1 need cap)
  show ?case
  proof (cases "cap < need")
    case True
    then show ?thesis using 1 by (simp add: double_cap.simps [of need cap])
  qed (simp add: double_cap.simps [of need cap])
qed

lemma buf_init_ok: "buf_ok buf_init"
  by (simp add: buf_ok_def buf_init_def)

lemma buf_append_ok: "buf_ok b \<Longrightarrow> buf_ok (buf_append data b)"
  using double_cap_enough [of "b_cap b" "b_len b + length data + 1"] by (simp add: buf_ok_def buf_append_def)

section \<open>Reading\<close>

datatype recv_result = Received string | Peer_closed | Recv_again | Recv_interrupted | Recv_failed

fun net_read_some :: "recv_result list \<Rightarrow> Buf \<Rightarrow> (int \<times> Buf \<times> recv_result list) option" where
  "net_read_some [] b = None"
| "net_read_some (Received s # rs) b =
     (if s = [] then Some (0, b, rs) else Some (int (length s), buf_append s b, rs))"
| "net_read_some (Peer_closed # rs) b = Some (0, b, rs)"
| "net_read_some (Recv_again # rs) b = net_read_some rs b"
| "net_read_some (Recv_interrupted # rs) b = net_read_some rs b"
| "net_read_some (Recv_failed # rs) b = Some (-1, b, rs)"

text \<open>The bytes that arrive before the stream ends.\<close>

fun arriving :: "recv_result list \<Rightarrow> string" where
  "arriving [] = []"
| "arriving (Received s # rs) = (if s = [] then [] else s @ arriving rs)"
| "arriving (Peer_closed # rs) = []"
| "arriving (Recv_failed # rs) = []"
| "arriving (_ # rs) = arriving rs"

lemma net_read_some_shorter:
  "net_read_some rs b = Some (n, b', rs') \<Longrightarrow> length rs' < length rs"
  by (induction rs b rule: net_read_some.induct) (auto split: if_splits)

lemma net_read_some_data:
  "net_read_some rs b = Some (n, b', rs') \<Longrightarrow>
    (if 0 < n then \<exists>s. length s = nat n \<and> b' = buf_append s b \<and> arriving rs = s @ arriving rs'
     else b' = b \<and> arriving rs = [])"
  by (induction rs b rule: net_read_some.induct) (auto split: if_splits)

text \<open>The script of \<^verbatim>\<open>recv\<close> tells at some point that no more data comes.\<close>

fun ends :: "recv_result list \<Rightarrow> bool" where
  "ends [] = False"
| "ends (Received s # rs) = (s = [] \<or> ends rs)"
| "ends (Peer_closed # rs) = True"
| "ends (Recv_failed # rs) = True"
| "ends (_ # rs) = ends rs"

lemma net_read_some_ends:
  "ends rs \<Longrightarrow> \<exists>n b' rs'. net_read_some rs b = Some (n, b', rs') \<and> (0 < n \<longrightarrow> ends rs')"
  by (induction rs b rule: net_read_some.induct) auto

lemma net_read_some_arrives:
  "arriving rs \<noteq> [] \<Longrightarrow> \<exists>n b' rs'. net_read_some rs b = Some (n, b', rs') \<and> 0 < n"
  by (induction rs b rule: net_read_some.induct) (auto split: if_splits)

lemma net_read_some_pieces:
  "net_read_some rs b = Some (n, b', rs') \<Longrightarrow> 0 < n \<Longrightarrow> b_data b' @ arriving rs' = b_data b @ arriving rs"
  using net_read_some_data by (fastforce simp: buf_append_def)

section \<open>Writing\<close>

datatype send_result = Sent nat | Send_again | Send_interrupted | Send_failed

text \<open>
  \<^verbatim>\<open>send\<close> takes at most what it is given; \<^verbatim>\<open>sent\<close> is what has been taken.  A result \<open>Sent 0\<close> of
  a call with data left is not an error of \<^verbatim>\<open>errno\<close>, and falls through to \<^verbatim>\<open>return -1\<close>.
\<close>

fun net_write_all :: "send_result list \<Rightarrow> string \<Rightarrow> string \<Rightarrow> (int \<times> string \<times> send_result list) option" where
  "net_write_all rs sent [] = Some (0, sent, rs)"
| "net_write_all [] sent data = None"
| "net_write_all (Sent n # rs) sent data =
     (if n = 0 then Some (-1, sent, rs) else net_write_all rs (sent @ take n data) (drop n data))"
| "net_write_all (Send_again # rs) sent data = net_write_all rs sent data"
| "net_write_all (Send_interrupted # rs) sent data = net_write_all rs sent data"
| "net_write_all (Send_failed # rs) sent data = Some (-1, sent, rs)"

lemma net_write_all_prefix:
  "net_write_all rs sent data = Some (rc, sent', rs') \<Longrightarrow>
    (\<exists>done. sent' = sent @ done \<and> prefix done data \<and> (rc = 0 \<longleftrightarrow> done = data)) \<and> (rc = 0 \<or> rc = -1)"
proof (induction rs sent data rule: net_write_all.induct)
  case (3 n rs sent c data)
  show ?case
  proof (cases n)
    case 0
    with 3 show ?thesis by auto
  next
    case (Suc k)
    with 3 obtain "done" where d: "sent' = (sent @ take n (c # data)) @ done" "prefix done (drop n (c # data))"
      "rc = 0 \<longleftrightarrow> done = drop n (c # data)" "rc = 0 \<or> rc = -1" by auto
    have "prefix (take n xs @ done) xs \<longleftrightarrow> prefix done (drop n xs)" "take n xs @ done = xs \<longleftrightarrow> done = drop n xs"
      for xs :: string
      using same_prefix_prefix [of "take n xs" "done" "drop n xs"] same_append_eq [of "take n xs" "done" "drop n xs"]
      by simp_all
    with d show ?thesis by (intro conjI exI [of _ "take n (c # data) @ done"]) auto
  qed
qed auto

end
