(* ===== verification/Base64.thy ===== *)
theory Base64
  imports Prelude
begin

unbundle bit_operations_syntax

text \<open>
  Base64: \<^verbatim>\<open>src/runtime/base64.c\<close>.  An \<^verbatim>\<open>unsigned char\<close> is an 8-bit word, a \<^verbatim>\<open>uint32_t\<close> a 32-bit
  word.  The index \<open>i\<close> of the C loop is the number of bytes taken off the list, and \<open>j\<close> the number of
  characters written.  A decoder after RFC 4648, which the program does not have, is the
  specification that the encoder is checked against.
\<close>

type_synonym byte = "8 word"
type_synonym u32 = "32 word"

definition TABLE :: string where
  "TABLE = ''ABCDEFGHIJKLMNOPQRSTUVWXYZabcdefghijklmnopqrstuvwxyz0123456789+/''"

definition PAD :: char where "PAD = CHR ''=''"

text \<open>\<^verbatim>\<open>TABLE[(n >> k) & 0x3F]\<close>\<close>

definition sextet :: "u32 \<Rightarrow> nat \<Rightarrow> char" where
  "sextet n k = TABLE ! unat (drop_bit k n AND 0x3F)"

definition group_of :: "byte \<Rightarrow> byte \<Rightarrow> byte \<Rightarrow> u32" where
  "group_of a b c = (push_bit 16 (ucast a) OR push_bit 8 (ucast b)) OR ucast c"

definition group_of_two :: "byte \<Rightarrow> byte \<Rightarrow> u32" where
  "group_of_two a b = push_bit 16 (ucast a) OR push_bit 8 (ucast b)"

definition group_of_one :: "byte \<Rightarrow> u32" where
  "group_of_one a = push_bit 16 (ucast a)"

fun base64_encode :: "byte list \<Rightarrow> string" where
  "base64_encode (a # b # c # ds) =
     (let n = group_of a b c in [sextet n 18, sextet n 12, sextet n 6, sextet n 0] @ base64_encode ds)"
| "base64_encode [a] = (let n = group_of_one a in [sextet n 18, sextet n 12, PAD, PAD])"
| "base64_encode [a, b] =
     (let n = group_of_two a b in [sextet n 18, sextet n 12, sextet n 6, PAD])"
| "base64_encode [] = []"

section \<open>The decoder of the specification\<close>

definition sextet_value :: "char \<Rightarrow> u32" where
  "sextet_value c = word_of_nat (length (takeWhile (\<lambda>d. d \<noteq> c) TABLE))"

definition ungroup :: "char \<Rightarrow> char \<Rightarrow> char \<Rightarrow> char \<Rightarrow> byte list" where
  "ungroup p q r s =
     (let n = push_bit 18 (sextet_value p) OR push_bit 12 (sextet_value q) OR
              push_bit 6 (sextet_value r) OR sextet_value s
      in [ucast (drop_bit 16 n), ucast (drop_bit 8 n), ucast n])"

fun base64_decode :: "string \<Rightarrow> byte list option" where
  "base64_decode [] = Some []"
| "base64_decode (p # q # r # s # cs) =
     (if s \<noteq> PAD then map_option (\<lambda>bs. ungroup p q r s @ bs) (base64_decode cs)
      else if cs \<noteq> [] then None
      else if r \<noteq> PAD then Some (take 2 (ungroup p q r (TABLE ! 0)))
      else Some (take 1 (ungroup p q (TABLE ! 0) (TABLE ! 0))))"
| "base64_decode _ = None"

section \<open>Facts\<close>

lemma table_length: "length TABLE = 64"
  by (simp add: TABLE_def)

lemma table_distinct: "distinct TABLE"
  by code_simp

lemma table_pad: "PAD \<notin> set TABLE"
  by (simp add: TABLE_def PAD_def)

lemma takeWhile_nth: "distinct xs \<Longrightarrow> i < length xs \<Longrightarrow> length (takeWhile (\<lambda>d. d \<noteq> xs ! i) xs) = i"
proof (induction xs arbitrary: i)
  case (Cons x xs)
  then show ?case by (cases i) auto
qed simp

lemma sextet_index: "unat (w AND 0x3F :: u32) < 64"
  using word_and_le1 [of w "0x3F"] by (simp add: word_le_nat_alt)

lemma sextet_not_pad: "sextet n k \<noteq> PAD"
  using table_pad nth_mem [of _ TABLE] sextet_index [of "drop_bit k n"]
  unfolding sextet_def table_length by metis

lemma sextet_value: "sextet_value (sextet n k) = take_bit 6 (drop_bit k n)"
  using sextet_index [of "drop_bit k n"]
  by (simp add: take_bit_eq_mask mask_eq_exp_minus_1 sextet_value_def sextet_def takeWhile_nth table_distinct table_length)

lemma sextet_value_zero: "sextet_value (TABLE ! 0) = 0"
  by (simp add: sextet_value_def TABLE_def)

lemmas ungroup_simps = ungroup_def Let_def sextet_value sextet_value_zero drop_bit_0 bit_simps

lemma ungroup_three:
  "ungroup (sextet n 18) (sextet n 12) (sextet n 6) (sextet n 0) =
    [ucast (drop_bit 16 n), ucast (drop_bit 8 n), ucast n]"
  by (simp add: ungroup_simps) (intro conjI bit_word_eqI; auto simp: bit_simps)

lemma ungroup_two:
  "take 2 (ungroup (sextet n 18) (sextet n 12) (sextet n 6) (TABLE ! 0)) =
    [ucast (drop_bit 16 n), ucast (drop_bit 8 n)]"
  by (simp add: ungroup_simps) (intro conjI bit_word_eqI; auto simp: bit_simps)

lemma ungroup_one:
  "take 1 (ungroup (sextet n 18) (sextet n 12) (TABLE ! 0) (TABLE ! 0)) = [ucast (drop_bit 16 n)]"
  by (simp add: ungroup_simps) (intro bit_word_eqI; auto simp: bit_simps)

lemma group_bytes:
  "ucast (drop_bit 16 (group_of a b c)) = a" "ucast (drop_bit 8 (group_of a b c)) = b"
  "ucast (group_of a b c) = c"
  unfolding group_of_def by (rule bit_word_eqI; auto simp: bit_simps dest: bit_imp_le_length)+

lemma group_two_bytes:
  "ucast (drop_bit 16 (group_of_two a b)) = a" "ucast (drop_bit 8 (group_of_two a b)) = b"
  unfolding group_of_two_def by (rule bit_word_eqI; auto simp: bit_simps dest: bit_imp_le_length)+

lemma group_one_byte: "ucast (drop_bit 16 (group_of_one a)) = a"
  unfolding group_of_one_def by (rule bit_word_eqI) (auto simp: bit_simps)

lemmas decode_simps = Let_def sextet_not_pad ungroup_three ungroup_two ungroup_one [simplified]
  group_bytes group_two_bytes group_one_byte

lemma encode_nonempty: "base64_encode (a # bs) \<noteq> []"
  by (cases "(a # bs)" rule: base64_encode.cases) (auto simp: Let_def)

section \<open>Properties\<close>

text \<open>
  C23. The text that \<^verbatim>\<open>base64_encode\<close> writes decodes, by the rules of RFC 4648, to the bytes it was
  given, and it has exactly the length that its buffer is allocated for, less the terminating NUL.
\<close>

theorem base64_roundtrip:
  "base64_decode (base64_encode bs) = Some bs \<and> length (base64_encode bs) = 4 * ((length bs + 2) div 3)"
proof
  show "base64_decode (base64_encode bs) = Some bs"
    by (induction bs rule: base64_encode.induct) (simp_all add: decode_simps)
  show "length (base64_encode bs) = 4 * ((length bs + 2) div 3)"
    by (induction bs rule: base64_encode.induct) (simp_all add: Let_def, presburger)
qed

end
