(* ===== verification/Sha1.thy ===== *)
theory Sha1
  imports Base64
begin

text \<open>
  SHA-1: \<^verbatim>\<open>src/runtime/sha1.c\<close> and \<^verbatim>\<open>include/sha1.h\<close>.  The context is a record with the fields of
  the struct; its buffer always has 64 bytes, of which the first \<open>ctx_buflen\<close> are in use.  The
  digest does not depend on how the input is cut into calls of \<^verbatim>\<open>sha1_update\<close>: it is the one of
  the padded message, block by block.
\<close>

record SHA1_CTX =
  ctx_state :: "u32 list"
  ctx_bitlen :: "64 word"
  ctx_buffer :: "byte list"
  ctx_buflen :: nat

section \<open>The compression of one block\<close>

definition ROL :: "u32 \<Rightarrow> nat \<Rightarrow> u32" where
  "ROL v s = push_bit s v OR drop_bit (32 - s) v"

definition be32 :: "byte \<Rightarrow> byte \<Rightarrow> byte \<Rightarrow> byte \<Rightarrow> u32" where
  "be32 a b c d = push_bit 24 (ucast a) OR push_bit 16 (ucast b) OR push_bit 8 (ucast c) OR ucast d"

definition block_words :: "byte list \<Rightarrow> u32 list" where
  "block_words block =
     map (\<lambda>i. be32 (block ! (i * 4)) (block ! (i * 4 + 1)) (block ! (i * 4 + 2)) (block ! (i * 4 + 3))) [0..<16]"

definition schedule_word :: "u32 list \<Rightarrow> nat \<Rightarrow> u32 list" where
  "schedule_word w i = w @ [ROL (w ! (i - 3) XOR w ! (i - 8) XOR w ! (i - 14) XOR w ! (i - 16)) 1]"

definition sha1_schedule :: "byte list \<Rightarrow> u32 list" where
  "sha1_schedule block = foldl schedule_word (block_words block) [16..<80]"

definition round_fk :: "nat \<Rightarrow> u32 \<Rightarrow> u32 \<Rightarrow> u32 \<Rightarrow> u32 \<times> u32" where
  "round_fk i b c d =
     (if i < 20 then ((b AND c) OR (NOT b AND d), 0x5A827999)
      else if i < 40 then (b XOR c XOR d, 0x6ED9EBA1)
      else if i < 60 then ((b AND c) OR (b AND d) OR (c AND d), 0x8F1BBCDC)
      else (b XOR c XOR d, 0xCA62C1D6))"

fun sha1_round :: "u32 list \<Rightarrow> u32 \<times> u32 \<times> u32 \<times> u32 \<times> u32 \<Rightarrow> nat \<Rightarrow> u32 \<times> u32 \<times> u32 \<times> u32 \<times> u32" where
  "sha1_round w (a, b, c, d, e) i =
     (let (f, k) = round_fk i b c d;
          temp = ROL a 5 + f + e + k + w ! i
      in (temp, a, ROL b 30, c, d))"

definition sha1_transform :: "u32 list \<Rightarrow> byte list \<Rightarrow> u32 list" where
  "sha1_transform state block =
     (let (a, b, c, d, e) =
        foldl (sha1_round (sha1_schedule block)) (state ! 0, state ! 1, state ! 2, state ! 3, state ! 4) [0..<80]
      in [state ! 0 + a, state ! 1 + b, state ! 2 + c, state ! 3 + d, state ! 4 + e])"

section \<open>The context\<close>

definition sha1_init :: SHA1_CTX where
  "sha1_init = \<lparr>ctx_state = [0x67452301, 0xEFCDAB89, 0x98BADCFE, 0x10325476, 0xC3D2E1F0],
                ctx_bitlen = 0, ctx_buffer = replicate 64 0, ctx_buflen = 0\<rparr>"

text \<open>\<^verbatim>\<open>memcpy\<close> into an array at an offset.\<close>

definition memcpy :: "'a list \<Rightarrow> nat \<Rightarrow> 'a list \<Rightarrow> 'a list" where
  "memcpy dst off src = take off dst @ src @ drop (off + length src) dst"

text \<open>One turn of the loop of \<^verbatim>\<open>sha1_update\<close>, with the bytes that it takes.\<close>

definition absorb :: "byte list \<Rightarrow> SHA1_CTX \<Rightarrow> SHA1_CTX" where
  "absorb chunk ctx =
     (let ctx = ctx\<lparr>ctx_buffer := memcpy (ctx_buffer ctx) (ctx_buflen ctx) chunk,
                    ctx_buflen := ctx_buflen ctx + length chunk\<rparr>
      in if ctx_buflen ctx = 64
         then ctx\<lparr>ctx_state := sha1_transform (ctx_state ctx) (ctx_buffer ctx), ctx_buflen := 0\<rparr>
         else ctx)"

text \<open>
  The test for \<open>k = 0\<close> is for the termination of the definition only: between two turns the buffer is
  never full (\<open>ctx_ok\<close>).
\<close>

function absorb_all :: "byte list \<Rightarrow> SHA1_CTX \<Rightarrow> SHA1_CTX" where
  "absorb_all data ctx =
     (let k = min (64 - ctx_buflen ctx) (length data)
      in if k = 0 then ctx else absorb_all (drop k data) (absorb (take k data) ctx))"
  by pat_completeness auto
termination
  by (relation "measure (\<lambda>(data, ctx). length data)") auto

declare absorb_all.simps [simp del]

definition sha1_update :: "byte list \<Rightarrow> SHA1_CTX \<Rightarrow> SHA1_CTX" where
  "sha1_update data ctx =
     absorb_all data (ctx\<lparr>ctx_bitlen := ctx_bitlen ctx + word_of_nat (length data) * 8\<rparr>)"

text \<open>\<^verbatim>\<open>while (ctx->buflen != 56) sha1_update(ctx, &zero, 1)\<close>, at most \<open>n\<close> times.\<close>

fun pad_zeros :: "nat \<Rightarrow> SHA1_CTX \<Rightarrow> SHA1_CTX" where
  "pad_zeros 0 ctx = ctx"
| "pad_zeros (Suc n) ctx = (if ctx_buflen ctx = 56 then ctx else pad_zeros n (sha1_update [0] ctx))"

definition length_bytes :: "64 word \<Rightarrow> byte list" where
  "length_bytes bitlen = map (\<lambda>i. ucast (drop_bit (56 - 8 * i) bitlen)) [0..<8]"

definition state_bytes :: "u32 list \<Rightarrow> byte list" where
  "state_bytes state =
     concat (map (\<lambda>i. [ucast (drop_bit 24 (state ! i)), ucast (drop_bit 16 (state ! i)),
                       ucast (drop_bit 8 (state ! i)), ucast (state ! i)]) [0..<5])"

definition sha1_final :: "SHA1_CTX \<Rightarrow> byte list" where
  "sha1_final ctx =
     (let bitlen = ctx_bitlen ctx;
          ctx = sha1_update [0x80] ctx;
          ctx = pad_zeros 64 ctx;
          buffer = memcpy (ctx_buffer ctx) (ctx_buflen ctx) (length_bytes bitlen)
      in state_bytes (sha1_transform (ctx_state ctx) buffer))"

definition sha1 :: "byte list \<Rightarrow> byte list" where
  "sha1 data = sha1_final (sha1_update data sha1_init)"

section \<open>The standard\<close>

text \<open>
  FIPS 180-4: the message schedule, the functions and the rounds as the standard has them, the padded
  message, and its division into blocks.
\<close>

fun message_word :: "byte list \<Rightarrow> nat \<Rightarrow> u32" where
  "message_word block t =
     (if t < 16 then be32 (block ! (t * 4)) (block ! (t * 4 + 1)) (block ! (t * 4 + 2)) (block ! (t * 4 + 3))
      else word_rotl 1 (message_word block (t - 3) XOR message_word block (t - 8) XOR
                        message_word block (t - 14) XOR message_word block (t - 16)))"

declare message_word.simps [simp del]

definition fips_f :: "nat \<Rightarrow> u32 \<Rightarrow> u32 \<Rightarrow> u32 \<Rightarrow> u32" where
  "fips_f t x y z =
     (if t \<le> 19 then (x AND y) XOR (NOT x AND z)
      else if 40 \<le> t \<and> t \<le> 59 then (x AND y) XOR (x AND z) XOR (y AND z)
      else x XOR y XOR z)"

definition fips_K :: "nat \<Rightarrow> u32" where
  "fips_K t = (if t \<le> 19 then 0x5A827999 else if t \<le> 39 then 0x6ED9EBA1 else if t \<le> 59 then 0x8F1BBCDC else 0xCA62C1D6)"

fun fips_rounds :: "byte list \<Rightarrow> nat \<Rightarrow> u32 \<times> u32 \<times> u32 \<times> u32 \<times> u32 \<Rightarrow> u32 \<times> u32 \<times> u32 \<times> u32 \<times> u32" where
  "fips_rounds block 0 v = v"
| "fips_rounds block (Suc t) v =
     (case fips_rounds block t v of
        (a, b, c, d, e) \<Rightarrow>
          (word_rotl 5 a + fips_f t b c d + e + fips_K t + message_word block t, a, word_rotl 30 b, c, d))"

definition fips_compress :: "u32 list \<Rightarrow> byte list \<Rightarrow> u32 list" where
  "fips_compress h block =
     (case fips_rounds block 80 (h ! 0, h ! 1, h ! 2, h ! 3, h ! 4) of
        (a, b, c, d, e) \<Rightarrow> [a + h ! 0, b + h ! 1, c + h ! 2, d + h ! 3, e + h ! 4])"

fun blocks :: "byte list \<Rightarrow> byte list list" where
  "blocks bs = (if length bs < 64 then [] else take 64 bs # blocks (drop 64 bs))"

fun rest :: "byte list \<Rightarrow> byte list" where
  "rest bs = (if length bs < 64 then bs else rest (drop 64 bs))"

declare blocks.simps [simp del] rest.simps [simp del]

definition padded :: "byte list \<Rightarrow> byte list" where
  "padded m = m @ [0x80] @ replicate ((119 - length m mod 64) mod 64) 0 @ length_bytes (word_of_nat (8 * length m))"

definition fips_sha1 :: "byte list \<Rightarrow> byte list" where
  "fips_sha1 m = state_bytes (foldl fips_compress (ctx_state sha1_init) (blocks (padded m)))"

section \<open>One block\<close>

lemma ROL_word_rotl: "0 < s \<Longrightarrow> s < 32 \<Longrightarrow> ROL v s = word_rotl s v"
proof (rule bit_word_eqI)
  fix n assume s: "0 < s" "s < 32" and n: "n < LENGTH(32)"
  show "bit (ROL v s) n \<longleftrightarrow> bit (word_rotl s v) n"
  proof (cases "n < s")
    case True
    then have "(n + (32 - s)) mod 32 = 32 - s + n" using s n by simp
    with True s n show ?thesis by (simp add: ROL_def bit_word_rotl_iff bit_simps)
  next
    case False
    then have "n + (32 - s) = (n - s) + 32" using s n by simp
    then have "(n + (32 - s)) mod 32 = (n - s) mod 32" by (simp only: mod_add_self2)
    then have "(n + (32 - s)) mod 32 = n - s" using n by simp
    moreover have "\<not> bit v (32 - s + n)" using bit_imp_le_length [of v "32 - s + n"] False by auto
    ultimately show ?thesis using False s n by (simp add: ROL_def bit_word_rotl_iff bit_simps)
  qed
qed

lemma schedule_prefix:
  "16 + n \<le> 80 \<Longrightarrow> foldl schedule_word (block_words block) [16..<16 + n] = map (message_word block) [0..<16 + n]"
proof (induction n)
  case 0
  show ?case by (simp add: block_words_def message_word.simps)
next
  case (Suc n)
  then have i: "foldl schedule_word (block_words block) [16..<16 + n] = map (message_word block) [0..<16 + n]"
    by simp
  have "message_word block (16 + n) = ROL (message_word block (13 + n) XOR message_word block (8 + n) XOR
      message_word block (2 + n) XOR message_word block n) 1"
    by (subst message_word.simps) (simp add: ROL_word_rotl)
  moreover have u: "k \<le> 16 + n \<Longrightarrow> [k..<17 + n] = [k..<16 + n] @ [16 + n]" for k
    using upt_add_eq_append [of k "16 + n" 1] by (simp add: upt_rec [of "16 + n" "17 + n"])
  ultimately have "schedule_word (map (message_word block) [0..<16 + n]) (16 + n) = map (message_word block) [0..<16 + Suc n]"
    using nth_map_upt [of _ "16 + n" 0 "message_word block"] by (simp add: schedule_word_def)
  with i u [of 16] show ?case by simp
qed

lemma schedule_fips: "sha1_schedule block = map (message_word block) [0..<80]"
  using schedule_prefix [of 64] by (simp add: sha1_schedule_def)

lemma choose_xor: "(x AND y) OR (NOT x AND z) = (x AND y) XOR (NOT x AND z)" for x :: u32
  by (rule bit_word_eqI) (auto simp: bit_simps)

lemma majority_xor: "(x AND y) OR (x AND z) OR (y AND z) = (x AND y) XOR (x AND z) XOR (y AND z)" for x :: u32
  by (rule bit_word_eqI) (auto simp: bit_simps)

lemma round_fk_fips: "round_fk i b c d = (fips_f i b c d, fips_K i)"
  by (auto simp: round_fk_def fips_f_def fips_K_def choose_xor majority_xor)

lemma rounds_fips:
  "n \<le> 80 \<Longrightarrow> foldl (sha1_round (sha1_schedule block)) v [0..<n] = fips_rounds block n v"
proof (induction n)
  case (Suc n)
  then show ?case
    by (cases "fips_rounds block n v") (simp add: round_fk_fips schedule_fips ROL_word_rotl)
qed simp

lemma transform_fips: "sha1_transform state block = fips_compress state block"
  by (simp add: sha1_transform_def fips_compress_def rounds_fips ac_simps split: prod.split)

section \<open>Blocks\<close>

lemma rest_length: "length (rest m) = length m mod 64"
  by (induction m rule: rest.induct) (subst rest.simps, simp add: le_mod_geq)

lemma rest_append:
  "length (rest m) + length c < 64 \<Longrightarrow> rest (m @ c) = rest m @ c \<and> blocks (m @ c) = blocks m"
proof (induction m rule: rest.induct)
  case (1 m)
  then show ?case
    by (cases "length m < 64") (simp_all add: rest.simps [of m] rest.simps [of "m @ c"] blocks.simps [of m] blocks.simps [of "m @ c"])
qed

lemma rest_full:
  "length (rest m) + length c = 64 \<Longrightarrow> rest (m @ c) = [] \<and> blocks (m @ c) = blocks m @ [rest m @ c]"
proof (induction m rule: rest.induct)
  case (1 m)
  then show ?case
    by (cases "length m < 64")
      (simp_all add: rest.simps [of m] rest.simps [of "m @ c"] blocks.simps [of m] blocks.simps [of "m @ c"]
        rest.simps [of "[]"] blocks.simps [of "[]"])
qed

section \<open>The context holds a message\<close>

definition ctx_ok :: "SHA1_CTX \<Rightarrow> bool" where
  "ctx_ok ctx \<longleftrightarrow> length (ctx_buffer ctx) = 64 \<and> ctx_buflen ctx < 64"

definition holds :: "byte list \<Rightarrow> SHA1_CTX \<Rightarrow> bool" where
  "holds m ctx \<longleftrightarrow> ctx_ok ctx \<and> ctx_buflen ctx = length (rest m) \<and>
     take (length (rest m)) (ctx_buffer ctx) = rest m \<and>
     ctx_state ctx = foldl fips_compress (ctx_state sha1_init) (blocks m)"

lemma holds_init: "holds [] sha1_init"
  by (simp add: holds_def ctx_ok_def sha1_init_def rest.simps [of "[]"] blocks.simps [of "[]"])

lemma absorb_holds:
  assumes "holds m ctx" "ctx_buflen ctx + length c \<le> 64"
  shows "holds (m @ c) (absorb c ctx) \<and> ctx_bitlen (absorb c ctx) = ctx_bitlen ctx"
proof (cases "ctx_buflen ctx + length c = 64")
  case True
  then have "memcpy (ctx_buffer ctx) (ctx_buflen ctx) c = rest m @ c" "length (rest m) + length c = 64"
    using assms(1) by (simp_all add: holds_def ctx_ok_def memcpy_def)
  with rest_full [of m c] assms(1) True show ?thesis
    by (simp add: holds_def ctx_ok_def absorb_def transform_fips)
next
  case False
  then have less: "length (rest m) + length c < 64" using assms by (simp add: holds_def)
  have "length (memcpy (ctx_buffer ctx) (ctx_buflen ctx) c) = 64"
    "take (ctx_buflen ctx + length c) (memcpy (ctx_buffer ctx) (ctx_buflen ctx) c) = rest m @ c"
    using assms(1) less by (simp_all add: holds_def ctx_ok_def memcpy_def)
  with rest_append [OF less] assms(1) less False show ?thesis
    by (simp add: holds_def ctx_ok_def absorb_def)
qed

lemma absorb_all_holds:
  "holds m ctx \<Longrightarrow> holds (m @ data) (absorb_all data ctx) \<and> ctx_bitlen (absorb_all data ctx) = ctx_bitlen ctx"
proof (induction data ctx arbitrary: m rule: absorb_all.induct)
  case (1 data ctx)
  let ?k = "min (64 - ctx_buflen ctx) (length data)"
  show ?case
  proof (cases "?k = 0")
    case True
    then have "data = []" using 1(2) by (auto simp: holds_def ctx_ok_def min_def split: if_splits)
    with 1(2) show ?thesis by (simp add: absorb_all.simps [of "[]"])
  next
    case False
    have "holds (m @ take ?k data) (absorb (take ?k data) ctx) \<and>
        ctx_bitlen (absorb (take ?k data) ctx) = ctx_bitlen ctx"
      using 1(2) by (intro absorb_holds) (auto simp: holds_def ctx_ok_def)
    moreover have "absorb_all data ctx = absorb_all (drop ?k data) (absorb (take ?k data) ctx)"
      by (subst absorb_all.simps) (simp only: Let_def False if_False)
    ultimately show ?thesis using 1(1) [OF refl False, of "m @ take ?k data"] by simp
  qed
qed

lemma update_holds:
  assumes "holds m ctx"
  shows "holds (m @ data) (sha1_update data ctx)"
    "ctx_bitlen (sha1_update data ctx) = ctx_bitlen ctx + word_of_nat (8 * length data)"
proof -
  have "holds m (ctx\<lparr>ctx_bitlen := b\<rparr>)" for b using assms by (simp add: holds_def ctx_ok_def)
  then show "holds (m @ data) (sha1_update data ctx)"
    "ctx_bitlen (sha1_update data ctx) = ctx_bitlen ctx + word_of_nat (8 * length data)"
    using absorb_all_holds [of m "ctx\<lparr>ctx_bitlen := ctx_bitlen ctx + word_of_nat (length data) * 8\<rparr>" data]
    unfolding sha1_update_def by (simp_all add: mult.commute)
qed

text \<open>The number of zeros before a message of \<open>l\<close> bytes has 56 in its last block.\<close>

definition zeros :: "nat \<Rightarrow> nat" where
  "zeros l = (if l mod 64 \<le> 56 then 56 - l mod 64 else 120 - l mod 64)"

lemma mod64: "l mod 64 < (64 :: nat)"
  by simp

lemma zeros_0: "zeros l = 0 \<longleftrightarrow> l mod 64 = 56"
  using mod64 [of l] by (auto simp: zeros_def)

lemma zeros_Suc: "zeros l = Suc j \<Longrightarrow> zeros (Suc l) = j"
  using mod64 [of l] by (auto simp: zeros_def mod_Suc split: if_splits)

lemma zeros_fill: "(l + zeros l) mod 64 = 56"
proof (induction "zeros l" arbitrary: l)
  case (Suc j)
  with Suc(1) [of "Suc l"] zeros_Suc [OF Suc(2) [symmetric]] show ?case by (simp flip: Suc(2))
qed (simp add: zeros_0 [THEN iffD1])

lemma zeros_padded: "zeros (Suc l) = (119 - l mod 64) mod 64"
proof (cases "l mod 64 < 56")
  case True
  then have "119 - l mod 64 = (55 - l mod 64) + 64" by simp
  then have "(119 - l mod 64) mod 64 = (55 - l mod 64) mod 64" by (simp only: mod_add_self2)
  then show ?thesis using True by (simp add: zeros_def mod_Suc)
next
  case False
  then show ?thesis using mod64 [of l] by (auto simp: zeros_def mod_Suc)
qed

lemma pad_holds:
  "holds m ctx \<Longrightarrow> zeros (length m) \<le> k \<Longrightarrow> holds (m @ replicate (zeros (length m)) 0) (pad_zeros k ctx)"
proof (induction k arbitrary: m ctx)
  case (Suc k)
  have len: "ctx_buflen ctx = length m mod 64" using Suc.prems by (simp add: holds_def rest_length)
  show ?case
  proof (cases "zeros (length m)")
    case 0
    moreover from 0 len have "ctx_buflen ctx = 56" by (simp add: zeros_0)
    ultimately show ?thesis using Suc.prems by simp
  next
    case (Suc j)
    then have "length m mod 64 \<noteq> 56" "zeros (Suc (length m)) = j" by (simp_all add: zeros_0 [symmetric] zeros_Suc)
    with Suc.IH [OF update_holds(1) [OF Suc.prems(1), of "[0]"]] len Suc Suc.prems(2) show ?thesis by simp
  qed
qed simp

lemma final_ref:
  assumes "holds m ctx" "ctx_bitlen ctx = word_of_nat (8 * length m)"
  shows "sha1_final ctx = fips_sha1 m"
proof -
  let ?m = "m @ [0x80] @ replicate (zeros (Suc (length m))) (0 :: byte)"
  let ?ctx = "pad_zeros 64 (sha1_update [0x80] ctx)"
  have "zeros (Suc (length m)) \<le> 64" by (simp add: zeros_def less_imp_le)
  then have p: "holds ?m ?ctx"
    using pad_holds [OF update_holds(1) [OF assms(1), of "[0x80]"], of 64] by simp
  have l: "length (rest ?m) = 56" using zeros_fill [of "Suc (length m)"] by (simp add: rest_length)
  have lb: "length (length_bytes b) = 8" for b by (simp add: length_bytes_def)
  have "memcpy (ctx_buffer ?ctx) (ctx_buflen ?ctx) (length_bytes b) = rest ?m @ length_bytes b" for b
    using p l lb by (simp add: holds_def ctx_ok_def memcpy_def)
  moreover have "blocks (padded m) = blocks ?m @ [rest ?m @ length_bytes (ctx_bitlen ctx)]"
    using rest_full [of ?m "length_bytes (ctx_bitlen ctx)"] l lb assms(2) by (simp add: padded_def zeros_padded)
  ultimately show ?thesis using p unfolding sha1_final_def fips_sha1_def Let_def
    by (simp add: transform_fips holds_def)
qed

section \<open>Properties\<close>

text \<open>
  C22. SHA-1 is the function of the standard, and does not depend on how the input is divided: for
  every sequence of calls of \<^verbatim>\<open>sha1_update\<close> between \<^verbatim>\<open>sha1_init\<close> and \<^verbatim>\<open>sha1_final\<close>, the digest is the
  one of FIPS 180-4 of all the bytes together.  In particular \<^verbatim>\<open>sha1\<close> computes that digest.
\<close>

theorem sha1_fips:
  "sha1_final (foldl (\<lambda>ctx part. sha1_update part ctx) sha1_init parts) = fips_sha1 (concat parts) \<and>
   sha1 m = fips_sha1 m"
proof -
  have all: "holds m ctx \<Longrightarrow> ctx_bitlen ctx = word_of_nat (8 * length m) \<Longrightarrow>
      sha1_final (foldl (\<lambda>ctx part. sha1_update part ctx) ctx parts) = fips_sha1 (m @ concat parts)" for ctx m parts
  proof (induction parts arbitrary: ctx m)
    case (Cons part parts)
    from Cons.IH [of "m @ part" "sha1_update part ctx"] update_holds [OF Cons.prems(1), of part] Cons.prems(2)
    show ?case by (simp add: distrib_left)
  qed (simp add: final_ref)
  have "ctx_bitlen sha1_init = word_of_nat (8 * length ([] :: byte list))" by (simp add: sha1_init_def)
  from all [OF holds_init this, of parts] all [OF holds_init this, of "[m]"] show ?thesis
    by (simp add: sha1_def)
qed

end
