(* ===== verification/Ws.thy ===== *)
theory Ws
  imports Netutil Sha1 Interp
begin

text \<open>
  The WebSocket server: \<^verbatim>\<open>src/runtime/ws.c\<close> and the struct \<^verbatim>\<open>SocketConnNative\<close> of
  \<^verbatim>\<open>include/native.h\<close>.  The static variables of the file, and what was written to every socket,
  are the world \<open>ws_world\<close> of the interpreter; a pointer into a buffer is an index.  A
  connection is a coroutine of its own: the model follows one connection over the results that
  \<^verbatim>\<open>recv\<close> gives it, and does not interleave it with others, which get their turn only while it waits.
\<close>

section \<open>Bytes and C strings in a buffer\<close>

definition byte_of :: "char \<Rightarrow> byte" where
  "byte_of c = word_of_nat (code c)"

definition chr_of :: "byte \<Rightarrow> char" where
  "chr_of b = char_of (unat b)"

abbreviation CRLF :: string where "CRLF \<equiv> [CR, NL]"

text \<open>The index of the first place where the text \<open>t\<close> is in the string \<open>s\<close>.\<close>

fun find_sub :: "string \<Rightarrow> string \<Rightarrow> nat option" where
  "find_sub t s =
     (if take (length t) s = t then Some 0
      else (case s of [] \<Rightarrow> None | _ # r \<Rightarrow> map_option Suc (find_sub t r)))"

declare find_sub.simps [simp del]

text \<open>\<^verbatim>\<open>strstr(data + i, t)\<close>, which stops at a NUL, and \<^verbatim>\<open>memchr(data + i, c, j - i)\<close>.\<close>

definition strstr_from :: "string \<Rightarrow> nat \<Rightarrow> string \<Rightarrow> nat option" where
  "strstr_from data i t = map_option (\<lambda>k. i + k) (find_sub t (cstr (drop i data)))"

definition memchr_in :: "string \<Rightarrow> nat \<Rightarrow> nat \<Rightarrow> char \<Rightarrow> nat option" where
  "memchr_in data i j c = map_option (\<lambda>k. i + k) (find_sub [c] (take (j - i) (drop i data)))"

definition tolower_c :: "char \<Rightarrow> char" where
  "tolower_c c = (if 65 \<le> code c \<and> code c \<le> 90 then char_of (code c + 32) else c)"

definition find_header_end :: "string \<Rightarrow> int" where
  "find_header_end data = (case find_sub (CRLF @ CRLF) data of None \<Rightarrow> -1 | Some i \<Rightarrow> int i + 4)"

text \<open>The lines of the header from the index \<open>hp\<close> on; the value is cut to what \<open>out\<close> holds.\<close>

function header_lines :: "string \<Rightarrow> nat \<Rightarrow> string \<Rightarrow> nat \<Rightarrow> nat \<Rightarrow> string option" where
  "header_lines data stop name out_sz hp =
     (if stop \<le> hp then None
      else (case strstr_from data hp CRLF of
              None \<Rightarrow> None
            | Some nl \<Rightarrow>
                (if stop < nl then None
                 else (case memchr_in data hp nl (CHR '':'') of
                         Some colon \<Rightarrow>
                           (if map tolower_c (take (colon - hp) (drop hp data)) = map tolower_c name
                            then Some (let v = dropWhile (\<lambda>c. c = SPACE) (drop (colon + 1) data);
                                           vstart = length data - length v
                                       in take (min (nl - vstart) (out_sz - 1)) v)
                            else header_lines data stop name out_sz (nl + 2))
                       | None \<Rightarrow> header_lines data stop name out_sz (nl + 2)))))"
  by pat_completeness auto
termination
  by (relation "measure (\<lambda>(data, stop, name, out_sz, hp). stop - hp)") (auto simp: strstr_from_def)

declare header_lines.simps [simp del]

definition extract_header :: "string \<Rightarrow> int \<Rightarrow> string \<Rightarrow> nat \<Rightarrow> string" where
  "extract_header data header_end name out_sz =
     (case strstr_from data 0 CRLF of
        None \<Rightarrow> []
      | Some i \<Rightarrow>
          (case header_lines data (nat (header_end - 4)) name out_sz (i + 2) of None \<Rightarrow> [] | Some v \<Rightarrow> v))"

section \<open>Frames\<close>

text \<open>The header of a frame and the payload: \<^verbatim>\<open>ws_write_frame\<close> up to the call of \<^verbatim>\<open>net_write_all\<close>.\<close>

definition frame_length :: "64 word \<Rightarrow> byte list" where
  "frame_length len =
     (if len < 126 then [ucast len]
      else if len < 65536 then [126, ucast (drop_bit 8 len AND 0xFF), ucast (len AND 0xFF)]
      else 127 # map (\<lambda>i. ucast (drop_bit (8 * (7 - i)) len AND 0xFF)) [0..<8])"

definition ws_frame :: "byte \<Rightarrow> string \<Rightarrow> string" where
  "ws_frame opcode payload =
     map chr_of ((0x80 OR (opcode AND 0x0F)) # frame_length (word_of_nat (length payload))) @ payload"

text \<open>
  \<^verbatim>\<open>try_parse_frame\<close>.  The sum \<^verbatim>\<open>pos + plen\<close> is a 64-bit one and can wrap around; the copy then
  reads far behind the buffer.
\<close>

datatype frame_result = Frame_incomplete | Frame_wraps | Frame bool byte string nat

definition big_endian :: "byte list \<Rightarrow> 64 word" where
  "big_endian bs = foldl (\<lambda>n b. push_bit 8 n OR ucast b) 0 bs"

definition unmask :: "byte list \<Rightarrow> string \<Rightarrow> string" where
  "unmask mkey payload =
     map (\<lambda>i. chr_of (byte_of (payload ! i) XOR mkey ! (i mod 4))) [0..<length payload]"

definition frame_payload :: "string \<Rightarrow> bool \<Rightarrow> byte \<Rightarrow> bool \<Rightarrow> 64 word \<Rightarrow> nat \<Rightarrow> frame_result" where
  "frame_payload data fin opcode masked plen pos =
     (let mkey = (if masked then map byte_of (take 4 (drop pos data)) else [0, 0, 0, 0]);
          mpos = (if masked then pos + 4 else pos);
          end_pos = unat (word_of_nat mpos + plen)
      in if masked \<and> length data < pos + 4 then Frame_incomplete
         else if length data < end_pos then Frame_incomplete
         else if end_pos < mpos then Frame_wraps
         else (let payload = take (unat plen) (drop mpos data)
               in Frame fin opcode (if masked then unmask mkey payload else payload) end_pos))"

definition try_parse_frame :: "string \<Rightarrow> frame_result" where
  "try_parse_frame data =
     (if length data < 2 then Frame_incomplete
      else (let b0 = byte_of (data ! 0); b1 = byte_of (data ! 1);
                fin = (b0 AND 0x80 \<noteq> 0);
                opcode = b0 AND 0x0F;
                masked = (b1 AND 0x80 \<noteq> 0);
                plen = ucast (b1 AND 0x7F) :: 64 word
            in if plen = 126 then
                 (if length data < 4 then Frame_incomplete
                  else frame_payload data fin opcode masked (big_endian (map byte_of (take 2 (drop 2 data)))) 4)
               else if plen = 127 then
                 (if length data < 10 then Frame_incomplete
                  else frame_payload data fin opcode masked (big_endian (map byte_of (take 8 (drop 2 data)))) 10)
               else frame_payload data fin opcode masked plen 2))"

definition buf_consume_front :: "nat \<Rightarrow> Buf \<Rightarrow> Buf" where
  "buf_consume_front n b = b\<lparr>b_data := drop n (b_data b)\<rparr>"

section \<open>Connections\<close>

record SocketConnNative =
  sc_fd :: nat
  sc_on_message :: "val option"
  sc_on_close :: "val option"
  sc_closed :: bool

text \<open>
  The world: the routes, the connections that handles of the interpreter point to, and for every
  socket what \<^verbatim>\<open>send\<close> will return and what has been sent.
\<close>

record ws_world =
  ww_routes :: "(string \<times> val) list"
  ww_listen_fd :: int
  ww_conns :: "SocketConnNative list"
  ww_send :: "nat \<Rightarrow> send_result list"
  ww_sent :: "nat \<Rightarrow> string"
  ww_closed_fds :: "nat list"
  ww_listening :: nat
  ww_stderr :: string

type_synonym 'a ws_act = "('a, ws_world) act"

definition on_world :: "('w \<Rightarrow> 'w) \<Rightarrow> 'w interp \<Rightarrow> 'w interp" where
  "on_world f it = it\<lparr>it_world := f (it_world it)\<rparr>"

definition ws_server_on :: "int \<Rightarrow> int \<Rightarrow> ws_world \<Rightarrow> ws_world" where
  "ws_server_on port fd w =
     (let w = w\<lparr>ww_listen_fd := fd\<rparr>
      in if fd < 0 then w\<lparr>ww_stderr := ww_stderr w @ ''jag: socket.on('' @ show_int port @ '') failed'' @ [NL]\<rparr> else w)"

definition ws_server_route :: "string \<Rightarrow> val \<Rightarrow> ws_world \<Rightarrow> ws_world" where
  "ws_server_route path handler w = w\<lparr>ww_routes := (path, handler) # ww_routes w\<rparr>"

definition ws_server_listen :: "ws_world \<Rightarrow> ws_world" where
  "ws_server_listen w = (if ww_listen_fd w < 0 then w else w\<lparr>ww_listening := ww_listening w + 1\<rparr>)"

definition write_fd :: "nat \<Rightarrow> string \<Rightarrow> int ws_act" where
  "write_fd fd data it = do {
     let w = it_world it;
     (rc, sent, rs) \<leftarrow> net_write_all (ww_send w fd) (ww_sent w fd) data;
     Some (rc, on_world (\<lambda>w. w\<lparr>ww_send := (ww_send w)(fd := rs), ww_sent := (ww_sent w)(fd := sent)\<rparr>) it)
   }"

definition ws_write_frame :: "nat \<Rightarrow> byte \<Rightarrow> string \<Rightarrow> int ws_act" where
  "ws_write_frame fd opcode payload = write_fd fd (ws_frame opcode payload)"

definition close_fd :: "nat \<Rightarrow> ws_world interp \<Rightarrow> ws_world interp" where
  "close_fd fd = on_world (\<lambda>w. w\<lparr>ww_closed_fds := fd # ww_closed_fds w\<rparr>)"

definition conn_of :: "ws_world interp \<Rightarrow> nat \<Rightarrow> SocketConnNative" where
  "conn_of it h = entry_at (ww_conns (it_world it)) \<lparr>sc_fd = 0, sc_on_message = None, sc_on_close = None, sc_closed = True\<rparr> h"

definition on_conn :: "nat \<Rightarrow> (SocketConnNative \<Rightarrow> SocketConnNative) \<Rightarrow> ws_world interp \<Rightarrow> ws_world interp" where
  "on_conn h f it = on_world (\<lambda>w. w\<lparr>ww_conns := (ww_conns w)[h := f (conn_of it h)]\<rparr>) it"

text \<open>\<^verbatim>\<open>ws_conn_call_method\<close>, on the handle \<open>h\<close> that the value holds; \<open>n\<close> bounds the depth of printing.\<close>

definition ws_conn_call_method :: "nat \<Rightarrow> nat \<Rightarrow> string \<Rightarrow> val list \<Rightarrow> val option ws_act" where
  "ws_conn_call_method n h name args it =
     (if name = ''on'' then
        (case args of
           V_STRING ev # f # _ \<Rightarrow>
             Some (Some V_VOID,
               if ev = ''message'' then on_conn h (\<lambda>c. c\<lparr>sc_on_message := Some f\<rparr>) it
               else if ev = ''close'' then on_conn h (\<lambda>c. c\<lparr>sc_on_close := Some f\<rparr>) it
               else it)
         | _ \<Rightarrow> Some (Some V_VOID, it))
      else if name = ''send'' then
        (case args of
           v # _ \<Rightarrow>
             (if sc_closed (conn_of it h) then Some (Some V_VOID, it)
              else do {
                s \<leftarrow> display n v it;
                (_, it) \<leftarrow> ws_write_frame (sc_fd (conn_of it h)) 1 (cstr s) it;
                Some (Some V_VOID, it)
              })
         | [] \<Rightarrow> Some (Some V_VOID, it))
      else if name = ''close'' then
        (if sc_closed (conn_of it h) then Some (Some V_VOID, it)
         else do {
           (_, it) \<leftarrow> ws_write_frame (sc_fd (conn_of it h)) 8 [] it;
           Some (Some V_VOID, on_conn h (\<lambda>c. c\<lparr>sc_closed := True\<rparr>) it)
         })
      else Some (None, it))"

text \<open>
  What is done for one frame; the flag says whether the loop goes on.  \<open>invoke\<close> is
  \<^verbatim>\<open>interp_invoke_closure\<close>.  The text of a message ends at its first NUL.
\<close>

type_synonym invoker = "val \<Rightarrow> val list \<Rightarrow> val ws_act"

definition handle_frame :: "invoker \<Rightarrow> nat \<Rightarrow> nat \<Rightarrow> byte \<Rightarrow> string \<Rightarrow> bool ws_act" where
  "handle_frame invoke fd h opcode payload it =
     (if opcode = 1 \<or> opcode = 2 then
        (case sc_on_message (conn_of it h) of
           Some f \<Rightarrow>
             (if sc_closed (conn_of it h) then Some (True, it)
              else do { (_, it) \<leftarrow> invoke f [V_STRING (cstr payload)] it; Some (True, it) })
         | None \<Rightarrow> Some (True, it))
      else if opcode = 8 then
        (if sc_closed (conn_of it h) then Some (False, it)
         else do {
           (_, it) \<leftarrow> ws_write_frame fd 8 [] it;
           Some (False, on_conn h (\<lambda>c. c\<lparr>sc_closed := True\<rparr>) it)
         })
      else if opcode = 9 then
        do { (_, it) \<leftarrow> ws_write_frame fd 0xA payload it; Some (True, it) }
      else Some (True, it))"

lemma frame_payload_consumed: "frame_payload data fin opc masked plen pos = Frame a b c k \<Longrightarrow> pos \<le> k \<and> k \<le> length data"
  by (auto simp: frame_payload_def Let_def split: if_splits)

lemma frame_consumed: "try_parse_frame data = Frame a b c k \<Longrightarrow> 2 \<le> k \<and> k \<le> length data"
  by (auto simp: try_parse_frame_def Let_def split: if_splits dest!: frame_payload_consumed)

text \<open>The loop over the frames; a frame whose length wraps around is undefined behaviour.\<close>

function frame_loop :: "invoker \<Rightarrow> nat \<Rightarrow> nat \<Rightarrow> recv_result list \<Rightarrow> Buf \<Rightarrow> unit ws_act" where
  "frame_loop invoke fd h rs b it =
     (case try_parse_frame (b_data b) of
        Frame_incomplete \<Rightarrow>
          (case net_read_some rs b of
             None \<Rightarrow> None
           | Some (n, b', rs') \<Rightarrow> if n \<le> 0 then Some ((), it) else frame_loop invoke fd h rs' b' it)
      | Frame_wraps \<Rightarrow> Some ((), undefined_behaviour UB_overflow it)
      | Frame fin opcode payload consumed \<Rightarrow>
          (case handle_frame invoke fd h opcode payload it of
             None \<Rightarrow> None
           | Some (again, it') \<Rightarrow>
               if again then frame_loop invoke fd h rs (buf_consume_front consumed b) it'
               else Some ((), it')))"
  by pat_completeness auto
termination
  by (relation "measures [\<lambda>(invoke, fd, h, rs, b, it). length rs, \<lambda>(invoke, fd, h, rs, b, it). b_len b]")
    (auto simp: buf_consume_front_def dest: net_read_some_shorter frame_consumed)

declare frame_loop.simps [simp del]

text \<open>\<^verbatim>\<open>on_close\<close> is called only if no close frame was sent.\<close>

definition ws_serve :: "invoker \<Rightarrow> nat \<Rightarrow> nat \<Rightarrow> recv_result list \<Rightarrow> Buf \<Rightarrow> unit ws_act" where
  "ws_serve invoke fd h rs b it = do {
     (_, it) \<leftarrow> frame_loop invoke fd h rs b it;
     (_, it) \<leftarrow> (case sc_on_close (conn_of it h) of
                   Some f \<Rightarrow> if sc_closed (conn_of it h) then Some (V_VOID, it) else invoke f [] it
                 | None \<Rightarrow> Some (V_VOID, it));
     Some ((), close_fd fd it)
   }"

section \<open>The handshake\<close>

function read_header :: "recv_result list \<Rightarrow> Buf \<Rightarrow> (int \<times> Buf \<times> recv_result list) option" where
  "read_header rs b =
     (if 0 < find_header_end (b_data b) then Some (find_header_end (b_data b), b, rs)
      else (case net_read_some rs b of
              None \<Rightarrow> None
            | Some (n, b', rs') \<Rightarrow>
                if n \<le> 0 \<or> 65536 < b_len b' then Some (-1, b', rs') else read_header rs' b'))"
  by pat_completeness auto
termination
  by (relation "measure (\<lambda>(rs, b). length rs)") (auto dest: net_read_some_shorter)

declare read_header.simps [simp del]

text \<open>A conversion \<^verbatim>\<open>%ns\<close> of \<^verbatim>\<open>sscanf\<close>, which needs at least one character, and two of them.\<close>

definition scan_word :: "nat \<Rightarrow> string \<Rightarrow> (string \<times> string) option" where
  "scan_word n s =
     (let s = dropWhile isspace s; w = take n (takeWhile (\<lambda>c. \<not> isspace c) s)
      in if w = [] then None else Some (w, drop (length w) s))"

definition scan_two :: "nat \<Rightarrow> nat \<Rightarrow> string \<Rightarrow> (string \<times> string) option" where
  "scan_two n k s = do {
     (v, s) \<leftarrow> scan_word n s;
     (w, s) \<leftarrow> scan_word k s;
     Some (v, w)
   }"

definition WS_GUID :: string where
  "WS_GUID = ''258EAFA5-E914-47DA-95CA-C5AB0DC85B11''"

definition accept_key :: "string \<Rightarrow> string" where
  "accept_key key = base64_encode (sha1 (map byte_of (take 511 (key @ WS_GUID))))"

definition switching_protocols :: "string \<Rightarrow> string" where
  "switching_protocols key =
     take 511 (''HTTP/1.1 101 Switching Protocols'' @ CRLF @ ''Upgrade: websocket'' @ CRLF @
               ''Connection: Upgrade'' @ CRLF @ ''Sec-WebSocket-Accept: '' @ accept_key key @ CRLF @ CRLF)"

definition bad_request :: string where
  "bad_request = ''HTTP/1.1 400 Bad Request'' @ CRLF @ ''Connection: close'' @ CRLF @ CRLF"

text \<open>
  What the request asks for: the route and the key, or a bad request.  A NUL before the first line
  break makes \<^verbatim>\<open>strstr\<close> return NULL, which is used as a pointer into the buffer; without two words in
  the request line \<^verbatim>\<open>path\<close> is read uninitialised.
\<close>

definition ws_request :: "(string \<times> val) list \<Rightarrow> string \<Rightarrow> int \<Rightarrow> ub + (val \<times> string) option" where
  "ws_request routes data header_end =
     (case strstr_from data 0 CRLF of
        None \<Rightarrow> Inl UB_null
      | Some line_end \<Rightarrow>
          (case scan_two 15 511 (take (min line_end 511) data) of
             None \<Rightarrow> Inl UB_uninitialised
           | Some (http_method, path) \<Rightarrow>
               (let path = takeWhile (\<lambda>c. c \<noteq> CHR ''?'') path;
                    key = extract_header data header_end ''Sec-WebSocket-Key'' 256
                in if key = [] then Inr None
                   else Inr (map_option (\<lambda>handler. (handler, key)) (map_of routes path)))))"

definition ws_conn_entry :: "invoker \<Rightarrow> nat \<Rightarrow> recv_result list \<Rightarrow> unit ws_act" where
  "ws_conn_entry invoke fd rs it = do {
     (header_end, b, rs) \<leftarrow> read_header rs buf_init;
     if header_end < 0 then Some ((), close_fd fd it)
     else (case ws_request (ww_routes (it_world it)) (b_data b) header_end of
             Inl u \<Rightarrow> Some ((), undefined_behaviour u it)
           | Inr None \<Rightarrow> do {
               (_, it) \<leftarrow> write_fd fd bad_request it;
               Some ((), close_fd fd it)
             }
           | Inr (Some (handler, key)) \<Rightarrow> do {
               (_, it) \<leftarrow> write_fd fd (switching_protocols key) it;
               let h = length (ww_conns (it_world it));
               let it = on_world (\<lambda>w. w\<lparr>ww_conns := ww_conns w @
                   [\<lparr>sc_fd = fd, sc_on_message = None, sc_on_close = None, sc_closed = False\<rparr>]\<rparr>) it;
               let (sock, it) = alloc (native_wrap (NATIVE_SOCKET_CONN h)) it;
               (_, it) \<leftarrow> invoke handler [sock] it;
               ws_serve invoke fd h rs (buf_consume_front (nat header_end) b) it
             })
   }"

text \<open>The system that the interpreter calls: these procedures, and \<open>base\<close> for the rest.\<close>

definition ws_sys :: "nat \<Rightarrow> (int \<Rightarrow> int) \<Rightarrow> ws_world sys \<Rightarrow> ws_world sys" where
  "ws_sys n net_listen base = base\<lparr>sys_value := (\<lambda>c it.
     (case c of
        WS_CONN_CALL a name args \<Rightarrow>
          (case native_at (it_store it) a of
             NATIVE_SOCKET_CONN h \<Rightarrow> ws_conn_call_method n h name args it
           | _ \<Rightarrow> Some (None, it))
      | WS_SERVER_ON port \<Rightarrow>
          Some (None, on_world (ws_server_on (sint port) (net_listen (sint port))) it)
      | WS_SERVER_ROUTE path handler \<Rightarrow> Some (None, on_world (ws_server_route path handler) it)
      | WS_SERVER_LISTEN \<Rightarrow> Some (None, on_world ws_server_listen it)
      | _ \<Rightarrow> sys_value base c it))\<rparr>"

definition ws_invoker :: "nat \<Rightarrow> (int \<Rightarrow> int) \<Rightarrow> ws_world sys \<Rightarrow> invoker" where
  "ws_invoker n net_listen base = interp_invoke_closure (exec_stmt n (ws_sys n net_listen base))"

end
