(* ===== verification/Ws_Correct.thy ===== *)
theory Ws_Correct
  imports Ws
begin

text \<open>
  Frames against RFC 6455: the reader takes back what the encoder of the specification writes, and
  what the server writes is such a frame.
\<close>

section \<open>Bytes\<close>

lemma byte_chr [simp]: "byte_of (chr_of b) = b"
proof -
  have "unat b < 2 ^ LENGTH(8)" by (rule unsigned_less)
  then show ?thesis by (simp add: byte_of_def chr_of_def code_def)
qed

lemma chr_byte [simp]: "chr_of (byte_of c) = c"
proof -
  have "unat (word_of_nat (of_char c) :: byte) = of_char c"
    by (simp add: unat_of_nat)
  then show ?thesis by (simp add: byte_of_def chr_of_def code_def)
qed

text \<open>The \<open>k\<close> last digits of a number to the base 256.\<close>

fun digits256 :: "nat \<Rightarrow> nat \<Rightarrow> byte list" where
  "digits256 0 n = []"
| "digits256 (Suc k) n = digits256 k (n div 256) @ [word_of_nat n]"

lemma length_digits256 [simp]: "length (digits256 k n) = k"
  by (induction k arbitrary: n) auto

lemma digits256_map: "digits256 k n = map (\<lambda>i. word_of_nat (n div 256 ^ (k - 1 - i))) [0..<k]"
proof (induction k arbitrary: n)
  case (Suc k)
  have "map (\<lambda>i. word_of_nat (n div 256 div 256 ^ (k - 1 - i)) :: byte) [0..<k] =
      map (\<lambda>i. word_of_nat (n div 256 ^ (k - i))) [0..<k]"
  proof (rule map_cong [OF refl])
    fix i assume "i \<in> set [0..<k]"
    then have "k - i = Suc (k - 1 - i)" by auto
    then show "word_of_nat (n div 256 div 256 ^ (k - 1 - i)) = (word_of_nat (n div 256 ^ (k - i)) :: byte)"
      by (simp add: div_mult2_eq)
  qed
  then show ?case by (simp add: Suc)
qed simp

lemma shift_in: "push_bit 8 w OR ucast b = w * 256 + ucast b" for w :: "64 word" and b :: byte
proof -
  have "push_bit 8 w + ucast b = push_bit 8 w OR ucast b"
    by (rule disjunctive_add_eq_or, rule bit_word_eqI) (auto simp: bit_simps dest: bit_imp_le_length)
  then show ?thesis by (simp add: push_bit_eq_mult mult.commute)
qed

lemma ucast_byte: "(ucast (word_of_nat n :: byte) :: 64 word) = word_of_nat (n mod 256)"
  by (simp add: unsigned_of_nat take_bit_eq_mod)

lemma big_endian_digits: "big_endian (digits256 k n) = word_of_nat (n mod 256 ^ k)"
proof (induction k arbitrary: n)
  case (Suc k)
  have "n div 256 mod 256 ^ k * 256 + n mod 256 = n mod 256 ^ Suc k"
    using mod_mult2_eq [of n 256 "256 ^ k"] by (simp add: mult.commute)
  then have "(word_of_nat (n mod 256 ^ Suc k) :: 64 word) = word_of_nat (n div 256 mod 256 ^ k) * 256 + word_of_nat (n mod 256)"
    by (metis of_nat_add of_nat_mult of_nat_numeral)
  with Suc [of "n div 256"] show ?case
    by (simp add: big_endian_def shift_in ucast_byte)
qed (simp add: big_endian_def)

section \<open>The encoder of the specification\<close>

definition rfc_length :: "nat \<Rightarrow> byte \<times> byte list" where
  "rfc_length n =
     (if n \<le> 125 then (word_of_nat n, [])
      else if n < 65536 then (126, digits256 2 n)
      else (127, digits256 8 n))"

text \<open>
  Masking as section 5.3 of the RFC describes it: the octets of the payload are combined by exclusive or
  with the octets of the key, which are used in turn and from the first one again after the last one.
\<close>

fun rfc_octets :: "byte list \<Rightarrow> string \<Rightarrow> string" where
  "rfc_octets _ [] = []"
| "rfc_octets [] p = p"
| "rfc_octets (k # ks) (c # cs) = chr_of (byte_of c XOR k) # rfc_octets (ks @ [k]) cs"

definition rfc_mask :: "byte list option \<Rightarrow> string \<Rightarrow> string" where
  "rfc_mask key p = (case key of None \<Rightarrow> p | Some k \<Rightarrow> rfc_octets k p)"

lemma rfc_octets_length [simp]: "length (rfc_octets k p) = length p"
  by (induction k p rule: rfc_octets.induct) simp_all

lemma rfc_octets_twice: "rfc_octets k (rfc_octets k p) = p"
  by (induction k p rule: rfc_octets.induct) (simp_all add: xor.assoc)

lemma next_key_octet:
  assumes "length ks = 3"
  shows "(x # ks) ! (Suc i mod 4) = (ks @ [x]) ! (i mod 4)"
proof -
  have "Suc i mod 4 = (if i mod 4 = 3 then 0 else Suc (i mod 4))" by (simp add: mod_Suc)
  then show ?thesis using assms mod_less_divisor [of 4 i] by (auto simp: nth_append)
qed

lemma rfc_octets_nth:
  "length k = 4 \<Longrightarrow> i < length p \<Longrightarrow> rfc_octets k p ! i = chr_of (byte_of (p ! i) XOR k ! (i mod 4))"
proof (induction k p arbitrary: i rule: rfc_octets.induct)
  case (3 x ks c cs)
  then show ?case
  proof (cases i)
    case (Suc j)
    with 3 next_key_octet [of ks x j] show ?thesis by (simp del: nth_Cons')
  qed simp
qed simp_all

text \<open>That is what the loop of \<^verbatim>\<open>try_parse_frame\<close> does with a key of four bytes.\<close>

lemma rfc_octets_unmask:
  assumes "length k = 4"
  shows "unmask k p = rfc_octets k p"
  by (rule nth_equalityI) (simp_all add: unmask_def rfc_octets_nth [OF assms])

definition rfc_frame :: "bool \<Rightarrow> byte \<Rightarrow> byte list option \<Rightarrow> string \<Rightarrow> string" where
  "rfc_frame fin opcode key p =
     (let (len7, ext) = rfc_length (length p)
      in map chr_of (((if fin then 0x80 else 0) OR opcode) #
                     ((if key = None then 0 else 0x80) OR len7) # ext @ (case key of None \<Rightarrow> [] | Some k \<Rightarrow> k)) @
         rfc_mask key p)"

text \<open>Equality of bytes, bit by bit.\<close>

lemma byte_eqI:
  fixes a b :: byte
  assumes "bit a 0 = bit b 0" "bit a 1 = bit b 1" "bit a 2 = bit b 2" "bit a 3 = bit b 3"
    "bit a 4 = bit b 4" "bit a 5 = bit b 5" "bit a 6 = bit b 6" "bit a 7 = bit b 7"
  shows "a = b"
proof (rule bit_word_eqI)
  fix n assume "n < LENGTH(8)"
  then have "n = 0 \<or> n = 1 \<or> n = 2 \<or> n = 3 \<or> n = 4 \<or> n = 5 \<or> n = 6 \<or> n = 7" by auto
  then show "bit a n = bit b n" using assms by auto
qed

lemma byte_small:
  assumes "b < 0x80"
  shows "\<not> bit (b :: byte) 7"
proof
  assume "bit b 7"
  then have "b AND 0x80 = 0x80" by (intro byte_eqI) (simp_all add: bit_simps)
  with word_and_le2 [of b "0x80"] have "0x80 \<le> b" by simp
  with assms show False by simp
qed

lemma flag_bits:
  assumes "b < (0x80 :: byte)"
  shows "(0x80 OR b) AND 0x80 = 0x80" "b AND 0x80 = 0" "(0x80 OR b) AND 0x7F = b" "b AND 0x7F = b"
  using byte_small [OF assms] by (intro byte_eqI; simp add: bit_simps)+

lemma opcode_bits:
  assumes "b < (0x10 :: byte)"
  shows "(0x80 OR b) AND 0x0F = b" "b AND 0x0F = b" "b < 0x80"
proof -
  have "take_bit 4 b = b" using assms by (simp add: take_bit_eq_mod mod_word_less)
  then have "\<not> bit b 4" "\<not> bit b 5" "\<not> bit b 6" "\<not> bit b 7"
    by (metis bit_take_bit_iff less_irrefl numeral_less_iff semiring_norm)+
  then show "(0x80 OR b) AND 0x0F = b" "b AND 0x0F = b" by (intro byte_eqI; simp add: bit_simps)+
  show "b < 0x80" using assms by (rule less_trans) simp
qed

section \<open>Reading a frame\<close>

lemma rfc_length_small: "rfc_length n = (len7, ext) \<Longrightarrow> len7 < 0x80"
  by (auto simp: rfc_length_def word_less_nat_alt unat_of_nat split: if_splits)

lemma rfc_length_ext: "rfc_length n = (len7, ext) \<Longrightarrow> length ext \<le> 8"
  by (auto simp: rfc_length_def split: if_splits)

definition first_byte :: "bool \<Rightarrow> byte \<Rightarrow> byte" where
  "first_byte fin opcode = (if fin then 0x80 else 0) OR opcode"

definition second_byte :: "bool \<Rightarrow> byte \<Rightarrow> byte" where
  "second_byte masked len7 = (if masked then 0x80 else 0) OR len7"

lemma first_byte_bits:
  assumes "opcode < 0x10"
  shows "(first_byte fin opcode AND 0x80 \<noteq> 0) = fin" "first_byte fin opcode AND 0x0F = opcode"
  using opcode_bits [OF assms] flag_bits [of opcode] by (simp_all add: first_byte_def)

lemma second_byte_bits:
  assumes "len7 < 0x80"
  shows "(second_byte masked len7 AND 0x80 \<noteq> 0) = masked" "second_byte masked len7 AND 0x7F = len7"
  using flag_bits [OF assms] by (simp_all add: second_byte_def)

text \<open>The first two bytes and the longer lengths, as far as they are there.\<close>

lemma try_parse_short:
  assumes "rfc_length n = (len7, ext)" "data ! 1 = chr_of (second_byte masked len7)" "length data < 2 + length ext"
  shows "try_parse_frame data = Frame_incomplete"
  using assms second_byte_bits [OF rfc_length_small [OF assms(1)], of masked]
  by (auto simp: try_parse_frame_def rfc_length_def Let_def unsigned_of_nat split: if_splits)

lemma small_length: "n \<le> 125 \<Longrightarrow> (ucast (word_of_nat n :: byte) :: 64 word) = word_of_nat n"
  by (simp add: ucast_byte)

lemma try_parse_head:
  assumes "rfc_length n = (len7, ext)" "opcode < 0x10" "n < 2 ^ 63"
    "prefix (map chr_of (first_byte fin opcode # second_byte masked len7 # ext)) data"
  shows "try_parse_frame data = frame_payload data fin opcode masked (word_of_nat n) (2 + length ext)"
proof -
  obtain r where data: "data = chr_of (first_byte fin opcode) # chr_of (second_byte masked len7) # map chr_of ext @ r"
    using assms(4) by (auto simp: prefix_def)
  note bits = first_byte_bits [OF assms(2), of fin] second_byte_bits [OF rfc_length_small [OF assms(1)], of masked]
  consider "n \<le> 125" | "125 < n" "n < 65536" | "65536 \<le> n" by linarith
  then show ?thesis
  proof cases
    case 1
    then have "(word_of_nat n :: 64 word) \<noteq> 126" "(word_of_nat n :: 64 word) \<noteq> 127"
      by (auto dest!: arg_cong [where f = unat] simp: unat_of_nat)
    moreover have "(ucast len7 :: 64 word) = word_of_nat n" "ext = []"
      using 1 assms(1) small_length [of n] by (auto simp: rfc_length_def)
    ultimately show ?thesis using bits by (simp add: try_parse_frame_def data)
  next
    case 2
    then have "big_endian (digits256 2 n) = word_of_nat n" by (simp add: big_endian_digits)
    with 2 bits assms(1) show ?thesis
      by (auto simp: try_parse_frame_def data rfc_length_def o_def simp del: digits256.simps)
  next
    case 3
    then have "big_endian (digits256 8 n) = word_of_nat n" using assms(3) by (simp add: big_endian_digits)
    with 3 bits assms(1) show ?thesis
      by (auto simp: try_parse_frame_def data rfc_length_def o_def simp del: digits256.simps)
  qed
qed

lemma end_of_frame:
  "m \<le> 14 \<Longrightarrow> n < 2 ^ 63 \<Longrightarrow> unat (word_of_nat m + word_of_nat n :: 64 word) = m + n"
  by (simp add: unat_of_nat flip: of_nat_add)

lemma payload_there:
  assumes "data = pre @ map chr_of (case key of None \<Rightarrow> [] | Some k \<Rightarrow> k) @ body @ later" "length pre = pos" "pos \<le> 10"
    "length body < 2 ^ 63" "\<And>k. key = Some k \<Longrightarrow> length k = 4"
  shows "frame_payload data fin opcode (key \<noteq> None) (word_of_nat (length body)) pos =
    Frame fin opcode (rfc_mask key body) (length data - length later)"
proof (cases key)
  case None
  with assms end_of_frame [of pos "length body"] show ?thesis
    by (simp add: frame_payload_def rfc_mask_def Let_def unat_of_nat)
next
  case (Some k)
  with assms end_of_frame [of "pos + 4" "length body"] show ?thesis
    by (simp add: frame_payload_def rfc_mask_def rfc_octets_unmask Let_def unat_of_nat o_def)
qed

lemma payload_not_there:
  assumes "length data < pos + (if masked then 4 else 0) + n" "pos \<le> 10" "n < 2 ^ 63"
  shows "frame_payload data fin opcode masked (word_of_nat n) pos = Frame_incomplete"
  using assms end_of_frame [of pos n] end_of_frame [of "pos + 4" n]
  by (cases masked) (simp_all add: frame_payload_def Let_def)

lemma rfc_frame_parts:
  assumes "rfc_length (length p) = (len7, ext)"
  shows "rfc_frame fin opcode key p =
    map chr_of (first_byte fin opcode # second_byte (key \<noteq> None) len7 # ext) @
    map chr_of (case key of None \<Rightarrow> [] | Some k \<Rightarrow> k) @ rfc_mask key p"
  by (simp add: rfc_frame_def assms first_byte_def second_byte_def)

lemma rfc_mask_twice: "rfc_mask key (rfc_mask key p) = p"
  by (cases key) (simp_all add: rfc_mask_def rfc_octets_twice)

lemma rfc_mask_length: "length (rfc_mask key p) = length p"
  by (cases key) (simp_all add: rfc_mask_def)

lemma rfc_frame_read:
  assumes "opcode < 0x10" "length p < 2 ^ 63" "\<And>k. key = Some k \<Longrightarrow> length k = 4"
  shows "try_parse_frame (rfc_frame fin opcode key p @ later) = Frame fin opcode p (length (rfc_frame fin opcode key p))"
proof -
  obtain len7 ext where l: "rfc_length (length p) = (len7, ext)" by force
  let ?pre = "map chr_of (first_byte fin opcode # second_byte (key \<noteq> None) len7 # ext)"
  let ?data = "rfc_frame fin opcode key p @ later"
  have data: "?data = ?pre @ map chr_of (case key of None \<Rightarrow> [] | Some k \<Rightarrow> k) @ rfc_mask key p @ later"
    by (simp add: rfc_frame_parts [OF l])
  have "try_parse_frame ?data = frame_payload ?data fin opcode (key \<noteq> None) (word_of_nat (length p)) (2 + length ext)"
    by (rule try_parse_head [OF l assms(1,2)]) (simp only: data, simp)
  also have "\<dots> = Frame fin opcode (rfc_mask key (rfc_mask key p)) (length ?data - length later)"
    using payload_there [OF data _ _ _ assms(3)] rfc_length_ext [OF l] assms(2) rfc_mask_length [of key p] by simp
  finally show ?thesis by (simp add: rfc_mask_twice)
qed

lemma rfc_frame_prefix:
  assumes "opcode < 0x10" "length p < 2 ^ 63" "\<And>k. key = Some k \<Longrightarrow> length k = 4"
    "j < length (rfc_frame fin opcode key p)"
  shows "try_parse_frame (take j (rfc_frame fin opcode key p)) = Frame_incomplete"
proof -
  obtain len7 ext where l: "rfc_length (length p) = (len7, ext)" by force
  let ?pre = "map chr_of (first_byte fin opcode # second_byte (key \<noteq> None) len7 # ext)"
  let ?data = "take j (rfc_frame fin opcode key p)"
  note parts = rfc_frame_parts [OF l, of fin opcode key]
  show ?thesis
  proof (cases "j < 2 + length ext")
    case True
    show ?thesis
    proof (cases "2 \<le> j")
      case True
      then have "?data ! 1 = chr_of (second_byte (key \<noteq> None) len7)" by (simp add: parts)
      with try_parse_short [OF l, of ?data "key \<noteq> None"] \<open>j < 2 + length ext\<close> show ?thesis by simp
    next
      case False
      then have "length ?data < 2" by simp
      then show ?thesis by (simp only: try_parse_frame_def if_True)
    qed
  next
    case False
    then have "length ?pre \<le> j" by simp
    then have "prefix ?pre ?data" unfolding parts take_append [of j ?pre] by (simp only: take_all prefixI)
    then have "try_parse_frame ?data =
        frame_payload ?data fin opcode (key \<noteq> None) (word_of_nat (length p)) (2 + length ext)"
      by (rule try_parse_head [OF l assms(1,2)])
    moreover have "j < 2 + length ext + (if key \<noteq> None then 4 else 0) + length p"
      using assms(3,4) by (cases key) (auto simp: rfc_frame_parts [OF l] rfc_mask_length)
    ultimately show ?thesis using payload_not_there [of ?data] rfc_length_ext [OF l] assms(2,4) by simp
  qed
qed

lemma shifted_byte:
  assumes "n < 2 ^ 64"
  shows "ucast (drop_bit (8 * k) (word_of_nat n :: 64 word) AND 0xFF) = (word_of_nat (n div 256 ^ k) :: byte)"
proof (rule bit_word_eqI)
  fix i assume i: "i < LENGTH(8)"
  have d: "n div 256 ^ k = drop_bit (8 * k) n" by (simp add: drop_bit_eq_div power_mult)
  have m: "(0xFF :: 64 word) = mask 8" by (simp add: mask_eq_exp_minus_1)
  have "8 * k + i < 64" if "bit n (8 * k + i)"
  proof (rule ccontr)
    assume "\<not> 8 * k + i < 64"
    then have "n < 2 ^ (8 * k + i)" using assms power_increasing [of 64 "8 * k + i" "2 :: nat"] by simp
    then show False using that by (simp add: bit_iff_odd)
  qed
  then show "bit (ucast (drop_bit (8 * k) (word_of_nat n :: 64 word) AND 0xFF) :: byte) i \<longleftrightarrow>
      bit (word_of_nat (n div 256 ^ k) :: byte) i"
    using i by (auto simp: d m bit_simps)
qed

lemma frame_length_rfc:
  assumes "n < 2 ^ 64"
  shows "frame_length (word_of_nat n) = (case rfc_length n of (len7, ext) \<Rightarrow> len7 # ext)"
proof -
  have less: "(word_of_nat n :: 64 word) < 126 \<longleftrightarrow> n < 126" "(word_of_nat n :: 64 word) < 65536 \<longleftrightarrow> n < 65536"
    using assms by (simp_all add: word_less_nat_alt unat_of_nat)
  have one: "(ucast (word_of_nat n :: 64 word) :: byte) = word_of_nat n" if "n < 126"
    using that by (simp add: unsigned_of_nat take_bit_eq_mod)
  have eight: "map (\<lambda>i. ucast (drop_bit (8 * (7 - i)) (word_of_nat n :: 64 word) AND 0xFF)) [0..<8] = digits256 8 n"
    unfolding digits256_map by (intro map_cong refl) (simp add: shifted_byte [OF assms])
  have two: "[ucast (drop_bit 8 (word_of_nat n :: 64 word) AND 0xFF), ucast ((word_of_nat n :: 64 word) AND 0xFF)] = digits256 2 n"
    using shifted_byte [OF assms, of 0] shifted_byte [OF assms, of 1] by (simp add: numeral_2_eq_2)
  show ?thesis using one
    by (auto simp: frame_length_def rfc_length_def less eight two [symmetric] simp del: digits256.simps)
qed

lemma ws_frame_rfc:
  assumes "opcode < 0x10" "length p < 2 ^ 64"
  shows "ws_frame opcode p = rfc_frame True opcode None p"
  using opcode_bits(2) [OF assms(1)]
  by (simp add: ws_frame_def rfc_frame_def frame_length_rfc [OF assms(2)] rfc_mask_def split: prod.split)

section \<open>The stream of frames\<close>

lemma end_not_wrapped:
  assumes "m \<le> 14" "m \<le> unat (word_of_nat m + plen :: 64 word)"
  shows "unat (word_of_nat m + plen :: 64 word) = m + unat plen"
proof -
  have "unat (word_of_nat m :: 64 word) = m" using assms(1) by (simp add: unat_of_nat)
  moreover have "unat plen < 2 ^ 64" using unsigned_less [of plen] by simp
  ultimately show ?thesis using assms unat_plus_if' [of "word_of_nat m" plen] by (auto split: if_splits)
qed

lemma frame_payload_later:
  assumes "frame_payload s fin opcode masked plen pos \<noteq> Frame_incomplete" "pos \<le> 10"
  shows "frame_payload (s @ later) fin opcode masked plen pos = frame_payload s fin opcode masked plen pos"
proof (cases masked)
  case True
  have "pos + 4 + unat plen \<le> length s" if "pos + 4 \<le> unat (word_of_nat (pos + 4) + plen)"
    using end_not_wrapped [of "pos + 4" plen] that assms True
    by (auto simp: frame_payload_def Let_def split: if_splits)
  with True assms show ?thesis by (auto simp: frame_payload_def Let_def split: if_splits)
next
  case False
  have "pos + unat plen \<le> length s" if "pos \<le> unat (word_of_nat pos + plen)"
    using end_not_wrapped [of pos plen] that assms False
    by (auto simp: frame_payload_def Let_def split: if_splits)
  with False assms show ?thesis by (auto simp: frame_payload_def Let_def split: if_splits)
qed

lemma try_parse_later:
  assumes "try_parse_frame s \<noteq> Frame_incomplete"
  shows "try_parse_frame (s @ later) = try_parse_frame s"
  using assms by (auto simp: try_parse_frame_def Let_def nth_append frame_payload_later split: if_splits)

text \<open>What the loop does with all the bytes of the connection at once.\<close>

function serve_stream :: "invoker \<Rightarrow> nat \<Rightarrow> nat \<Rightarrow> string \<Rightarrow> unit ws_act" where
  "serve_stream invoke fd h s it =
     (case try_parse_frame s of
        Frame_incomplete \<Rightarrow> Some ((), it)
      | Frame_wraps \<Rightarrow> Some ((), undefined_behaviour UB_overflow it)
      | Frame fin opcode payload consumed \<Rightarrow>
          (case handle_frame invoke fd h opcode payload it of
             None \<Rightarrow> None
           | Some (again, it') \<Rightarrow>
               if again then serve_stream invoke fd h (drop consumed s) it' else Some ((), it')))"
  by pat_completeness auto
termination
  by (relation "measure (\<lambda>(invoke, fd, h, s, it). length s)") (auto dest: frame_consumed)

declare serve_stream.simps [simp del]

lemma frame_loop_stream:
  "ends rs \<Longrightarrow> frame_loop invoke fd h rs b it = serve_stream invoke fd h (b_data b @ arriving rs) it"
proof (induction invoke fd h rs b it rule: frame_loop.induct)
  case (1 invoke fd h rs b it)
  show ?case
  proof (cases "try_parse_frame (b_data b)")
    case Frame_incomplete
    from net_read_some_ends [OF 1(3), of b] obtain n b' rs'
      where r: "net_read_some rs b = Some (n, b', rs')" and e: "0 < n \<Longrightarrow> ends rs'" by blast
    show ?thesis
    proof (cases "0 < n")
      case True
      with net_read_some_data [OF r] obtain s where s: "b' = buf_append s b" "arriving rs = s @ arriving rs'" by auto
      from True have "\<not> n \<le> 0" by simp
      from 1(1) [OF Frame_incomplete r refl refl this e [OF True]] s
      have "frame_loop invoke fd h rs' b' it = serve_stream invoke fd h (b_data b @ arriving rs) it"
        by (simp add: buf_append_def)
      with r True Frame_incomplete show ?thesis by (simp add: frame_loop.simps [of _ _ _ rs])
    next
      case False
      with net_read_some_data [OF r] have "arriving rs = []" by simp
      with r False Frame_incomplete show ?thesis
        by (simp add: frame_loop.simps [of _ _ _ rs] serve_stream.simps [of _ _ _ "b_data b"])
    qed
  next
    case Frame_wraps
    with try_parse_later [of "b_data b" "arriving rs"] show ?thesis
      by (simp add: frame_loop.simps [of _ _ _ rs] serve_stream.simps [of _ _ _ "b_data b @ arriving rs"])
  next
    case (Frame fin opcode payload k)
    then have k: "k \<le> b_len b" using frame_consumed by blast
    have p: "try_parse_frame (b_data b @ arriving rs) = Frame fin opcode payload k"
      using try_parse_later [of "b_data b" "arriving rs"] Frame by simp
    have "frame_loop invoke fd h rs (buf_consume_front k b) it' =
        serve_stream invoke fd h (drop k (b_data b @ arriving rs)) it'"
      if "handle_frame invoke fd h opcode payload it = Some (True, it')" for it'
      using 1(2) [OF Frame that refl _ 1(3)] k by (simp add: buf_consume_front_def)
    with p Frame show ?thesis
      by (auto simp: frame_loop.simps [of _ _ _ rs] serve_stream.simps [of _ _ _ "b_data b @ arriving rs"]
          split: option.split prod.split)
  qed
qed

text \<open>Frames as the peer means them, and what the server does for each in turn.\<close>

record wire_frame =
  wf_fin :: bool
  wf_opcode :: byte
  wf_key :: "byte list option"
  wf_payload :: string

definition frame_ok :: "wire_frame \<Rightarrow> bool" where
  "frame_ok f \<longleftrightarrow> wf_opcode f < 0x10 \<and> length (wf_payload f) < 2 ^ 63 \<and>
     (case wf_key f of None \<Rightarrow> True | Some k \<Rightarrow> length k = 4)"

definition wire_text :: "wire_frame list \<Rightarrow> string" where
  "wire_text fs = concat (map (\<lambda>f. rfc_frame (wf_fin f) (wf_opcode f) (wf_key f) (wf_payload f)) fs)"

fun handle_all :: "invoker \<Rightarrow> nat \<Rightarrow> nat \<Rightarrow> wire_frame list \<Rightarrow> unit ws_act" where
  "handle_all invoke fd h [] it = Some ((), it)"
| "handle_all invoke fd h (f # fs) it = do {
     (again, it) \<leftarrow> handle_frame invoke fd h (wf_opcode f) (wf_payload f) it;
     if again then handle_all invoke fd h fs it else Some ((), it)
   }"

lemma serve_frames:
  "list_all frame_ok fs \<Longrightarrow> serve_stream invoke fd h (wire_text fs) it = handle_all invoke fd h fs it"
proof (induction fs arbitrary: it)
  case Nil
  show ?case by (simp add: wire_text_def serve_stream.simps [of _ _ _ "[]"] try_parse_frame_def)
next
  case (Cons f fs)
  let ?frame = "rfc_frame (wf_fin f) (wf_opcode f) (wf_key f) (wf_payload f)"
  have w: "wire_text (f # fs) = ?frame @ wire_text fs" by (simp add: wire_text_def)
  have "try_parse_frame (wire_text (f # fs)) = Frame (wf_fin f) (wf_opcode f) (wf_payload f) (length ?frame)"
    unfolding w using Cons.prems by (intro rfc_frame_read) (auto simp: frame_ok_def)
  moreover have "drop (length ?frame) (wire_text (f # fs)) = wire_text fs" by (simp add: w)
  ultimately show ?case using Cons
    by (auto simp: serve_stream.simps [of _ _ _ "wire_text (f # fs)"] split: option.split prod.split)
qed

section \<open>Properties\<close>

text \<open>
  C14. A frame as RFC 6455 lays it out, masked or not and with any of the three forms of the length, is
  read back by \<^verbatim>\<open>try_parse_frame\<close> as it was sent, whatever follows it in the buffer; before its last
  byte has arrived it is incomplete.  What \<^verbatim>\<open>ws_write_frame\<close> sends is such a frame.
\<close>

theorem ws_frame_roundtrip:
  assumes "opcode < 0x10" "length p < 2 ^ 63" "\<And>k. key = Some k \<Longrightarrow> length k = 4"
  shows "try_parse_frame (rfc_frame fin opcode key p @ later) = Frame fin opcode p (length (rfc_frame fin opcode key p)) \<and>
    (j < length (rfc_frame fin opcode key p) \<longrightarrow> try_parse_frame (take j (rfc_frame fin opcode key p)) = Frame_incomplete) \<and>
    ws_frame opcode p = rfc_frame True opcode None p"
  using rfc_frame_read [OF assms] rfc_frame_prefix [OF assms] ws_frame_rfc [OF assms(1), of p] assms(2) by simp

lemma ws_frame_roundtrip_witness:
  "try_parse_frame (rfc_frame True 1 (Some [1, 2, 3, 4]) ''hello'' @ ''x'') =
     Frame True 1 ''hello'' (length (rfc_frame True 1 (Some [1, 2, 3, 4]) ''hello'')) \<and>
   length (rfc_frame True 1 (Some [1, 2, 3, 4]) ''hello'') = 11"
proof -
  have "length k = 4" if "Some [1, 2, 3, 4] = Some k" for k :: "byte list" using that by auto
  from ws_frame_roundtrip [of 1 "''hello''" "Some [1, 2, 3, 4]" True "''x''", OF _ _ this] show ?thesis
    by (simp add: rfc_frame_def rfc_length_def rfc_mask_def)
qed

text \<open>
  C13. The loop of a connection implements the protocol: whatever the pieces in which the frames of
  the peer arrive, and whatever the callbacks do, the loop handles exactly these frames, in order, until
  one of them ends it.
\<close>

theorem ws_frames_refine:
  assumes "list_all frame_ok fs" "ends rs" "b_data b @ arriving rs = wire_text fs"
  shows "frame_loop invoke fd h rs b it = handle_all invoke fd h fs it"
  using frame_loop_stream [OF assms(2)] serve_frames [OF assms(1)] assms(3) by simp

definition two_frames :: "wire_frame list" where
  "two_frames = [\<lparr>wf_fin = True, wf_opcode = 1, wf_key = Some [1, 2, 3, 4], wf_payload = ''hi''\<rparr>,
                 \<lparr>wf_fin = True, wf_opcode = 9, wf_key = None, wf_payload = ''p''\<rparr>]"

definition two_pieces :: "recv_result list" where
  "two_pieces = [Received (take 3 (wire_text two_frames)), Recv_again, Received (drop 3 (wire_text two_frames)), Peer_closed]"

lemma ws_frames_refine_witness:
  "\<forall>invoke it. frame_loop invoke 7 0 two_pieces buf_init it = handle_all invoke 7 0 two_frames it"
proof (intro allI ws_frames_refine)
  have l: "length (wire_text two_frames) = 11"
    by (simp add: wire_text_def two_frames_def rfc_frame_def rfc_length_def rfc_mask_def)
  then show "b_data buf_init @ arriving two_pieces = wire_text two_frames"
    by (auto simp: two_pieces_def buf_init_def dest: arg_cong [where f = length])
  show "ends two_pieces" by (simp add: two_pieces_def)
  show "list_all frame_ok two_frames" by (simp add: two_frames_def frame_ok_def)
qed

text \<open>
  C37. When the peer ends the connection with a close frame, the handler that the script has set for
  \<^verbatim>\<open>"close"\<close> is not called, nor is any other: the connection ends in the same state whatever the
  handlers do.  The loop answers the frame and marks the connection as closed, and \<^verbatim>\<open>on_close\<close> is called
  only for connections that are not.
\<close>

theorem ws_close_silent:
  assumes "ends rs" "b_data b @ arriving rs = rfc_frame True 8 key payload @ later"
    "length payload < 2 ^ 63" "\<And>k. key = Some k \<Longrightarrow> length k = 4"
    "net_write_all (ww_send (it_world it) fd) (ww_sent (it_world it) fd) (ws_frame 8 []) = Some r"
    "h < length (ww_conns (it_world it))"
  shows "\<exists>it'. sc_closed (conn_of it' h) \<and> sc_on_close (conn_of it' h) = sc_on_close (conn_of it h) \<and>
    (\<forall>invoke. ws_serve invoke fd h rs b it = Some ((), it'))"
proof -
  obtain it1 again where h: "\<And>invoke. handle_frame invoke fd h 8 payload it = Some (False, it1)"
    and c: "sc_closed (conn_of it1 h)" "sc_on_close (conn_of it1 h) = sc_on_close (conn_of it h)"
    using assms(5,6) by (cases r, cases "sc_closed (conn_of it h)")
      (auto simp: handle_frame_def ws_write_frame_def write_fd_def on_conn_def on_world_def conn_of_def entry_at_def Let_def)
  have "try_parse_frame (b_data b @ arriving rs) = Frame True 8 payload (length (rfc_frame True 8 key payload))"
    unfolding assms(2) by (rule rfc_frame_read [OF _ assms(3,4)]) simp
  with h have "frame_loop invoke fd h rs b it = Some ((), it1)" for invoke
    by (simp add: frame_loop_stream [OF assms(1)] serve_stream.simps [of _ _ _ "b_data b @ arriving rs"])
  with c have "ws_serve invoke fd h rs b it = Some ((), close_fd fd it1)" for invoke
    by (auto simp: ws_serve_def split: option.split)
  moreover have "conn_of (close_fd fd it1) h = conn_of it1 h"
    by (simp add: conn_of_def close_fd_def on_world_def)
  ultimately show ?thesis using c by (intro exI [of _ "close_fd fd it1"]) simp
qed

definition one_connection :: "ws_world interp" where
  "one_connection = interp_init []
     \<lparr>ww_routes = [], ww_listen_fd = 3,
      ww_conns = [\<lparr>sc_fd = 7, sc_on_message = None, sc_on_close = Some (V_FUNC 0), sc_closed = False\<rparr>],
      ww_send = (\<lambda>_. [Sent 100]), ww_sent = (\<lambda>_. []), ww_closed_fds = [], ww_listening = 1, ww_stderr = []\<rparr>"

lemma ws_close_silent_witness:
  "\<exists>it'. sc_on_close (conn_of it' 0) = Some (V_FUNC 0) \<and>
    (\<forall>invoke. ws_serve invoke 7 0 [Received (rfc_frame True 8 None []), Peer_closed] buf_init one_connection = Some ((), it'))"
proof -
  let ?rs = "[Received (rfc_frame True 8 None []), Peer_closed]"
  have "rfc_frame True 8 None [] \<noteq> []" by (simp add: rfc_frame_def rfc_length_def rfc_mask_def)
  then have rs: "ends ?rs" "b_data buf_init @ arriving ?rs = rfc_frame True 8 None [] @ []"
    by (simp_all add: buf_init_def)
  have w: "h = 0 \<Longrightarrow> h < length (ww_conns (it_world one_connection))"
    "sc_on_close (conn_of one_connection 0) = Some (V_FUNC 0)" for h
    by (simp_all add: one_connection_def interp_init_def env_new_def conn_of_def entry_at_def)
  obtain r where "net_write_all (ww_send (it_world one_connection) 7) (ww_sent (it_world one_connection) 7) (ws_frame 8 []) = Some r"
    by (simp add: one_connection_def interp_init_def ws_frame_def frame_length_def env_new_def)
  from ws_close_silent [OF rs _ _ this w(1) [OF refl]] w(2) show ?thesis by auto
qed

lemma huge_length: "big_endian (replicate 8 0xFF) = - 1"
  by code_simp

text \<open>
  C40. Three texts that a peer can send make the server leave the defined behaviour of C: a frame whose
  length wraps around, so that the test for its last byte passes and the copy reads \<open>2 ^ 64 - 1\<close> bytes; a
  request with a NUL before its first line break, for which \<^verbatim>\<open>strstr\<close> returns NULL; and an empty request
  line, after which \<^verbatim>\<open>path\<close> is read uninitialised.
\<close>

theorem ws_remote_ub:
  "try_parse_frame (map chr_of (0x81 # 0x7F # replicate 8 0xFF) @ later) = Frame_wraps \<and>
   ws_conn_entry invoke fd [Received (NUL # CRLF @ CRLF)] it = Some ((), undefined_behaviour UB_null it) \<and>
   ws_conn_entry invoke fd [Received (CRLF @ CRLF)] it = Some ((), undefined_behaviour UB_uninitialised it)"
proof (intro conjI)
  have "take 8 (map (byte_of \<circ> chr_of) (replicate 8 0xFF) @ map byte_of later) = replicate 8 0xFF"
    by simp
  with huge_length show "try_parse_frame (map chr_of (0x81 # 0x7F # replicate 8 0xFF) @ later) = Frame_wraps"
    by (simp add: try_parse_frame_def frame_payload_def Let_def unat_of_nat)
  show "ws_conn_entry invoke fd [Received (NUL # CRLF @ CRLF)] it = Some ((), undefined_behaviour UB_null it)"
    by (simp add: ws_conn_entry_def read_header.simps buf_init_def buf_append_def find_header_end_def find_sub.simps
        ws_request_def strstr_from_def cstr_def)
  show "ws_conn_entry invoke fd [Received (CRLF @ CRLF)] it = Some ((), undefined_behaviour UB_uninitialised it)"
    by (simp add: ws_conn_entry_def read_header.simps buf_init_def buf_append_def find_header_end_def find_sub.simps
        ws_request_def strstr_from_def cstr_def scan_two_def scan_word_def)
qed

end
