(* ===== verification/Worker.thy ===== *)
theory Worker
  imports Interp_Safe List_Methods Typecheck Parser "HOL-Library.Multiset"
begin

text \<open>
  Worker threads: \<^verbatim>\<open>src/runtime/worker.c\<close> and \<^verbatim>\<open>include/worker.h\<close>.  The threads of a pool share its
  queue, guarded by a mutex, and the interpreter, guarded by \<^verbatim>\<open>g_interp_lock\<close>.  A step is one critical
  section of a thread, a change that a thread makes without a lock, one call of the main program, or one
  statement that the main program executes, so that a run is an interleaving of steps; waiting for a condition
  variable is a step that is not possible yet.

  The main program takes the lock for the callbacks of timers only, so its statements are steps at any time,
  also while a thread holds the lock.  A statement and a job are one step each: the model has every order of
  them, but not a statement in the middle of a job, which is a data race in C.
\<close>

section \<open>The pool\<close>

text \<open>
  Where a thread is in \<^verbatim>\<open>pool_thread_main\<close>: waiting for a job, with a job, in it, with its result, and with
  its result once the thread has been written into it.
\<close>

datatype thread_pc = Waiting | Has_job val | Running val | Has_result val | Stamped val

text \<open>
  \<open>wp_ids\<close> are the values of \<^verbatim>\<open>pthread_self()\<close>, \<open>wp_lock\<close> is the thread that holds the lock of the
  interpreter.
\<close>

record 'w worker_pool =
  wp_threads :: "thread_pc list"
  wp_ids :: "nat \<Rightarrow> llong"
  wp_queue :: "val list"
  wp_submitted :: nat
  wp_completed :: nat
  wp_results :: "val list"
  wp_lock :: "nat option"
  wp_interp :: "'w interp"

definition worker_pool_create :: "int \<Rightarrow> (nat \<Rightarrow> llong) \<Rightarrow> 'w interp \<Rightarrow> 'w worker_pool" where
  "worker_pool_create n_threads ids it =
     \<lparr>wp_threads = replicate (nat (max 1 n_threads)) Waiting, wp_ids = ids, wp_queue = [], wp_submitted = 0,
      wp_completed = 0, wp_results = [], wp_lock = None, wp_interp = it\<rparr>"

definition worker_pool_submit :: "val \<Rightarrow> 'w worker_pool \<Rightarrow> 'w worker_pool" where
  "worker_pool_submit func p = p\<lparr>wp_queue := wp_queue p @ [func], wp_submitted := wp_submitted p + 1\<rparr>"

definition set_pc :: "nat \<Rightarrow> thread_pc \<Rightarrow> 'w worker_pool \<Rightarrow> 'w worker_pool" where
  "set_pc i pc p = p\<lparr>wp_threads := (wp_threads p)[i := pc]\<rparr>"

definition pc_of :: "'w worker_pool \<Rightarrow> nat \<Rightarrow> thread_pc option" where
  "pc_of p i = (if i < length (wp_threads p) then Some (wp_threads p ! i) else None)"

text \<open>
  Taking a job off the queue, the lock of the interpreter, the job itself, a call of its function without
  arguments, and its result.
\<close>

definition take_job :: "nat \<Rightarrow> 'w worker_pool \<Rightarrow> 'w worker_pool option" where
  "take_job i p =
     (case (pc_of p i, wp_queue p) of
        (Some Waiting, job # q) \<Rightarrow> Some (set_pc i (Has_job job) (p\<lparr>wp_queue := q\<rparr>))
      | _ \<Rightarrow> None)"

definition take_lock :: "nat \<Rightarrow> 'w worker_pool \<Rightarrow> 'w worker_pool option" where
  "take_lock i p =
     (case (pc_of p i, wp_lock p) of
        (Some (Has_job job), None) \<Rightarrow> Some (set_pc i (Running job) (p\<lparr>wp_lock := Some i\<rparr>))
      | _ \<Rightarrow> None)"

definition run_job :: "'w executor \<Rightarrow> nat \<Rightarrow> 'w worker_pool \<Rightarrow> 'w worker_pool option" where
  "run_job ex i p =
     (case pc_of p i of
        Some (Running job) \<Rightarrow> do {
          (result, it) \<leftarrow> interp_invoke ex job [] (wp_interp p);
          Some (set_pc i (Has_result result) (p\<lparr>wp_lock := None, wp_interp := it\<rparr>))
        }
      | _ \<Rightarrow> None)"

text \<open>
  \<^verbatim>\<open>if (result->kind == V_DATA) value_data_set(result, "threadId", ...)\<close>, with neither of the two locks.
\<close>

definition stamp_thread :: "llong \<Rightarrow> val \<Rightarrow> store \<Rightarrow> store" where
  "stamp_thread tid v st =
     (case v of V_DATA d \<Rightarrow> value_data_set d ''threadId'' (V_NUM tid) st | _ \<Rightarrow> st)"

definition stamp_result :: "nat \<Rightarrow> 'w worker_pool \<Rightarrow> 'w worker_pool option" where
  "stamp_result i p =
     (case pc_of p i of
        Some (Has_result result) \<Rightarrow>
          Some (set_pc i (Stamped result)
            (p\<lparr>wp_interp := on_store (stamp_thread (wp_ids p i) result) (wp_interp p)\<rparr>))
      | _ \<Rightarrow> None)"

definition put_result :: "nat \<Rightarrow> 'w worker_pool \<Rightarrow> 'w worker_pool option" where
  "put_result i p =
     (case pc_of p i of
        Some (Stamped result) \<Rightarrow>
          Some (set_pc i Waiting (p\<lparr>wp_results := wp_results p @ [result], wp_completed := wp_completed p + 1\<rparr>))
      | _ \<Rightarrow> None)"

text \<open>\<^verbatim>\<open>wait_all\<close> returns once no job is missing, with a list of the results in the order of completion.\<close>

definition worker_pool_wait_all :: "'w worker_pool \<Rightarrow> (val \<times> 'w worker_pool) option" where
  "worker_pool_wait_all p =
     (if wp_completed p < wp_submitted p then None
      else (let st = it_store (wp_interp p);
                l = length (st_lists st);
                st = fold (value_list_append l) (wp_results p) (snd (value_list_empty st))
            in Some (V_LIST l,
                 p\<lparr>wp_interp := (wp_interp p)\<lparr>it_store := st\<rparr>, wp_results := [], wp_submitted := 0,
                   wp_completed := 0\<rparr>)))"

text \<open>The steps: those of thread \<open>i\<close>, and those of the main program, of which \<open>Main\<close> executes a statement.\<close>

datatype pool_action = Submit val | Take nat | Lock nat | Run nat | Stamp nat | Put nat | Wait_all | Main stmt addr

fun pool_do :: "'w executor \<Rightarrow> pool_action \<Rightarrow> 'w worker_pool \<Rightarrow> 'w worker_pool option" where
  "pool_do ex (Submit f) p = Some (worker_pool_submit f p)"
| "pool_do ex (Take i) p = take_job i p"
| "pool_do ex (Lock i) p = take_lock i p"
| "pool_do ex (Run i) p = run_job ex i p"
| "pool_do ex (Stamp i) p = stamp_result i p"
| "pool_do ex (Put i) p = put_result i p"
| "pool_do ex Wait_all p = map_option snd (worker_pool_wait_all p)"
| "pool_do ex (Main s env) p = map_option (\<lambda>(_, it). p\<lparr>wp_interp := it\<rparr>) (ex s env (wp_interp p))"

section \<open>Runs of a pool\<close>

text \<open>
  What happens in a run, as a log beside the states of the program: a job is submitted; a call of the function
  of a job returns a value; \<^verbatim>\<open>wait_all\<close> returns.
\<close>

datatype pool_event = Submitted val | Called val val | Collected

definition pool_events :: "'w executor \<Rightarrow> pool_action \<Rightarrow> 'w worker_pool \<Rightarrow> pool_event list" where
  "pool_events ex a p =
     (case a of
        Submit f \<Rightarrow> [Submitted f]
      | Wait_all \<Rightarrow> [Collected]
      | Run i \<Rightarrow>
          (case pc_of p i of
             Some (Running job) \<Rightarrow>
               (case interp_invoke ex job [] (wp_interp p) of Some (result, _) \<Rightarrow> [Called job result] | None \<Rightarrow> [])
           | _ \<Rightarrow> [])
      | _ \<Rightarrow> [])"

text \<open>What the main program submits is a value of its store, and it executes statements in its scopes.\<close>

fun action_ok :: "pool_action \<Rightarrow> 'w interp \<Rightarrow> bool" where
  "action_ok (Submit f) it = live it (RVal f)"
| "action_ok (Main s env) it = live it (REnv env)"
| "action_ok _ it = True"

inductive pool_run :: "'w :: preorder executor \<Rightarrow> pool_event list \<Rightarrow> 'w worker_pool \<Rightarrow> bool" for ex where
  created: "good it \<Longrightarrow> pool_run ex [] (worker_pool_create n ids it)"
| step: "pool_run ex h p \<Longrightarrow> action_ok a (wp_interp p) \<Longrightarrow> pool_do ex a p = Some p' \<Longrightarrow>
    pool_run ex (h @ pool_events ex a p) p'"

text \<open>The events since the last \<^verbatim>\<open>wait_all\<close>: the jobs submitted, those called, and what they returned.\<close>

definition recent :: "pool_event list \<Rightarrow> pool_event list" where
  "recent h = rev (takeWhile (\<lambda>e. e \<noteq> Collected) (rev h))"

definition jobs_submitted :: "pool_event list \<Rightarrow> val list" where
  "jobs_submitted h = List.map_filter (\<lambda>e. case e of Submitted f \<Rightarrow> Some f | _ \<Rightarrow> None) h"

definition jobs_called :: "pool_event list \<Rightarrow> val list" where
  "jobs_called h = List.map_filter (\<lambda>e. case e of Called f r \<Rightarrow> Some f | _ \<Rightarrow> None) h"

definition values_returned :: "pool_event list \<Rightarrow> val list" where
  "values_returned h = List.map_filter (\<lambda>e. case e of Called f r \<Rightarrow> Some r | _ \<Rightarrow> None) h"

lemma recent_simps [simp]:
  "recent [] = []" "recent (h @ [Submitted f]) = recent h @ [Submitted f]"
  "recent (h @ [Called f r]) = recent h @ [Called f r]" "recent (h @ [Collected]) = []"
  by (simp_all add: recent_def)

lemma events_simps [simp]:
  "jobs_submitted [] = []" "jobs_called [] = []" "values_returned [] = []"
  "jobs_submitted (h @ [Submitted f]) = jobs_submitted h @ [f]" "jobs_submitted (h @ [Called f r]) = jobs_submitted h"
  "jobs_called (h @ [Submitted f]) = jobs_called h" "jobs_called (h @ [Called f r]) = jobs_called h @ [f]"
  "values_returned (h @ [Submitted f]) = values_returned h" "values_returned (h @ [Called f r]) = values_returned h @ [r]"
  by (simp_all add: jobs_submitted_def jobs_called_def values_returned_def map_filter_def)

lemma called_returned: "length (values_returned h) = length (jobs_called h)"
  by (induction h)
    (auto simp: values_returned_def jobs_called_def map_filter_simps split: pool_event.split)

text \<open>A sequence of actions from a state, with the events.\<close>

fun pool_runs :: "'w executor \<Rightarrow> pool_action list \<Rightarrow> pool_event list \<times> 'w worker_pool \<Rightarrow>
    (pool_event list \<times> 'w worker_pool) option" where
  "pool_runs ex [] s = Some s"
| "pool_runs ex (a # as) (h, p) =
     (if action_ok a (wp_interp p)
      then Option.bind (pool_do ex a p) (\<lambda>p'. pool_runs ex as (h @ pool_events ex a p, p'))
      else None)"

lemma pool_runs_run:
  "pool_run ex h p \<Longrightarrow> pool_runs ex as (h, p) = Some (h', p') \<Longrightarrow> pool_run ex h' p'"
  by (induction as arbitrary: h p) (auto split: if_splits bind_splits intro: step)

section \<open>Jobs are neither lost nor run twice\<close>

fun pc_jobs :: "thread_pc \<Rightarrow> val multiset" where
  "pc_jobs (Has_job j) = {#j#}"
| "pc_jobs (Running j) = {#j#}"
| "pc_jobs _ = {#}"

fun pc_results :: "thread_pc \<Rightarrow> val multiset" where
  "pc_results (Has_result r) = {#r#}"
| "pc_results (Stamped r) = {#r#}"
| "pc_results _ = {#}"

definition in_flight :: "(thread_pc \<Rightarrow> val multiset) \<Rightarrow> 'w worker_pool \<Rightarrow> val multiset" where
  "in_flight g p = (\<Sum>pc\<leftarrow>wp_threads p. g pc)"

definition pool_values :: "'w worker_pool \<Rightarrow> val set" where
  "pool_values p = set (wp_queue p) \<union> set (wp_results p) \<union>
     (\<Union>pc \<in> set (wp_threads p). set_mset (pc_jobs pc) \<union> set_mset (pc_results pc))"

text \<open>
  The jobs since the last \<^verbatim>\<open>wait_all\<close> are those in the queue, those that threads have, and those that have
  been called; the values that were returned are with the threads or among the results; and the lock is held by
  the one thread that is about to run its job.
\<close>

definition counts_ok :: "pool_event list \<Rightarrow> 'w worker_pool \<Rightarrow> bool" where
  "counts_ok h p \<longleftrightarrow> wp_submitted p = length (jobs_submitted (recent h)) \<and> wp_completed p = length (wp_results p)"

definition jobs_ok :: "pool_event list \<Rightarrow> 'w worker_pool \<Rightarrow> bool" where
  "jobs_ok h p \<longleftrightarrow>
     mset (jobs_submitted (recent h)) = mset (wp_queue p) + in_flight pc_jobs p + mset (jobs_called (recent h)) \<and>
     mset (values_returned (recent h)) = mset (wp_results p) + in_flight pc_results p"

definition lock_ok :: "'w worker_pool \<Rightarrow> bool" where
  "lock_ok p \<longleftrightarrow> (\<forall>i. wp_lock p = Some i \<longleftrightarrow> (\<exists>j. pc_of p i = Some (Running j)))"

definition values_ok :: "'w :: preorder worker_pool \<Rightarrow> bool" where
  "values_ok p \<longleftrightarrow> good (wp_interp p) \<and> (\<forall>v \<in> pool_values p. live (wp_interp p) (RVal v))"

definition pool_ok :: "pool_event list \<Rightarrow> 'w :: preorder worker_pool \<Rightarrow> bool" where
  "pool_ok h p \<longleftrightarrow> counts_ok h p \<and> jobs_ok h p \<and> lock_ok p \<and> values_ok p"

lemma sum_update:
  fixes g :: "thread_pc \<Rightarrow> 'a multiset"
  shows "i < length pcs \<Longrightarrow> (\<Sum>pc\<leftarrow>pcs[i := pc']. g pc) + g (pcs ! i) = (\<Sum>pc\<leftarrow>pcs. g pc) + g pc'"
proof (induction pcs arbitrary: i)
  case (Cons pc pcs)
  then show ?case by (cases i) (auto simp: ac_simps)
qed simp

text \<open>A step of the thread \<open>i\<close>: its place changes, and fields other than the threads.\<close>

definition moves :: "nat \<Rightarrow> thread_pc \<Rightarrow> thread_pc \<Rightarrow> 'w worker_pool \<Rightarrow> 'w worker_pool \<Rightarrow> bool" where
  "moves i pc pc' p p' \<longleftrightarrow> pc_of p i = Some pc \<and> wp_threads p' = (wp_threads p)[i := pc']"

lemma moves_set_pc: "pc_of p i = Some pc \<Longrightarrow> wp_threads q = wp_threads p \<Longrightarrow> moves i pc pc' p (set_pc i pc' q)"
  by (simp add: moves_def set_pc_def)

lemma moves_in_flight: "moves i pc pc' p p' \<Longrightarrow> in_flight g p' + g pc = in_flight g p + g pc'"
  using sum_update [of i "wp_threads p" g pc'] by (auto simp: moves_def pc_of_def in_flight_def split: if_splits)

lemma moves_pc_of: "moves i pc pc' p p' \<Longrightarrow> pc_of p' k = (if k = i then Some pc' else pc_of p k)"
  by (auto simp: moves_def pc_of_def split: if_splits)

lemma moves_values:
  "moves i pc pc' p p' \<Longrightarrow>
   pool_values p' \<subseteq> set_mset (pc_jobs pc') \<union> set_mset (pc_results pc') \<union> pool_values p \<union> set (wp_queue p') \<union> set (wp_results p')"
  by (auto simp: moves_def pool_values_def dest!: set_update_subset_insert [THEN subsetD])

lemma thread_values:
  "pc_of p i = Some pc \<Longrightarrow> set_mset (pc_jobs pc) \<union> set_mset (pc_results pc) \<subseteq> pool_values p"
  by (force simp: pool_values_def pc_of_def split: if_splits)

lemma set_pc_simps [simp]:
  "wp_ids (set_pc i pc p) = wp_ids p" "wp_queue (set_pc i pc p) = wp_queue p"
  "wp_submitted (set_pc i pc p) = wp_submitted p" "wp_completed (set_pc i pc p) = wp_completed p"
  "wp_results (set_pc i pc p) = wp_results p" "wp_lock (set_pc i pc p) = wp_lock p"
  "wp_interp (set_pc i pc p) = wp_interp p"
  by (simp_all add: set_pc_def)

lemma none_in_flight: "sum_list (replicate k {#}) = {#}"
  by (induction k) auto

text \<open>A new list with given items.\<close>

lemma append_items_step:
  "wf_store st \<Longrightarrow> l < length (st_lists st) \<Longrightarrow> (\<And>v. v \<in> set vs \<Longrightarrow> val_ok st v) \<Longrightarrow>
   step_ok st (fold (value_list_append l) vs st)"
proof (induction vs arbitrary: st)
  case (Cons v vs)
  let ?st = "value_list_append l v st"
  have s: "step_ok st ?st" using Cons.prems by (intro value_list_append_step) auto
  then have "larger st ?st" "wf_store ?st" by (auto simp: step_ok_def intro: evolves_larger)
  moreover have "val_ok ?st w" if "w \<in> set vs" for w
    using val_ok_larger [OF calculation(1)] Cons.prems(3) that by simp
  ultimately have "step_ok ?st (fold (value_list_append l) vs ?st)"
    using Cons.IH [of ?st] Cons.prems(2) by (simp add: larger_def)
  with s show ?case by (simp add: step_ok_trans)
qed (simp add: step_ok_def)

lemma new_list_step:
  assumes "wf_store st" "\<And>v. v \<in> set vs \<Longrightarrow> val_ok st v"
  shows "step_ok st (fold (value_list_append (length (st_lists st))) vs (snd (value_list_empty st)))"
proof -
  let ?st = "snd (value_list_empty st)"
  have s: "step_ok st ?st" "length (st_lists st) < length (st_lists ?st)"
    using value_list_empty_step [OF assms(1)] by (auto simp: value_list_empty_def)
  then have "larger st ?st" "wf_store ?st" by (auto simp: step_ok_def intro: evolves_larger)
  then have "step_ok ?st (fold (value_list_append (length (st_lists st))) vs ?st)"
    using s(2) assms(2) by (intro append_items_step) (auto intro: val_ok_larger)
  with s(1) show ?thesis by (rule step_ok_trans)
qed

locale job_contract =
  fixes ex :: "'w :: preorder executor"
  assumes ex_safe: "good it \<Longrightarrow> live it (REnv env) \<Longrightarrow> safe sig_ok it (ex s env it)"
    and job_safe: "good it \<Longrightarrow> safe val_live it (interp_invoke ex f [] it)"
begin

lemma create_ok: "good it \<Longrightarrow> pool_ok [] (worker_pool_create n ids it)"
  by (auto simp: pool_ok_def counts_ok_def jobs_ok_def lock_ok_def values_ok_def worker_pool_create_def
      in_flight_def pool_values_def pc_of_def none_in_flight)

text \<open>Steps that leave the threads as they are.\<close>

lemma submit_ok:
  assumes "pool_ok h p" "live (wp_interp p) (RVal f)"
  shows "pool_ok (h @ [Submitted f]) (worker_pool_submit f p)"
proof -
  let ?p = "worker_pool_submit f p"
  have "pc_of ?p i = pc_of p i" "in_flight g ?p = in_flight g p" for i g
    by (simp_all add: pc_of_def in_flight_def worker_pool_submit_def)
  moreover have "pool_values ?p \<subseteq> insert f (pool_values p)"
    by (auto simp: pool_values_def worker_pool_submit_def)
  ultimately show ?thesis using assms
    by (auto simp: pool_ok_def counts_ok_def jobs_ok_def lock_ok_def values_ok_def worker_pool_submit_def)
qed

lemma interp_ok:
  assumes "pool_ok h p" "kept (wp_interp p) it"
  shows "pool_ok h (p\<lparr>wp_interp := it\<rparr>)"
  using assms kept_good [OF assms(2)] kept_live [OF assms(2)]
  by (auto simp: pool_ok_def counts_ok_def jobs_ok_def lock_ok_def values_ok_def pc_of_def in_flight_def pool_values_def)

text \<open>A step of a thread, after which the pool has no values but those it had and \<open>new\<close> ones.\<close>

lemma move_ok:
  assumes "moves i pc pc' p p'" "pool_ok h p" "kept (wp_interp p) (wp_interp p')"
    "set_mset (pc_jobs pc') \<union> set_mset (pc_results pc') \<subseteq> pool_values p \<union> new"
    "set (wp_results p') \<subseteq> pool_values p" "set (wp_queue p') \<subseteq> set (wp_queue p)"
    "\<And>v. v \<in> new \<Longrightarrow> live (wp_interp p') (RVal v)"
  shows "values_ok p'"
proof -
  have "set (wp_queue p') \<subseteq> pool_values p" using assms(6) by (auto simp: pool_values_def)
  with moves_values [OF assms(1)] assms(4,5) have "pool_values p' \<subseteq> pool_values p \<union> new" by blast
  with assms(2,7) kept_good [OF assms(3)] kept_live [OF assms(3)] show ?thesis
    by (auto simp: pool_ok_def values_ok_def)
qed

lemma take_ok:
  assumes "pool_ok h p" "take_job i p = Some p'"
  shows "pool_ok h p'"
proof -
  obtain job q where j: "pc_of p i = Some Waiting" "wp_queue p = job # q"
    and p': "p' = set_pc i (Has_job job) (p\<lparr>wp_queue := q\<rparr>)"
    using assms(2) by (auto simp: take_job_def split: option.splits thread_pc.splits list.splits)
  have m: "moves i Waiting (Has_job job) p p'" unfolding p' by (rule moves_set_pc) (use j in simp_all)
  have g: "good (wp_interp p)" using assms(1) by (simp add: pool_ok_def values_ok_def)
  have "jobs_ok h p'"
    using assms(1) j moves_in_flight [OF m, of pc_jobs] moves_in_flight [OF m, of pc_results]
    by (simp add: pool_ok_def jobs_ok_def p' ac_simps)
  moreover have "values_ok p'"
    by (rule move_ok [OF m assms(1), of "{}"]) (use j kept_refl [OF g] in \<open>auto simp: p' pool_values_def\<close>)
  moreover have "counts_ok h p'" "lock_ok p'"
    using assms(1) j moves_pc_of [OF m] by (auto simp: pool_ok_def counts_ok_def lock_ok_def p')
  ultimately show ?thesis by (simp add: pool_ok_def)
qed

lemma lock_step_ok:
  assumes "pool_ok h p" "take_lock i p = Some p'"
  shows "pool_ok h p'"
proof -
  obtain job where j: "pc_of p i = Some (Has_job job)" "wp_lock p = None"
    and p': "p' = set_pc i (Running job) (p\<lparr>wp_lock := Some i\<rparr>)"
    using assms(2) by (auto simp: take_lock_def split: option.splits thread_pc.splits)
  have m: "moves i (Has_job job) (Running job) p p'" unfolding p' by (rule moves_set_pc) (use j in simp_all)
  have g: "good (wp_interp p)" using assms(1) by (simp add: pool_ok_def values_ok_def)
  have "jobs_ok h p'"
    using assms(1) moves_in_flight [OF m, of pc_jobs] moves_in_flight [OF m, of pc_results]
    by (simp add: pool_ok_def jobs_ok_def p')
  moreover have "values_ok p'"
    by (rule move_ok [OF m assms(1), of "{}"])
      (use thread_values [OF j(1)] kept_refl [OF g] in \<open>auto simp: p' pool_values_def\<close>)
  moreover have "counts_ok h p'" "lock_ok p'"
    using assms(1) j moves_pc_of [OF m] by (auto simp: pool_ok_def counts_ok_def lock_ok_def p')
  ultimately show ?thesis by (simp add: pool_ok_def)
qed

text \<open>Running a job changes the interpreter, which keeps all its values.\<close>

lemma run_ok:
  assumes "pool_ok h p" "run_job ex i p = Some p'"
  shows "pool_ok (h @ pool_events ex (Run i) p) p'"
proof -
  obtain job result it where j: "pc_of p i = Some (Running job)" "interp_invoke ex job [] (wp_interp p) = Some (result, it)"
    and p': "p' = set_pc i (Has_result result) (p\<lparr>wp_lock := None, wp_interp := it\<rparr>)"
    using assms(2) by (auto simp: run_job_def split: option.splits thread_pc.splits bind_splits)
  have m: "moves i (Running job) (Has_result result) p p'"
    unfolding p' by (rule moves_set_pc) (use j in simp_all)
  have "good (wp_interp p)" using assms(1) by (simp add: pool_ok_def values_ok_def)
  then have k: "kept (wp_interp p) it" "live it (RVal result)"
    using job_safe [of "wp_interp p" job] j(2) by (auto simp: safe_def)
  have e: "pool_events ex (Run i) p = [Called job result]" using j by (simp add: pool_events_def)
  have "values_ok p'"
    by (rule move_ok [OF m assms(1), of "{result}"]) (use k in \<open>auto simp: p' pool_values_def\<close>)
  moreover have "jobs_ok (h @ pool_events ex (Run i) p) p'"
    using assms(1) moves_in_flight [OF m, of pc_jobs] moves_in_flight [OF m, of pc_results]
    by (simp add: pool_ok_def jobs_ok_def p' e ac_simps)
  moreover have "wp_lock p = Some i" using assms(1) j(1) by (auto simp: pool_ok_def lock_ok_def)
  then have "\<not> (\<exists>j. pc_of p k = Some (Running j))" if "k \<noteq> i" for k
    using assms(1) that by (auto simp: pool_ok_def lock_ok_def)
  then have "counts_ok (h @ pool_events ex (Run i) p) p'" "lock_ok p'"
    using assms(1) moves_pc_of [OF m] by (auto simp: pool_ok_def counts_ok_def lock_ok_def p' e)
  ultimately show ?thesis by (simp add: pool_ok_def)
qed

lemma stamp_kept:
  assumes "good it" "live it (RVal v)"
  shows "kept it (on_store (stamp_thread tid v) it)"
proof (cases v)
  case (V_DATA d)
  have "step_ok (it_store it) (stamp_thread tid v (it_store it))"
    using value_data_set_step [of "it_store it" d "V_NUM tid" "''threadId''"] assms
    by (simp add: V_DATA stamp_thread_def good_def live_def)
  then show ?thesis using assms(1) by (intro on_store_kept) auto
qed (use assms(1) in \<open>simp_all add: stamp_thread_def on_store_def kept_refl\<close>)

lemma stamp_ok:
  assumes "pool_ok h p" "stamp_result i p = Some p'"
  shows "pool_ok h p'"
proof -
  obtain result where j: "pc_of p i = Some (Has_result result)"
    and p': "p' = set_pc i (Stamped result) (p\<lparr>wp_interp := on_store (stamp_thread (wp_ids p i) result) (wp_interp p)\<rparr>)"
    using assms(2) by (auto simp: stamp_result_def split: option.splits thread_pc.splits)
  have m: "moves i (Has_result result) (Stamped result) p p'"
    unfolding p' by (rule moves_set_pc) (use j in simp_all)
  have r: "result \<in> pool_values p" using thread_values [OF j] by simp
  then have "good (wp_interp p)" "live (wp_interp p) (RVal result)"
    using assms(1) by (auto simp: pool_ok_def values_ok_def)
  then have k: "kept (wp_interp p) (wp_interp p')" using stamp_kept by (simp add: p')
  have "values_ok p'"
    by (rule move_ok [OF m assms(1) k, of "{}"]) (use r in \<open>auto simp: p' pool_values_def\<close>)
  moreover have "jobs_ok h p'"
    using assms(1) moves_in_flight [OF m, of pc_jobs] moves_in_flight [OF m, of pc_results]
    by (simp add: pool_ok_def jobs_ok_def p')
  moreover have "counts_ok h p'" "lock_ok p'"
    using assms(1) j moves_pc_of [OF m] by (auto simp: pool_ok_def counts_ok_def lock_ok_def p')
  ultimately show ?thesis by (simp add: pool_ok_def)
qed

lemma put_ok:
  assumes "pool_ok h p" "put_result i p = Some p'"
  shows "pool_ok h p'"
proof -
  obtain result where j: "pc_of p i = Some (Stamped result)"
    and p': "p' = set_pc i Waiting (p\<lparr>wp_results := wp_results p @ [result], wp_completed := wp_completed p + 1\<rparr>)"
    using assms(2) by (auto simp: put_result_def split: option.splits thread_pc.splits)
  have m: "moves i (Stamped result) Waiting p p'" unfolding p' by (rule moves_set_pc) (use j in simp_all)
  have g: "good (wp_interp p)" using assms(1) by (simp add: pool_ok_def values_ok_def)
  have r: "result \<in> pool_values p" using thread_values [OF j] by simp
  have "values_ok p'"
    by (rule move_ok [OF m assms(1), of "{}"]) (use r kept_refl [OF g] in \<open>auto simp: p' pool_values_def\<close>)
  moreover have "jobs_ok h p'"
    using assms(1) moves_in_flight [OF m, of pc_jobs] moves_in_flight [OF m, of pc_results]
    by (simp add: pool_ok_def jobs_ok_def p' ac_simps)
  moreover have "counts_ok h p'" "lock_ok p'"
    using assms(1) j moves_pc_of [OF m] by (auto simp: pool_ok_def counts_ok_def lock_ok_def p')
  ultimately show ?thesis by (simp add: pool_ok_def)
qed

lemma wait_all_done:
  assumes "pool_ok h p" "worker_pool_wait_all p = Some (v, p')"
  shows "wp_queue p = []" "in_flight pc_jobs p = {#}" "in_flight pc_results p = {#}"
    "mset (jobs_called (recent h)) = mset (jobs_submitted (recent h))"
    "mset (values_returned (recent h)) = mset (wp_results p)"
proof -
  have fin: "wp_submitted p \<le> wp_completed p"
    using assms(2) by (auto simp: worker_pool_wait_all_def split: if_splits)
  have j: "mset (jobs_submitted (recent h)) = mset (wp_queue p) + in_flight pc_jobs p + mset (jobs_called (recent h))"
    "mset (values_returned (recent h)) = mset (wp_results p) + in_flight pc_results p"
    using assms(1) by (simp_all add: pool_ok_def jobs_ok_def)
  have "length (jobs_submitted (recent h)) = length (wp_queue p) + size (in_flight pc_jobs p) + length (jobs_called (recent h))"
    "length (jobs_called (recent h)) = length (wp_results p) + size (in_flight pc_results p)"
    using arg_cong [OF j(1), of size] arg_cong [OF j(2), of size] called_returned [of "recent h"]
    by (simp_all only: size_mset size_union)
  moreover have "length (jobs_submitted (recent h)) \<le> length (wp_results p)"
    using fin assms(1) by (simp add: pool_ok_def counts_ok_def)
  ultimately show e: "wp_queue p = []" "in_flight pc_jobs p = {#}" "in_flight pc_results p = {#}" by auto
  with j show "mset (jobs_called (recent h)) = mset (jobs_submitted (recent h))"
    "mset (values_returned (recent h)) = mset (wp_results p)" by simp_all
qed

lemma wait_all_ok:
  assumes "pool_ok h p" "worker_pool_wait_all p = Some (v, p')"
  shows "pool_ok (h @ [Collected]) p'"
    "v = V_LIST (length (st_lists (it_store (wp_interp p))))"
    "list_items (it_store (wp_interp p')) (length (st_lists (it_store (wp_interp p)))) = wp_results p"
proof -
  let ?st = "it_store (wp_interp p)"
  let ?l = "length (st_lists ?st)"
  let ?st' = "fold (value_list_append ?l) (wp_results p) (snd (value_list_empty ?st))"
  have p': "p' = p\<lparr>wp_interp := (wp_interp p)\<lparr>it_store := ?st'\<rparr>,
      wp_results := [], wp_submitted := 0, wp_completed := 0\<rparr>"
    and "v = V_LIST ?l"
    using assms(2) by (auto simp: worker_pool_wait_all_def Let_def split: if_splits)
  then show "v = V_LIST ?l" by simp
  note d = wait_all_done [OF assms]
  have old: "good (wp_interp p)" "\<And>v. v \<in> pool_values p \<Longrightarrow> live (wp_interp p) (RVal v)"
    using assms(1) by (auto simp: pool_ok_def values_ok_def)
  then have wf: "wf_store ?st" "lists_ok ?st" by (auto simp: good_def wf_store_def)
  from linked.build(2) [OF wf(2), of "wp_results p"]
  show "list_items (it_store (wp_interp p')) ?l = wp_results p" by (simp add: p')
  have "\<And>v. v \<in> set (wp_results p) \<Longrightarrow> val_ok ?st v"
    using old(2) by (auto simp: pool_values_def live_def)
  then have k: "kept (wp_interp p) (wp_interp p')"
    using old(1) wf(1) by (auto simp: p' intro!: step_kept new_list_step)
  have "pool_values p' \<subseteq> pool_values p" by (auto simp: p' pool_values_def)
  then have "values_ok p'"
    using old(2) kept_live [OF k] kept_good [OF k] by (auto simp: values_ok_def)
  moreover have "in_flight g p' = in_flight g p" for g by (simp add: in_flight_def p')
  then have "jobs_ok (h @ [Collected]) p'" using d by (simp add: jobs_ok_def p')
  moreover have "counts_ok (h @ [Collected]) p'" "lock_ok p'"
    using assms(1) by (auto simp: pool_ok_def counts_ok_def lock_ok_def p' pc_of_def)
  ultimately show "pool_ok (h @ [Collected]) p'" by (simp add: pool_ok_def)
qed

lemma main_ok:
  assumes "pool_ok h p" "live (wp_interp p) (REnv env)" "ex s env (wp_interp p) = Some (r, it)"
  shows "pool_ok h (p\<lparr>wp_interp := it\<rparr>)"
proof (rule interp_ok [OF assms(1)])
  have "good (wp_interp p)" using assms(1) by (simp add: pool_ok_def values_ok_def)
  from ex_safe [OF this assms(2), of s] assms(3) show "kept (wp_interp p) it" by (auto simp: safe_def)
qed

lemma run_pool_ok: "pool_run ex h p \<Longrightarrow> pool_ok h p"
proof (induction rule: pool_run.induct)
  case (step h p a p')
  show ?case
  proof (cases a)
    case (Run i)
    with step run_ok show ?thesis by simp
  next
    case (Main s env)
    with step obtain r it where "ex s env (wp_interp p) = Some (r, it)" "p' = p\<lparr>wp_interp := it\<rparr>" by auto
    with main_ok [OF step.IH _ this(1)] Main step.hyps(2) show ?thesis by (simp add: pool_events_def)
  qed (use step in \<open>auto simp: pool_events_def intro: submit_ok take_ok lock_step_ok stamp_ok put_ok wait_all_ok(1)\<close>)
qed (rule create_ok)

end

lemma interp_contract:
  assumes "sys_safe sys"
  shows "job_contract (exec_stmt n sys)"
proof
  fix it :: "'a :: preorder interp" and s f env assume g: "good it"
  show "safe val_live it (interp_invoke (exec_stmt n sys) f [] it)"
    using evaluation.interp_invoke_safe [OF recursion_evaluation [OF assms], of it "[]" n f] g by simp
  assume "live it (REnv env)"
  with g show "safe sig_ok it (exec_stmt n sys s env it)" by (rule exec_stmt_safe [OF assms])
qed

interpretation jobs: job_contract "exec_stmt n offline"
  by (rule interp_contract [OF offline_safe])

section \<open>Single workers\<close>

text \<open>
  A thread that \<^verbatim>\<open>worker_spawn_func\<close> starts: it waits for the lock of the interpreter, runs its
  function, which may wait in \<^verbatim>\<open>worker_handle_join\<close> for another one, returns the lock and then says that
  it is done.
\<close>

datatype handle_pc = Started | Executing | Joining nat | Returned | Done

record handles =
  hs_pcs :: "handle_pc list"
  hs_lock :: "nat option"

datatype handle_action = Spawn | Acquire nat | Join nat nat | Joined nat | Return nat | Signal nat

definition handle_pc_of :: "handles \<Rightarrow> nat \<Rightarrow> handle_pc option" where
  "handle_pc_of s i = (if i < length (hs_pcs s) then Some (hs_pcs s ! i) else None)"

definition to_pc :: "nat \<Rightarrow> handle_pc \<Rightarrow> handles \<Rightarrow> handles" where
  "to_pc i pc s = s\<lparr>hs_pcs := (hs_pcs s)[i := pc]\<rparr>"

text \<open>The calls of \<^verbatim>\<open>worker_handle_join\<close> with the handle \<open>k\<close> return once its thread is done.\<close>

fun handle_do :: "handle_action \<Rightarrow> handles \<Rightarrow> handles option" where
  "handle_do Spawn s = Some (s\<lparr>hs_pcs := hs_pcs s @ [Started]\<rparr>)"
| "handle_do (Acquire i) s =
     (if handle_pc_of s i = Some Started \<and> hs_lock s = None then Some (to_pc i Executing (s\<lparr>hs_lock := Some i\<rparr>))
      else None)"
| "handle_do (Join i k) s =
     (if handle_pc_of s i = Some Executing \<and> k < length (hs_pcs s) then Some (to_pc i (Joining k) s) else None)"
| "handle_do (Joined i) s =
     (case handle_pc_of s i of
        Some (Joining k) \<Rightarrow> if handle_pc_of s k = Some Done then Some (to_pc i Executing s) else None
      | _ \<Rightarrow> None)"
| "handle_do (Return i) s =
     (if handle_pc_of s i = Some Executing then Some (to_pc i Returned (s\<lparr>hs_lock := None\<rparr>)) else None)"
| "handle_do (Signal i) s = (if handle_pc_of s i = Some Returned then Some (to_pc i Done s) else None)"

inductive handle_steps :: "handles \<Rightarrow> handles \<Rightarrow> bool" where
  none: "handle_steps s s"
| more: "handle_steps s s' \<Longrightarrow> handle_do a s' = Some s'' \<Longrightarrow> handle_steps s s''"

text \<open>The value of a join: an empty \<^verbatim>\<open>data\<close> if there is no result, with the thread in it.\<close>

definition join_result :: "llong \<Rightarrow> val option \<Rightarrow> store \<Rightarrow> val \<times> store" where
  "join_result tid result st =
     (let (v, st) = (case result of Some v \<Rightarrow> (v, st) | None \<Rightarrow> value_data_empty st)
      in (v, stamp_thread tid v st))"

text \<open>
  \<^verbatim>\<open>thread_main_file\<close>, on the contents of the file: a program of its own on a new interpreter.  The
  result is what the program leaves and what is written to \<^verbatim>\<open>stderr\<close> besides.
\<close>

definition thread_main_file ::
  "nat \<Rightarrow> 'w sys \<Rightarrow> string \<Rightarrow> string option \<Rightarrow> string \<Rightarrow> 'w \<Rightarrow> ('w interp option \<times> string) option" where
  "thread_main_file n sys path contents input w =
     (case contents of
        None \<Rightarrow> Some (None, ''worker.run: cannot read '' @ in_quotes path @ [NL])
      | Some src \<Rightarrow> do {
          pr \<leftarrow> parse_program (cstr src) (Some path);
          errs \<leftarrow> (if pr_had_error pr then Some 1 else map_option fst (typecheck_program (pr_stmts pr) (Some path)));
          if errs = 0 then do {
            ((_, err), it) \<leftarrow> interp_run n sys (pr_stmts pr) (interp_init input w);
            Some (Some it, err)
          }
          else Some (None, ''worker.run: '' @ in_quotes path @ '' failed to parse/typecheck'' @ [NL])
        })"

definition no_handles :: handles where
  "no_handles = \<lparr>hs_pcs = [], hs_lock = None\<rparr>"

lemma handle_steps_trans: "handle_steps s' s'' \<Longrightarrow> handle_steps s s' \<Longrightarrow> handle_steps s s''"
  by (induction rule: handle_steps.induct) (auto intro: handle_steps.intros)

text \<open>Who is in the interpreter, also while it waits for another thread, has the lock.\<close>

fun inside :: "handle_pc \<Rightarrow> bool" where
  "inside Executing = True"
| "inside (Joining k) = True"
| "inside _ = False"

lemma handle_pc_to:
  "handle_pc_of (to_pc i pc s) k = (if k = i \<and> i < length (hs_pcs s) then Some pc else handle_pc_of s k)"
  by (auto simp: handle_pc_of_def to_pc_def)

lemma handle_pc_lock [simp]: "handle_pc_of (s\<lparr>hs_lock := l\<rparr>) k = handle_pc_of s k"
  by (simp add: handle_pc_of_def)

lemma to_pc_lock [simp]: "hs_lock (to_pc i pc s) = hs_lock s"
  by (simp add: to_pc_def)

lemma handle_pc_spawn:
  "handle_pc_of (s\<lparr>hs_pcs := hs_pcs s @ [Started]\<rparr>) k = (if k = length (hs_pcs s) then Some Started else handle_pc_of s k)"
  by (auto simp: handle_pc_of_def nth_append)

lemma handle_pc_end [simp]: "handle_pc_of s (length (hs_pcs s)) = None"
  by (simp add: handle_pc_of_def)

definition lock_inv :: "handles \<Rightarrow> bool" where
  "lock_inv s \<longleftrightarrow> (\<forall>i pc. handle_pc_of s i = Some pc \<longrightarrow> inside pc \<longrightarrow> hs_lock s = Some i)"

lemma lock_invD: "lock_inv s \<Longrightarrow> handle_pc_of s i = Some pc \<Longrightarrow> inside pc \<Longrightarrow> hs_lock s = Some i"
  unfolding lock_inv_def by blast

lemma handle_pc_less: "handle_pc_of s i = Some pc \<Longrightarrow> i < length (hs_pcs s)"
  by (simp add: handle_pc_of_def split: if_splits)

lemma inside_lock:
  "lock_inv s \<Longrightarrow> handle_pc_of s i = Some Executing \<Longrightarrow> hs_lock s = Some i"
  "lock_inv s \<Longrightarrow> handle_pc_of s i = Some (Joining k) \<Longrightarrow> hs_lock s = Some i"
  by (auto dest: lock_invD)

lemmas handle_step_simps = handle_pc_to handle_pc_spawn

lemma handle_step_lock: "lock_inv s \<Longrightarrow> handle_do a s = Some s' \<Longrightarrow> lock_inv s'"
  by (cases a)
    (auto simp: lock_inv_def [of s'] handle_step_simps split: if_splits handle_pc.splits option.splits
      dest: lock_invD inside_lock, (metis lock_invD inside_lock(1) option.inject handle_pc_less)+)

lemma handle_lock: "handle_steps no_handles s \<Longrightarrow> lock_inv s"
  by (induction no_handles s rule: handle_steps.induct)
    (auto intro: handle_step_lock, simp add: lock_inv_def no_handles_def handle_pc_of_def)

lemma handle_step_waits:
  assumes "lock_inv s" "handle_pc_of s i = Some (Joining k)" "handle_pc_of s k = Some Started" "handle_do a s = Some s'"
  shows "handle_pc_of s' i = Some (Joining k) \<and> handle_pc_of s' k = Some Started"
proof -
  have "hs_lock s = Some i" using lock_invD [OF assms(1,2)] by simp
  with assms(2-4) show ?thesis
    by (cases a) (auto simp: handle_step_simps split: if_splits handle_pc.splits option.splits)
qed

section \<open>Properties\<close>

lemma no_flight:
  "(\<Sum>pc\<leftarrow>pcs. pc_jobs pc) = {#} \<Longrightarrow> (\<Sum>pc\<leftarrow>pcs. pc_results pc) = {#} \<Longrightarrow> pc \<in> set pcs \<Longrightarrow> pc = Waiting"
proof (induction pcs)
  case (Cons q pcs)
  then show ?case by (cases q) auto
qed simp

text \<open>
  C15. When \<^verbatim>\<open>wait_all\<close> of a worker pool returns, in whatever order the threads and the main program have
  worked, the queue is empty and every thread waits; the jobs that were called since the last \<^verbatim>\<open>wait_all\<close>
  are those that were submitted, each as often as it was submitted; and the list that is returned holds the
  values that these calls returned, each as often as it was returned, and nothing else.
\<close>

theorem pool_wait_all_complete:
  assumes "sys_safe sys" "pool_run (exec_stmt n sys) h p" "worker_pool_wait_all p = Some (v, p')"
  shows "wp_queue p = [] \<and> set (wp_threads p) \<subseteq> {Waiting} \<and>
    mset (jobs_called (recent h)) = mset (jobs_submitted (recent h)) \<and>
    (\<exists>l. v = V_LIST l \<and> mset (list_items (it_store (wp_interp p')) l) = mset (values_returned (recent h)))"
proof -
  note c = interp_contract [OF assms(1), of n]
  have ok: "pool_ok h p" by (rule job_contract.run_pool_ok [OF c assms(2)])
  note d = job_contract.wait_all_done [OF c ok assms(3)] and w = job_contract.wait_all_ok [OF c ok assms(3)]
  from d no_flight [of "wp_threads p"] have "set (wp_threads p) \<subseteq> {Waiting}" by (auto simp: in_flight_def)
  with d w show ?thesis by simp
qed

text \<open>
  The main program declares a function, \<^verbatim>\<open>var f = fun() { return 7; };\<close>, and submits it; the second thread
  takes it, and runs it after another statement of the main program.
\<close>

definition seven :: stmt where
  "seven = S_VARDECL 1 ''f'' (type_new T_UNKNOWN)
     (Some (E_FUNC_LIT 1 [] (type_new T_NUM) (S_BLOCK 1 [S_RETURN 1 (Some (E_LIT_NUM 1 7))]) False)) False"

definition one_job :: "pool_action list" where
  "one_job = [Main seven 0, Submit (V_FUNC 0), Take 1, Lock 1, Main (S_EXPR 2 (E_LIT_NUM 2 0)) 0, Run 1, Stamp 1, Put 1]"

lemma pool_wait_all_complete_witness:
  "\<exists>h (p :: unit worker_pool) v p' l. worker_pool_wait_all p = Some (v, p') \<and> v = V_LIST l \<and>
     h = [Submitted (V_FUNC 0), Called (V_FUNC 0) (V_NUM 7)] \<and>
     mset (list_items (it_store (wp_interp p')) l) = {#V_NUM 7#}"
proof -
  let ?ex = "exec_stmt 9 (offline :: unit sys)" and ?h = "[Submitted (V_FUNC 0), Called (V_FUNC 0) (V_NUM 7)]"
  let ?p0 = "worker_pool_create 2 (\<lambda>_. 0) (interp_init [] ())"
  have "map_option (\<lambda>(h, p). (h, wp_submitted p, wp_completed p)) (pool_runs ?ex one_job ([], ?p0)) = Some (?h, 1, 1)"
    by code_simp
  then obtain p where p: "pool_runs ?ex one_job ([], ?p0) = Some (?h, p)" "wp_submitted p = 1" "wp_completed p = 1"
    by auto
  have run: "pool_run ?ex ?h p" by (rule pool_runs_run [OF created [OF interp_init_good] p(1)])
  obtain v p' where w: "worker_pool_wait_all p = Some (v, p')"
    using p by (simp add: worker_pool_wait_all_def Let_def)
  have "values_returned (recent ?h) = [V_NUM 7]" by (simp add: recent_def values_returned_def map_filter_simps)
  with pool_wait_all_complete [OF offline_safe run w] obtain l where "v = V_LIST l"
    "mset (list_items (it_store (wp_interp p')) l) = {#V_NUM 7#}" by auto
  with w show ?thesis by blast
qed

text \<open>
  C36. A worker that waits for another one which has not started yet waits for ever: it keeps the lock of
  the interpreter, without which the other one cannot run.  So a function that is run by
  \<^verbatim>\<open>worker.spawn\<close> cannot use \<^verbatim>\<open>worker.spawn\<close> and wait for the result.
\<close>

theorem nested_join_deadlock:
  assumes "handle_steps no_handles s" "handle_pc_of s i = Some (Joining k)" "handle_pc_of s k = Some Started"
    "handle_steps s s'"
  shows "handle_pc_of s' i = Some (Joining k) \<and> handle_pc_of s' k = Some Started \<and> hs_lock s' = Some i"
proof -
  from assms(4,1-3) have "handle_pc_of s' i = Some (Joining k) \<and> handle_pc_of s' k = Some Started \<and> lock_inv s'"
  proof (induction rule: handle_steps.induct)
    case (more s s' a s'')
    then show ?case using handle_step_waits [of s' i k a s''] handle_step_lock [of s' a s''] by simp
  qed (simp add: handle_lock)
  then show ?thesis using lock_invD [of s' i] by simp
qed

lemma nested_join_deadlock_witness:
  "\<exists>s. handle_steps no_handles s \<and> handle_pc_of s 0 = Some (Joining 1) \<and> handle_pc_of s 1 = Some Started \<and> hs_lock s = Some 0"
proof -
  let ?s = "\<lparr>hs_pcs = [Joining 1, Started], hs_lock = Some 0\<rparr>"
  have "handle_steps no_handles \<lparr>hs_pcs = [Started], hs_lock = None\<rparr>"
    by (rule more [where a = Spawn, OF none]) (simp add: no_handles_def)
  then have "handle_steps no_handles \<lparr>hs_pcs = [Executing], hs_lock = Some 0\<rparr>"
    by (rule more [where a = "Acquire 0"]) (simp add: handle_pc_of_def to_pc_def)
  then have "handle_steps no_handles \<lparr>hs_pcs = [Executing, Started], hs_lock = Some 0\<rparr>"
    by (rule more [where a = Spawn]) simp
  then have s: "handle_steps no_handles ?s"
    by (rule more [where a = "Join 0 1"]) (simp add: handle_pc_of_def to_pc_def)
  from nested_join_deadlock [OF s _ _ none, of 0 1] s show ?thesis by (auto simp: handle_pc_of_def)
qed

end
