(* ===== verification/Reactor.thy ===== *)
theory Reactor
  imports Interp_Safe
begin

text \<open>
  The event loop: \<^verbatim>\<open>src/runtime/reactor_common.c\<close>, the timers and what the loop needs to know, and the
  tables of \<^verbatim>\<open>reactor_epoll.c\<close> and \<^verbatim>\<open>reactor_kqueue.c\<close>.  The static variables are the world of the
  interpreter, which the callbacks of timers run in.  The list \<^verbatim>\<open>g_timers\<close>, which gets new timers in
  front, is kept in the order of creation, so that a pointer to a timer is an index.  The clock is the
  list of its next readings; the last one stays.

  Times are \<^verbatim>\<open>long long\<close> (\<^verbatim>\<open>long\<close> has as many bits where epoll and kqueue are) and numbers of timers are
  \<^verbatim>\<open>int\<close>.  Where a sum or difference does not fit, which C leaves undefined, \<open>rc_overflow\<close> is set, and the
  result is the one that wraps around, as on the usual machines.
\<close>

section \<open>Timers\<close>

record Timer =
  tm_id :: "32 word"
  tm_due :: llong
  tm_interval :: llong
  tm_callback :: val
  tm_active :: bool

record reactor =
  rc_timers :: "Timer list"
  rc_next_id :: "32 word"
  rc_listening :: nat
  rc_clock :: "llong list"
  rc_overflow :: bool

definition now_ms :: "reactor \<Rightarrow> llong \<times> reactor" where
  "now_ms r =
     (case rc_clock r of
        [] \<Rightarrow> (0, r)
      | [t] \<Rightarrow> (t, r)
      | t # ts \<Rightarrow> (t, r\<lparr>rc_clock := ts\<rparr>))"

text \<open>The reactor after arithmetic on times or numbers, and whether the results fit.\<close>

definition rc_check :: "bool \<Rightarrow> reactor \<Rightarrow> reactor" where
  "rc_check fits r = r\<lparr>rc_overflow := rc_overflow r \<or> \<not> fits\<rparr>"

definition reactor_add_timer :: "llong \<Rightarrow> llong \<Rightarrow> val \<Rightarrow> reactor \<Rightarrow> 32 word \<times> reactor" where
  "reactor_add_timer delay interval callback r =
     (let i = rc_next_id r;
          r = rc_check (fits_int (sint i + 1)) (r\<lparr>rc_next_id := i + 1\<rparr>);
          (now, r) = now_ms r;
          r = rc_check (fits_llong (sint now + sint delay)) r;
          t = \<lparr>tm_id = i, tm_due = now + delay, tm_interval = interval, tm_callback = callback, tm_active = True\<rparr>
      in (i, r\<lparr>rc_timers := rc_timers r @ [t]\<rparr>))"

definition reactor_clear_timer :: "32 word \<Rightarrow> reactor \<Rightarrow> reactor" where
  "reactor_clear_timer i r =
     r\<lparr>rc_timers := map (\<lambda>t. if tm_id t = i then t\<lparr>tm_active := False\<rparr> else t) (rc_timers r)\<rparr>"

definition reactor_mark_server_listening :: "reactor \<Rightarrow> reactor" where
  "reactor_mark_server_listening r = r\<lparr>rc_listening := rc_listening r + 1\<rparr>"

definition reactor_has_work :: "reactor \<Rightarrow> bool" where
  "reactor_has_work r \<longleftrightarrow> 0 < rc_listening r \<or> list_ex tm_active (rev (rc_timers r))"

fun soonest :: "llong \<Rightarrow> Timer list \<Rightarrow> llong \<Rightarrow> llong" where
  "soonest now [] s = s"
| "soonest now (t # ts) s =
     (if \<not> tm_active t then soonest now ts s
      else (let remain = tm_due t - now;
                remain = (if sint remain < 0 then 0 else remain)
            in soonest now ts (if sint s < 0 \<or> sint remain < sint s then remain else s)))"

definition due_fits :: "llong \<Rightarrow> Timer list \<Rightarrow> bool" where
  "due_fits now ts \<longleftrightarrow> list_all (\<lambda>t. tm_active t \<longrightarrow> fits_llong (sint (tm_due t) - sint now)) ts"

definition reactor_next_timeout_ms :: "reactor \<Rightarrow> llong \<times> reactor" where
  "reactor_next_timeout_ms r =
     (let (now, r) = now_ms r;
          r = rc_check (due_fits now (rc_timers r)) r;
          s = soonest now (rev (rc_timers r)) (-1)
      in (if sint s < 0 then (if 0 < rc_listening r then 1000 else -1) else s, r))"

text \<open>
  The pass over the timers, newest first.  A callback can add timers, which this pass does not get to,
  and clear others, which it then finds inactive.
\<close>

type_synonym reactor_invoker = "val \<Rightarrow> val list \<Rightarrow> (val, reactor) act"

definition timer_at :: "reactor interp \<Rightarrow> nat \<Rightarrow> Timer" where
  "timer_at it i = rc_timers (it_world it) ! i"

definition set_timer :: "nat \<Rightarrow> Timer \<Rightarrow> reactor interp \<Rightarrow> reactor interp" where
  "set_timer i t it = it\<lparr>it_world := (it_world it)\<lparr>rc_timers := (rc_timers (it_world it))[i := t]\<rparr>\<rparr>"

definition on_reactor :: "(reactor \<Rightarrow> reactor) \<Rightarrow> reactor interp \<Rightarrow> reactor interp" where
  "on_reactor f it = it\<lparr>it_world := f (it_world it)\<rparr>"

definition clock_tick :: "reactor interp \<Rightarrow> llong \<times> reactor interp" where
  "clock_tick it = (let (now, r) = now_ms (it_world it) in (now, it\<lparr>it_world := r\<rparr>))"

definition fire_timer :: "reactor_invoker \<Rightarrow> nat \<Rightarrow> reactor interp \<Rightarrow> reactor interp option" where
  "fire_timer invoke i it = do {
     (_, it) \<leftarrow> invoke (tm_callback (timer_at it i)) [] it;
     let t = timer_at it i;
     Some (if 0 < sint (tm_interval t) \<and> tm_active t
           then (let (now, it) = clock_tick it;
                     it = on_reactor (rc_check (fits_llong (sint now + sint (tm_interval t)))) it
                 in set_timer i (t\<lparr>tm_due := now + tm_interval t\<rparr>) it)
           else set_timer i (t\<lparr>tm_active := False\<rparr>) it)
   }"

fun fire_timers :: "reactor_invoker \<Rightarrow> llong \<Rightarrow> nat \<Rightarrow> reactor interp \<Rightarrow> reactor interp option" where
  "fire_timers invoke now 0 it = Some it"
| "fire_timers invoke now (Suc i) it = do {
     it \<leftarrow> (if tm_active (timer_at it i) \<and> sint (tm_due (timer_at it i)) \<le> sint now then fire_timer invoke i it
            else Some it);
     fire_timers invoke now i it
   }"

definition reactor_fire_due_timers :: "reactor_invoker \<Rightarrow> reactor interp \<Rightarrow> reactor interp option" where
  "reactor_fire_due_timers invoke it =
     (let (now, it) = clock_tick it in fire_timers invoke now (length (rc_timers (it_world it))) it)"

text \<open>
  The system of a script with timers, and \<^verbatim>\<open>timer_trampoline\<close>; the lock it takes is in \<open>Worker\<close>.
\<close>

definition reactor_sys :: "reactor sys \<Rightarrow> reactor sys" where
  "reactor_sys base = base\<lparr>
     sys_handle := (\<lambda>c it.
       (case c of
          ADD_TIMER delay interval f \<Rightarrow>
            (let (i, r) = reactor_add_timer delay interval f (it_world it)
             in Some (Some (unat i), it\<lparr>it_world := r\<rparr>))
        | _ \<Rightarrow> sys_handle base c it)),
     sys_value := (\<lambda>c it.
       (case c of
          CLEAR_TIMER k \<Rightarrow> Some (None, it\<lparr>it_world := reactor_clear_timer (ucast k) (it_world it)\<rparr>)
        | HTTP_SERVER_LISTEN \<Rightarrow> Some (None, it\<lparr>it_world := reactor_mark_server_listening (it_world it)\<rparr>)
        | WS_SERVER_LISTEN \<Rightarrow> Some (None, it\<lparr>it_world := reactor_mark_server_listening (it_world it)\<rparr>)
        | _ \<Rightarrow> sys_value base c it))\<rparr>"

definition timer_trampoline :: "nat \<Rightarrow> reactor sys \<Rightarrow> reactor_invoker" where
  "timer_trampoline n base = interp_invoke_closure (exec_stmt n (reactor_sys base))"

section \<open>What a script can do to the timers\<close>

text \<open>It adds timers and clears them; it never removes or changes one, or turns the clock back.\<close>

definition same_timer :: "Timer \<Rightarrow> Timer \<Rightarrow> bool" where
  "same_timer t t' \<longleftrightarrow> tm_id t' = tm_id t \<and> tm_due t' = tm_due t \<and> tm_interval t' = tm_interval t \<and>
     tm_callback t' = tm_callback t \<and> (tm_active t' \<longrightarrow> tm_active t)"

definition more_timers :: "Timer list \<Rightarrow> Timer list \<Rightarrow> bool" where
  "more_timers ts ts' \<longleftrightarrow> length ts \<le> length ts' \<and> list_all2 same_timer ts (take (length ts) ts')"

lemma same_timer_refl [simp]: "same_timer t t"
  by (simp add: same_timer_def)

lemma same_timer_trans: "same_timer t u \<Longrightarrow> same_timer u v \<Longrightarrow> same_timer t v"
  by (auto simp: same_timer_def)

lemma more_timers_nth: "more_timers ts ts' \<longleftrightarrow> length ts \<le> length ts' \<and> (\<forall>i < length ts. same_timer (ts ! i) (ts' ! i))"
  by (auto simp: more_timers_def list_all2_conv_all_nth)

lemma more_timers_refl [simp]: "more_timers ts ts"
  by (simp add: more_timers_nth)

lemma more_timers_trans: "more_timers ts us \<Longrightarrow> more_timers us vs \<Longrightarrow> more_timers ts vs"
  unfolding more_timers_nth by (meson le_trans less_le_trans same_timer_trans)

instantiation reactor_ext :: (type) preorder
begin

definition less_eq_reactor_ext :: "'a reactor_scheme \<Rightarrow> 'a reactor_scheme \<Rightarrow> bool" where
  "less_eq_reactor_ext r r' \<longleftrightarrow> more_timers (rc_timers r) (rc_timers r') \<and> suffix (rc_clock r') (rc_clock r) \<and>
     (rc_clock r \<noteq> [] \<longrightarrow> rc_clock r' \<noteq> [])"

definition less_reactor_ext :: "'a reactor_scheme \<Rightarrow> 'a reactor_scheme \<Rightarrow> bool" where
  "less_reactor_ext r r' \<longleftrightarrow> r \<le> r' \<and> \<not> r' \<le> (r :: 'a reactor_scheme)"

instance
  by standard (auto simp: less_eq_reactor_ext_def less_reactor_ext_def
    intro: more_timers_trans suffix_order.trans)

end

lemma now_ms_later: "r \<le> snd (now_ms r)" "rc_timers (snd (now_ms r)) = rc_timers r" "suffix (rc_clock (snd (now_ms r))) (rc_clock r)"
  by (auto simp: now_ms_def less_eq_reactor_ext_def suffix_def split: list.split)

lemma rc_check_simps [simp]:
  "rc_timers (rc_check b r) = rc_timers r" "rc_clock (rc_check b r) = rc_clock r"
  "rc_listening (rc_check b r) = rc_listening r"
  by (simp_all add: rc_check_def)

lemma rc_check_later: "r \<le> rc_check b r"
  by (simp add: less_eq_reactor_ext_def)

lemma add_timer_later: "r \<le> snd (reactor_add_timer delay interval f r)"
proof -
  let ?r = "rc_check (fits_int (sint (rc_next_id r) + 1)) (r\<lparr>rc_next_id := rc_next_id r + 1\<rparr>)"
  have "r \<le> ?r" "rc_timers ?r = rc_timers r" by (simp_all add: less_eq_reactor_ext_def)
  with now_ms_later [of ?r] show ?thesis
    by (auto simp: reactor_add_timer_def less_eq_reactor_ext_def more_timers_nth nth_append Let_def split: prod.split)
qed

lemma clear_timer_later: "r \<le> reactor_clear_timer i r"
  by (auto simp: reactor_clear_timer_def less_eq_reactor_ext_def more_timers_nth same_timer_def)

lemma listening_later: "r \<le> reactor_mark_server_listening r"
  by (simp add: reactor_mark_server_listening_def less_eq_reactor_ext_def)

lemma world_kept: "good it \<Longrightarrow> it_world it \<le> w \<Longrightarrow> kept it (it\<lparr>it_world := w\<rparr>)"
  by (simp add: kept_def extends_def good_def live_def)

lemma reactor_sys_safe:
  assumes "sys_safe base"
  shows "sys_safe (reactor_sys base)"
  unfolding sys_safe_def
proof (intro allI impI)
  fix it :: "reactor interp" and c assume g: "good it" "call_live it c"
  note b = assms [unfolded sys_safe_def, rule_format, OF g]
  have handle: "safe (\<lambda>_ _. True) it (sys_handle (reactor_sys base) c it)"
    using b add_timer_later world_kept [OF g(1)]
    by (auto simp: reactor_sys_def split: sys_call.split prod.split intro!: safe_Some) (metis snd_conv)
  have "safe opt_live it (sys_value (reactor_sys base) c it)"
    using b clear_timer_later listening_later world_kept [OF g(1)]
    by (auto simp: reactor_sys_def split: sys_call.split intro!: safe_Some)
  with handle b show "safe opt_live it (sys_value (reactor_sys base) c it) \<and>
      safe (\<lambda>_ _. True) it (sys_handle (reactor_sys base) c it) \<and>
      safe (\<lambda>_ _. True) it (sys_text (reactor_sys base) c it) \<and>
      safe (\<lambda>_ _. True) it (sys_names (reactor_sys base) c it)"
    by (simp add: reactor_sys_def)
qed

section \<open>The time to wait\<close>

definition remaining :: "llong \<Rightarrow> Timer list \<Rightarrow> int list" where
  "remaining now ts = map (\<lambda>t. max 0 (sint (tm_due t) - sint now)) (filter tm_active ts)"

lemma sint_fits_sum: "fits_llong (sint a + sint b) \<Longrightarrow> sint (a + b :: llong) = sint a + sint b"
  by (simp add: sint_word_ariths signed_take_bit_int_eq_self_iff fits_llong_def LLONG_MIN_def LLONG_MAX_def)

lemma sint_fits_diff: "fits_llong (sint a - sint b) \<Longrightarrow> sint (a - b :: llong) = sint a - sint b"
  by (simp add: sint_word_ariths signed_take_bit_int_eq_self_iff fits_llong_def LLONG_MIN_def LLONG_MAX_def)

text \<open>As a number, where nothing overflows, the result is the least of those that remain.\<close>

lemma soonest_step:
  assumes "tm_active t" "fits_llong (sint (tm_due t) - sint now)"
  shows "soonest now (t # ts) s = soonest now ts
    (let m = (if sint (tm_due t - now) < 0 then 0 else tm_due t - now) in if sint s < 0 \<or> sint m < sint s then m else s)"
    "sint (if sint (tm_due t - now) < 0 then 0 else tm_due t - now) = max 0 (sint (tm_due t) - sint now)"
  using assms by (simp_all add: Let_def sint_fits_diff max_def)

lemma soonest_from:
  "0 \<le> sint s \<Longrightarrow> due_fits now ts \<Longrightarrow> sint (soonest now ts s) = Min (set (sint s # remaining now ts))"
proof (induction ts arbitrary: s)
  case (Cons t ts)
  show ?case
  proof (cases "tm_active t")
    case True
    let ?d = "max 0 (sint (tm_due t) - sint now)"
    let ?m = "if sint (tm_due t - now) < 0 then 0 else tm_due t - now"
    let ?s = "if sint s < 0 \<or> sint ?m < sint s then ?m else s"
    have "fits_llong (sint (tm_due t) - sint now)" using Cons.prems(2) True by (simp add: due_fits_def)
    note step = soonest_step(1) [OF True this, of ts s, unfolded Let_def] soonest_step(2) [OF True this]
    have m: "sint ?s = min (sint s) ?d" "0 \<le> sint ?s" using step(2) Cons.prems(1) by (auto simp: min_def)
    have "sint (soonest now (t # ts) s) = Min (set (sint ?s # remaining now ts))"
      unfolding step(1) by (rule Cons.IH) (use m Cons.prems in \<open>simp_all add: due_fits_def\<close>)
    also have "\<dots> = Min (set (sint s # ?d # remaining now ts))"
      unfolding m(1) by (cases "remaining now ts") (simp_all add: min.assoc)
    finally show ?thesis using True by (simp add: remaining_def)
  qed (use Cons in \<open>simp add: remaining_def due_fits_def\<close>)
qed (simp add: remaining_def)

lemma soonest_start:
  "due_fits now ts \<Longrightarrow>
   sint (soonest now ts (-1)) = (if remaining now ts = [] then -1 else Min (set (remaining now ts)))"
proof (induction ts)
  case (Cons t ts)
  show ?case
  proof (cases "tm_active t")
    case True
    then have f: "fits_llong (sint (tm_due t) - sint now)" "due_fits now ts"
      using Cons.prems by (simp_all add: due_fits_def)
    note step = soonest_step(1) [OF True f(1), of ts "-1", unfolded Let_def] soonest_step(2) [OF True f(1)]
    let ?m = "if sint (tm_due t - now) < 0 then 0 else tm_due t - now"
    have "soonest now (t # ts) (-1) = soonest now ts ?m" unfolding step(1) by simp
    moreover have "0 \<le> sint ?m" unfolding step(2) by simp
    ultimately show ?thesis using True soonest_from [OF _ f(2), of ?m] step(2) by (simp add: remaining_def)
  qed (use Cons in \<open>simp add: remaining_def due_fits_def\<close>)
qed (simp add: remaining_def)

lemma remaining_rev: "remaining now (rev ts) = rev (remaining now ts)"
  by (simp add: remaining_def rev_map rev_filter)

lemma remaining_nonneg: "x \<in> set (remaining now ts) \<Longrightarrow> 0 \<le> x"
  by (auto simp: remaining_def)

lemma next_timeout:
  assumes "due_fits (fst (now_ms r)) (rc_timers r)"
  shows "sint (fst (reactor_next_timeout_ms r)) =
     (let rs = remaining (fst (now_ms r)) (rc_timers r)
      in if rs = [] then (if 0 < rc_listening r then 1000 else -1) else Min (set rs))"
proof -
  let ?rs = "remaining (fst (now_ms r)) (rc_timers r)"
  have r: "rc_timers (snd (now_ms r)) = rc_timers r" "rc_listening (snd (now_ms r)) = rc_listening r"
    by (auto simp: now_ms_def split: list.split)
  have "due_fits (fst (now_ms r)) (rev (rc_timers r))" using assms by (simp add: due_fits_def)
  then have s: "sint (soonest (fst (now_ms r)) (rev (rc_timers r)) (-1)) = (if ?rs = [] then -1 else Min (set ?rs))"
    by (simp add: soonest_start remaining_rev)
  show ?thesis
  proof (cases "?rs = []")
    case False
    then have "0 \<le> Min (set ?rs)" using Min_in [of "set ?rs"] remaining_nonneg by auto
    then have "\<not> Min (set ?rs) < 0" by (simp only: not_less)
    with False s r show ?thesis
      by (simp only: reactor_next_timeout_ms_def case_prod_beta Let_def fst_conv if_False rc_check_simps)
  qed (use s r in \<open>simp add: reactor_next_timeout_ms_def case_prod_beta Let_def\<close>)
qed

section \<open>A pass over the timers\<close>

text \<open>What a pass at the time \<open>now\<close> does to a timer that it gets to.\<close>

definition passed :: "llong \<Rightarrow> Timer \<Rightarrow> Timer \<Rightarrow> bool" where
  "passed now t t' \<longleftrightarrow> tm_id t' = tm_id t \<and> tm_interval t' = tm_interval t \<and> tm_callback t' = tm_callback t \<and>
     (tm_active t' \<longrightarrow> tm_active t \<and> sint now < sint (tm_due t') \<and>
       (if sint (tm_due t) \<le> sint now then 0 < sint (tm_interval t) else tm_due t' = tm_due t))"

text \<open>Every time that a repeating timer can get from a reading of the clock is in range.\<close>

definition repeats_fit :: "Timer list \<Rightarrow> llong list \<Rightarrow> bool" where
  "repeats_fit ts clock \<longleftrightarrow>
     (\<forall>t \<in> set ts. \<forall>m \<in> set clock. sint m + sint (tm_interval t) \<le> LLONG_MAX)"

lemma passed_not_due: "same_timer t t' \<Longrightarrow> \<not> (tm_active t' \<and> sint (tm_due t') \<le> sint now) \<Longrightarrow> passed now t t'"
  by (auto simp: passed_def same_timer_def)

lemma passed_same: "passed now t t' \<Longrightarrow> same_timer t' t'' \<Longrightarrow> passed now t t''"
  by (auto simp: passed_def same_timer_def)

text \<open>
  The state of a pass: the timers below \<open>k\<close> are still to come, the others of the \<open>ts\<close> that there were
  at the start have been passed, and the clock does not go back behind \<open>now\<close>.
\<close>

definition in_pass :: "llong \<Rightarrow> Timer list \<Rightarrow> nat \<Rightarrow> reactor interp \<Rightarrow> bool" where
  "in_pass now ts k it \<longleftrightarrow> good it \<and> length ts \<le> length (rc_timers (it_world it)) \<and>
     (\<forall>t \<in> set ts. live it (RVal (tm_callback t))) \<and> (\<forall>m \<in> set (rc_clock (it_world it)). sint now \<le> sint m) \<and>
     repeats_fit ts (rc_clock (it_world it)) \<and> rc_clock (it_world it) \<noteq> [] \<and>
     (\<forall>i < length ts. i < k \<longrightarrow> same_timer (ts ! i) (timer_at it i)) \<and>
     (\<forall>i < length ts. k \<le> i \<longrightarrow> passed now (ts ! i) (timer_at it i))"

lemma in_pass_kept:
  assumes "in_pass now ts k it" "kept it it'"
  shows "in_pass now ts k it'"
proof -
  have w: "more_timers (rc_timers (it_world it)) (rc_timers (it_world it'))"
    "suffix (rc_clock (it_world it')) (rc_clock (it_world it))" "rc_clock (it_world it') \<noteq> []"
    using assms by (auto simp: kept_def extends_def less_eq_reactor_ext_def in_pass_def)
  then have same: "same_timer (timer_at it i) (timer_at it' i)" if "i < length ts" for i
    using that assms(1) by (auto simp: more_timers_nth timer_at_def in_pass_def)
  have "\<forall>i < length ts. i < k \<longrightarrow> same_timer (ts ! i) (timer_at it' i)"
    using assms(1) same same_timer_trans unfolding in_pass_def by blast
  moreover have "\<forall>i < length ts. k \<le> i \<longrightarrow> passed now (ts ! i) (timer_at it' i)"
    using assms(1) same passed_same unfolding in_pass_def by blast
  moreover have "\<forall>m \<in> set (rc_clock (it_world it')). sint now \<le> sint m" "repeats_fit ts (rc_clock (it_world it'))"
    using assms(1) set_mono_suffix [OF w(2)] by (auto simp: in_pass_def repeats_fit_def)
  moreover have "length ts \<le> length (rc_timers (it_world it'))"
    using w(1) assms(1) by (auto simp: more_timers_nth in_pass_def)
  ultimately show ?thesis
    using assms(1) w(3) kept_good [OF assms(2)] kept_live [OF assms(2)] by (auto simp: in_pass_def)
qed

lemma in_pass_set:
  assumes "in_pass now ts (Suc i) it" "i < length ts" "passed now (ts ! i) t"
  shows "in_pass now ts i (set_timer i t it)"
  using assms unfolding in_pass_def
  by (auto simp: set_timer_def timer_at_def nth_list_update good_def live_def less_Suc_eq split: if_splits)

lemma clock_tick_kept: "good it \<Longrightarrow> kept it (snd (clock_tick it))"
  using world_kept [of it "snd (now_ms (it_world it))"] now_ms_later [of "it_world it"]
  by (simp add: clock_tick_def case_prod_beta)

lemma clock_tick_reading: "rc_clock (it_world it) \<noteq> [] \<Longrightarrow> fst (clock_tick it) \<in> set (rc_clock (it_world it))"
  by (auto simp: clock_tick_def now_ms_def case_prod_beta split: list.split)

lemma clock_tick_timer: "timer_at (snd (clock_tick it)) i = timer_at it i"
  using now_ms_later(2) [of "it_world it"] by (simp add: clock_tick_def timer_at_def case_prod_beta)

lemma on_reactor_check:
  "in_pass now ts k it \<Longrightarrow> in_pass now ts k (on_reactor (rc_check b) it)"
  by (rule in_pass_kept) (auto simp: in_pass_def on_reactor_def intro!: world_kept rc_check_later)

lemma fire_timer_pass:
  assumes "sys_safe base" "in_pass now ts (Suc i) it" "i < length ts" "tm_active (timer_at it i)"
    "sint (tm_due (timer_at it i)) \<le> sint now" "fire_timer (timer_trampoline n base) i it = Some it'"
  shows "in_pass now ts i it'"
proof -
  obtain v it1 where run: "timer_trampoline n base (tm_callback (timer_at it i)) [] it = Some (v, it1)"
    and it': "it' = (let t = timer_at it1 i in
      if 0 < sint (tm_interval t) \<and> tm_active t
      then (let (m, it) = clock_tick it1; it = on_reactor (rc_check (fits_llong (sint m + sint (tm_interval t)))) it
            in set_timer i (t\<lparr>tm_due := m + tm_interval t\<rparr>) it)
      else set_timer i (t\<lparr>tm_active := False\<rparr>) it1)"
    using assms(6) by (auto simp: fire_timer_def Let_def split: bind_splits)
  have same: "same_timer (ts ! i) (timer_at it i)" using assms(2,3) by (auto simp: in_pass_def)
  then have "live it (RVal (tm_callback (timer_at it i)))" "good it"
    using assms(2,3) by (auto simp: in_pass_def same_timer_def)
  then have "kept it it1"
    using evaluation.interp_invoke_closure_safe [OF recursion_evaluation [OF reactor_sys_safe [OF assms(1)]], of it _ "[]" n] run
    by (auto simp: timer_trampoline_def safe_def)
  then have p1: "in_pass now ts (Suc i) it1" by (rule in_pass_kept [OF assms(2)])
  then have g: "good it1" and same1: "same_timer (ts ! i) (timer_at it1 i)" and c: "rc_clock (it_world it1) \<noteq> []"
    and later: "\<forall>m \<in> set (rc_clock (it_world it1)). sint now \<le> sint m"
    and fit: "repeats_fit ts (rc_clock (it_world it1))"
    using assms(3) by (auto simp: in_pass_def)
  have p2: "in_pass now ts (Suc i) (snd (clock_tick it1))" by (rule in_pass_kept [OF p1 clock_tick_kept [OF g]])
  let ?m = "fst (clock_tick it1)"
  have m: "sint now \<le> sint ?m" "sint ?m + sint (tm_interval (ts ! i)) \<le> LLONG_MAX"
    using clock_tick_reading [OF c] later fit assms(3) by (auto simp: repeats_fit_def)
  show ?thesis
  proof (cases "0 < sint (tm_interval (timer_at it1 i)) \<and> tm_active (timer_at it1 i)")
    case True
    then have pos: "0 < sint (tm_interval (ts ! i))" using same1 by (simp add: same_timer_def)
    have "- (2 ^ 63) \<le> sint ?m" using sint_ge [of ?m] by simp
    with m pos have "fits_llong (sint ?m + sint (tm_interval (ts ! i)))" by (simp add: fits_llong_def LLONG_MIN_def)
    from sint_fits_sum [OF this] have "sint now < sint (?m + tm_interval (timer_at it1 i))"
      using m pos same1 by (simp add: same_timer_def)
    with True same1 same assms(4,5)
    have "passed now (ts ! i) ((timer_at it1 i)\<lparr>tm_due := ?m + tm_interval (timer_at it1 i)\<rparr>)"
      by (auto simp: passed_def same_timer_def)
    with in_pass_set [OF on_reactor_check [OF p2] assms(3)] True show ?thesis
      by (simp add: it' Let_def case_prod_beta)
  next
    case False
    have "passed now (ts ! i) ((timer_at it1 i)\<lparr>tm_active := False\<rparr>)"
      using same1 by (simp add: passed_def same_timer_def)
    from in_pass_set [OF p1 assms(3) this] False show ?thesis by (auto simp: it' Let_def)
  qed
qed

lemma fire_timers_pass:
  "sys_safe base \<Longrightarrow> in_pass now ts k it \<Longrightarrow> k \<le> length ts \<Longrightarrow>
   fire_timers (timer_trampoline n base) now k it = Some it' \<Longrightarrow> in_pass now ts 0 it'"
proof (induction k arbitrary: it)
  case (Suc i)
  show ?case
  proof (cases "tm_active (timer_at it i) \<and> sint (tm_due (timer_at it i)) \<le> sint now")
    case True
    with Suc.prems(4) obtain it1 where "fire_timer (timer_trampoline n base) i it = Some it1"
      and r: "fire_timers (timer_trampoline n base) now i it1 = Some it'"
      by (auto split: bind_splits)
    with fire_timer_pass [OF Suc.prems(1,2)] Suc.prems(3) True have "in_pass now ts i it1" by simp
    from Suc.IH [OF Suc.prems(1) this _ r] Suc.prems(3) show ?thesis by simp
  next
    case False
    then have r: "fire_timers (timer_trampoline n base) now i it = Some it'" using Suc.prems(4) by (simp split: if_splits)
    have "same_timer (ts ! i) (timer_at it i)" using Suc.prems(2,3) by (simp add: in_pass_def)
    with False passed_not_due have "passed now (ts ! i) (timer_at it i)" by blast
    then have "in_pass now ts i it"
      using Suc.prems(2) by (auto simp: in_pass_def Suc_le_eq order.order_iff_strict [of i])
    from Suc.IH [OF Suc.prems(1) this _ r] Suc.prems(3) show ?thesis by simp
  qed
qed simp

lemma in_pass_start:
  assumes "good it" "rc_clock (it_world it) \<noteq> []" "sorted (map sint (rc_clock (it_world it)))"
    "\<forall>t \<in> set (rc_timers (it_world it)). live it (RVal (tm_callback t))"
    "repeats_fit (rc_timers (it_world it)) (rc_clock (it_world it))"
  shows "in_pass (hd (rc_clock (it_world it))) (rc_timers (it_world it)) (length (rc_timers (it_world it))) (snd (clock_tick it))"
proof -
  have "in_pass (hd (rc_clock (it_world it))) (rc_timers (it_world it)) (length (rc_timers (it_world it))) it"
    using assms by (cases "rc_clock (it_world it)") (auto simp: in_pass_def timer_at_def)
  then show ?thesis by (rule in_pass_kept [OF _ clock_tick_kept [OF assms(1)]])
qed

lemma clock_tick_first: "rc_clock (it_world it) \<noteq> [] \<Longrightarrow> fst (clock_tick it) = hd (rc_clock (it_world it))"
  by (auto simp: clock_tick_def now_ms_def case_prod_beta split: list.split)

lemma clock_tick_timers: "rc_timers (it_world (snd (clock_tick it))) = rc_timers (it_world it)"
  using now_ms_later(2) [of "it_world it"] by (simp add: clock_tick_def case_prod_beta)

text \<open>
  C17. A pass of the event loop over its timers leaves none of those that there were at its start due.
  Whatever the callbacks do, each of these timers keeps its number, interval and callback; if it is still
  active afterwards, it was before, its time lies behind the one the pass began at, and it has a new time
  only if it was due and repeats.  The store stays well formed.  (Timers that the callbacks add are left to
  the next pass, due or not.  The intervals are those for which no sum with a reading of the clock overflows.)
\<close>

theorem reactor_pass:
  assumes "sys_safe base" "good it" "rc_clock (it_world it) \<noteq> []" "sorted (map sint (rc_clock (it_world it)))"
    "\<forall>t \<in> set (rc_timers (it_world it)). live it (RVal (tm_callback t))"
    "\<forall>t \<in> set (rc_timers (it_world it)). \<forall>m \<in> set (rc_clock (it_world it)). sint m + sint (tm_interval t) \<le> LLONG_MAX"
    "reactor_fire_due_timers (timer_trampoline n base) it = Some it'"
  shows "good it' \<and> length (rc_timers (it_world it)) \<le> length (rc_timers (it_world it')) \<and>
    (\<forall>i < length (rc_timers (it_world it)). passed (hd (rc_clock (it_world it))) (timer_at it i) (timer_at it' i))"
proof -
  have "in_pass (hd (rc_clock (it_world it))) (rc_timers (it_world it)) 0 it'"
    using fire_timers_pass [OF assms(1) in_pass_start [OF assms(2,3,4,5)]] assms(3,6,7)
    by (simp add: reactor_fire_due_timers_def case_prod_beta Let_def clock_tick_first clock_tick_timers repeats_fit_def)
  then show ?thesis by (simp add: in_pass_def timer_at_def)
qed

text \<open>Two timers that are due, one that repeats and one that does not, and one that is not due.\<close>

definition three_timers :: "llong \<Rightarrow> reactor interp" where
  "three_timers every = interp_init []
     \<lparr>rc_timers = [\<lparr>tm_id = 1, tm_due = 10, tm_interval = 0, tm_callback = V_NUM 1, tm_active = True\<rparr>,
                   \<lparr>tm_id = 2, tm_due = 20, tm_interval = every, tm_callback = V_NUM 2, tm_active = True\<rparr>,
                   \<lparr>tm_id = 3, tm_due = 50, tm_interval = 0, tm_callback = V_NUM 3, tm_active = True\<rparr>],
      rc_next_id = 4, rc_listening = 0, rc_clock = [20, 22, 23], rc_overflow = False\<rparr>"

lemma reactor_pass_witness:
  "\<exists>it'. reactor_fire_due_timers (timer_trampoline 3 offline) (three_timers 5) = Some it' \<and> good it' \<and>
    map tm_active (rc_timers (it_world it')) = [False, True, True] \<and> passed 20 (timer_at (three_timers 5) 1) (timer_at it' 1)"
proof -
  have "map_option (\<lambda>it. map tm_active (rc_timers (it_world it)))
      (reactor_fire_due_timers (timer_trampoline 3 offline) (three_timers 5)) = Some [False, True, True]"
    by code_simp
  then obtain it' where run: "reactor_fire_due_timers (timer_trampoline 3 offline) (three_timers 5) = Some it'"
    "map tm_active (rc_timers (it_world it')) = [False, True, True]" by auto
  have w: "good (three_timers 5)" unfolding three_timers_def by (rule interp_init_good)
  have c: "rc_clock (it_world (three_timers 5)) = [20, 22, 23]" "length (rc_timers (it_world (three_timers 5))) = 3"
    "\<forall>t \<in> set (rc_timers (it_world (three_timers 5))). live (three_timers 5) (RVal (tm_callback t))"
    "\<forall>t \<in> set (rc_timers (it_world (three_timers 5))). \<forall>m \<in> set [20, 22, 23 :: llong]. sint m + sint (tm_interval t) \<le> LLONG_MAX"
    by (simp_all add: three_timers_def interp_init_def env_new_def live_def LLONG_MAX_def)
  from reactor_pass [OF offline_safe w _ _ c(3) _ run(1)] c(1,2,4) run show ?thesis by auto
qed

text \<open>
  Without the bound on the intervals a timer stays due: with the largest interval that a script can ask for,
  the next time of a timer that has fired is computed with an overflow and lies, where sums wrap around, before
  the time at which the pass began.
\<close>

lemma repeat_overflow:
  "map_option (\<lambda>it. (rc_overflow (it_world it), map (\<lambda>t. tm_active t \<and> sint (tm_due t) \<le> 20) (rc_timers (it_world it))))
     (reactor_fire_due_timers (timer_trampoline 3 offline) (three_timers 0x7FFFFFFFFFFFFFFF)) = Some (True, [False, True, False])"
  by code_simp

text \<open>
  The loop waits until the first of the active timers is due, and not at all when one already is;
  with no active timer it waits for a second when a server listens and for ever when none does, and it is
  only then that there is no more work.
\<close>

lemma reactor_timeout:
  assumes "due_fits (fst (now_ms r)) (rc_timers r)"
  shows "sint (fst (reactor_next_timeout_ms r)) =
     (let rs = map (\<lambda>t. max 0 (sint (tm_due t) - sint (fst (now_ms r)))) (filter tm_active (rc_timers r))
      in if rs = [] then (if 0 < rc_listening r then 1000 else -1) else Min (set rs)) \<and>
   (reactor_has_work r \<longleftrightarrow> fst (reactor_next_timeout_ms r) \<noteq> -1)"
proof -
  let ?rs = "remaining (fst (now_ms r)) (rc_timers r)"
  have "?rs \<noteq> [] \<Longrightarrow> Min (set ?rs) \<noteq> -1"
    using Min_in [of "set ?rs"] remaining_nonneg [of "-1" "fst (now_ms r)" "rc_timers r"] by force
  moreover have "?rs = [] \<longleftrightarrow> \<not> list_ex tm_active (rc_timers r)"
    by (simp add: remaining_def filter_empty_conv list_ex_iff)
  moreover have "list_ex tm_active (rev (rc_timers r)) = list_ex tm_active (rc_timers r)"
    by (simp add: list_ex_iff)
  moreover have "fst (reactor_next_timeout_ms r) = -1 \<longleftrightarrow> sint (fst (reactor_next_timeout_ms r)) = -1"
    using signed_word_eqI [of "fst (reactor_next_timeout_ms r)" "-1"] by auto
  ultimately show ?thesis
    unfolding next_timeout [OF assms] reactor_has_work_def Let_def
    by (simp add: remaining_def [symmetric] next_timeout [OF assms] Let_def)
qed

end
