(* ===== verification/Event_Loop.thy ===== *)
theory Event_Loop
  imports Reactor "HOL-Library.Multiset"
begin

unbundle bit_operations_syntax

text \<open>
  Coroutines and the loop that resumes them: \<^verbatim>\<open>src/runtime/coro.c\<close>, \<^verbatim>\<open>reactor_await_fd\<close> of
  \<^verbatim>\<open>reactor_common.c\<close> and the two backends \<^verbatim>\<open>reactor_epoll.c\<close> and \<^verbatim>\<open>reactor_kqueue.c\<close>.  What a coroutine
  does between two suspensions is a parameter \<open>prog\<close>: it takes the place where the coroutine is and the
  interpreter, and says what the coroutine does next, to wait for a socket, to start another coroutine (the
  accept loops of \<^verbatim>\<open>http.c\<close> and \<^verbatim>\<open>ws.c\<close>) or to return.  A pointer to a coroutine is its index; a freed one
  is \<open>None\<close>.  The tables of the kernel are those that \<^verbatim>\<open>epoll(7)\<close> and \<^verbatim>\<open>kqueue(2)\<close> describe, and
  what they report is a script.
\<close>

section \<open>Coroutines\<close>

datatype CoroState = CORO_READY | CORO_RUNNING | CORO_DONE

text \<open>The saved context: at the entry, or in \<^verbatim>\<open>reactor_await_fd\<close> of a socket, from which it goes on.\<close>

datatype 'c co_context = Entry 'c | In_await nat 'c

datatype 'c co_call = Co_await nat "32 word" 'c | Co_spawn 'c 'c | Co_return

record 'c Coro =
  co_state :: CoroState
  co_ctx :: "'c co_context"
  co_stack_size :: int

record ('c, 't) event_loop =
  lp_coros :: "'c Coro option list"
  lp_current :: "nat option"
  lp_table :: 't
  lp_interp :: "reactor interp"

type_synonym 'c co_code = "'c \<Rightarrow> reactor interp \<Rightarrow> 'c co_call \<times> reactor interp"

datatype loop_error = Freed_coro | Out_of_fuel | Callback_diverges

type_synonym ('c, 't) loop_act = "('c, 't) event_loop \<Rightarrow> loop_error + ('c, 't) event_loop"

definition coro_at :: "('c, 't) event_loop \<Rightarrow> nat \<Rightarrow> 'c Coro option" where
  "coro_at s i = (if i < length (lp_coros s) then lp_coros s ! i else None)"

definition on_coro :: "nat \<Rightarrow> ('c Coro \<Rightarrow> 'c Coro) \<Rightarrow> ('c, 't) event_loop \<Rightarrow> ('c, 't) event_loop" where
  "on_coro i f s = s\<lparr>lp_coros := (lp_coros s)[i := map_option f (coro_at s i)]\<rparr>"

definition coro_create :: "'c \<Rightarrow> int \<Rightarrow> ('c, 't) event_loop \<Rightarrow> nat \<times> ('c, 't) event_loop" where
  "coro_create entry stack_size s =
     (length (lp_coros s),
      s\<lparr>lp_coros := lp_coros s @
          [Some \<lparr>co_state = CORO_READY, co_ctx = Entry entry,
                 co_stack_size = (if stack_size \<noteq> 0 then stack_size else 256 * 1024)\<rparr>]\<rparr>)"

definition coro_destroy :: "nat \<Rightarrow> ('c, 't) event_loop \<Rightarrow> ('c, 't) event_loop" where
  "coro_destroy i s = s\<lparr>lp_coros := (lp_coros s)[i := None]\<rparr>"

text \<open>A switch of contexts leaves the code at \<open>ctx\<close>; with no coroutine there is none.\<close>

definition coro_yield :: "'c co_context \<Rightarrow> ('c, 't) event_loop \<Rightarrow> ('c, 't) event_loop" where
  "coro_yield ctx s =
     (case lp_current s of
        None \<Rightarrow> s
      | Some i \<Rightarrow> on_coro i (\<lambda>co. co\<lparr>co_state := CORO_READY, co_ctx := ctx\<rparr>) s)"

section \<open>The backends\<close>

record 't backend =
  bk_watch :: "nat \<Rightarrow> 32 word \<Rightarrow> nat \<Rightarrow> 't \<Rightarrow> 't"
  bk_unwatch :: "nat \<Rightarrow> 't \<Rightarrow> 't"
  bk_poll :: "(nat \<times> 32 word) list \<Rightarrow> 't \<Rightarrow> (nat \<times> nat) list \<times> 't"

definition REACTOR_READABLE :: "32 word" where "REACTOR_READABLE = 1"
definition REACTOR_WRITABLE :: "32 word" where "REACTOR_WRITABLE = 2"
definition EPOLLIN :: "32 word" where "EPOLLIN = 1"
definition EPOLLOUT :: "32 word" where "EPOLLOUT = 4"
definition MAX_EVENTS :: nat where "MAX_EVENTS = 64"

text \<open>
  The interest list of an epoll instance: descriptor, events, coroutine; \<open>None\<close> before there is one.
  A script of results says which descriptors are ready, and for what.
\<close>

type_synonym epoll_table = "(nat \<times> 32 word \<times> nat) list option"

definition ensure_epoll :: "epoll_table \<Rightarrow> epoll_table" where
  "ensure_epoll t = (case t of None \<Rightarrow> Some [] | Some es \<Rightarrow> Some es)"

definition epoll_del :: "nat \<Rightarrow> (nat \<times> 32 word \<times> nat) list \<Rightarrow> (nat \<times> 32 word \<times> nat) list" where
  "epoll_del fd es = filter (\<lambda>(f, _). f \<noteq> fd) es"

definition epoll_watch :: "nat \<Rightarrow> 32 word \<Rightarrow> nat \<Rightarrow> epoll_table \<Rightarrow> epoll_table" where
  "epoll_watch fd events co t =
     (let ev = (if events AND REACTOR_READABLE \<noteq> 0 then EPOLLIN else 0) OR
               (if events AND REACTOR_WRITABLE \<noteq> 0 then EPOLLOUT else 0)
      in map_option (\<lambda>es. if fd \<in> set (map fst es) then (fd, ev, co) # epoll_del fd es else (fd, ev, co) # es)
           (ensure_epoll t))"

definition epoll_unwatch :: "nat \<Rightarrow> epoll_table \<Rightarrow> epoll_table" where
  "epoll_unwatch fd t = map_option (epoll_del fd) t"

definition epoll_ready :: "(nat \<times> 32 word) list \<Rightarrow> nat \<times> 32 word \<times> nat \<Rightarrow> bool" where
  "epoll_ready q e =
     (let (fd, ev, co) = e
      in list_ex (\<lambda>(f, k). f = fd \<and>
           (k AND REACTOR_READABLE \<noteq> 0 \<and> ev AND EPOLLIN \<noteq> 0 \<or> k AND REACTOR_WRITABLE \<noteq> 0 \<and> ev AND EPOLLOUT \<noteq> 0)) q)"

definition epoll_wait :: "(nat \<times> 32 word) list \<Rightarrow> epoll_table \<Rightarrow> (nat \<times> nat) list \<times> epoll_table" where
  "epoll_wait q t =
     (case ensure_epoll t of
        Some es \<Rightarrow> (map (\<lambda>(fd, ev, co). (fd, co)) (take MAX_EVENTS (filter (epoll_ready q) es)), Some es)
      | None \<Rightarrow> ([], None))"

definition epoll_backend :: "epoll_table backend" where
  "epoll_backend = \<lparr>bk_watch = epoll_watch, bk_unwatch = epoll_unwatch, bk_poll = epoll_wait\<rparr>"

text \<open>
  The filters of a kqueue: a descriptor has one for reading and one for writing.  \<^verbatim>\<open>EV_ADD\<close> replaces
  the filter, \<^verbatim>\<open>EV_ONESHOT\<close> removes it when it is reported, and a change that fails, such as \<^verbatim>\<open>EV_DELETE\<close>
  without a filter, ends the call: no later change is made, as there is no room for events.
\<close>

datatype kfilter = EVFILT_READ | EVFILT_WRITE
datatype kchange = EV_ADD_ONESHOT nat kfilter nat | EV_DELETE nat kfilter

type_synonym kqueue_table = "((nat \<times> kfilter) \<times> nat) list option"

fun kevent_changes :: "kchange list \<Rightarrow> ((nat \<times> kfilter) \<times> nat) list \<Rightarrow> ((nat \<times> kfilter) \<times> nat) list" where
  "kevent_changes [] es = es"
| "kevent_changes (EV_ADD_ONESHOT fd k co # cs) es =
     kevent_changes cs (((fd, k), co) # filter (\<lambda>e. fst e \<noteq> (fd, k)) es)"
| "kevent_changes (EV_DELETE fd k # cs) es =
     (if (fd, k) \<in> set (map fst es) then kevent_changes cs (filter (\<lambda>e. fst e \<noteq> (fd, k)) es) else es)"

definition ensure_kq :: "kqueue_table \<Rightarrow> kqueue_table" where
  "ensure_kq t = (case t of None \<Rightarrow> Some [] | Some es \<Rightarrow> Some es)"

definition kqueue_watch :: "nat \<Rightarrow> 32 word \<Rightarrow> nat \<Rightarrow> kqueue_table \<Rightarrow> kqueue_table" where
  "kqueue_watch fd events co t =
     map_option (kevent_changes
       ((if events AND REACTOR_READABLE \<noteq> 0 then [EV_ADD_ONESHOT fd EVFILT_READ co] else []) @
        (if events AND REACTOR_WRITABLE \<noteq> 0 then [EV_ADD_ONESHOT fd EVFILT_WRITE co] else [])))
       (ensure_kq t)"

definition kqueue_unwatch :: "nat \<Rightarrow> kqueue_table \<Rightarrow> kqueue_table" where
  "kqueue_unwatch fd t = map_option (kevent_changes [EV_DELETE fd EVFILT_READ, EV_DELETE fd EVFILT_WRITE]) t"

definition kfilter_ready :: "(nat \<times> 32 word) list \<Rightarrow> (nat \<times> kfilter) \<times> nat \<Rightarrow> bool" where
  "kfilter_ready q e =
     (let ((fd, k), co) = e
      in list_ex (\<lambda>(f, ev). f = fd \<and>
           ev AND (case k of EVFILT_READ \<Rightarrow> REACTOR_READABLE | EVFILT_WRITE \<Rightarrow> REACTOR_WRITABLE) \<noteq> 0) q)"

fun take_ready :: "nat \<Rightarrow> ('a \<Rightarrow> bool) \<Rightarrow> 'a list \<Rightarrow> 'a list \<times> 'a list" where
  "take_ready n P [] = ([], [])"
| "take_ready n P (x # xs) =
     (if 0 < n \<and> P x then (let (ys, zs) = take_ready (n - 1) P xs in (x # ys, zs))
      else (let (ys, zs) = take_ready n P xs in (ys, x # zs)))"

definition kqueue_wait :: "(nat \<times> 32 word) list \<Rightarrow> kqueue_table \<Rightarrow> (nat \<times> nat) list \<times> kqueue_table" where
  "kqueue_wait q t =
     (case ensure_kq t of
        Some es \<Rightarrow> (let (evs, es) = take_ready MAX_EVENTS (kfilter_ready q) es
                   in (map (\<lambda>((fd, k), co). (fd, co)) evs, Some es))
      | None \<Rightarrow> ([], None))"

definition kqueue_backend :: "kqueue_table backend" where
  "kqueue_backend = \<lparr>bk_watch = kqueue_watch, bk_unwatch = kqueue_unwatch, bk_poll = kqueue_wait\<rparr>"

text \<open>The time to wait as \<^verbatim>\<open>reactor_kqueue.c\<close> gives it to the kernel.\<close>

definition kqueue_timeout :: "int \<Rightarrow> (int \<times> int) option" where
  "kqueue_timeout ms = (if 0 \<le> ms then Some (ms div 1000, ms mod 1000 * 1000000) else None)"

text \<open>
  What \<^verbatim>\<open>reactor_epoll.c\<close> gives to \<^verbatim>\<open>epoll_wait\<close> is an \<^verbatim>\<open>int\<close>: the conversion from \<^verbatim>\<open>long\<close> keeps the
  low 32 bits.
\<close>

definition epoll_timeout :: "llong \<Rightarrow> 32 word" where
  "epoll_timeout timeout = ucast timeout"

section \<open>Running\<close>

definition on_table :: "('t \<Rightarrow> 't) \<Rightarrow> ('c, 't) event_loop \<Rightarrow> ('c, 't) event_loop" where
  "on_table f s = s\<lparr>lp_table := f (lp_table s)\<rparr>"

text \<open>
  \<^verbatim>\<open>reactor_await_fd\<close> up to the switch of contexts, and whether there is one; what it does after the
  switch back, \<^verbatim>\<open>reactor_unwatch_fd\<close>, is the first thing that \<open>coro_resume\<close> runs.
\<close>

definition reactor_await_fd ::
  "'t backend \<Rightarrow> nat \<Rightarrow> 32 word \<Rightarrow> 'c \<Rightarrow> ('c, 't) event_loop \<Rightarrow> bool \<times> ('c, 't) event_loop" where
  "reactor_await_fd bk fd events c s =
     (case lp_current s of
        None \<Rightarrow> (False, s)
      | Some i \<Rightarrow> (True, coro_yield (In_await fd c) (on_table (bk_watch bk fd events i) s)))"

definition coro_resume ::
  "'t backend \<Rightarrow> (nat \<Rightarrow> 'c \<Rightarrow> ('c, 't) loop_act) \<Rightarrow> nat \<Rightarrow> ('c, 't) loop_act" where
  "coro_resume bk run i s =
     (case coro_at s i of
        None \<Rightarrow> Inl Freed_coro
      | Some co \<Rightarrow>
          if co_state co = CORO_DONE then Inr s
          else (let prev = lp_current s;
                    s = on_coro i (\<lambda>co. co\<lparr>co_state := CORO_RUNNING\<rparr>) (s\<lparr>lp_current := Some i\<rparr>)
                in case (case co_ctx co of
                           Entry c \<Rightarrow> run i c s
                         | In_await fd c \<Rightarrow> run i c (on_table (bk_unwatch bk fd) s)) of
                     Inl e \<Rightarrow> Inl e
                   | Inr s \<Rightarrow> Inr (s\<lparr>lp_current := prev\<rparr>)))"

text \<open>\<^verbatim>\<open>coro_resume(co); if (co->state == CORO_DONE) coro_destroy(co);\<close>\<close>

definition resume_and_reap ::
  "'t backend \<Rightarrow> (nat \<Rightarrow> 'c \<Rightarrow> ('c, 't) loop_act) \<Rightarrow> nat \<Rightarrow> ('c, 't) loop_act" where
  "resume_and_reap bk run i s =
     (case coro_resume bk run i s of
        Inl e \<Rightarrow> Inl e
      | Inr s \<Rightarrow>
          (case coro_at s i of
             None \<Rightarrow> Inl Freed_coro
           | Some co \<Rightarrow> Inr (if co_state co = CORO_DONE then coro_destroy i s else s)))"

text \<open>The code of coroutine \<open>i\<close> from \<open>c\<close> on; \<open>n\<close> bounds what one resumption does.\<close>

fun run_coro :: "'t backend \<Rightarrow> 'c co_code \<Rightarrow> nat \<Rightarrow> nat \<Rightarrow> 'c \<Rightarrow> ('c, 't) loop_act" where
  "run_coro bk prog 0 i c s = Inl Out_of_fuel"
| "run_coro bk prog (Suc n) i c s =
     (let (call, it) = prog c (lp_interp s); s = s\<lparr>lp_interp := it\<rparr>
      in case call of
           Co_return \<Rightarrow> Inr (on_coro i (\<lambda>co. co\<lparr>co_state := CORO_DONE\<rparr>) s)
         | Co_await fd events k \<Rightarrow>
             (let (suspended, s) = reactor_await_fd bk fd events k s
              in if suspended then Inr s else run_coro bk prog n i k s)
         | Co_spawn e k \<Rightarrow>
             (let (j, s) = coro_create e 0 s
              in case resume_and_reap bk (run_coro bk prog n) j s of
                   Inl err \<Rightarrow> Inl err
                 | Inr s \<Rightarrow> run_coro bk prog n i k s))"

text \<open>
  \<^verbatim>\<open>http_accept_entry\<close>, and \<^verbatim>\<open>ws_accept_entry\<close> with it: it waits for the listening socket \<open>lfd\<close>, accepts
  what there is, and starts a coroutine for each connection, which runs \<open>prog\<close> from \<open>conn fd\<close> on.  The results of
  \<^verbatim>\<open>accept\<close> are a script, a negative one or its end is the failure that ends the inner loop.
\<close>

datatype 'c accept_ctx = Accept_wait "int list" | Accept_next "int list" | Conn 'c

fun http_accept_entry :: "nat \<Rightarrow> (nat \<Rightarrow> 'c) \<Rightarrow> 'c co_code \<Rightarrow> 'c accept_ctx co_code" where
  "http_accept_entry lfd conn prog (Accept_wait rs) it = (Co_await lfd REACTOR_READABLE (Accept_next rs), it)"
| "http_accept_entry lfd conn prog (Accept_next []) it = (Co_await lfd REACTOR_READABLE (Accept_next []), it)"
| "http_accept_entry lfd conn prog (Accept_next (cfd # rs)) it =
     (if cfd < 0 then (Co_await lfd REACTOR_READABLE (Accept_next rs), it)
      else (Co_spawn (Conn (conn (nat cfd))) (Accept_next rs), it))"
| "http_accept_entry lfd conn prog (Conn c) it =
     (case prog c it of
        (Co_await fd events k, it) \<Rightarrow> (Co_await fd events (Conn k), it)
      | (Co_spawn e k, it) \<Rightarrow> (Co_spawn (Conn e) (Conn k), it)
      | (Co_return, it) \<Rightarrow> (Co_return, it))"

text \<open>\<^verbatim>\<open>http_server_listen\<close> and \<^verbatim>\<open>ws_server_listen\<close>, once the socket is there.\<close>

definition server_listen :: "'t backend \<Rightarrow> 'c co_code \<Rightarrow> nat \<Rightarrow> 'c \<Rightarrow> ('c, 't) loop_act" where
  "server_listen bk prog n entry s =
     (let it = lp_interp s;
          s = s\<lparr>lp_interp := it\<lparr>it_world := reactor_mark_server_listening (it_world it)\<rparr>\<rparr>;
          (i, s) = coro_create entry 0 s
      in coro_resume bk (run_coro bk prog n) i s)"

fun server_listens :: "'t backend \<Rightarrow> 'c co_code \<Rightarrow> nat \<Rightarrow> 'c list \<Rightarrow> ('c, 't) loop_act" where
  "server_listens bk prog n [] s = Inr s"
| "server_listens bk prog n (e # es) s =
     (case server_listen bk prog n e s of Inl err \<Rightarrow> Inl err | Inr s \<Rightarrow> server_listens bk prog n es s)"

fun dispatch :: "'t backend \<Rightarrow> 'c co_code \<Rightarrow> nat \<Rightarrow> (nat \<times> nat) list \<Rightarrow> ('c, 't) loop_act" where
  "dispatch bk prog n [] s = Inr s"
| "dispatch bk prog n (e # es) s =
     (case resume_and_reap bk (run_coro bk prog n) (snd e) s of
        Inl err \<Rightarrow> Inl err
      | Inr s \<Rightarrow> dispatch bk prog n es s)"

text \<open>What \<^verbatim>\<open>epoll_wait\<close> and \<^verbatim>\<open>kevent\<close> return; when the script of results ends, the loop waits.\<close>

datatype poll_result = Ready "(nat \<times> 32 word) list" | Poll_interrupted | Poll_failed

fun reactor_run ::
  "'t backend \<Rightarrow> 'c co_code \<Rightarrow> reactor_invoker \<Rightarrow> nat \<Rightarrow> poll_result list \<Rightarrow> ('c, 't) loop_act" where
  "reactor_run bk prog invoke n [] s = Inr s"
| "reactor_run bk prog invoke n (p # ps) s =
     (if \<not> reactor_has_work (it_world (lp_interp s)) then Inr s
      else (let it = lp_interp s; (timeout, r) = reactor_next_timeout_ms (it_world it);
                s = s\<lparr>lp_interp := it\<lparr>it_world := r\<rparr>\<rparr>
            in case p of
                 Poll_interrupted \<Rightarrow> reactor_run bk prog invoke n ps s
               | Poll_failed \<Rightarrow> Inr s
               | Ready q \<Rightarrow>
                   (let (events, t) = bk_poll bk q (lp_table s)
                    in case dispatch bk prog n events (s\<lparr>lp_table := t\<rparr>) of
                         Inl err \<Rightarrow> Inl err
                       | Inr s \<Rightarrow>
                           (case reactor_fire_due_timers invoke (lp_interp s) of
                              None \<Rightarrow> Inl Callback_diverges
                            | Some it \<Rightarrow> reactor_run bk prog invoke n ps (s\<lparr>lp_interp := it\<rparr>)))))"

section \<open>What the loop relies on\<close>

text \<open>
  \<open>regs\<close> are the registrations in a table, descriptor and coroutine.  A registration that was reported
  is gone once the descriptor has been unwatched, whatever others have done to the table since.
\<close>

definition single_event :: "32 word \<Rightarrow> bool" where
  "single_event ev \<longleftrightarrow> ev = REACTOR_READABLE \<or> ev = REACTOR_WRITABLE"

locale watch_contract =
  fixes bk :: "'t backend" and regs :: "'t \<Rightarrow> (nat \<times> nat) multiset"
  assumes watch_adds: "single_event ev \<Longrightarrow> regs (bk_watch bk fd ev j t) \<subseteq># add_mset (fd, j) (regs t)"
    and unwatch_less: "regs (bk_unwatch bk fd t) \<subseteq># regs t"
    and poll_reports: "mset (fst (bk_poll bk q t)) \<subseteq># regs t"
    and poll_less: "regs (snd (bk_poll bk q t)) \<subseteq># regs t"
    and poll_ends: "(fd, j) \<in> set (fst (bk_poll bk q t)) \<Longrightarrow> count (regs t) (fd, j) \<le> 1 \<Longrightarrow>
      (fd, j) \<notin># regs (bk_unwatch bk fd (snd (bk_poll bk q t)))"
    and watch_other: "single_event ev \<Longrightarrow> i \<noteq> j \<Longrightarrow> (fd, j) \<notin># regs (bk_unwatch bk fd t) \<Longrightarrow>
      (fd, j) \<notin># regs (bk_unwatch bk fd (bk_watch bk f ev i t))"
    and unwatch_other: "(fd, j) \<notin># regs (bk_unwatch bk fd t) \<Longrightarrow>
      (fd, j) \<notin># regs (bk_unwatch bk fd (bk_unwatch bk f t))"

text \<open>
  Every registration is the only one of a coroutine that waits for that descriptor; a state differs
  from another only in what coroutine \<open>i\<close> did and in new coroutines.
\<close>

definition waiting :: "('c, 't) event_loop \<Rightarrow> nat \<Rightarrow> nat \<Rightarrow> bool" where
  "waiting s fd j \<longleftrightarrow> (\<exists>co k. coro_at s j = Some co \<and> co_state co = CORO_READY \<and> co_ctx co = In_await fd k)"

definition loop_ok :: "('t \<Rightarrow> (nat \<times> nat) multiset) \<Rightarrow> ('c, 't) event_loop \<Rightarrow> bool" where
  "loop_ok regs s \<longleftrightarrow> (\<forall>e. count (regs (lp_table s)) e \<le> 1) \<and>
     (\<forall>fd j. (fd, j) \<in># regs (lp_table s) \<longrightarrow> waiting s fd j)"

definition undisturbed ::
  "'t backend \<Rightarrow> ('t \<Rightarrow> (nat \<times> nat) multiset) \<Rightarrow> ('c, 't) event_loop \<Rightarrow> ('c, 't) event_loop \<Rightarrow> nat \<Rightarrow> bool" where
  "undisturbed bk regs s s' j \<longleftrightarrow> coro_at s' j = coro_at s j \<and>
     (\<forall>fd. ((fd, j) \<in># regs (lp_table s') \<longrightarrow> (fd, j) \<in># regs (lp_table s)) \<and>
           ((fd, j) \<notin># regs (bk_unwatch bk fd (lp_table s)) \<longrightarrow> (fd, j) \<notin># regs (bk_unwatch bk fd (lp_table s'))))"

definition only_coro ::
  "'t backend \<Rightarrow> ('t \<Rightarrow> (nat \<times> nat) multiset) \<Rightarrow> nat \<Rightarrow> ('c, 't) event_loop \<Rightarrow> ('c, 't) event_loop \<Rightarrow> bool" where
  "only_coro bk regs i s s' \<longleftrightarrow> length (lp_coros s) \<le> length (lp_coros s') \<and>
     (\<forall>j < length (lp_coros s). j \<noteq> i \<longrightarrow> undisturbed bk regs s s' j)"

definition stopped :: "'c Coro \<Rightarrow> bool" where
  "stopped co \<longleftrightarrow> co_state co = CORO_DONE \<or> (co_state co = CORO_READY \<and> (\<exists>fd k. co_ctx co = In_await fd k))"

definition single_events :: "'c co_code \<Rightarrow> bool" where
  "single_events prog \<longleftrightarrow> (\<forall>c it fd ev k it'. prog c it = (Co_await fd ev k, it') \<longrightarrow> single_event ev)"

lemma coro_at_on_coro: "coro_at (on_coro i f s) j = (if i = j then map_option f (coro_at s i) else coro_at s j)"
  by (auto simp: coro_at_def on_coro_def nth_list_update)

lemma coro_at_destroy: "coro_at (coro_destroy i s) j = (if i = j then None else coro_at s j)"
  by (auto simp: coro_at_def coro_destroy_def nth_list_update)

lemma coro_at_create: "coro_at (snd (coro_create e n s)) j =
    (if j = length (lp_coros s) then Some \<lparr>co_state = CORO_READY, co_ctx = Entry e, co_stack_size = (if n \<noteq> 0 then n else 256 * 1024)\<rparr>
     else coro_at s j)"
  by (auto simp: coro_at_def coro_create_def nth_append)

lemma coro_at_same [simp]: "coro_at (s\<lparr>lp_current := c\<rparr>) j = coro_at s j" "coro_at (s\<lparr>lp_interp := it\<rparr>) j = coro_at s j"
  "coro_at (on_table f s) j = coro_at s j" "coro_at (s\<lparr>lp_table := t\<rparr>) j = coro_at s j"
  by (simp_all add: coro_at_def on_table_def)

lemma lp_same [simp]: "lp_table (on_coro i f s) = lp_table s" "lp_table (coro_destroy i s) = lp_table s"
  "lp_table (snd (coro_create e n s)) = lp_table s" "lp_current (on_coro i f s) = lp_current s"
  "lp_current (coro_destroy i s) = lp_current s" "lp_current (snd (coro_create e n s)) = lp_current s"
  "length (lp_coros (on_coro i f s)) = length (lp_coros s)" "length (lp_coros (coro_destroy i s)) = length (lp_coros s)"
  "length (lp_coros (snd (coro_create e n s))) = Suc (length (lp_coros s))" "lp_table (on_table g s) = g (lp_table s)"
  "lp_current (on_table g s) = lp_current s" "lp_coros (on_table g s) = lp_coros s"
  "fst (coro_create e n s) = length (lp_coros s)"
  by (simp_all add: on_coro_def coro_destroy_def coro_create_def on_table_def)

lemma coro_at_length: "coro_at s i = Some co \<Longrightarrow> i < length (lp_coros s)"
  by (simp add: coro_at_def split: if_splits)

lemma undisturbed_refl [simp]: "undisturbed bk regs s s j"
  by (simp add: undisturbed_def)

lemma undisturbed_trans: "undisturbed bk regs s u j \<Longrightarrow> undisturbed bk regs u v j \<Longrightarrow> undisturbed bk regs s v j"
  by (auto simp: undisturbed_def)

lemma undisturbed_same: "coro_at s' j = coro_at s j \<Longrightarrow> lp_table s' = lp_table s \<Longrightarrow> undisturbed bk regs s s' j"
  by (simp add: undisturbed_def)

lemma only_coro_refl [simp]: "only_coro bk regs i s s"
  by (simp add: only_coro_def)

lemma only_coro_trans: "only_coro bk regs i s u \<Longrightarrow> only_coro bk regs i u v \<Longrightarrow> only_coro bk regs i s v"
  unfolding only_coro_def by (meson le_trans less_le_trans undisturbed_trans)

lemma only_coro_same:
  "(\<And>j. j < length (lp_coros s) \<Longrightarrow> j \<noteq> i \<Longrightarrow> coro_at s' j = coro_at s j) \<Longrightarrow> lp_table s' = lp_table s \<Longrightarrow>
   length (lp_coros s) \<le> length (lp_coros s') \<Longrightarrow> only_coro bk regs i s s'"
  by (simp add: only_coro_def undisturbed_same)

text \<open>What a coroutine that is new does is, for the others, what none does.\<close>

lemma only_coro_new:
  "length (lp_coros s) \<le> j \<Longrightarrow> only_coro bk regs j s s' \<Longrightarrow> only_coro bk regs i s s'"
  by (auto simp: only_coro_def)

lemma waiting_cong: "coro_at s' j = coro_at s j \<Longrightarrow> waiting s' fd j = waiting s fd j"
  by (simp add: waiting_def)

lemma waiting_fun: "waiting s fd j \<Longrightarrow> waiting s f j \<Longrightarrow> f = fd"
  by (auto simp: waiting_def)

lemma waiting_length: "waiting s fd j \<Longrightarrow> j < length (lp_coros s)"
  by (auto simp: waiting_def dest: coro_at_length)

definition runs_well ::
  "'t backend \<Rightarrow> ('t \<Rightarrow> (nat \<times> nat) multiset) \<Rightarrow> (nat \<Rightarrow> 'c \<Rightarrow> ('c, 't) loop_act) \<Rightarrow> bool" where
  "runs_well bk regs run \<longleftrightarrow> (\<forall>i c s co. loop_ok regs s \<longrightarrow> coro_at s i = Some co \<longrightarrow> co_state co = CORO_RUNNING \<longrightarrow>
     lp_current s = Some i \<longrightarrow> run i c s \<noteq> Inl Freed_coro \<and>
     (\<forall>s'. run i c s = Inr s' \<longrightarrow> loop_ok regs s' \<and> only_coro bk regs i s s' \<and> lp_current s' = Some i \<and>
       (\<exists>co. coro_at s' i = Some co \<and> stopped co)))"

lemma loop_ok_less:
  assumes "loop_ok regs s" "regs (lp_table s') \<subseteq># regs (lp_table s)"
    "\<And>fd j. (fd, j) \<in># regs (lp_table s') \<Longrightarrow> coro_at s' j = coro_at s j"
  shows "loop_ok regs s'"
proof -
  have "count (regs (lp_table s')) e \<le> 1" for e
    using assms(1,2) by (meson le_trans loop_ok_def subseteq_mset_def)
  moreover have "waiting s' fd j" if "(fd, j) \<in># regs (lp_table s')" for fd j
    using assms(1) mset_subset_eqD [OF assms(2) that] waiting_cong [OF assms(3) [OF that]] by (auto simp: loop_ok_def)
  ultimately show ?thesis by (simp add: loop_ok_def)
qed

lemma not_registered:
  "loop_ok regs s \<Longrightarrow> coro_at s i = Some co \<Longrightarrow> (co_state co \<noteq> CORO_READY \<or> (\<nexists>k. co_ctx co = In_await fd k)) \<Longrightarrow>
   (fd, i) \<notin># regs (lp_table s)"
  by (fastforce simp: loop_ok_def waiting_def)

context watch_contract begin

lemma unwatch_ok:
  assumes "loop_ok regs s" shows "loop_ok regs (on_table (bk_unwatch bk fd) s)"
  by (rule loop_ok_less [OF assms]) (use unwatch_less in simp_all)

lemma unwatch_only: "only_coro bk regs i s (on_table (bk_unwatch bk fd) s)"
  using mset_subset_eqD [OF unwatch_less] unwatch_other by (auto simp: only_coro_def undisturbed_def)

lemma resume_well:
  assumes run: "runs_well bk regs run" and ok: "loop_ok regs s" and co: "coro_at s i = Some co" "co_state co = CORO_READY"
    and gone: "\<And>fd k. co_ctx co = In_await fd k \<Longrightarrow> (fd, i) \<notin># regs (bk_unwatch bk fd (lp_table s))"
  shows "coro_resume bk run i s \<noteq> Inl Freed_coro \<and>
    (\<forall>s'. coro_resume bk run i s = Inr s' \<longrightarrow> loop_ok regs s' \<and> only_coro bk regs i s s' \<and> lp_current s' = lp_current s \<and>
       (\<exists>co. coro_at s' i = Some co \<and> stopped co))"
proof -
  define r where "r = on_coro i (\<lambda>co. co\<lparr>co_state := CORO_RUNNING\<rparr>) (s\<lparr>lp_current := Some i\<rparr>)"
  define u where "u = (case co_ctx co of Entry c \<Rightarrow> r | In_await fd c \<Rightarrow> on_table (bk_unwatch bk fd) r)"
  define c where "c = (case co_ctx co of Entry c \<Rightarrow> c | In_await fd c \<Rightarrow> c)"
  have res: "coro_resume bk run i s = (case run i c u of Inl e \<Rightarrow> Inl e | Inr s' \<Rightarrow> Inr (s'\<lparr>lp_current := lp_current s\<rparr>))"
    using co by (simp add: coro_resume_def u_def c_def r_def Let_def split: co_context.split)
  have t: "lp_table r = lp_table s" by (simp add: r_def)
  have sub: "regs (lp_table u) \<subseteq># regs (lp_table s)"
    using unwatch_less by (auto simp: u_def t split: co_context.split)
  have none: "(fd, i) \<notin># regs (lp_table u)" for fd
  proof (cases "co_ctx co")
    case (Entry c)
    then show ?thesis using not_registered [OF ok co(1)] by (simp add: u_def t)
  next
    case (In_await f k)
    show ?thesis
    proof (cases "f = fd")
      case False
      then have "(fd, i) \<notin># regs (lp_table s)" using not_registered [OF ok co(1)] In_await by auto
      then show ?thesis using mset_subset_eqD [OF sub] by blast
    qed (use gone In_await in \<open>simp add: u_def t\<close>)
  qed
  have at: "coro_at u j = (if i = j then Some (co\<lparr>co_state := CORO_RUNNING\<rparr>) else coro_at s j)" for j
    using co by (auto simp: u_def r_def coro_at_on_coro split: co_context.split)
  have at_i: "coro_at u i = Some (co\<lparr>co_state := CORO_RUNNING\<rparr>)" by (simp add: at)
  have uok: "loop_ok regs u"
    by (rule loop_ok_less [OF ok sub]) (use at none in auto)
  have "only_coro bk regs i s r" by (rule only_coro_same) (auto simp: r_def coro_at_on_coro)
  then have only: "only_coro bk regs i s u"
    using only_coro_trans [OF _ unwatch_only] by (auto simp: u_def split: co_context.split)
  have cur: "lp_current u = Some i" by (simp add: u_def r_def split: co_context.split)
  have w: "run i c u \<noteq> Inl Freed_coro" "\<And>s'. run i c u = Inr s' \<Longrightarrow> loop_ok regs s' \<and> only_coro bk regs i u s' \<and>
      (\<exists>co. coro_at s' i = Some co \<and> stopped co)"
    using run [unfolded runs_well_def, rule_format, OF uok at_i _ cur, of c] by auto
  have "loop_ok regs (x\<lparr>lp_current := lp_current s\<rparr>)" "only_coro bk regs i s (x\<lparr>lp_current := lp_current s\<rparr>)"
    if "run i c u = Inr x" for x
  proof -
    show "loop_ok regs (x\<lparr>lp_current := lp_current s\<rparr>)"
      by (rule loop_ok_less [of regs x]) (use w(2) [OF that] in auto)
    have "only_coro bk regs i x (x\<lparr>lp_current := lp_current s\<rparr>)" by (rule only_coro_same) auto
    with w(2) [OF that] only only_coro_trans show "only_coro bk regs i s (x\<lparr>lp_current := lp_current s\<rparr>)" by blast
  qed
  with w show ?thesis unfolding res by (auto split: sum.split)
qed

lemma reap_well:
  assumes "runs_well bk regs run" "loop_ok regs s" "coro_at s i = Some co" "co_state co = CORO_READY"
    "\<And>fd k. co_ctx co = In_await fd k \<Longrightarrow> (fd, i) \<notin># regs (bk_unwatch bk fd (lp_table s))"
  shows "resume_and_reap bk run i s \<noteq> Inl Freed_coro \<and>
    (\<forall>s'. resume_and_reap bk run i s = Inr s' \<longrightarrow> loop_ok regs s' \<and> only_coro bk regs i s s' \<and> lp_current s' = lp_current s)"
proof -
  note r = resume_well [OF assms]
  have "loop_ok regs (coro_destroy i x)" "only_coro bk regs i x (coro_destroy i x)"
    if "loop_ok regs x" "coro_at x i = Some co" "co_state co = CORO_DONE" for x co
  proof -
    have "(fd, i) \<notin># regs (lp_table x)" for fd using not_registered [OF that(1,2)] that(3) by simp
    then show "loop_ok regs (coro_destroy i x)"
      by (intro loop_ok_less [OF that(1)]) (auto simp: coro_at_destroy)
    show "only_coro bk regs i x (coro_destroy i x)" by (rule only_coro_same) (auto simp: coro_at_destroy)
  qed
  with r show ?thesis
    by (fastforce simp: resume_and_reap_def split: sum.splits option.splits intro: only_coro_trans)
qed

lemma await_well:
  assumes ok: "loop_ok regs s" and co: "coro_at s i = Some co" "co_state co = CORO_RUNNING" and cur: "lp_current s = Some i"
    and ev: "single_event ev"
  shows "fst (reactor_await_fd bk fd ev k s)" "loop_ok regs (snd (reactor_await_fd bk fd ev k s))"
    "only_coro bk regs i s (snd (reactor_await_fd bk fd ev k s))" "lp_current (snd (reactor_await_fd bk fd ev k s)) = Some i"
    "\<exists>co. coro_at (snd (reactor_await_fd bk fd ev k s)) i = Some co \<and> stopped co"
    "lp_table (snd (reactor_await_fd bk fd ev k s)) = bk_watch bk fd ev i (lp_table s)"
proof -
  define u where "u = snd (reactor_await_fd bk fd ev k s)"
  have u: "u = on_coro i (\<lambda>co. co\<lparr>co_state := CORO_READY, co_ctx := In_await fd k\<rparr>) (on_table (bk_watch bk fd ev i) s)"
    using cur by (simp add: u_def reactor_await_fd_def coro_yield_def)
  have at: "coro_at u j = (if i = j then Some (co\<lparr>co_state := CORO_READY, co_ctx := In_await fd k\<rparr>) else coro_at s j)" for j
    using co by (auto simp: u coro_at_on_coro)
  have t: "lp_table u = bk_watch bk fd ev i (lp_table s)" by (simp add: u)
  note sub = watch_adds [OF ev, of fd i "lp_table s"]
  have none: "(f, i) \<notin># regs (lp_table s)" for f using not_registered [OF ok co(1)] co(2) by simp
  have "count (regs (lp_table u)) e \<le> count (add_mset (fd, i) (regs (lp_table s))) e" for e
    using mset_subset_eq_count [OF sub, of e] by (simp only: t)
  moreover have "count (add_mset (fd, i) (regs (lp_table s))) e \<le> 1" for e
    using ok none [of fd] by (cases e) (auto simp: loop_ok_def not_in_iff)
  ultimately have c: "count (regs (lp_table u)) e \<le> 1" for e using le_trans by blast
  have m: "x \<in># regs (lp_table u) \<Longrightarrow> x = (fd, i) \<or> x \<in># regs (lp_table s)" for x
    using mset_subset_eqD [OF sub] by (auto simp: t)
  have "waiting u f j" if "(f, j) \<in># regs (lp_table u)" for f j
  proof (cases "i = j")
    case True
    with m [OF that] none show ?thesis by (auto simp: waiting_def at)
  next
    case False
    with m [OF that] have "waiting s f j" using ok by (auto simp: loop_ok_def)
    with False show ?thesis by (simp add: waiting_def at)
  qed
  with c show "loop_ok regs (snd (reactor_await_fd bk fd ev k s))" by (simp add: loop_ok_def u_def)
  have "(f, j) \<notin># regs (bk_unwatch bk f (lp_table u))"
    if "j \<noteq> i" "(f, j) \<notin># regs (bk_unwatch bk f (lp_table s))" for f j
    using watch_other [OF ev that(1) [symmetric] that(2)] by (simp add: t)
  with m have "undisturbed bk regs s u j" if "j \<noteq> i" for j
    using that by (auto simp: undisturbed_def at)
  then show "only_coro bk regs i s (snd (reactor_await_fd bk fd ev k s))"
    by (simp add: only_coro_def u_def [symmetric]) (simp add: u)
  show "fst (reactor_await_fd bk fd ev k s)" "lp_current (snd (reactor_await_fd bk fd ev k s)) = Some i"
    using cur by (simp_all add: reactor_await_fd_def coro_yield_def)
  show "\<exists>co. coro_at (snd (reactor_await_fd bk fd ev k s)) i = Some co \<and> stopped co"
    by (simp add: u_def [symmetric] at stopped_def)
  show "lp_table (snd (reactor_await_fd bk fd ev k s)) = bk_watch bk fd ev i (lp_table s)" using t by (simp add: u_def)
qed

lemma create_well:
  assumes "loop_ok regs s"
  shows "loop_ok regs (snd (coro_create e n s))" "only_coro bk regs i s (snd (coro_create e n s))"
proof -
  have l: "coro_at s (length (lp_coros s)) = None" by (simp add: coro_at_def)
  have "(fd, length (lp_coros s)) \<notin># regs (lp_table s)" for fd
    using assms l by (fastforce simp: loop_ok_def waiting_def)
  then show "loop_ok regs (snd (coro_create e n s))"
    by (intro loop_ok_less [OF assms]) (auto simp: coro_at_create)
  show "only_coro bk regs i s (snd (coro_create e n s))"
    by (rule only_coro_same) (auto simp: coro_at_create)
qed

lemma run_coro_well:
  fixes prog :: "'c co_code"
  assumes "single_events prog"
  shows "runs_well bk regs (run_coro bk prog n)"
proof (induction n)
  case (Suc n)
  note IH = Suc [unfolded runs_well_def, rule_format]
  show ?case unfolding runs_well_def
  proof (intro allI impI)
    fix i c co and s :: "('c, 't) event_loop"
    assume ok: "loop_ok regs s" and co: "coro_at s i = Some co" "co_state co = CORO_RUNNING" and cur: "lp_current s = Some i"
    obtain call it where call: "prog c (lp_interp s) = (call, it)" by (cases "prog c (lp_interp s)")
    let ?s = "s\<lparr>lp_interp := it\<rparr>"
    let ?ok = "\<lambda>r. r \<noteq> Inl Freed_coro \<and> (\<forall>s'. r = Inr s' \<longrightarrow> loop_ok regs s' \<and> only_coro bk regs i s s' \<and>
        lp_current s' = Some i \<and> (\<exists>co. coro_at s' i = Some co \<and> stopped co))"
    have ok': "loop_ok regs ?s" by (rule loop_ok_less [OF ok]) auto
    have only': "only_coro bk regs i s ?s" by (rule only_coro_same) auto
    show "?ok (run_coro bk prog (Suc n) i c s)"
    proof (cases call)
      case (Co_await fd ev k)
      have "single_event ev" using assms call unfolding single_events_def Co_await by blast
      note w = await_well [OF ok' _ co(2) _ this, of i fd k, simplified, OF co(1) cur]
      have "run_coro bk prog (Suc n) i c s = Inr (snd (reactor_await_fd bk fd ev k ?s))"
        using w(1) by (simp add: call Co_await Let_def case_prod_beta)
      then show ?thesis using w only_coro_trans [OF only' w(3)] by simp
    next
      case (Co_spawn e k)
      let ?j = "length (lp_coros s)"
      let ?u = "snd (coro_create e 0 ?s)"
      have new: "coro_at ?u ?j = Some \<lparr>co_state = CORO_READY, co_ctx = Entry e, co_stack_size = 256 * 1024\<rparr>"
        by (simp add: coro_at_create)
      note r = reap_well [OF Suc create_well(1) [OF ok'] new, simplified]
      have res: "run_coro bk prog (Suc n) i c s =
          (case resume_and_reap bk (run_coro bk prog n) ?j ?u of Inl err \<Rightarrow> Inl err | Inr s \<Rightarrow> run_coro bk prog n i k s)"
        by (simp add: call Co_spawn Let_def coro_create_def)
      show ?thesis
      proof (cases "resume_and_reap bk (run_coro bk prog n) ?j ?u")
        case (Inl err)
        with r res show ?thesis by auto
      next
        case (Inr v)
        with r have v: "loop_ok regs v" "only_coro bk regs ?j ?u v" "lp_current v = Some i" using cur by auto
        have i: "i < ?j" using co(1) by (rule coro_at_length)
        have "coro_at v i = coro_at ?u i" using v(2) i by (simp add: only_coro_def undisturbed_def)
        then have vi: "coro_at v i = Some co" using co(1) i by (simp add: coro_at_create)
        have "only_coro bk regs ?j s v"
          using only_coro_trans [OF only_coro_trans [OF _ create_well(2) [OF ok']] v(2)] only_coro_same [of s ?j ?s] by simp
        then have sv: "only_coro bk regs i s v" by (rule only_coro_new [OF le_refl])
        from IH [OF v(1) vi co(2) v(3), of k] show ?thesis
          unfolding res Inr using only_coro_trans [OF sv] by auto
      qed
    next
      case Co_return
      let ?u = "on_coro i (\<lambda>co. co\<lparr>co_state := CORO_DONE\<rparr>) ?s"
      have "(fd, i) \<notin># regs (lp_table s)" for fd using not_registered [OF ok co(1)] co(2) by simp
      then have "loop_ok regs ?u" by (intro loop_ok_less [OF ok]) (auto simp: coro_at_on_coro)
      moreover have "only_coro bk regs i s ?u" by (rule only_coro_same) (auto simp: coro_at_on_coro)
      ultimately show ?thesis using co cur by (simp add: call Co_return coro_at_on_coro stopped_def)
    qed
  qed
qed (simp add: runs_well_def)

text \<open>The coroutines that a state holds and that no registration leads to stay as they are.\<close>

definition only_registered :: "('c, 't) event_loop \<Rightarrow> ('c, 't) event_loop \<Rightarrow> bool" where
  "only_registered s s' \<longleftrightarrow> length (lp_coros s) \<le> length (lp_coros s') \<and>
     (\<forall>j < length (lp_coros s). (\<forall>fd. (fd, j) \<notin># regs (lp_table s)) \<longrightarrow>
       coro_at s' j = coro_at s j \<and> (\<forall>fd. (fd, j) \<notin># regs (lp_table s')))"

lemma only_registered_trans: "only_registered s u \<Longrightarrow> only_registered u v \<Longrightarrow> only_registered s v"
  unfolding only_registered_def by (metis le_trans less_le_trans)

lemma only_registered_less:
  "lp_coros s' = lp_coros s \<Longrightarrow> regs (lp_table s') \<subseteq># regs (lp_table s) \<Longrightarrow> only_registered s s'"
  using mset_subset_eqD by (fastforce simp: only_registered_def coro_at_def)

lemma listen_well:
  assumes "single_events prog" "loop_ok regs s"
  shows "server_listen bk prog n e s \<noteq> Inl Freed_coro \<and> (\<forall>s'. server_listen bk prog n e s = Inr s' \<longrightarrow> loop_ok regs s')"
proof -
  let ?s = "s\<lparr>lp_interp := (lp_interp s)\<lparr>it_world := reactor_mark_server_listening (it_world (lp_interp s))\<rparr>\<rparr>"
  have "loop_ok regs ?s" by (rule loop_ok_less [OF assms(2)]) auto
  note ok = create_well(1) [OF this, of e 0]
  have "coro_at (snd (coro_create e 0 ?s)) (length (lp_coros s)) =
      Some \<lparr>co_state = CORO_READY, co_ctx = Entry e, co_stack_size = 256 * 1024\<rparr>"
    by (simp add: coro_at_create)
  from resume_well [OF run_coro_well [OF assms(1), of n] ok this] show ?thesis
    by (simp add: server_listen_def Let_def case_prod_beta)
qed

lemma listens_well:
  "single_events prog \<Longrightarrow> loop_ok regs s \<Longrightarrow>
   server_listens bk prog n es s \<noteq> Inl Freed_coro \<and> (\<forall>s'. server_listens bk prog n es s = Inr s' \<longrightarrow> loop_ok regs s')"
proof (induction es arbitrary: s)
  case (Cons e es)
  then show ?case using listen_well [OF Cons.prems, of n e] by (auto split: sum.split)
qed simp

lemma dispatch_well:
  assumes prog: "single_events prog"
  shows "loop_ok regs s \<Longrightarrow> distinct (map snd es) \<Longrightarrow>
    (\<And>fd j. (fd, j) \<in> set es \<Longrightarrow> waiting s fd j \<and> (fd, j) \<notin># regs (bk_unwatch bk fd (lp_table s))) \<Longrightarrow>
    dispatch bk prog n es s \<noteq> Inl Freed_coro \<and>
    (\<forall>s'. dispatch bk prog n es s = Inr s' \<longrightarrow> loop_ok regs s' \<and> length (lp_coros s) \<le> length (lp_coros s') \<and>
      (\<forall>j < length (lp_coros s). j \<notin> snd ` set es \<longrightarrow> undisturbed bk regs s s' j))"
proof (induction es arbitrary: s)
  case (Cons e es)
  obtain fd j where e: "e = (fd, j)" by (cases e)
  with Cons.prems(3) have w: "waiting s fd j" "(fd, j) \<notin># regs (bk_unwatch bk fd (lp_table s))" by auto
  then obtain co k where co: "coro_at s j = Some co" "co_state co = CORO_READY" "co_ctx co = In_await fd k"
    by (auto simp: waiting_def)
  then have g: "co_ctx co = In_await f k' \<Longrightarrow> (f, j) \<notin># regs (bk_unwatch bk f (lp_table s))" for f k'
    using w(2) by simp
  note r = reap_well [OF run_coro_well [OF prog, of n] Cons.prems(1) co(1,2) g]
  show ?case
  proof (cases "resume_and_reap bk (run_coro bk prog n) j s")
    case (Inl err)
    with r show ?thesis by (auto simp: e)
  next
    case (Inr v)
    with r have ok: "loop_ok regs v" and only: "only_coro bk regs j s v" by auto
    have und: "undisturbed bk regs s v i" if "i < length (lp_coros s)" "i \<noteq> j" for i
      using only that by (auto simp: only_coro_def)
    have rest: "waiting v f i \<and> (f, i) \<notin># regs (bk_unwatch bk f (lp_table v))" if "(f, i) \<in> set es" for f i
    proof -
      have "i \<noteq> j" using Cons.prems(2) that by (force simp: e)
      moreover have s: "waiting s f i" "(f, i) \<notin># regs (bk_unwatch bk f (lp_table s))" using Cons.prems(3) that by auto
      ultimately have "undisturbed bk regs s v i" using und waiting_length by blast
      with s show ?thesis by (auto simp: undisturbed_def waiting_def)
    qed
    have l: "length (lp_coros s) \<le> length (lp_coros v)" using only by (simp add: only_coro_def)
    from Cons.IH [OF ok _ rest] Cons.prems(2) show ?thesis
      using undisturbed_trans [OF und] l by (auto simp: e Inr)
  qed
qed simp

lemma poll_distinct:
  assumes "loop_ok regs s"
  shows "distinct (map snd (fst (bk_poll bk q (lp_table s))))"
proof -
  let ?es = "fst (bk_poll bk q (lp_table s))"
  have "count (mset ?es) e \<le> 1" for e
    using mset_subset_eq_count [OF poll_reports [of q "lp_table s"], of e] assms le_trans by (cases e) (fastforce simp: loop_ok_def)
  then have "distinct ?es" by (metis One_nat_def count_mset_0_iff distinct_count_atmost_1 le_Suc_eq le_zero_eq)
  moreover have "inj_on snd (set ?es)"
  proof (rule inj_onI)
    fix x y assume xy: "x \<in> set ?es" "y \<in> set ?es" "snd x = snd y"
    then have "x \<in># regs (lp_table s)" "y \<in># regs (lp_table s)"
      using mset_subset_eqD [OF poll_reports] by auto
    then have "waiting s (fst x) (snd x)" "waiting s (fst y) (snd y)"
      using assms by (cases x; cases y; force simp: loop_ok_def)+
    with xy(3) waiting_fun show "x = y" by (metis prod.expand)
  qed
  ultimately show ?thesis by (simp add: distinct_map)
qed

lemma reactor_run_well:
  assumes prog: "single_events prog"
  shows "loop_ok regs s \<Longrightarrow> reactor_run bk prog invoke n ps s \<noteq> Inl Freed_coro \<and>
    (\<forall>s'. reactor_run bk prog invoke n ps s = Inr s' \<longrightarrow> loop_ok regs s' \<and> only_registered s s')"
proof (induction ps arbitrary: s)
  case (Cons p ps)
  let ?s = "s\<lparr>lp_interp := (lp_interp s)\<lparr>it_world := snd (reactor_next_timeout_ms (it_world (lp_interp s)))\<rparr>\<rparr>"
  have ok: "loop_ok regs ?s" by (rule loop_ok_less [OF Cons.prems]) auto
  have o1: "only_registered s ?s" by (rule only_registered_less) auto
  show ?case
  proof (cases "reactor_has_work (it_world (lp_interp s))")
    case True
    show ?thesis
    proof (cases p)
      case (Ready q)
      define es where "es = fst (bk_poll bk q (lp_table s))"
      define u where "u = ?s\<lparr>lp_table := snd (bk_poll bk q (lp_table s))\<rparr>"
      have uok: "loop_ok regs u" by (rule loop_ok_less [OF ok]) (use poll_less in \<open>auto simp: u_def\<close>)
      have o2: "only_registered s u" by (rule only_registered_less) (use poll_less in \<open>auto simp: u_def\<close>)
      have in_es: "(fd, j) \<in># regs (lp_table s)" if "(fd, j) \<in> set es" for fd j
        using mset_subset_eqD [OF poll_reports] that by (auto simp: es_def)
      have ready: "waiting u fd j \<and> (fd, j) \<notin># regs (bk_unwatch bk fd (lp_table u))" if "(fd, j) \<in> set es" for fd j
        using in_es [OF that] Cons.prems poll_ends [of fd j q "lp_table s"] that
        by (auto simp: loop_ok_def u_def es_def waiting_def)
      note d = dispatch_well [OF prog uok _ ready, of es n]
      have dist: "distinct (map snd es)" unfolding es_def by (rule poll_distinct [OF Cons.prems])
      have res: "reactor_run bk prog invoke n (p # ps) s =
          (case dispatch bk prog n es u of
             Inl err \<Rightarrow> Inl err
           | Inr v \<Rightarrow> (case reactor_fire_due_timers invoke (lp_interp v) of
                         None \<Rightarrow> Inl Callback_diverges
                       | Some it \<Rightarrow> reactor_run bk prog invoke n ps (v\<lparr>lp_interp := it\<rparr>)))"
        using True by (simp add: Ready Let_def case_prod_beta es_def u_def)
      show ?thesis
      proof (cases "dispatch bk prog n es u")
        case (Inl err)
        with d dist res show ?thesis by auto
      next
        case (Inr v)
        with d dist have v: "loop_ok regs v" "length (lp_coros u) \<le> length (lp_coros v)"
          "\<And>j. j < length (lp_coros u) \<Longrightarrow> j \<notin> snd ` set es \<Longrightarrow> undisturbed bk regs u v j" by auto
        have un: "j \<notin> snd ` set es" if "\<forall>fd. (fd, j) \<notin># regs (lp_table s)" for j
        proof
          assume "j \<in> snd ` set es"
          then obtain fd where "(fd, j) \<in> set es" by force
          with in_es that show False by blast
        qed
        have o3: "only_registered s v"
          unfolding only_registered_def
        proof (intro conjI allI impI)
          fix j fd assume j: "j < length (lp_coros s)" "\<forall>fd. (fd, j) \<notin># regs (lp_table s)"
          then have "undisturbed bk regs u v j" by (intro v(3) un) (auto simp: u_def)
          moreover have "coro_at u j = coro_at s j" "(fd, j) \<notin># regs (lp_table u)" for fd
            using o2 j by (auto simp: only_registered_def)
          ultimately show "coro_at v j = coro_at s j" "(fd, j) \<notin># regs (lp_table v)"
            by (auto simp: undisturbed_def)
        qed (use v(2) in \<open>simp add: u_def\<close>)
        show ?thesis
        proof (cases "reactor_fire_due_timers invoke (lp_interp v)")
          case (Some it)
          have w: "loop_ok regs (v\<lparr>lp_interp := it\<rparr>)" by (rule loop_ok_less [OF v(1)]) auto
          have "only_registered v (v\<lparr>lp_interp := it\<rparr>)" by (rule only_registered_less) auto
          with o3 have "only_registered s (v\<lparr>lp_interp := it\<rparr>)" by (rule only_registered_trans)
          with Cons.IH [OF w] show ?thesis unfolding res Inr using only_registered_trans by (auto simp: Some)
        next
          case None
          then show ?thesis unfolding res Inr by simp
        qed
      qed
    next
      case Poll_interrupted
      with True Cons.IH [OF ok] show ?thesis
        using only_registered_trans [OF o1] by (simp add: Let_def case_prod_beta)
    next
      case Poll_failed
      with True ok o1 show ?thesis by (simp add: Let_def case_prod_beta)
    qed
  next
    case False
    with Cons.prems show ?thesis by (simp add: only_registered_def)
  qed
qed (simp add: only_registered_def)

end

section \<open>The backends keep the contract\<close>

definition epoll_regs :: "epoll_table \<Rightarrow> (nat \<times> nat) multiset" where
  "epoll_regs t = (case t of None \<Rightarrow> {#} | Some es \<Rightarrow> mset (map (\<lambda>(fd, ev, co). (fd, co)) es))"

definition kqueue_regs :: "kqueue_table \<Rightarrow> (nat \<times> nat) multiset" where
  "kqueue_regs t = (case t of None \<Rightarrow> {#} | Some es \<Rightarrow> mset (map (\<lambda>((fd, k), co). (fd, co)) es))"

lemma mset_map_filter: "mset (map f (filter P xs)) \<subseteq># mset (map f xs)"
  by (simp add: image_mset_subseteq_mono multiset_filter_subset mset_filter)

lemma mset_take: "mset (take n xs) \<subseteq># mset xs"
  by (metis append_take_drop_id mset_append mset_subset_eq_add_left)

lemma epoll_del_less: "epoll_regs (Some (epoll_del fd es)) \<subseteq># epoll_regs (Some es)"
  by (simp only: epoll_regs_def epoll_del_def option.case mset_map_filter)

lemma epoll_del_gone: "(fd, j) \<notin># epoll_regs (epoll_unwatch fd t)"
  by (auto simp: epoll_regs_def epoll_unwatch_def epoll_del_def split: option.split)

lemma epoll_watch_adds: "epoll_regs (epoll_watch fd ev j t) \<subseteq># add_mset (fd, j) (epoll_regs t)"
  using epoll_del_less [of fd "the t"]
  by (cases t) (auto simp: epoll_regs_def epoll_watch_def ensure_epoll_def Let_def)

lemma epoll_wait_reports: "mset (fst (epoll_wait q t)) \<subseteq># epoll_regs t"
proof (cases t)
  case (Some es)
  have "mset (take 64 (filter (epoll_ready q) es)) \<subseteq># mset es"
    using mset_take multiset_filter_subset subset_mset.trans by (metis mset_filter)
  with Some show ?thesis
    by (simp add: epoll_regs_def epoll_wait_def ensure_epoll_def MAX_EVENTS_def image_mset_subseteq_mono)
qed (simp add: epoll_wait_def ensure_epoll_def)

interpretation ep: watch_contract epoll_backend epoll_regs
proof unfold_locales
  fix q :: "(nat \<times> 32 word) list" and t
  show "epoll_regs (snd (bk_poll epoll_backend q t)) \<subseteq># epoll_regs t"
    by (auto simp: epoll_backend_def epoll_wait_def ensure_epoll_def epoll_regs_def split: option.split)
  show "mset (fst (bk_poll epoll_backend q t)) \<subseteq># epoll_regs t"
    by (simp add: epoll_backend_def epoll_wait_reports)
next
  fix fd t
  show "epoll_regs (bk_unwatch epoll_backend fd t) \<subseteq># epoll_regs t"
    using epoll_del_less by (cases t) (simp_all add: epoll_backend_def epoll_unwatch_def)
qed (simp_all add: epoll_backend_def epoll_del_gone epoll_watch_adds)

lemma take_ready_parts: "take_ready n P xs = (ys, zs) \<Longrightarrow> mset ys + mset zs = mset xs"
  by (induction n P xs arbitrary: ys zs rule: take_ready.induct) (auto split: if_splits prod.splits)

lemma kqueue_wait_parts:
  "mset (fst (kqueue_wait q t)) + kqueue_regs (snd (kqueue_wait q t)) = kqueue_regs t"
proof (cases t)
  case (Some es)
  obtain ys zs where t: "take_ready MAX_EVENTS (kfilter_ready q) es = (ys, zs)"
    by (cases "take_ready MAX_EVENTS (kfilter_ready q) es")
  show ?thesis
    by (simp add: Some kqueue_wait_def ensure_kq_def t kqueue_regs_def take_ready_parts [OF t, symmetric])
qed (simp add: kqueue_wait_def ensure_kq_def kqueue_regs_def)

lemma kqueue_unwatch_set:
  "\<exists>es'. kqueue_unwatch f (Some es) = Some es' \<and>
     set es' = (if (f, EVFILT_READ) \<in> fst ` set es then {e \<in> set es. fst (fst e) \<noteq> f} else set es)"
proof -
  have k: "fst (fst e) \<noteq> f \<longleftrightarrow> fst e \<noteq> (f, EVFILT_READ) \<and> fst e \<noteq> (f, EVFILT_WRITE)" for e :: "(nat \<times> kfilter) \<times> nat"
    by (cases e; cases "snd (fst e)") auto
  let ?es = "filter (\<lambda>e. fst e \<noteq> (f, EVFILT_READ)) es"
  show ?thesis
  proof (cases "(f, EVFILT_READ) \<in> fst ` set es")
    case True
    then have "kqueue_unwatch f (Some es) = Some (kevent_changes [EV_DELETE f EVFILT_WRITE] ?es)"
      by (simp add: kqueue_unwatch_def)
    moreover have "set (kevent_changes [EV_DELETE f EVFILT_WRITE] ?es) = {e \<in> set es. fst (fst e) \<noteq> f}"
      unfolding k by (force simp: image_iff)
    ultimately show ?thesis using True by simp
  qed (simp add: kqueue_unwatch_def)
qed

lemma kqueue_unwatch_regs:
  "(fd, j) \<in># kqueue_regs (kqueue_unwatch f (Some es)) \<longleftrightarrow>
     (\<exists>k. ((fd, k), j) \<in> set es \<and> (f = fd \<longrightarrow> (f, EVFILT_READ) \<notin> fst ` set es))"
proof -
  obtain es' where e: "kqueue_unwatch f (Some es) = Some es'"
    "set es' = (if (f, EVFILT_READ) \<in> fst ` set es then {e \<in> set es. fst (fst e) \<noteq> f} else set es)"
    using kqueue_unwatch_set by blast
  have "(fd, j) \<in># kqueue_regs (Some es') \<longleftrightarrow> (\<exists>k. ((fd, k), j) \<in> set es')"
    by (force simp: kqueue_regs_def)
  then show ?thesis unfolding e by auto
qed

lemma kqueue_change_less:
  "list_all (\<lambda>c. case c of EV_DELETE _ _ \<Rightarrow> True | _ \<Rightarrow> False) cs \<Longrightarrow> mset (kevent_changes cs es) \<subseteq># mset es"
  by (induction cs es rule: kevent_changes.induct)
    (auto intro: subset_mset.order_trans multiset_filter_subset)

lemma kqueue_watch_single:
  assumes "single_event ev"
  shows "\<exists>k. kqueue_watch fd ev j t = Some (((fd, k), j) # filter (\<lambda>e. fst e \<noteq> (fd, k)) (case t of None \<Rightarrow> [] | Some es \<Rightarrow> es))"
  using assms by (auto simp: single_event_def REACTOR_READABLE_def REACTOR_WRITABLE_def kqueue_watch_def ensure_kq_def
      split: option.split)

lemma kqueue_watch_adds:
  assumes "single_event ev"
  shows "kqueue_regs (kqueue_watch fd ev j t) \<subseteq># add_mset (fd, j) (kqueue_regs t)"
proof -
  obtain k where k: "kqueue_watch fd ev j t = Some (((fd, k), j) # filter (\<lambda>e. fst e \<noteq> (fd, k)) (case t of None \<Rightarrow> [] | Some es \<Rightarrow> es))"
    using kqueue_watch_single [OF assms] by blast
  show ?thesis unfolding k
    by (cases t) (simp_all add: kqueue_regs_def mset_map_filter image_mset_subseteq_mono multiset_filter_subset)
qed

lemma kqueue_watch_other:
  assumes "single_event ev" "i \<noteq> j" "(fd, j) \<notin># kqueue_regs (kqueue_unwatch fd t)"
  shows "(fd, j) \<notin># kqueue_regs (kqueue_unwatch fd (kqueue_watch f ev i t))"
proof -
  obtain k where k: "kqueue_watch f ev i t = Some (((f, k), i) # filter (\<lambda>e. fst e \<noteq> (f, k)) (case t of None \<Rightarrow> [] | Some es \<Rightarrow> es))"
    using kqueue_watch_single [OF assms(1)] by blast
  show ?thesis
  proof (cases t)
    case (Some es)
    with assms(2,3) show ?thesis unfolding k by (auto simp: kqueue_unwatch_regs image_iff)
  next
    case None
    with assms(2) show ?thesis unfolding k by (simp add: kqueue_unwatch_regs)
  qed
qed

lemma kqueue_unwatch_other:
  assumes "(fd, j) \<notin># kqueue_regs (kqueue_unwatch fd t)"
  shows "(fd, j) \<notin># kqueue_regs (kqueue_unwatch fd (kqueue_unwatch f t))"
proof (cases t)
  case (Some es)
  obtain es' where e: "kqueue_unwatch f (Some es) = Some es'"
    "set es' = (if (f, EVFILT_READ) \<in> fst ` set es then {e \<in> set es. fst (fst e) \<noteq> f} else set es)"
    using kqueue_unwatch_set by blast
  show ?thesis
    using assms unfolding Some e(1) kqueue_unwatch_regs e(2) by (auto simp: image_iff)
qed (use assms in \<open>simp add: kqueue_unwatch_def\<close>)

lemma kqueue_unwatch_less: "kqueue_regs (kqueue_unwatch fd t) \<subseteq># kqueue_regs t"
  using kqueue_change_less [of "[EV_DELETE fd EVFILT_READ, EV_DELETE fd EVFILT_WRITE]"]
  by (cases t) (simp_all only: kqueue_unwatch_def kqueue_regs_def option.simps mset_map image_mset_subseteq_mono
      list.pred_inject kchange.case simp_thms subset_mset.order_refl)

interpretation kq: watch_contract kqueue_backend kqueue_regs
proof unfold_locales
  fix q :: "(nat \<times> 32 word) list" and t
  show less: "kqueue_regs (snd (bk_poll kqueue_backend q t)) \<subseteq># kqueue_regs t"
    "mset (fst (bk_poll kqueue_backend q t)) \<subseteq># kqueue_regs t"
    using kqueue_wait_parts [of q t, symmetric] by (simp_all add: kqueue_backend_def)
  fix fd j assume e: "(fd, j) \<in> set (fst (bk_poll kqueue_backend q t))" "count (kqueue_regs t) (fd, j) \<le> 1"
  have "count (mset (fst (kqueue_wait q t))) (fd, j) + count (kqueue_regs (snd (kqueue_wait q t))) (fd, j) \<le> 1"
    using e(2) kqueue_wait_parts [of q t] by (metis count_union)
  moreover have "0 < count (mset (fst (kqueue_wait q t))) (fd, j)"
    using e(1) by (simp add: kqueue_backend_def)
  ultimately have "count (kqueue_regs (snd (kqueue_wait q t))) (fd, j) = 0" by linarith
  then have "(fd, j) \<notin># kqueue_regs (snd (kqueue_wait q t))" by (simp add: not_in_iff)
  then show "(fd, j) \<notin># kqueue_regs (bk_unwatch kqueue_backend fd (snd (bk_poll kqueue_backend q t)))"
    using mset_subset_eqD [OF kqueue_unwatch_less] by (auto simp: kqueue_backend_def)
qed (simp_all add: kqueue_backend_def kqueue_unwatch_less kqueue_watch_adds kqueue_watch_other kqueue_unwatch_other)

section \<open>Runs of the program\<close>

definition loop_start :: "'t \<Rightarrow> reactor interp \<Rightarrow> ('c, 't) event_loop" where
  "loop_start t it = \<lparr>lp_coros = [], lp_current = None, lp_table = t, lp_interp = it\<rparr>"

text \<open>\<^verbatim>\<open>run_source\<close> after the script, which has started the servers \<open>es\<close>.\<close>

definition serve :: "'t backend \<Rightarrow> 'c co_code \<Rightarrow> reactor_invoker \<Rightarrow> nat \<Rightarrow> 'c list \<Rightarrow> poll_result list \<Rightarrow> ('c, 't) loop_act" where
  "serve bk prog invoke n es ps s =
     (case server_listens bk prog n es s of
        Inl err \<Rightarrow> Inl err
      | Inr s \<Rightarrow> if reactor_has_work (it_world (lp_interp s)) then reactor_run bk prog invoke n ps s else Inr s)"

lemma loop_start_ok: "regs t = {#} \<Longrightarrow> loop_ok regs (loop_start t it)"
  by (simp add: loop_ok_def loop_start_def)

context watch_contract begin

lemma serve_well:
  assumes "single_events prog" "regs t = {#}"
  shows "serve bk prog invoke n es ps (loop_start t it) \<noteq> Inl Freed_coro"
  using listens_well [OF assms(1) loop_start_ok [of regs, OF assms(2)], of n es] reactor_run_well [OF assms(1)]
  by (auto simp: serve_def split: sum.split)

end

text \<open>
  C16. A coroutine that has been freed is never resumed, with either backend: whatever the sockets
  report and in whatever order, and whatever coroutines start and return meanwhile, a pointer that the kernel
  hands back belongs to a coroutine that still waits for that socket.  The coroutines are those of the program
  in that they wait for one event at a time.
\<close>

theorem loop_never_uses_freed:
  assumes "single_events prog"
  shows "serve epoll_backend prog invoke n es ps (loop_start None it) \<noteq> Inl Freed_coro \<and>
    serve kqueue_backend prog invoke n es ps (loop_start None it) \<noteq> Inl Freed_coro"
  using ep.serve_well [OF assms] kq.serve_well [OF assms] by (simp add: epoll_regs_def kqueue_regs_def)

lemma accept_entry_single:
  assumes "single_events prog"
  shows "single_events (http_accept_entry lfd conn prog)"
proof -
  have "single_event ev" if "http_accept_entry lfd conn prog c it = (Co_await fd ev k, it')" for c it fd ev k it'
    using that assms unfolding single_events_def
    by (cases "(lfd, conn, prog, c, it)" rule: http_accept_entry.cases)
      (fastforce simp: single_event_def split: if_splits prod.splits co_call.splits)+
  then show ?thesis by (simp add: single_events_def)
qed

text \<open>A server whose connections read once and return.\<close>

definition read_once :: "nat co_code" where
  "read_once c it = ((if c = 0 then Co_return else Co_await c REACTOR_READABLE 0), it)"

lemma read_once_single: "single_events read_once"
  by (auto simp: single_events_def read_once_def single_event_def split: if_splits)

definition no_timers :: "reactor interp" where
  "no_timers = interp_init [] \<lparr>rc_timers = [], rc_next_id = 1, rc_listening = 0, rc_clock = [0], rc_overflow = False\<rparr>"

lemma loop_never_uses_freed_witness:
  "\<exists>s. serve epoll_backend (http_accept_entry 3 id read_once) (timer_trampoline 3 offline) 5 [Accept_wait [7, 8, -1]] [Ready [(3, 1)], Ready [(7, 1), (3, 1)]]
      (loop_start None no_timers) = Inr s \<and> Inr s \<noteq> Inl Freed_coro \<and> map Option.is_none (lp_coros s) = [False, True, False]"
proof -
  let ?r = "serve epoll_backend (http_accept_entry 3 id read_once) (timer_trampoline 3 offline) 5 [Accept_wait [7, 8, -1]] [Ready [(3, 1)], Ready [(7, 1), (3, 1)]]
      (loop_start None no_timers)"
  have "(case ?r of Inl e \<Rightarrow> [] | Inr s \<Rightarrow> map Option.is_none (lp_coros s)) = [False, True, False]" by code_simp
  with loop_never_uses_freed [OF accept_entry_single [OF read_once_single, of 3 id], of "timer_trampoline 3 offline" 5 "[Accept_wait [7, 8, -1]]"
      "[Ready [(3, 1)], Ready [(7, 1), (3, 1)]]" no_timers]
  show ?thesis by (cases ?r) auto
qed

lemma cut_to_int:
  assumes "0 \<le> (n :: int)"
  shows "n \<le> INT_MAX \<Longrightarrow> signed_take_bit 31 n = n" "INT_MAX < n \<Longrightarrow> n < 2 ^ 32 \<Longrightarrow> signed_take_bit 31 n < 0"
proof -
  show "signed_take_bit 31 n = n" if "n \<le> INT_MAX"
    using assms that by (simp add: signed_take_bit_int_eq_self_iff INT_MAX_def)
  assume n: "INT_MAX < n" "n < 2 ^ 32"
  then have "n div 2 ^ 31 = 1" by (simp add: INT_MAX_def)
  then have "bit n 31" by (simp add: bit_iff_odd)
  then have "signed_take_bit 31 n = take_bit 32 n - 2 ^ 32" by (simp add: signed_take_bit_eq_take_bit_minus)
  moreover have "take_bit 32 n < 2 ^ 32" by (rule take_bit_int_less_exp)
  ultimately show "signed_take_bit 31 n < 0" by linarith
qed

text \<open>
  C7. How long the loop sleeps with epoll, when the time to each active timer fits.  Without an active timer it
  sleeps for a second if a server listens and for ever if none does, and only then is there no work.  Otherwise it
  sleeps until the first of the timers is due, not at all if one already is, as long as that is at most
  \<^verbatim>\<open>INT_MAX\<close> milliseconds off.  Beyond that, up to \<open>2 ^ 32\<close>, the time is cut to a negative \<^verbatim>\<open>int\<close>, with which
  \<^verbatim>\<open>epoll_wait\<close> waits for a socket for ever: no timer wakes it.
\<close>

theorem epoll_sleeps:
  assumes "\<forall>t \<in> set (rc_timers r). tm_active t \<longrightarrow> fits_llong (sint (tm_due t) - sint (fst (now_ms r)))"
  shows "let rs = map (\<lambda>t. max 0 (sint (tm_due t) - sint (fst (now_ms r)))) (filter tm_active (rc_timers r));
       ms = sint (epoll_timeout (fst (reactor_next_timeout_ms r)))
     in (rs = [] \<longrightarrow> ms = (if 0 < rc_listening r then 1000 else -1)) \<and>
        (rs \<noteq> [] \<and> Min (set rs) \<le> INT_MAX \<longrightarrow> ms = Min (set rs)) \<and>
        (rs \<noteq> [] \<and> INT_MAX < Min (set rs) \<and> Min (set rs) < 2 ^ 32 \<longrightarrow> ms < 0) \<and>
        (reactor_has_work r \<longleftrightarrow> fst (reactor_next_timeout_ms r) \<noteq> -1)"
proof -
  let ?t = "fst (reactor_next_timeout_ms r)"
  have "due_fits (fst (now_ms r)) (rc_timers r)" using assms by (simp add: due_fits_def list_all_iff)
  note timeout = reactor_timeout [OF this]
  have cut: "sint (epoll_timeout ?t) = signed_take_bit 31 (sint ?t)"
    unfolding epoll_timeout_def by (rule bit_eqI) (auto simp: bit_simps min_def)
  define rs where "rs = map (\<lambda>t. max 0 (sint (tm_due t) - sint (fst (now_ms r)))) (filter tm_active (rc_timers r))"
  have rs: "x \<in> set rs \<Longrightarrow> 0 \<le> x" for x by (auto simp: rs_def)
  note timeout = timeout [unfolded Let_def, folded rs_def]
  show ?thesis
  proof (cases "rs = []")
    case True
    then have "sint ?t = (if 0 < rc_listening r then 1000 else -1)" using timeout by simp
    then have "sint (epoll_timeout ?t) = (if 0 < rc_listening r then 1000 else -1)"
      unfolding cut by (simp add: signed_take_bit_int_eq_self_iff)
    with True timeout show ?thesis unfolding rs_def [symmetric] Let_def by simp
  next
    case False
    then have "Min (set rs) \<in> set rs" "sint ?t = Min (set rs)" using timeout by simp_all
    with rs [of "Min (set rs)"] cut_to_int [of "sint ?t"] False timeout show ?thesis
      unfolding rs_def [symmetric] Let_def cut by simp
  qed
qed

definition with_timer :: "llong \<Rightarrow> reactor" where
  "with_timer due = \<lparr>rc_timers = [\<lparr>tm_id = 1, tm_due = due, tm_interval = 0, tm_callback = V_NUM 1, tm_active = True\<rparr>],
     rc_next_id = 2, rc_listening = 0, rc_clock = [100], rc_overflow = False\<rparr>"

lemma epoll_sleeps_witness:
  "sint (epoll_timeout (fst (reactor_next_timeout_ms (with_timer 350)))) = 250 \<and>
   sint (epoll_timeout (fst (reactor_next_timeout_ms (with_timer 2592000100)))) < 0"
proof
  have f: "\<forall>t \<in> set (rc_timers (with_timer d)). tm_active t \<longrightarrow> fits_llong (sint (tm_due t) - sint (fst (now_ms (with_timer d))))"
    if "d = 350 \<or> d = 2592000100" for d
    using that by (auto simp: with_timer_def now_ms_def fits_llong_def LLONG_MIN_def LLONG_MAX_def)
  show "sint (epoll_timeout (fst (reactor_next_timeout_ms (with_timer 350)))) = 250"
    using epoll_sleeps [OF f, of 350] by (simp add: with_timer_def now_ms_def INT_MAX_def)
  show "sint (epoll_timeout (fst (reactor_next_timeout_ms (with_timer 2592000100)))) < 0"
    using epoll_sleeps [OF f, of 2592000100] by (simp add: with_timer_def now_ms_def INT_MAX_def)
qed

text \<open>
  C38. With epoll a socket wakes one coroutine only.  When a coroutine starts to wait for a socket that another
  one waits for, as the handler of a connection does when it sends to another connection whose buffer is full,
  the other one is not resumed by any later poll: it stays as it is in every run of the loop from the next call of
  \<^verbatim>\<open>epoll_wait\<close> on.  (An event of the other one that the batch in progress still has does resume it; and
  with kqueue both registrations stay if one of the two waits to read and the other to write.)
\<close>

theorem displaced_never_resumed:
  assumes "single_events prog" "loop_ok epoll_regs s" "lp_current s = Some j" "coro_at s j = Some cj"
    "co_state cj = CORO_RUNNING" "coro_at s i = Some ci" "co_state ci = CORO_READY" "co_ctx ci = In_await fd k"
    "single_event ev"
    "reactor_run epoll_backend prog invoke n ps ((snd (reactor_await_fd epoll_backend fd ev k' s))\<lparr>lp_current := None\<rparr>) = Inr s'"
  shows "coro_at s' i = Some ci"
proof -
  define u where "u = (snd (reactor_await_fd epoll_backend fd ev k' s))\<lparr>lp_current := None\<rparr>"
  note w = ep.await_well [OF assms(2,4,5,3,9), of fd k']
  have ok: "loop_ok epoll_regs u" unfolding u_def by (rule loop_ok_less [OF w(2)]) auto
  have ij: "i \<noteq> j" using assms(4-7) by auto
  have t: "lp_table u = epoll_watch fd ev j (lp_table s)" using w(6) by (simp add: u_def epoll_backend_def)
  have "undisturbed epoll_backend epoll_regs s (snd (reactor_await_fd epoll_backend fd ev k' s)) i"
    using w(3) ij coro_at_length [OF assms(6)] by (simp add: only_coro_def)
  then have at: "coro_at u i = Some ci" "\<And>f. (f, i) \<in># epoll_regs (lp_table u) \<Longrightarrow> (f, i) \<in># epoll_regs (lp_table s)"
    using assms(6) by (auto simp: u_def undisturbed_def)
  have "(f, i) \<notin># epoll_regs (lp_table u)" for f
  proof (cases "f = fd")
    case True
    then show ?thesis using ij by (auto simp: t epoll_watch_def epoll_regs_def ensure_epoll_def epoll_del_def Let_def
        image_iff split: option.split)
  next
    case False
    then have "\<not> waiting s f i" using assms(6,8) by (simp add: waiting_def)
    then show ?thesis using at(2) assms(2) by (auto simp: loop_ok_def)
  qed
  then show ?thesis
    using ep.reactor_run_well [OF assms(1) ok, of invoke n ps] assms(10) at(1) coro_at_length [OF at(1)]
    by (auto simp: u_def [symmetric] ep.only_registered_def)
qed

lemma kqueue_keeps_both:
  "kqueue_watch 7 REACTOR_WRITABLE 1 (Some [((7, EVFILT_READ), 0)]) = Some [((7, EVFILT_WRITE), 1), ((7, EVFILT_READ), 0)]"
  by code_simp

text \<open>Coroutine 0 waits for data on socket 7, and coroutine 1 is about to wait until it can write to it.\<close>

definition two_on_one :: "(nat, epoll_table) event_loop" where
  "two_on_one = \<lparr>lp_coros = [Some \<lparr>co_state = CORO_READY, co_ctx = In_await 7 0, co_stack_size = 1\<rparr>,
                            Some \<lparr>co_state = CORO_RUNNING, co_ctx = Entry 2, co_stack_size = 1\<rparr>],
      lp_current = Some 1, lp_table = Some [(7, EPOLLIN, 0)],
      lp_interp = no_timers\<lparr>it_world := reactor_mark_server_listening (it_world no_timers)\<rparr>\<rparr>"

lemma displaced_never_resumed_witness:
  "\<exists>s'. reactor_run epoll_backend read_once (timer_trampoline 3 offline) 5 [Ready [(7, 2)], Ready [(7, 1)]]
      ((snd (reactor_await_fd epoll_backend 7 REACTOR_WRITABLE 0 two_on_one))\<lparr>lp_current := None\<rparr>) = Inr s' \<and>
    coro_at s' 0 = Some \<lparr>co_state = CORO_READY, co_ctx = In_await 7 0, co_stack_size = 1\<rparr> \<and> coro_at s' 1 = None"
proof -
  let ?r = "reactor_run epoll_backend read_once (timer_trampoline 3 offline) 5 [Ready [(7, 2)], Ready [(7, 1)]]
      ((snd (reactor_await_fd epoll_backend 7 REACTOR_WRITABLE 0 two_on_one))\<lparr>lp_current := None\<rparr>)"
  have "(case ?r of Inl e \<Rightarrow> False | Inr s \<Rightarrow> Option.is_none (coro_at s 1))" by code_simp
  then obtain s' where s': "?r = Inr s'" "coro_at s' 1 = None"
    unfolding Option.is_none_def by (auto simp only: split: sum.splits)
  have ok: "loop_ok epoll_regs two_on_one"
    by (auto simp: loop_ok_def epoll_regs_def two_on_one_def waiting_def coro_at_def)
  have c: "lp_current two_on_one = Some 1"
    "coro_at two_on_one 1 = Some \<lparr>co_state = CORO_RUNNING, co_ctx = Entry 2, co_stack_size = 1\<rparr>"
    "coro_at two_on_one 0 = Some \<lparr>co_state = CORO_READY, co_ctx = In_await 7 0, co_stack_size = 1\<rparr>"
    by (simp_all add: two_on_one_def coro_at_def)
  from displaced_never_resumed [OF read_once_single ok c(1,2) _ c(3) _ _ _ s'(1)] s' show ?thesis
    by (simp add: single_event_def)
qed

end
