(* ===== verification/Http.thy ===== *)
theory Http
  imports Ws
begin

text \<open>
  HTTP: \<^verbatim>\<open>src/runtime/http.c\<close>.  The static variables of the file, and what was written to every
  socket, are the world \<open>http_world\<close> of the interpreter.  A pointer into a buffer is an index, and a text
  that the code puts into an array with \<^verbatim>\<open>snprintf\<close> is cut to what the array holds.  As in \<open>Ws\<close>,
  from which the searches in a buffer are, the model follows one connection over the results that \<^verbatim>\<open>recv\<close>
  gives it.  The response objects, which the interpreter calls, are in \<open>Interp\<close>.
\<close>

section \<open>Requests on the wire\<close>

definition toupper_c :: "char \<Rightarrow> char" where
  "toupper_c c = (if 97 \<le> code c \<and> code c \<le> 122 then char_of (code c - 32) else c)"

definition strcasecmp_eq :: "string \<Rightarrow> string \<Rightarrow> bool" where
  "strcasecmp_eq s t \<longleftrightarrow> map tolower_c s = map tolower_c t"

record Header =
  hd_key :: string
  hd_value :: string

record ParsedRequest =
  rq_method :: string
  rq_path :: string
  rq_query :: string
  rq_headers :: "Header list"
  rq_body :: string

definition empty_request :: ParsedRequest where
  "empty_request = \<lparr>rq_method = [], rq_path = [], rq_query = [], rq_headers = [], rq_body = []\<rparr>"

text \<open>
  The lines with a colon from \<open>hp\<close> on, key and value cut to what a \<^verbatim>\<open>Header\<close> holds.  The text up to the
  end of a line has no NUL, because \<^verbatim>\<open>strstr\<close> would have stopped at it.
\<close>

definition header_of :: "string \<Rightarrow> nat \<Rightarrow> nat \<Rightarrow> nat \<Rightarrow> Header" where
  "header_of data hp colon nl =
     (let v = dropWhile (\<lambda>c. c = SPACE) (drop (colon + 1) data);
          vstart = length data - length v
      in \<lparr>hd_key = take (min (colon - hp) 127) (drop hp data), hd_value = take (min (nl - vstart) 511) v\<rparr>)"

function header_list :: "string \<Rightarrow> nat \<Rightarrow> nat \<Rightarrow> Header list" where
  "header_list data stop hp =
     (if stop \<le> hp then []
      else (case strstr_from data hp CRLF of
              None \<Rightarrow> []
            | Some nl \<Rightarrow>
                (if stop < nl then []
                 else (case memchr_in data hp nl (CHR '':'') of
                         None \<Rightarrow> header_list data stop (nl + 2)
                       | Some colon \<Rightarrow> header_of data hp colon nl # header_list data stop (nl + 2)))))"
  by pat_completeness auto
termination
  by (relation "measure (\<lambda>(data, stop, hp). stop - hp)") (auto simp: strstr_from_def)

declare header_list.simps [simp del]

text \<open>The first 48 headers are kept.\<close>

definition parse_request :: "string \<Rightarrow> int \<Rightarrow> bool \<times> ParsedRequest" where
  "parse_request data header_end =
     (case strstr_from data 0 CRLF of
        None \<Rightarrow> (False, empty_request)
      | Some line_end \<Rightarrow>
          (case scan_word 15 (take (min line_end 2047) data) of
             None \<Rightarrow> (False, empty_request)
           | Some (http_method, left) \<Rightarrow>
               (case scan_word 1023 left of
                  None \<Rightarrow> (False, empty_request\<lparr>rq_method := http_method\<rparr>)
                | Some (full_path, _) \<Rightarrow>
                    (True, \<lparr>rq_method = http_method,
                            rq_path = takeWhile (\<lambda>c. c \<noteq> CHR ''?'') full_path,
                            rq_query = drop 1 (dropWhile (\<lambda>c. c \<noteq> CHR ''?'') full_path),
                            rq_headers = take 48 (header_list data (nat (header_end - 4)) (line_end + 2)),
                            rq_body = drop (nat header_end) data\<rparr>))))"

definition get_header :: "ParsedRequest \<Rightarrow> string \<Rightarrow> nat \<Rightarrow> string" where
  "get_header req name out_sz =
     (case find (\<lambda>h. strcasecmp_eq (hd_key h) name) (rq_headers req) of
        None \<Rightarrow> []
      | Some h \<Rightarrow> take (out_sz - 1) (hd_value h))"

text \<open>\<^verbatim>\<open>atol\<close>, and \<^verbatim>\<open>atoi\<close>, which is its low half.\<close>

definition atol :: "string \<Rightarrow> llong" where
  "atol s =
     (let s = dropWhile isspace s
      in case s of
           c # t \<Rightarrow> (if c = CHR ''+'' then clamp_llong (int (digits_val 0 (takeWhile isdigit t))) else atoll s)
         | [] \<Rightarrow> 0)"

definition atoi :: "string \<Rightarrow> 32 word" where
  "atoi s = ucast (atol s)"

definition content_length_of :: "string \<Rightarrow> int \<Rightarrow> llong" where
  "content_length_of data header_end =
     atol (get_header (snd (parse_request data header_end)) ''Content-Length'' 64)"

text \<open>\<^verbatim>\<open>b.len >= (size_t)header_end + (size_t)content_len\<close>, a sum of 64 bits.\<close>

definition all_there :: "string \<Rightarrow> int \<Rightarrow> llong \<Rightarrow> bool" where
  "all_there data header_end content_len \<longleftrightarrow> word_of_int header_end + content_len \<le> (word_of_nat (length data) :: llong)"

section \<open>Routes and queries\<close>

record Route =
  rt_method :: string
  rt_pattern :: string
  rt_handler :: val

text \<open>The parts of a text between separators that \<^verbatim>\<open>strtok_r\<close> gives: those that are not empty.\<close>

fun split_on :: "char \<Rightarrow> string \<Rightarrow> string list" where
  "split_on d [] = [[]]"
| "split_on d (c # s) =
     (if c = d then [] # split_on d s
      else (case split_on d s of [] \<Rightarrow> [[c]] | t # ts \<Rightarrow> (c # t) # ts))"

definition strtok :: "char \<Rightarrow> string \<Rightarrow> string list" where
  "strtok d s = filter (\<lambda>t. t \<noteq> []) (split_on d s)"

definition param_name :: "string \<Rightarrow> string option" where
  "param_name seg =
     (if 2 \<le> length seg \<and> hd seg = CHR ''{'' \<and> last seg = CHR ''}''
      then Some (take 127 (take (length seg - 2) (tl seg))) else None)"

text \<open>The segments of a pattern against those of a path; the parameters go into the data \<open>d\<close>.\<close>

fun match_segments :: "string list \<Rightarrow> string list \<Rightarrow> addr \<Rightarrow> store \<Rightarrow> bool \<times> store" where
  "match_segments [] [] d st = (True, st)"
| "match_segments (p # ps) (s # ss) d st =
     (case param_name p of
        Some name \<Rightarrow> match_segments ps ss d (value_data_set d name (V_STRING s) st)
      | None \<Rightarrow> if p \<noteq> s then (False, st) else match_segments ps ss d st)"
| "match_segments _ _ d st = (False, st)"

fun match_route :: "Route list \<Rightarrow> string \<Rightarrow> string \<Rightarrow> addr \<Rightarrow> store \<Rightarrow> Route option \<times> store" where
  "match_route [] http_method path params st = (None, st)"
| "match_route (r # rs) http_method path params st =
     (if \<not> strcasecmp_eq (rt_method r) http_method then match_route rs http_method path params st
      else (let l = length (st_datas st);
                (ok, st) = match_segments (strtok (CHR ''/'') (take 1023 (rt_pattern r)))
                  (strtok (CHR ''/'') (take 1023 path)) l (snd (value_data_empty st))
            in if ok then (Some r, fold (\<lambda>(k, v). value_data_set params k v) (data_at st l) st)
               else match_route rs http_method path params st))"

definition set_pair :: "addr \<Rightarrow> string \<Rightarrow> store \<Rightarrow> store" where
  "set_pair d pair st =
     (if CHR ''='' \<in> set pair
      then value_data_set d (takeWhile (\<lambda>c. c \<noteq> CHR ''='') pair)
             (V_STRING (tl (dropWhile (\<lambda>c. c \<noteq> CHR ''='') pair))) st
      else value_data_set d pair (V_STRING []) st)"

definition parse_query_string :: "string \<Rightarrow> store \<Rightarrow> val \<times> store" where
  "parse_query_string q st =
     (let d = length (st_datas st); st = snd (value_data_empty st)
      in (V_DATA d, fold (set_pair d) (strtok (CHR ''&'') (take 1023 q)) st))"

section \<open>Responses\<close>

definition status_text :: "int \<Rightarrow> string" where
  "status_text k =
     (if k = 200 then ''OK'' else if k = 201 then ''Created'' else if k = 204 then ''No Content''
      else if k = 301 then ''Moved Permanently'' else if k = 302 then ''Found''
      else if k = 400 then ''Bad Request'' else if k = 401 then ''Unauthorized''
      else if k = 403 then ''Forbidden'' else if k = 404 then ''Not Found''
      else if k = 405 then ''Method Not Allowed'' else if k = 500 then ''Internal Server Error''
      else if k = 502 then ''Bad Gateway'' else if k = 503 then ''Service Unavailable''
      else ''OK'')"

definition header_line :: "string \<Rightarrow> string \<Rightarrow> string" where
  "header_line key v = take 255 (key @ '': '' @ v @ CRLF)"

definition response_text :: "int \<Rightarrow> (string \<times> string) list \<Rightarrow> string \<Rightarrow> string" where
  "response_text status hdrs body =
     take 255 (''HTTP/1.1 '' @ show_int status @ [SPACE] @ status_text status @ CRLF) @
     concat (map (\<lambda>(k, v). header_line k v) hdrs) @
     take 255 (''Content-Length: '' @ show_nat (length body) @ CRLF) @
     ''Connection: close'' @ CRLF @ CRLF @ body"

text \<open>
  What is sent for a response object.  A script can put other values into its fields; headers that are
  not data are read through the wrong pointer.
\<close>

definition http_answer :: "nat \<Rightarrow> addr \<Rightarrow> (string option, 'w) act" where
  "http_answer n d it =
     (case (value_data_get (it_store it) d ''__status'', value_data_get (it_store it) d ''__body'',
            value_data_get (it_store it) d ''__headers'') of
        (Some sv, Some bv, Some (V_DATA h)) \<Rightarrow> do {
          let (status, it) = to_llong (value_as_number sv) it;
          hdrs \<leftarrow> all_some (map (\<lambda>(k, v). map_option (Pair k) (display n v it)) (data_at (it_store it) h));
          Some (Some (response_text (sint status) hdrs (safe_str bv)), it)
        }
      | _ \<Rightarrow> Some (None, undefined_behaviour UB_null it))"

section \<open>The server\<close>

record http_world =
  hw_routes :: "Route list"
  hw_listen_fd :: int
  hw_listening :: nat
  hw_send :: "nat \<Rightarrow> send_result list"
  hw_sent :: "nat \<Rightarrow> string"
  hw_closed_fds :: "nat list"
  hw_stderr :: string

type_synonym 'a http_act = "('a, http_world) act"
type_synonym http_invoker = "val \<Rightarrow> val list \<Rightarrow> val http_act"

definition http_server_on :: "int \<Rightarrow> int \<Rightarrow> http_world \<Rightarrow> http_world" where
  "http_server_on port fd w =
     (let w = w\<lparr>hw_listen_fd := fd\<rparr>
      in if fd < 0 then w\<lparr>hw_stderr := hw_stderr w @ ''jag: server.on('' @ show_int port @ '') failed'' @ [NL]\<rparr> else w)"

definition http_server_route :: "string \<Rightarrow> string \<Rightarrow> val \<Rightarrow> http_world \<Rightarrow> http_world" where
  "http_server_route http_method pattern handler w =
     w\<lparr>hw_routes := \<lparr>rt_method = map toupper_c http_method, rt_pattern = pattern, rt_handler = handler\<rparr> # hw_routes w\<rparr>"

definition http_server_listen :: "http_world \<Rightarrow> http_world" where
  "http_server_listen w = (if hw_listen_fd w < 0 then w else w\<lparr>hw_listening := hw_listening w + 1\<rparr>)"

definition http_write :: "nat \<Rightarrow> string \<Rightarrow> int http_act" where
  "http_write fd data it = do {
     let w = it_world it;
     (rc, sent, rs) \<leftarrow> net_write_all (hw_send w fd) (hw_sent w fd) data;
     Some (rc, on_world (\<lambda>w. w\<lparr>hw_send := (hw_send w)(fd := rs), hw_sent := (hw_sent w)(fd := sent)\<rparr>) it)
   }"

definition http_close :: "nat \<Rightarrow> http_world interp \<Rightarrow> http_world interp" where
  "http_close fd = on_world (\<lambda>w. w\<lparr>hw_closed_fds := fd # hw_closed_fds w\<rparr>)"

text \<open>The loop that reads a request; the first component is -1 for a connection that is given up.\<close>

function read_request :: "recv_result list \<Rightarrow> Buf \<Rightarrow> (int \<times> Buf \<times> recv_result list) option" where
  "read_request rs b =
     (let header_end = find_header_end (b_data b)
      in if 0 < header_end \<and> all_there (b_data b) header_end (content_length_of (b_data b) header_end)
         then Some (header_end, b, rs)
         else (case net_read_some rs b of
                 None \<Rightarrow> None
               | Some (n, b', rs') \<Rightarrow>
                   if n \<le> 0 \<or> 4 * 1024 * 1024 < int (b_len b') then Some (-1, b', rs') else read_request rs' b'))"
  by pat_completeness auto
termination
  by (relation "measure (\<lambda>(rs, b). length rs)") (auto dest: net_read_some_shorter)

declare read_request.simps [simp del]

text \<open>The request as the script sees it.\<close>

definition request_value :: "ParsedRequest \<Rightarrow> addr \<Rightarrow> store \<Rightarrow> val \<times> store" where
  "request_value req params st =
     (let d = length (st_datas st);
          st = snd (value_data_empty st);
          st = value_data_set d ''method'' (V_STRING (rq_method req)) st;
          st = value_data_set d ''path'' (V_STRING (rq_path req)) st;
          st = value_data_set d ''params'' (V_DATA params) st;
          (q, st) = parse_query_string (rq_query req) st;
          st = value_data_set d ''query'' q st;
          h = length (st_datas st);
          st = snd (value_data_empty st);
          st = fold (\<lambda>x. value_data_set h (hd_key x) (V_STRING (hd_value x))) (rq_headers req) st;
          st = value_data_set d ''headers'' (V_DATA h) st
      in (V_DATA d, value_data_set d ''body'' (V_STRING (cstr (rq_body req))) st))"

definition not_found :: "nat \<Rightarrow> addr \<Rightarrow> unit http_act" where
  "not_found n res it = do {
     (_, it) \<leftarrow> http_response_call_method n res ''status'' [V_NUM 404] it;
     (_, it) \<leftarrow> http_response_call_method n res ''send'' [V_STRING ''Not Found''] it;
     Some ((), it)
   }"

definition serve_request :: "nat \<Rightarrow> http_invoker \<Rightarrow> nat \<Rightarrow> ParsedRequest \<Rightarrow> unit http_act" where
  "serve_request n invoke fd req it = do {
     let params = length (st_datas (it_store it));
     let it = on_store (\<lambda>st. snd (value_data_empty st)) it;
     let (route, it) = alloc (match_route (hw_routes (it_world it)) (rq_method req) (rq_path req) params) it;
     let (req_val, it) = alloc (request_value req params) it;
     let res = length (st_datas (it_store it));
     let it = on_store (\<lambda>st. snd (http_make_response st)) it;
     (_, it) \<leftarrow> (case route of
                   Some r \<Rightarrow> do { (_, it) \<leftarrow> invoke (rt_handler r) [req_val, V_DATA res] it; Some ((), it) }
                 | None \<Rightarrow> not_found n res it);
     (out, it) \<leftarrow> http_answer n res it;
     (case out of
        None \<Rightarrow> Some ((), it)
      | Some text \<Rightarrow> do {
          (_, it) \<leftarrow> http_write fd text it;
          Some ((), http_close fd it)
        })
   }"

definition http_conn_entry :: "nat \<Rightarrow> http_invoker \<Rightarrow> nat \<Rightarrow> recv_result list \<Rightarrow> unit http_act" where
  "http_conn_entry n invoke fd rs it = do {
     (header_end, b, rs) \<leftarrow> read_request rs buf_init;
     if header_end < 0 then Some ((), http_close fd it)
     else serve_request n invoke fd (snd (parse_request (b_data b) header_end)) it
   }"

section \<open>The client\<close>

text \<open>Scheme, host, port and path; each is cut to its array.\<close>

definition parse_url :: "string \<Rightarrow> (string \<times> string \<times> 32 word \<times> string) option" where
  "parse_url url =
     (case find_sub ''://'' url of
        None \<Rightarrow> None
      | Some i \<Rightarrow>
          (let scheme = take (min i 15) url;
               p = drop (i + 3) url;
               hostport = take 255 (takeWhile (\<lambda>c. c \<noteq> CHR ''/'') p);
               slash = dropWhile (\<lambda>c. c \<noteq> CHR ''/'') p;
               colon = dropWhile (\<lambda>c. c \<noteq> CHR '':'') hostport;
               host = takeWhile (\<lambda>c. c \<noteq> CHR '':'') hostport;
               port = (if colon \<noteq> [] then atoi (tl colon)
                       else if strcasecmp_eq scheme ''https'' then 443 else 80)
           in Some (scheme, host, port, take 1023 (if slash \<noteq> [] then slash else ''/''))))"

definition request_text :: "string \<Rightarrow> string \<Rightarrow> string \<Rightarrow> string option \<Rightarrow> string" where
  "request_text http_method host path body =
     take 1023 (http_method @ [SPACE] @ path @ '' HTTP/1.1'' @ CRLF) @
     take 1023 (''Host: '' @ host @ CRLF) @
     ''Connection: close'' @ CRLF @
     (case body of
        None \<Rightarrow> []
      | Some s \<Rightarrow> ''Content-Type: application/json'' @ CRLF @
                 take 1023 (''Content-Length: '' @ show_nat (length s) @ CRLF)) @
     CRLF @ (case body of None \<Rightarrow> [] | Some s \<Rightarrow> s)"

text \<open>The loop that reads a response; what there is when the peer closes the connection counts as it.\<close>

function read_response :: "recv_result list \<Rightarrow> Buf \<Rightarrow> (int \<times> Buf) option" where
  "read_response rs b =
     (let header_end = find_header_end (b_data b);
          content_len = content_length_of (b_data b) header_end
      in if 0 < header_end \<and> (content_len = 0 \<or> all_there (b_data b) header_end content_len)
         then Some (header_end, b)
         else (case net_read_some rs b of
                 None \<Rightarrow> None
               | Some (n, b', rs') \<Rightarrow>
                   if n \<le> 0 \<or> 16 * 1024 * 1024 < int (b_len b') then Some (header_end, b') else read_response rs' b'))"
  by pat_completeness auto
termination
  by (relation "measure (\<lambda>(rs, b). length rs)") (auto dest: net_read_some_shorter)

declare read_response.simps [simp del]

text \<open>\<^verbatim>\<open>sscanf(status_line, "%31s %d", httpver, &status)\<close>, with \<^verbatim>\<open>status\<close> 0 when it does not match.\<close>

definition scan_int :: "string \<Rightarrow> 32 word option" where
  "scan_int s =
     (let s = dropWhile isspace s;
          t = (if s \<noteq> [] \<and> (hd s = CHR ''-'' \<or> hd s = CHR ''+'') then tl s else s)
      in if t \<noteq> [] \<and> isdigit (hd t) then Some (atoi s) else None)"

definition scan_status :: "string \<Rightarrow> 32 word" where
  "scan_status s =
     (case scan_word 31 s of
        None \<Rightarrow> 0
      | Some (_, left) \<Rightarrow> (case scan_int left of None \<Rightarrow> 0 | Some k \<Rightarrow> k))"

record http_response =
  rs_status :: "32 word"
  rs_headers :: "Header list"
  rs_body :: string

text \<open>A NUL before the first line break makes \<^verbatim>\<open>strstr\<close> return NULL, which is used as a pointer.\<close>

definition parse_response :: "string \<Rightarrow> int \<Rightarrow> http_response option" where
  "parse_response data header_end =
     (case strstr_from data 0 CRLF of
        None \<Rightarrow> None
      | Some nl \<Rightarrow> Some \<lparr>rs_status = scan_status (take (min nl 255) data),
                         rs_headers = header_list data (nat (header_end - 4)) (nl + 2),
                         rs_body = cstr (drop (nat header_end) data)\<rparr>)"

definition response_value :: "http_response \<Rightarrow> store \<Rightarrow> val \<times> store" where
  "response_value r st =
     (let d = length (st_datas st);
          st = snd (value_data_empty st);
          st = value_data_set d ''status'' (V_NUM (scast (rs_status r))) st;
          h = length (st_datas st);
          st = snd (value_data_empty st);
          st = fold (\<lambda>x. value_data_set h (hd_key x) (V_STRING (hd_value x))) (rs_headers r) st;
          st = value_data_set d ''headers'' (V_DATA h) st
      in (V_DATA d, value_data_set d ''body'' (V_STRING (rs_body r)) st))"

text \<open>
  \<open>net_connect\<close> opens a connection: its descriptor and the results of \<^verbatim>\<open>send\<close> and \<^verbatim>\<open>recv\<close> on it.
\<close>

type_synonym connector = "string \<Rightarrow> 32 word \<Rightarrow> (nat \<times> send_result list \<times> recv_result list) option"

definition do_request :: "nat \<Rightarrow> connector \<Rightarrow> string \<Rightarrow> string \<Rightarrow> val option \<Rightarrow> val http_act" where
  "do_request n net_connect http_method url body it =
     (case parse_url url of
        None \<Rightarrow> Some (alloc (task_error ''invalid URL'') it)
      | Some (scheme, host, port, path) \<Rightarrow>
          if strcasecmp_eq scheme ''https''
          then Some (alloc (task_error (''https:// is not available in this build: no TLS library is linked '' @
                       ''(see DESIGN_DECISIONS.md). Plain http:// works.'')) it)
          else (case net_connect host port of
                  None \<Rightarrow> Some (alloc (task_error ''could not connect'') it)
                | Some (fd, ss, rs) \<Rightarrow> do {
                    s \<leftarrow> (case body of None \<Rightarrow> Some None | Some v \<Rightarrow> map_option Some (json_stringify n (it_store it) v));
                    (rc, sent, _) \<leftarrow> net_write_all ss [] (request_text http_method host path s);
                    let it = on_world (\<lambda>w. w\<lparr>hw_sent := (hw_sent w)(fd := sent)\<rparr>) it;
                    if rc \<noteq> 0 then Some (alloc (task_error ''write failed'') (http_close fd it))
                    else do {
                      (header_end, b) \<leftarrow> read_response rs buf_init;
                      let it = http_close fd it;
                      if header_end < 0 then Some (alloc (task_error ''malformed response'') it)
                      else (case parse_response (b_data b) header_end of
                              None \<Rightarrow> Some (V_VOID, undefined_behaviour UB_null it)
                            | Some r \<Rightarrow>
                                (let (v, it) = alloc (response_value r) it in Some (alloc (task_done (Some v)) it)))
                    }
                  }))"

definition http_client_get :: "nat \<Rightarrow> connector \<Rightarrow> string \<Rightarrow> val http_act" where
  "http_client_get n net_connect url = do_request n net_connect ''GET'' url None"

definition http_client_post :: "nat \<Rightarrow> connector \<Rightarrow> string \<Rightarrow> val option \<Rightarrow> val http_act" where
  "http_client_post n net_connect url body = do_request n net_connect ''POST'' url body"

text \<open>The system that the interpreter calls: these procedures, and \<open>base\<close> for the rest.\<close>

definition http_sys :: "nat \<Rightarrow> (int \<Rightarrow> int) \<Rightarrow> connector \<Rightarrow> http_world sys \<Rightarrow> http_world sys" where
  "http_sys n net_listen net_connect base = base\<lparr>sys_value := (\<lambda>c it.
     (case c of
        HTTP_CLIENT_GET url \<Rightarrow> map_option (apfst Some) (http_client_get n net_connect url it)
      | HTTP_CLIENT_POST url body \<Rightarrow> map_option (apfst Some) (http_client_post n net_connect url body it)
      | HTTP_SERVER_ON port \<Rightarrow> Some (None, on_world (http_server_on (sint port) (net_listen (sint port))) it)
      | HTTP_SERVER_ROUTE http_method pattern handler \<Rightarrow>
          Some (None, on_world (http_server_route http_method pattern handler) it)
      | HTTP_SERVER_LISTEN \<Rightarrow> Some (None, on_world http_server_listen it)
      | _ \<Rightarrow> sys_value base c it))\<rparr>"

definition http_invoker :: "nat \<Rightarrow> (int \<Rightarrow> int) \<Rightarrow> connector \<Rightarrow> http_world sys \<Rightarrow> http_invoker" where
  "http_invoker n net_listen net_connect base =
     interp_invoke_closure (exec_stmt n (http_sys n net_listen net_connect base))"

end
