(* ===== verification/Http_Correct.thy ===== *)
theory Http_Correct
  imports Http Interp_Safe
begin

text \<open>
  What \<open>Http\<close> does: messages that are printed are read back, in whatever pieces they arrive, routes are
  found as their patterns say, and what a runtime error does to the server.
\<close>

section \<open>Searching in a text\<close>

lemma find_sub_Nil [simp]: "find_sub (c # t) [] = None"
  by (simp add: find_sub.simps)

lemma find_sub_here: "take (length t) s = t \<Longrightarrow> find_sub t s = Some 0"
  by (simp add: find_sub.simps)

lemma find_sub_skip:
  "c \<notin> set xs \<Longrightarrow> find_sub (c # t) (xs @ ys) = map_option (\<lambda>k. length xs + k) (find_sub (c # t) ys)"
proof (induction xs)
  case Nil
  then show ?case by (simp add: option.map_ident)
next
  case (Cons x xs)
  then show ?case by (auto simp: find_sub.simps [of _ "x # xs @ ys"] option.map_comp comp_def)
qed

lemma find_sub_found: "c \<notin> set xs \<Longrightarrow> find_sub (c # t) (xs @ c # t @ ys) = Some (length xs)"
  by (simp add: find_sub_skip find_sub_here)

lemma find_sub_at: "find_sub t s = Some i \<Longrightarrow> i + length t \<le> length s \<and> take (length t) (drop i s) = t"
proof (induction s arbitrary: i)
  case Nil
  then show ?case by (auto simp: find_sub.simps [of t "[]"] split: if_splits)
next
  case (Cons c s)
  show ?case
  proof (cases "take (length t) (c # s) = t")
    case True
    with Cons.prems have "i = 0" by (simp add: find_sub.simps [of t "c # s"])
    moreover have "length t \<le> length (c # s)" using arg_cong [OF True, of length] by simp
    ultimately show ?thesis using True by simp
  next
    case False
    with Cons.prems obtain j where "find_sub t s = Some j" "i = Suc j" by (auto simp: find_sub.simps [of t "c # s"])
    with Cons.IH show ?thesis by simp
  qed
qed

lemma find_sub_longer: "find_sub t s = Some i \<Longrightarrow> find_sub t (s @ s') = Some i"
proof (induction s arbitrary: i)
  case Nil
  then show ?case by (auto simp: find_sub.simps [of t "[]"] find_sub_here split: if_splits)
next
  case (Cons c s)
  show ?case
  proof (cases "take (length t) (c # s) = t")
    case True
    then have "take (length t) ((c # s) @ s') = t"
      by (metis (no_types) append_eq_conv_conj append_take_drop_id append.assoc)
    with Cons.prems True show ?thesis by (simp add: find_sub_here)
  next
    case False
    with Cons.prems obtain j where j: "find_sub t s = Some j" "i = Suc j" by (auto simp: find_sub.simps [of t "c # s"])
    from find_sub_at [OF Cons.prems] have "length t \<le> length (c # s)" by simp
    then have "take (length t) ((c # s) @ s') = take (length t) (c # s)" by (simp only: take_append) simp
    with False have "take (length t) ((c # s) @ s') \<noteq> t" by simp
    with Cons.IH [OF j(1)] j(2) show ?thesis by (simp add: find_sub.simps [of t "c # s @ s'"])
  qed
qed

lemma cstr_append: "nul_free s \<Longrightarrow> cstr (s @ t) = s @ cstr t"
  by (induction s) (auto simp: cstr_def nul_free_def)

lemma cstr_whole: "nul_free s \<Longrightarrow> cstr s = s"
  using cstr_append [of s "[]"] by (simp add: cstr_def)

section \<open>Message heads\<close>

text \<open>A header that is printed and read as it is, and the head of a message: a first line and headers.\<close>

definition header_ok :: "Header \<Rightarrow> bool" where
  "header_ok h \<longleftrightarrow> CR \<notin> set (hd_key h) \<and> CHR '':'' \<notin> set (hd_key h) \<and> nul_free (hd_key h) \<and> length (hd_key h) \<le> 127 \<and>
     CR \<notin> set (hd_value h) \<and> nul_free (hd_value h) \<and> length (hd_value h) \<le> 511 \<and>
     (hd_value h \<noteq> [] \<longrightarrow> hd (hd_value h) \<noteq> SPACE)"

definition hdr_line :: "Header \<Rightarrow> string" where
  "hdr_line h = hd_key h @ '': '' @ hd_value h"

definition lines_text :: "string list \<Rightarrow> string" where
  "lines_text ls = concat (map (\<lambda>l. l @ CRLF) ls)"

definition head_text :: "string \<Rightarrow> Header list \<Rightarrow> string" where
  "head_text start hs = lines_text (start # map hdr_line hs) @ CRLF"

lemma lines_text_simps [simp]: "lines_text [] = []" "lines_text (l # ls) = l @ CRLF @ lines_text ls"
  by (simp_all add: lines_text_def)

lemma hdr_line_ok: "header_ok h \<Longrightarrow> CR \<notin> set (hdr_line h) \<and> nul_free (hdr_line h) \<and> hdr_line h \<noteq> []"
  by (auto simp: header_ok_def hdr_line_def)

lemma find_head_end:
  "list_all (\<lambda>l. CR \<notin> set l \<and> l \<noteq> []) (l # ls) \<Longrightarrow>
   find_sub (CRLF @ CRLF) (lines_text (l # ls) @ CRLF @ body) = Some (length (lines_text (l # ls)) - 2)"
proof (induction ls arbitrary: l)
  case Nil
  then show ?case by (simp add: find_sub_skip find_sub_here)
next
  case (Cons k ls)
  define r where "r = lines_text (k # ls) @ CRLF @ body"
  from Cons.prems obtain c r' where r: "r = c # r'" "c \<noteq> CR" by (cases k) (auto simp: r_def)
  have "find_sub (CRLF @ CRLF) (CRLF @ r) = map_option (\<lambda>i. i + 2) (find_sub (CRLF @ CRLF) r)"
    unfolding r(1) using r(2)
    by (simp add: find_sub.simps [of _ "CR # NL # c # r'"] find_sub.simps [of _ "NL # c # r'"] option.map_comp comp_def)
  then show ?case
    using Cons.IH [of k] Cons.prems
    by (simp add: find_sub_skip r_def option.map_comp comp_def)
qed

lemma header_list_text:
  "list_all header_ok hs \<Longrightarrow> 2 \<le> length pre \<Longrightarrow>
   header_list (pre @ lines_text (map hdr_line hs) @ CRLF @ body) (length pre + length (lines_text (map hdr_line hs)) - 2)
     (length pre) = hs"
proof (induction hs arbitrary: pre)
  case Nil
  then show ?case by (simp add: header_list.simps)
next
  case (Cons h hs)
  let ?R = "lines_text (map hdr_line hs) @ CRLF @ body"
  let ?data = "pre @ hdr_line h @ CRLF @ ?R"
  let ?pre = "pre @ hdr_line h @ CRLF"
  let ?nl = "length pre + length (hdr_line h)"
  from Cons.prems have ok: "header_ok h" "CR \<notin> set (hdr_line h)" "nul_free (hdr_line h)" "hdr_line h \<noteq> []"
    by (auto dest: hdr_line_ok)
  have nl: "strstr_from ?data (length pre) CRLF = Some ?nl"
    using find_sub_found [OF ok(2), of "[NL]" "cstr ?R"]
    by (simp add: strstr_from_def cstr_append [OF ok(3)] cstr_append [of CRLF, simplified])
  have colon: "memchr_in ?data (length pre) ?nl (CHR '':'') = Some (length pre + length (hd_key h))"
    using find_sub_found [of "CHR '':''" "hd_key h" "[]" "SPACE # hd_value h"] ok(1)
    by (simp add: memchr_in_def hdr_line_def header_ok_def)
  have "dropWhile (\<lambda>c. c = SPACE) (SPACE # hd_value h @ CRLF @ ?R) = hd_value h @ CRLF @ ?R"
    using ok(1) by (cases "hd_value h") (auto simp: header_ok_def)
  then have h: "header_of ?data (length pre) (length pre + length (hd_key h)) ?nl = h"
    using ok(1) by (cases h) (simp add: header_of_def hdr_line_def header_ok_def Let_def)
  have "header_list ?data (length ?pre + length (lines_text (map hdr_line hs)) - 2) (length ?pre) = hs"
    using Cons.IH [of ?pre] Cons.prems by simp
  then show ?case
    using nl colon h ok(4) by (subst header_list.simps) (simp add: add.assoc)
qed

lemma code_char_of: "code (char_of n) = n mod 256"
  by (simp add: code_def)

lemma digit_char_digit: "d < 10 \<Longrightarrow> isdigit (digit_char d) \<and> digit_val (digit_char d) = d"
  by (simp add: digit_char_def isdigit_def digit_val_def code_char_of)

lemma digits_val_snoc: "digits_val a (s @ [c]) = 10 * digits_val a s + digit_val c"
  by (induction s arbitrary: a) auto

lemma show_nat_digits: "list_all isdigit (show_nat n) \<and> show_nat n \<noteq> [] \<and> digits_val 0 (show_nat n) = n"
proof (induction n rule: show_nat.induct)
  case (1 n)
  then show ?case
    using digit_char_digit [of n] digit_char_digit [of "n mod 10"]
    by (cases "n < 10") (simp_all add: show_nat.simps [of n] digits_val_snoc)
qed

lemma digit_not: "isdigit c \<Longrightarrow> c \<noteq> CR \<and> c \<noteq> SPACE \<and> \<not> isspace c \<and> c \<noteq> NUL \<and> c \<noteq> CHR ''+'' \<and> c \<noteq> CHR ''-'' \<and> c \<noteq> CHR '':''"
  by (auto simp: isdigit_def isspace_def code_def)

lemma takeWhile_digits: "list_all isdigit s \<Longrightarrow> takeWhile isdigit s = s"
  by (simp add: list_all_iff)

lemma atol_show_nat: "int n \<le> LLONG_MAX \<Longrightarrow> atol (show_nat n) = word_of_nat n"
proof -
  assume n: "int n \<le> LLONG_MAX"
  obtain c s where s: "show_nat n = c # s" using show_nat_digits [of n] by (cases "show_nat n") auto
  then have c: "isdigit c" "list_all isdigit (c # s)" using show_nat_digits [of n] by auto
  have "atol (show_nat n) = clamp_llong (int (digits_val 0 (show_nat n)))"
    using digit_not [OF c(1)] takeWhile_digits [OF c(2)] by (simp add: atol_def s atoll_def)
  also have "\<dots> = word_of_int (int n)"
    using show_nat_digits [of n] n by (simp add: clamp_llong_def LLONG_MIN_def)
  finally show ?thesis by simp
qed

text \<open>A first line that is read as it is.\<close>

definition start_ok :: "string \<Rightarrow> bool" where
  "start_ok start \<longleftrightarrow> CR \<notin> set start \<and> nul_free start \<and> start \<noteq> []"

lemma head_end:
  assumes "start_ok start" "list_all header_ok hs"
  shows "find_header_end (head_text start hs @ body) = int (length (head_text start hs))"
proof -
  have "list_all (\<lambda>l. CR \<notin> set l \<and> l \<noteq> []) (start # map hdr_line hs)"
    using assms hdr_line_ok by (auto simp: start_ok_def list_all_iff)
  from find_head_end [OF this, of body] show ?thesis
    by (simp add: find_header_end_def head_text_def)
qed

lemma head_first_line:
  assumes "start_ok start"
  shows "strstr_from (head_text start hs @ body) 0 CRLF = Some (length start)"
  using assms find_sub_found [of CR start "[NL]"]
  by (simp add: strstr_from_def head_text_def start_ok_def cstr_append cstr_append [of CRLF, simplified])

lemma head_headers:
  assumes "list_all header_ok hs"
  shows "header_list (head_text start hs @ body) (nat (int (length (head_text start hs)) - 4)) (length start + 2) = hs"
proof -
  have n: "nat (int (length (head_text start hs)) - 4) = length (start @ CRLF) + length (lines_text (map hdr_line hs)) - 2"
    by (simp add: head_text_def)
  show ?thesis unfolding n
    using header_list_text [OF assms, of "start @ CRLF" body] by (simp add: head_text_def)
qed

definition length_header :: "Header list \<Rightarrow> string" where
  "length_header hs = (case find (\<lambda>h. strcasecmp_eq (hd_key h) ''Content-Length'') (take 48 hs) of
     None \<Rightarrow> [] | Some h \<Rightarrow> take 63 (hd_value h))"

lemma parse_request_head:
  assumes "start_ok start" "list_all header_ok hs" "scan_two 15 1023 (take 2047 start) = Some (u, v)"
  shows "parse_request (head_text start hs @ body) (int (length (head_text start hs))) =
    (True, \<lparr>rq_method = u, rq_path = takeWhile (\<lambda>c. c \<noteq> CHR ''?'') v, rq_query = drop 1 (dropWhile (\<lambda>c. c \<noteq> CHR ''?'') v),
            rq_headers = take 48 hs, rq_body = body\<rparr>)"
proof -
  have t: "take (min (length start) 2047) (head_text start hs @ body) = take 2047 start"
    by (simp add: head_text_def min_def)
  obtain left left' where "scan_word 15 (take 2047 start) = Some (u, left)" "scan_word 1023 left = Some (v, left')"
    using assms(3) by (auto simp: scan_two_def split: bind_splits)
  then show ?thesis
    unfolding parse_request_def head_first_line [OF assms(1)] option.case t head_headers [OF assms(2)]
    by (simp add: assms(2) head_headers)
qed

lemma content_length_head:
  assumes "start_ok start" "list_all header_ok hs" "scan_two 15 1023 (take 2047 start) = Some (u, v)"
  shows "content_length_of (head_text start hs @ body) (int (length (head_text start hs))) = atol (length_header hs)"
  by (simp add: content_length_of_def parse_request_head [OF assms] get_header_def length_header_def split: option.split)

section \<open>Messages in pieces\<close>

text \<open>A message whose head says how long its body is.\<close>

definition message_ok :: "string \<Rightarrow> Header list \<Rightarrow> string \<Rightarrow> bool" where
  "message_ok start hs body \<longleftrightarrow> start_ok start \<and> list_all header_ok hs \<and> scan_two 15 1023 (take 2047 start) \<noteq> None \<and>
     atol (length_header hs) = word_of_nat (length body) \<and> length (head_text start hs @ body) \<le> 4194304"

definition message_read :: "string \<Rightarrow> bool" where
  "message_read s \<longleftrightarrow> 0 < find_header_end s \<and> all_there s (find_header_end s) (content_length_of s (find_header_end s))"

lemma message_head:
  assumes "message_ok start hs body"
  shows "find_header_end (head_text start hs @ b) = int (length (head_text start hs))"
    "content_length_of (head_text start hs @ b) (int (length (head_text start hs))) = word_of_nat (length body)"
  using assms head_end content_length_head by (auto simp: message_ok_def)

lemma all_there_iff:
  "n + k \<le> 4194304 \<Longrightarrow> length s \<le> 4194304 \<Longrightarrow> all_there s (int n) (word_of_nat k) \<longleftrightarrow> n + k \<le> length s"
  by (simp add: all_there_def word_le_nat_alt unat_of_nat unat_word_ariths)

lemma message_read_whole:
  assumes "message_ok start hs body" "prefix s (head_text start hs @ body)"
  shows "message_read s \<longleftrightarrow> s = head_text start hs @ body"
proof -
  let ?h = "head_text start hs"
  have l: "length ?h + length body \<le> 4194304" using assms(1) by (simp add: message_ok_def)
  have ne: "?h \<noteq> []" by (simp add: head_text_def)
  show ?thesis
  proof (cases "length ?h \<le> length s")
    case True
    then obtain b where s: "s = ?h @ b" using assms(2) by (metis prefix_length_prefix prefix_def prefixI)
    then obtain b' where b: "body = b @ b'" using assms(2) by (auto simp: prefix_def)
    have "message_read s \<longleftrightarrow> length ?h + length body \<le> length ?h + length b"
      unfolding message_read_def s message_head [OF assms(1)]
      using l ne all_there_iff [of "length ?h" "length body" "?h @ b"] b by simp
    then show ?thesis by (simp add: s b)
  next
    case False
    have "\<not> 0 < find_header_end s"
    proof
      assume "0 < find_header_end s"
      then obtain i where i: "find_sub (CRLF @ CRLF) s = Some i" by (auto simp: find_header_end_def split: option.splits)
      obtain s' where "?h @ body = s @ s'" using assms(2) by (auto simp: prefix_def)
      then have "find_sub (CRLF @ CRLF) (?h @ body) = Some i" using find_sub_longer [OF i] by simp
      then have "i + 4 = length ?h" using message_head(1) [OF assms(1), of body] by (simp add: find_header_end_def)
      with find_sub_at [OF i] False show False by simp
    qed
    with False show ?thesis by (auto simp: message_read_def)
  qed
qed

lemma read_request_message:
  "message_ok start hs body \<Longrightarrow> b_data b @ arriving rs = head_text start hs @ body \<Longrightarrow>
   \<exists>b' rs'. read_request rs b = Some (int (length (head_text start hs)), b', rs') \<and> b_data b' = head_text start hs @ body"
proof (induction rs b rule: read_request.induct)
  case (1 rs b)
  let ?m = "head_text start hs @ body"
  have pre: "prefix (b_data b) ?m" using 1(3) by (metis prefixI)
  show ?case
  proof (cases "b_data b = ?m")
    case True
    have "message_read ?m" using message_read_whole [OF 1(2) prefix_order.refl] by simp
    then show ?thesis using True message_head(1) [OF 1(2), of body]
      by (simp add: read_request.simps [of rs b] message_read_def)
  next
    case False
    then have no: "\<not> message_read (b_data b)" using message_read_whole [OF 1(2) pre] by simp
    have "arriving rs \<noteq> []" using False 1(3) by auto
    then obtain n b' rs' where r: "net_read_some rs b = Some (n, b', rs')" "0 < n" using net_read_some_arrives by blast
    have m: "b_data b' @ arriving rs' = ?m" using net_read_some_pieces [OF r] 1(3) by simp
    have "length (b_data b') \<le> length ?m" by (metis m length_append le_add1)
    then have l: "\<not> 4 * 1024 * 1024 < int (b_len b')" using 1(2) by (simp add: message_ok_def)
    have "read_request rs b = read_request rs' b'"
      using no r l by (subst read_request.simps) (auto simp: message_read_def Let_def)
    with 1(1) [OF refl _ r(1) refl refl] no r(2) l 1(2) m show ?thesis by (auto simp: message_read_def)
  qed
qed

lemma read_response_message:
  "message_ok start hs body \<Longrightarrow> b_data b @ arriving rs = head_text start hs @ body \<Longrightarrow>
   \<exists>b'. read_response rs b = Some (int (length (head_text start hs)), b') \<and> b_data b' = head_text start hs @ body"
proof (induction rs b rule: read_response.induct)
  case (1 rs b)
  let ?m = "head_text start hs @ body"
  have pre: "prefix (b_data b) ?m" using 1(3) by (metis prefixI)
  have z: "content_length_of (b_data b) (find_header_end (b_data b)) = 0 \<Longrightarrow> 0 < find_header_end (b_data b) \<Longrightarrow>
      message_read (b_data b)"
  proof -
    assume a: "content_length_of (b_data b) (find_header_end (b_data b)) = 0" "0 < find_header_end (b_data b)"
    then obtain i where i: "find_sub (CRLF @ CRLF) (b_data b) = Some i" "find_header_end (b_data b) = int (i + 4)"
      by (auto simp: find_header_end_def split: option.splits)
    have "length (b_data b) \<le> 4194304" using pre 1(2) prefix_length_le unfolding message_ok_def by fastforce
    with find_sub_at [OF i(1)] all_there_iff [of "i + 4" 0 "b_data b"] a show ?thesis
      by (simp add: message_read_def i(2))
  qed
  show ?case
  proof (cases "b_data b = ?m")
    case True
    have "message_read ?m" using message_read_whole [OF 1(2) prefix_order.refl] by simp
    then show ?thesis using True message_head(1) [OF 1(2), of body]
      by (simp add: read_response.simps [of rs b] message_read_def)
  next
    case False
    then have no: "\<not> message_read (b_data b)" using message_read_whole [OF 1(2) pre] by simp
    have "arriving rs \<noteq> []" using False 1(3) by auto
    then obtain n b' rs' where r: "net_read_some rs b = Some (n, b', rs')" "0 < n" using net_read_some_arrives by blast
    have m: "b_data b' @ arriving rs' = ?m" using net_read_some_pieces [OF r] 1(3) by simp
    have "length (b_data b') \<le> length ?m" by (metis m length_append le_add1)
    then have l: "\<not> 16 * 1024 * 1024 < int (b_len b')" using 1(2) by (simp add: message_ok_def)
    have c: "\<not> (0 < find_header_end (b_data b) \<and>
        (content_length_of (b_data b) (find_header_end (b_data b)) = 0 \<or>
         all_there (b_data b) (find_header_end (b_data b)) (content_length_of (b_data b) (find_header_end (b_data b)))))"
      using no z by (auto simp: message_read_def)
    then have "read_response rs b = read_response rs' b'"
      using r l by (subst read_response.simps) (auto simp: Let_def)
    with 1(1) [OF refl refl c r(1) refl refl] r(2) l 1(2) m show ?thesis by auto
  qed
qed

section \<open>Client and server\<close>

text \<open>A word of a first line, as \<^verbatim>\<open>sscanf\<close> reads it.\<close>

definition token_ok :: "string \<Rightarrow> bool" where
  "token_ok w \<longleftrightarrow> w \<noteq> [] \<and> list_all (\<lambda>c. \<not> isspace c \<and> c \<noteq> NUL) w"

lemma isspace_CR [simp]: "isspace CR" "isspace SPACE"
  by (simp_all add: isspace_def code_def)

lemma token_chars: "token_ok w \<Longrightarrow> CR \<notin> set w \<and> nul_free w \<and> w \<noteq> []"
  unfolding token_ok_def list_all_iff nul_free_def using isspace_CR by blast

lemma scan_word_token:
  assumes "token_ok w" "length w \<le> n" "r = [] \<or> isspace (hd r)"
  shows "scan_word n (w @ r) = Some (w, r)" "scan_word n (SPACE # w @ r) = Some (w, r)"
proof -
  have t: "takeWhile (\<lambda>c. \<not> isspace c) (w @ r) = w"
    by (rule takeWhile_append_stop) (use assms in \<open>auto simp: token_ok_def list_all_iff\<close>)
  have d: "dropWhile isspace (w @ r) = w @ r" using assms(1) by (cases w) (auto simp: token_ok_def)
  show "scan_word n (w @ r) = Some (w, r)" "scan_word n (SPACE # w @ r) = Some (w, r)"
    using assms(1,2) t d by (simp_all add: scan_word_def token_ok_def Let_def) (cases n, simp_all)+
qed

lemma scan_two_tokens:
  assumes "token_ok u" "length u \<le> n" "token_ok v" "length v \<le> k" "r = [] \<or> isspace (hd r)"
  shows "scan_two n k (u @ SPACE # v @ r) = Some (u, v)"
  using scan_word_token(1) [OF assms(1,2), of "SPACE # v @ r"] scan_word_token(2) [OF assms(3-5)]
  by (simp add: scan_two_def)

lemma show_nat_length: "n < 10 ^ Suc k \<Longrightarrow> length (show_nat n) \<le> Suc k"
proof (induction k arbitrary: n)
  case 0
  then show ?case by (simp add: show_nat.simps [of n])
next
  case (Suc k)
  then show ?case using Suc.IH [of "n div 10"] by (simp add: show_nat.simps [of n])
qed

lemma show_nat_short: "n \<le> 4194304 \<Longrightarrow> length (show_nat n) \<le> 10"
  using show_nat_length [of n 9] by simp

lemma show_nat_text: "CR \<notin> set (show_nat n) \<and> nul_free (show_nat n) \<and> hd (show_nat n) \<noteq> SPACE"
  using show_nat_digits [of n] digit_not by (cases "show_nat n") (auto simp: list_all_iff nul_free_def)

definition length_of :: "nat \<Rightarrow> Header" where
  "length_of n = \<lparr>hd_key = ''Content-Length'', hd_value = show_nat n\<rparr>"

definition close_header :: Header where
  "close_header = \<lparr>hd_key = ''Connection'', hd_value = ''close''\<rparr>"

definition request_headers :: "string \<Rightarrow> string option \<Rightarrow> Header list" where
  "request_headers host body = [\<lparr>hd_key = ''Host'', hd_value = host\<rparr>, close_header] @
     (case body of None \<Rightarrow> []
      | Some s \<Rightarrow> [\<lparr>hd_key = ''Content-Type'', hd_value = ''application/json''\<rparr>, length_of (length s)])"

lemma length_of_ok: "n \<le> 4194304 \<Longrightarrow> header_ok (length_of n)"
  using show_nat_text [of n] show_nat_short [of n] by (simp add: header_ok_def length_of_def)

lemma close_header_ok: "header_ok close_header"
  by (simp add: header_ok_def close_header_def)

lemma host_keys: "strcasecmp_eq ''Host'' ''Content-Length'' = False" "strcasecmp_eq ''Connection'' ''Content-Length'' = False"
  "strcasecmp_eq ''Content-Type'' ''Content-Length'' = False" "strcasecmp_eq ''Content-Length'' ''Content-Length'' = True"
  by code_simp+

lemma atol_length_header: "n \<le> 4194304 \<Longrightarrow> atol (take 63 (hd_value (length_of n))) = word_of_nat n"
  using atol_show_nat [of n] show_nat_short [of n] by (simp add: length_of_def LLONG_MAX_def)

text \<open>What a request needs to be read as it was meant: nothing in it is cut.\<close>

definition request_ok :: "string \<Rightarrow> string \<Rightarrow> string \<Rightarrow> string option \<Rightarrow> bool" where
  "request_ok meth host path body \<longleftrightarrow> token_ok meth \<and> length meth \<le> 15 \<and> token_ok path \<and> length path \<le> 990 \<and>
     header_ok \<lparr>hd_key = ''Host'', hd_value = host\<rparr> \<and> length (request_text meth host path body) \<le> 4194304"

lemma request_text_head:
  assumes "request_ok meth host path body"
  shows "request_text meth host path body =
    head_text (meth @ SPACE # path @ '' HTTP/1.1'') (request_headers host body) @ (case body of None \<Rightarrow> [] | Some s \<Rightarrow> s)"
proof -
  have line: "take 1023 (meth @ [SPACE] @ path @ '' HTTP/1.1'' @ CRLF) = meth @ [SPACE] @ path @ '' HTTP/1.1'' @ CRLF"
    by (rule take_all) (use assms in \<open>simp add: request_ok_def\<close>)
  have host: "take 1023 (''Host: '' @ host @ CRLF) = ''Host: '' @ host @ CRLF"
    by (rule take_all) (use assms in \<open>simp add: request_ok_def header_ok_def\<close>)
  have len: "take 1023 (''Content-Length: '' @ show_nat (length s) @ CRLF) = ''Content-Length: '' @ show_nat (length s) @ CRLF"
    if "body = Some s" for s
    by (rule take_all) (use assms that show_nat_short [of "length s"] in \<open>simp add: request_ok_def request_text_def\<close>)
  show ?thesis
    unfolding request_text_def line host using len
    by (cases body) (simp_all add: head_text_def request_headers_def hdr_line_def close_header_def length_of_def)
qed

lemma request_message:
  assumes "request_ok meth host path body"
  shows "message_ok (meth @ SPACE # path @ '' HTTP/1.1'') (request_headers host body) (case body of None \<Rightarrow> [] | Some s \<Rightarrow> s)"
    "scan_two 15 1023 (take 2047 (meth @ SPACE # path @ '' HTTP/1.1'')) = Some (meth, path)"
proof -
  have a: "token_ok meth" "length meth \<le> 15" "token_ok path" "length path \<le> 990" using assms by (auto simp: request_ok_def)
  have "take 2047 (meth @ SPACE # path @ '' HTTP/1.1'') = meth @ SPACE # path @ '' HTTP/1.1''" using a by simp
  then show s: "scan_two 15 1023 (take 2047 (meth @ SPACE # path @ '' HTTP/1.1'')) = Some (meth, path)"
    using scan_two_tokens [OF a(1,2,3), of 1023 "'' HTTP/1.1''"] a(4) by simp
  have l: "length (case body of None \<Rightarrow> [] | Some s \<Rightarrow> s) \<le> 4194304"
    using assms request_text_head [OF assms] by (simp add: request_ok_def)
  have st: "start_ok (meth @ SPACE # path @ '' HTTP/1.1'')"
    using token_chars [OF a(1)] token_chars [OF a(3)] by (simp add: start_ok_def)
  have h: "list_all header_ok (request_headers host body)"
    using assms l length_of_ok close_header_ok
    by (auto simp: request_ok_def request_headers_def header_ok_def split: option.splits)
  have "atol (length_header (request_headers host body)) = word_of_nat (length (case body of None \<Rightarrow> [] | Some s \<Rightarrow> s))"
    using l atol_length_header
    by (auto simp: request_headers_def length_header_def host_keys close_header_def length_of_def atol_def split: option.splits)
  then show "message_ok (meth @ SPACE # path @ '' HTTP/1.1'') (request_headers host body) (case body of None \<Rightarrow> [] | Some s \<Rightarrow> s)"
    using st h s assms request_text_head [OF assms] by (simp add: message_ok_def request_ok_def)
qed

text \<open>
  C18. The server reads what the client writes: in whatever pieces the request arrives, the loop reads
  all of it and parsing gives back its method, the path and the query, the headers in their order and the
  body.
\<close>

theorem http_request_roundtrip:
  assumes "request_ok meth host path body" "arriving rs = request_text meth host path body"
  shows "\<exists>header_end b rs'. read_request rs buf_init = Some (header_end, b, rs') \<and>
    parse_request (b_data b) header_end =
      (True, \<lparr>rq_method = meth, rq_path = takeWhile (\<lambda>c. c \<noteq> CHR ''?'') path,
              rq_query = drop 1 (dropWhile (\<lambda>c. c \<noteq> CHR ''?'') path), rq_headers = request_headers host body,
              rq_body = (case body of None \<Rightarrow> [] | Some s \<Rightarrow> s)\<rparr>)"
proof -
  note m = request_message [OF assms(1)]
  have "b_data buf_init @ arriving rs = request_text meth host path body" using assms(2) by (simp add: buf_init_def)
  from read_request_message [OF m(1) this [unfolded request_text_head [OF assms(1)]]] show ?thesis
    using m parse_request_head by (fastforce simp: message_ok_def request_headers_def split: option.splits)
qed

text \<open>The same for responses, whose headers the script chooses.\<close>

definition to_header :: "string \<times> string \<Rightarrow> Header" where
  "to_header kv = \<lparr>hd_key = fst kv, hd_value = snd kv\<rparr>"

definition response_ok :: "int \<Rightarrow> (string \<times> string) list \<Rightarrow> string \<Rightarrow> bool" where
  "response_ok status hdrs body \<longleftrightarrow> - (2 ^ 31) \<le> status \<and> status < 2 ^ 31 \<and> length hdrs < 48 \<and>
     list_all (\<lambda>(k, v). header_ok (to_header (k, v)) \<and> length k + length v \<le> 251 \<and>
       \<not> strcasecmp_eq k ''Content-Length'') hdrs \<and>
     nul_free body \<and> length (response_text status hdrs body) \<le> 4194304"

definition status_line :: "int \<Rightarrow> string" where
  "status_line status = ''HTTP/1.1'' @ SPACE # show_int status @ SPACE # status_text status"

definition response_headers :: "(string \<times> string) list \<Rightarrow> string \<Rightarrow> Header list" where
  "response_headers hdrs body = map to_header hdrs @ [length_of (length body), close_header]"

lemma atol_show_int:
  assumes "- (2 ^ 31) \<le> k" "k < 2 ^ 31" "r = [] \<or> \<not> isdigit (hd r)"
  shows "atol (show_int k @ r) = word_of_int k"
proof -
  have t: "takeWhile isdigit (show_nat n @ r) = show_nat n" for n
    by (rule takeWhile_append_stop) (use show_nat_digits [of n] assms(3) in \<open>auto simp: list_all_iff\<close>)
  have d: "digits_val 0 (show_nat n) = n" for n using show_nat_digits by simp
  show ?thesis
  proof (cases "k < 0")
    case True
    have "\<not> isspace (CHR ''-'')" by (simp add: isspace_def code_def)
    then show ?thesis using True assms(1)
      by (simp add: show_int_def atol_def atoll_def t d clamp_llong_def LLONG_MIN_def LLONG_MAX_def)
  next
    case False
    obtain c s where s: "show_nat (nat k) = c # s" using show_nat_digits [of "nat k"] by (cases "show_nat (nat k)") auto
    then have c: "isdigit c" using show_nat_digits [of "nat k"] by simp
    then have "atol (show_int k @ r) = clamp_llong (int (digits_val 0 (takeWhile isdigit (show_nat (nat k) @ r))))"
      using False digit_not [OF c] by (simp add: show_int_def atol_def s atoll_def)
    then show ?thesis using False assms(2) by (simp add: t d clamp_llong_def LLONG_MIN_def LLONG_MAX_def)
  qed
qed

lemma show_int_token: "token_ok (show_int k)"
proof -
  have "\<not> isspace (CHR ''-'')" by (simp add: isspace_def code_def)
  moreover have "list_all (\<lambda>c. \<not> isspace c \<and> c \<noteq> NUL) (show_nat n) \<and> show_nat n \<noteq> []" for n
    using show_nat_digits [of n] digit_not by (auto simp: list_all_iff)
  ultimately show ?thesis by (auto simp: token_ok_def show_int_def)
qed

lemma show_int_start: "(let t = (if hd (show_int k) = CHR ''-'' \<or> hd (show_int k) = CHR ''+'' then tl (show_int k) else show_int k)
   in t \<noteq> [] \<and> isdigit (hd t))"
  using show_nat_digits [of "nat k"] show_nat_digits [of "nat (- k)"] digit_not [of "hd (show_nat (nat k))"]
  by (cases "show_nat (nat k)"; cases "show_nat (nat (- k))") (auto simp: show_int_def)

lemma low_half: "ucast (word_of_int k :: 64 word) = (word_of_int k :: 32 word)"
  by transfer (simp add: min_def)

lemma scan_int_show:
  assumes "- (2 ^ 31) \<le> k" "k < 2 ^ 31" "r = [] \<or> isspace (hd r)"
  shows "scan_int (SPACE # show_int k @ r) = Some (word_of_int k)"
proof -
  obtain c s where s: "show_int k = c # s" "\<not> isspace c"
    using show_int_token [of k] by (cases "show_int k") (auto simp: token_ok_def)
  have r: "r = [] \<or> \<not> isdigit (hd r)" using assms(3) digit_not by blast
  have "atoi (show_int k @ r) = word_of_int k"
    using atol_show_int [OF assms(1,2) r] by (simp add: atoi_def low_half)
  moreover have "dropWhile isspace (SPACE # show_int k @ r) = show_int k @ r" using s by simp
  ultimately show ?thesis using show_int_start [of k] s
    by (auto simp: scan_int_def Let_def split: if_splits)
qed

lemma status_text_chars: "CR \<notin> set (status_text k) \<and> nul_free (status_text k) \<and> length (status_text k) \<le> 21"
  by (simp add: status_text_def)

lemma show_int_length:
  assumes "- (2 ^ 31) \<le> k" "k < 2 ^ 31"
  shows "length (show_int k) \<le> 11"
proof -
  have "nat k < 10 ^ Suc 9" "nat (- k) < 10 ^ Suc 9" using assms by simp_all
  from this [THEN show_nat_length] show ?thesis by (auto simp: show_int_def)
qed

lemma status_line_length:
  "- (2 ^ 31) \<le> k \<Longrightarrow> k < 2 ^ 31 \<Longrightarrow> length (status_line k) \<le> 60"
  using show_int_length [of k] status_text_chars [of k] by (simp add: status_line_def)

lemma header_line_whole:
  "length k + length v \<le> 251 \<Longrightarrow> header_line k v = hdr_line (to_header (k, v)) @ CRLF"
  by (simp add: header_line_def hdr_line_def to_header_def)

lemma header_lines_whole:
  "list_all (\<lambda>(k, v). length k + length v \<le> 251) hdrs \<Longrightarrow>
   concat (map (\<lambda>(k, v). header_line k v) hdrs) = lines_text (map hdr_line (map to_header hdrs))"
  by (induction hdrs) (auto simp: header_line_whole)

lemma lines_text_append: "lines_text (xs @ ys) = lines_text xs @ lines_text ys"
  by (simp add: lines_text_def)

lemma response_text_head:
  assumes "response_ok status hdrs body"
  shows "response_text status hdrs body = head_text (status_line status) (response_headers hdrs body) @ body"
proof -
  have line: "take 255 (''HTTP/1.1 '' @ show_int status @ [SPACE] @ status_text status @ CRLF) =
      ''HTTP/1.1 '' @ show_int status @ [SPACE] @ status_text status @ CRLF"
    by (rule take_all) (use assms show_int_length [of status] status_text_chars [of status] in \<open>simp add: response_ok_def\<close>)
  have b: "length body \<le> 4194304" using assms by (simp add: response_ok_def response_text_def)
  have len: "take 255 (''Content-Length: '' @ show_nat (length body) @ CRLF) = ''Content-Length: '' @ show_nat (length body) @ CRLF"
    by (rule take_all) (use show_nat_short [OF b] in simp)
  have h: "concat (map (\<lambda>(k, v). header_line k v) hdrs) = lines_text (map hdr_line (map to_header hdrs))"
    by (rule header_lines_whole) (use assms in \<open>auto simp: response_ok_def list_all_iff\<close>)
  show ?thesis
    unfolding response_text_def line len h
    by (simp add: head_text_def response_headers_def lines_text_append status_line_def hdr_line_def length_of_def close_header_def)
qed

lemma find_map_none: "list_all (\<lambda>x. \<not> P (f x)) xs \<Longrightarrow> find P (map f xs @ ys) = find P ys"
  by (induction xs) auto

lemma response_message:
  assumes "response_ok status hdrs body"
  shows "message_ok (status_line status) (response_headers hdrs body) body"
    "scan_status (take 255 (status_line status)) = word_of_int status"
proof -
  have r: "- (2 ^ 31) \<le> status" "status < 2 ^ 31" using assms by (auto simp: response_ok_def)
  have b: "length body \<le> 4194304" using assms by (simp add: response_ok_def response_text_def)
  have v: "token_ok ''HTTP/1.1''" by (simp add: token_ok_def isspace_def code_def)
  have t: "take 255 (status_line status) = status_line status" "take 2047 (status_line status) = status_line status"
    using status_line_length [OF r] by simp_all
  have i: "length (show_int status) \<le> 1023" using show_int_length [OF r] by simp
  have two: "scan_two 15 1023 (status_line status) = Some (''HTTP/1.1'', show_int status)"
    using scan_two_tokens [OF v _ show_int_token i, of 15 "SPACE # status_text status"] by (simp add: status_line_def)
  have "scan_word 31 (status_line status) = Some (''HTTP/1.1'', SPACE # show_int status @ SPACE # status_text status)"
    using scan_word_token(1) [OF v, of 31 "SPACE # show_int status @ SPACE # status_text status"] by (simp add: status_line_def)
  then show "scan_status (take 255 (status_line status)) = word_of_int status"
    using scan_int_show [OF r, of "SPACE # status_text status"] by (simp add: t scan_status_def)
  have st: "start_ok (status_line status)"
    using token_chars [OF show_int_token, of status] status_text_chars [of status] by (simp add: start_ok_def status_line_def)
  have h: "list_all header_ok (response_headers hdrs body)"
    using assms length_of_ok [OF b] close_header_ok
    by (auto simp: response_ok_def response_headers_def list_all_iff)
  have k: "list_all (\<lambda>x. \<not> strcasecmp_eq (hd_key (to_header x)) ''Content-Length'') hdrs"
    using assms by (auto simp: response_ok_def to_header_def list_all_iff)
  have key: "strcasecmp_eq (hd_key (length_of (length body))) ''Content-Length'' = True"
    unfolding length_of_def using host_keys(4) by simp
  have n: "length hdrs < 48" using assms by (simp add: response_ok_def)
  then have n': "48 - length hdrs = Suc (47 - length hdrs)" by simp
  have "take 48 (response_headers hdrs body) = map to_header hdrs @ length_of (length body) # take (47 - length hdrs) [close_header]"
    using n by (simp only: response_headers_def take_append length_map n' take_Suc_Cons) simp
  then have "length_header (response_headers hdrs body) = take 63 (hd_value (length_of (length body)))"
    unfolding length_header_def by (simp only: find_map_none [where f = to_header and P = "\<lambda>h. strcasecmp_eq (hd_key h) ''Content-Length''", OF k] find.simps key if_True option.case)
  then show "message_ok (status_line status) (response_headers hdrs body) body"
    using st h two t assms response_text_head [OF assms] atol_length_header [OF b] by (simp add: message_ok_def response_ok_def)
qed

text \<open>
  C19. The client reads what the server writes: in whatever pieces the response arrives, the client has
  its status, the headers that the script set and the two that the server adds, and its body.
\<close>

theorem http_response_roundtrip:
  assumes "response_ok status hdrs body" "arriving rs = response_text status hdrs body"
  shows "\<exists>header_end b. read_response rs buf_init = Some (header_end, b) \<and>
    parse_response (b_data b) header_end =
      Some \<lparr>rs_status = word_of_int status, rs_headers = response_headers hdrs body, rs_body = body\<rparr>"
proof -
  note m = response_message [OF assms(1)]
  have s: "start_ok (status_line status)" "list_all header_ok (response_headers hdrs body)" using m(1) by (auto simp: message_ok_def)
  have "b_data buf_init @ arriving rs = response_text status hdrs body" using assms(2) by (simp add: buf_init_def)
  from read_response_message [OF m(1) this [unfolded response_text_head [OF assms(1)]]]
  obtain b where b: "read_response rs buf_init = Some (int (length (head_text (status_line status) (response_headers hdrs body))), b)"
    "b_data b = head_text (status_line status) (response_headers hdrs body) @ body" by auto
  have "take (min (length (status_line status)) 255) (head_text (status_line status) (response_headers hdrs body) @ body) =
      take 255 (status_line status)"
    by (simp add: head_text_def min_def)
  then have "parse_response (b_data b) (int (length (head_text (status_line status) (response_headers hdrs body)))) =
      Some \<lparr>rs_status = word_of_int status, rs_headers = response_headers hdrs body, rs_body = body\<rparr>"
    using head_first_line [OF s(1)] head_headers [OF s(2)] m(2) assms(1) cstr_whole [of body]
    by (simp add: parse_response_def b(2) response_ok_def)
  with b(1) show ?thesis by blast
qed

section \<open>Routes\<close>

text \<open>What a pattern says about a path, and the parameters it gives, in the order of the path.\<close>

definition segments :: "string \<Rightarrow> string list" where
  "segments s = strtok (CHR ''/'') (take 1023 s)"

definition segments_match :: "string list \<Rightarrow> string list \<Rightarrow> bool" where
  "segments_match ps ss \<longleftrightarrow> list_all2 (\<lambda>p s. param_name p \<noteq> None \<or> p = s) ps ss"

definition segment_params :: "string list \<Rightarrow> string list \<Rightarrow> (string \<times> string) list" where
  "segment_params ps ss = List.map_filter (\<lambda>(p, s). map_option (\<lambda>name. (name, s)) (param_name p)) (zip ps ss)"

definition route_fits :: "string \<Rightarrow> string \<Rightarrow> Route \<Rightarrow> bool" where
  "route_fits http_method path r \<longleftrightarrow>
     strcasecmp_eq (rt_method r) http_method \<and> segments_match (segments (rt_pattern r)) (segments path)"

definition data_map :: "store \<Rightarrow> addr \<Rightarrow> string \<rightharpoonup> val" where
  "data_map st d = map_of (data_at st d)"

lemma map_of_data_put: "map_of es key \<noteq> None \<Longrightarrow> map_of (data_put key v es) = (map_of es)(key \<mapsto> v)"
  by (induction key v es rule: data_put.induct) (auto simp: fun_eq_iff split: if_splits)

lemma keys_data_put: "map fst (data_put key v es) = map fst es"
  by (induction key v es rule: data_put.induct) auto

lemma data_map_set:
  "d < length (st_datas st) \<Longrightarrow> data_map (value_data_set d key v st) d = (data_map st d)(key \<mapsto> v)"
  by (auto simp: data_map_def value_data_set_def data_at_def entry_at_def map_of_data_put)

lemma data_other_set: "d \<noteq> d' \<Longrightarrow> data_at (value_data_set d key v st) d' = data_at st d'"
  by (simp add: value_data_set_def data_at_def entry_at_def nth_list_update)

lemma data_length_set [simp]: "length (st_datas (value_data_set d key v st)) = length (st_datas st)"
  by (simp add: value_data_set_def)

lemma data_keys_set:
  "distinct (map fst (data_at st d)) \<Longrightarrow> distinct (map fst (data_at (value_data_set d key v st) d))"
  by (auto simp: value_data_set_def data_at_def entry_at_def nth_list_update keys_data_put map_of_eq_None_iff)

text \<open>Storing the entries of a list of pairs one after the other.\<close>

lemma data_map_fold:
  "d < length (st_datas st) \<Longrightarrow>
   data_map (fold (\<lambda>(k, v). value_data_set d k v) es st) d = data_map st d ++ map_of (rev es) \<and>
   length (st_datas (fold (\<lambda>(k, v). value_data_set d k v) es st)) = length (st_datas st) \<and>
   (\<forall>d'. d' \<noteq> d \<longrightarrow> data_at (fold (\<lambda>(k, v). value_data_set d k v) es st) d' = data_at st d')"
proof (induction es arbitrary: st)
  case (Cons e es)
  then show ?case
    by (cases e) (auto simp: data_map_set data_other_set map_add_def fun_eq_iff split: option.split)
qed simp

lemma data_keys_fold:
  "distinct (map fst (data_at st d)) \<Longrightarrow> distinct (map fst (data_at (fold (\<lambda>(k, v). value_data_set d k v) es st) d))"
  by (induction es arbitrary: st) (auto simp: data_keys_set)

lemma match_segments_fold:
  "match_segments ps ss d st = (ok, st') \<Longrightarrow>
   ok = segments_match ps ss \<and>
   (ok \<longrightarrow> st' = fold (\<lambda>(k, v). value_data_set d k v) (map (apsnd V_STRING) (segment_params ps ss)) st) \<and>
   (\<exists>es. st' = fold (\<lambda>(k, v). value_data_set d k v) es st)"
proof (induction ps ss d st arbitrary: ok st' rule: match_segments.induct)
  case (2 p ps s ss d st)
  show ?case
  proof (cases "param_name p")
    case None
    show ?thesis
    proof (cases "p = s")
      case True
      with 2 None show ?thesis by (simp add: segments_match_def segment_params_def map_filter_simps)
    next
      case False
      with 2 None have "ok = False" "st' = fold (\<lambda>(k, v). value_data_set d k v) [] st" by auto
      with None False show ?thesis unfolding segments_match_def by blast
    qed
  next
    case (Some name)
    from 2(2) [OF Some] 2(3) Some have "ok = segments_match ps ss"
      "ok \<longrightarrow> st' = fold (\<lambda>(k, v). value_data_set d k v) (map (apsnd V_STRING) (segment_params ps ss)) (value_data_set d name (V_STRING s) st)"
      "\<exists>es. st' = fold (\<lambda>(k, v). value_data_set d k v) es (value_data_set d name (V_STRING s) st)" by auto
    moreover from this(3) have "\<exists>es. st' = fold (\<lambda>(k, v). value_data_set d k v) es st"
      by (metis (no_types, lifting) case_prod_conv fold_simps(2))
    ultimately show ?thesis using Some by (simp add: segments_match_def segment_params_def map_filter_simps)
  qed
qed (auto simp: segments_match_def segment_params_def map_filter_simps intro: exI [of _ "[]"])

lemma data_map_new:
  "data_map (snd (value_data_empty st)) (length (st_datas st)) = Map.empty"
  "length (st_datas (snd (value_data_empty st))) = Suc (length (st_datas st))"
  "d < length (st_datas st) \<Longrightarrow> data_at (snd (value_data_empty st)) d = data_at st d"
  "data_at (snd (value_data_empty st)) (length (st_datas st)) = []"
  by (auto simp: data_map_def value_data_empty_def data_at_def entry_at_def nth_append)

lemma map_of_rev_distinct: "distinct (map fst es) \<Longrightarrow> map_of (rev es) = map_of es"
  by (simp add: map_of_inject_set rev_map [symmetric])

lemma match_route_result:
  assumes "params < length (st_datas st)" "match_route rs http_method path params st = (r, st')"
  shows "r = find (route_fits http_method path) rs \<and> length (st_datas st) \<le> length (st_datas st') \<and>
    (\<forall>d < length (st_datas st). d \<noteq> params \<longrightarrow> data_at st' d = data_at st d) \<and>
    data_map st' params = data_map st params ++
      (case r of None \<Rightarrow> Map.empty
       | Some r \<Rightarrow> map_of (rev (map (apsnd V_STRING) (segment_params (segments (rt_pattern r)) (segments path)))))"
  using assms
proof (induction rs http_method path params st arbitrary: r st' rule: match_route.induct)
  case (2 r0 rs http_method path params st)
  show ?case
  proof (cases "strcasecmp_eq (rt_method r0) http_method")
    case True
    define l where "l = length (st_datas st)"
    define s0 where "s0 = snd (value_data_empty st)"
    obtain ok s1 where m: "match_segments (segments (rt_pattern r0)) (segments path) l s0 = (ok, s1)"
      by (cases "match_segments (segments (rt_pattern r0)) (segments path) l s0")
    have s0: "data_map s0 l = Map.empty" "l < length (st_datas s0)" "\<And>d. d < l \<Longrightarrow> data_at s0 d = data_at st d"
      "data_at s0 l = []" "length (st_datas s0) = Suc l"
      using data_map_new(1,2,4) [of st] data_map_new(3) [of _ st] by (auto simp: s0_def l_def)
    note f = match_segments_fold [OF m]
    then obtain es where es: "s1 = fold (\<lambda>(k, v). value_data_set l k v) es s0" by blast
    have s1: "length (st_datas s1) = Suc l" "\<And>d. d < l \<Longrightarrow> data_at s1 d = data_at st d"
      using data_map_fold [OF s0(2), of es] s0 by (auto simp: es)
    have pl: "params < l" using 2(3) by (simp add: l_def)
    show ?thesis
    proof (cases ok)
      case True
      let ?ps = "map (apsnd V_STRING) (segment_params (segments (rt_pattern r0)) (segments path))"
      have s1': "s1 = fold (\<lambda>(k, v). value_data_set l k v) ?ps s0" using f True by simp
      have dm: "data_map s1 l = map_of (rev ?ps)" using data_map_fold [OF s0(2), of ?ps] s0(1) by (simp add: s1')
      have "distinct (map fst (data_at s1 l))" using data_keys_fold [of s0 l ?ps] s0(4) by (simp add: s1')
      then have rv: "map_of (rev (data_at s1 l)) = map_of (rev ?ps)"
        by (rule trans [OF map_of_rev_distinct dm [unfolded data_map_def]])
      have r: "r = Some r0" "st' = fold (\<lambda>(k, v). value_data_set params k v) (data_at s1 l) s1"
        using 2(4) \<open>strcasecmp_eq (rt_method r0) http_method\<close> m True by (simp_all add: Let_def segments_def l_def s0_def)
      have "params < length (st_datas s1)" using pl s1 by simp
      note g = data_map_fold [OF this, of "data_at s1 l"]
      have "route_fits http_method path r0" using f True \<open>strcasecmp_eq (rt_method r0) http_method\<close> by (simp add: route_fits_def)
      then show ?thesis using g rv r s1 pl by (auto simp: l_def [symmetric] data_map_def)
    next
      case False
      have "match_route rs http_method path params s1 = (r, st')"
        using 2(4) \<open>strcasecmp_eq (rt_method r0) http_method\<close> m False by (simp add: Let_def segments_def l_def s0_def)
      moreover have "match_segments (strtok CHR ''/'' (take 1023 (rt_pattern r0))) (strtok CHR ''/'' (take 1023 path)) l s0 = (ok, s1)"
        using m by (simp add: segments_def)
      moreover have "params < length (st_datas s1)" using pl s1 by simp
      ultimately have IH: "r = find (route_fits http_method path) rs \<and> length (st_datas s1) \<le> length (st_datas st') \<and>
          (\<forall>d < length (st_datas s1). d \<noteq> params \<longrightarrow> data_at st' d = data_at s1 d) \<and>
          data_map st' params = data_map s1 params ++ (case r of None \<Rightarrow> Map.empty
            | Some r \<Rightarrow> map_of (rev (map (apsnd V_STRING) (segment_params (segments (rt_pattern r)) (segments path)))))"
        using 2(2) \<open>strcasecmp_eq (rt_method r0) http_method\<close> False by (auto simp: l_def s0_def)
      have "\<not> route_fits http_method path r0" using f False by (simp add: route_fits_def)
      moreover have "data_map s1 params = data_map st params" using s1(2) pl by (simp add: data_map_def)
      ultimately show ?thesis using IH s1 pl by (auto simp: l_def [symmetric])
    qed
  next
    case False
    with 2 show ?thesis by (simp add: route_fits_def)
  qed
qed simp

lemma map_of_strings:
  fixes es :: "(string \<times> string) list"
  shows "map_of (rev (map (apsnd V_STRING) es)) name = map_option V_STRING (map_of (rev es) name)"
proof -
  have "map_of (map (apsnd V_STRING) xs) name = map_option V_STRING (map_of xs name)" for xs :: "(string \<times> string) list"
    by (induction xs) auto
  from this [of "rev es"] show ?thesis by (simp add: rev_map)
qed

section \<open>Registered routes\<close>

text \<open>
  Routes, described without the code.  A path is written with its segments, which are not empty and have
  no slash, with slashes in front of, between and behind them.  A segment of a pattern is a parameter if
  it is a name in braces, and fits only itself otherwise.
\<close>

inductive path_of :: "string list \<Rightarrow> string \<Rightarrow> bool" where
  path_end: "path_of [] []"
| path_slash: "path_of segs s \<Longrightarrow> path_of segs (CHR ''/'' # s)"
| path_segment: "seg \<noteq> [] \<Longrightarrow> CHR ''/'' \<notin> set seg \<Longrightarrow> s = [] \<or> hd s = CHR ''/'' \<Longrightarrow> path_of segs s \<Longrightarrow>
    path_of (seg # segs) (seg @ s)"

inductive pattern_fits :: "string list \<Rightarrow> string list \<Rightarrow> (string \<times> string) list \<Rightarrow> bool" where
  fits_end: "pattern_fits [] [] []"
| fits_same: "\<forall>name. seg \<noteq> ''{'' @ name @ ''}'' \<Longrightarrow> pattern_fits ps ss es \<Longrightarrow> pattern_fits (seg # ps) (seg # ss) es"
| fits_param: "pattern_fits ps ss es \<Longrightarrow>
    pattern_fits ((''{'' @ name @ ''}'') # ps) (seg # ss) ((take 127 name, seg) # es)"

text \<open>
  A registration (method, pattern and handler) serves a request with the parameters \<open>es\<close>.  As in the code,
  the first 1023 characters of a path and the first 127 of a name count.
\<close>

definition serves :: "string \<Rightarrow> string \<Rightarrow> string \<times> string \<times> val \<Rightarrow> (string \<times> string) list \<Rightarrow> bool" where
  "serves http_method path reg es \<longleftrightarrow>
     strcasecmp_eq (fst reg) http_method \<and>
     (\<exists>ps ss. path_of ps (take 1023 (fst (snd reg))) \<and> path_of ss (take 1023 path) \<and> pattern_fits ps ss es)"

lemma split_on_stop: "d \<notin> set seg \<Longrightarrow> split_on d (seg @ d # s) = seg # split_on d s"
  by (induction seg) auto

lemma split_on_one: "d \<notin> set seg \<Longrightarrow> split_on d seg = [seg]"
  by (induction seg) auto

lemma path_of_strtok: "path_of segs s \<Longrightarrow> segs = strtok (CHR ''/'') s"
proof (induction rule: path_of.induct)
  case (path_segment seg s segs)
  show ?case
  proof (cases s)
    case Nil
    with path_segment show ?thesis by (simp add: strtok_def split_on_one)
  next
    case (Cons c r)
    with path_segment have "s = CHR ''/'' # r" by simp
    with path_segment show ?thesis by (simp add: strtok_def split_on_stop)
  qed
qed (simp_all add: strtok_def)

lemma strtok_path_of: "path_of (strtok (CHR ''/'') s) s"
proof (induction "length s" arbitrary: s rule: less_induct)
  case less
  let ?seg = "takeWhile (\<lambda>c. c \<noteq> CHR ''/'') s" and ?rest = "dropWhile (\<lambda>c. c \<noteq> CHR ''/'') s"
  have seg: "CHR ''/'' \<notin> set ?seg" by (auto dest: set_takeWhileD)
  have s: "s = ?seg @ ?rest" by simp
  show ?case
  proof (cases ?rest)
    case Nil
    then have n: "CHR ''/'' \<notin> set s" unfolding dropWhile_eq_Nil_conv by blast
    then have one: "strtok (CHR ''/'') s = (if s = [] then [] else [s])" by (simp add: strtok_def split_on_one)
    show ?thesis
    proof (cases "s = []")
      case False
      with path_segment [OF False n, of "[]" "[]"] path_end one show ?thesis by simp
    qed (use one path_end in simp)
  next
    case (Cons c r)
    then have c: "c = CHR ''/''" using hd_dropWhile [of "\<lambda>c. c \<noteq> CHR ''/''" s] by auto
    with s Cons have sr: "s = ?seg @ CHR ''/'' # r" by simp
    have r: "path_of (strtok (CHR ''/'') r) r" by (rule less) (subst sr, simp)
    have st: "strtok (CHR ''/'') s = (if ?seg = [] then strtok (CHR ''/'') r else ?seg # strtok (CHR ''/'') r)"
      by (subst (1) sr) (simp add: strtok_def split_on_stop [OF seg])
    show ?thesis
    proof (cases "?seg = []")
      case True
      with st sr path_slash [OF r] show ?thesis by simp
    next
      case False
      with st sr path_segment [OF False seg _ path_slash [OF r]] show ?thesis by simp
    qed
  qed
qed

lemma path_of_iff: "path_of segs (take 1023 s) \<longleftrightarrow> segs = segments s"
  using path_of_strtok strtok_path_of by (auto simp: segments_def)

lemma param_name_Some: "param_name p = Some n \<longleftrightarrow> (\<exists>name. p = ''{'' @ name @ ''}'' \<and> n = take 127 name)"
proof
  assume n: "param_name p = Some n"
  then have p: "2 \<le> length p" "hd p = CHR ''{''" "last p = CHR ''}''" "n = take 127 (take (length p - 2) (tl p))"
    by (auto simp: param_name_def split: if_splits)
  then obtain t where t: "p = CHR ''{'' # t" "t \<noteq> []" by (cases p; cases "tl p") auto
  then have "t = butlast t @ ''}''" using p(3) by (metis append_butlast_last_id last_ConsR)
  moreover have "butlast t = take (length p - 2) (tl p)" using t by (simp add: butlast_conv_take)
  ultimately show "\<exists>name. p = ''{'' @ name @ ''}'' \<and> n = take 127 name" using t(1) p(4) by auto
qed (auto simp: param_name_def simp del: take_take)

lemma param_name_None: "param_name p = None \<longleftrightarrow> (\<forall>name. p \<noteq> ''{'' @ name @ ''}'')"
proof (cases "param_name p")
  case None
  then have "\<nexists>n. param_name p = Some n" by simp
  then have "\<forall>name. p \<noteq> ''{'' @ name @ ''}''" unfolding param_name_Some by blast
  with None show ?thesis by simp
next
  case (Some n)
  with param_name_Some [of p n] show ?thesis by auto
qed

lemma pattern_fits_iff: "pattern_fits ps ss es \<longleftrightarrow> segments_match ps ss \<and> es = segment_params ps ss"
proof
  assume "pattern_fits ps ss es"
  then show "segments_match ps ss \<and> es = segment_params ps ss"
  proof (induction rule: pattern_fits.induct)
    case (fits_same seg ps ss es)
    then have "param_name seg = None" by (simp add: param_name_None)
    with fits_same show ?case by (simp add: segments_match_def segment_params_def map_filter_simps)
  next
    case (fits_param ps ss es name seg)
    have "param_name (''{'' @ name @ ''}'') = Some (take 127 name)" unfolding param_name_Some by blast
    with fits_param show ?case by (simp add: segments_match_def segment_params_def map_filter_simps)
  qed (simp add: segments_match_def segment_params_def map_filter_simps)
next
  assume "segments_match ps ss \<and> es = segment_params ps ss"
  then have "list_all2 (\<lambda>p s. param_name p \<noteq> None \<or> p = s) ps ss" "es = segment_params ps ss"
    by (simp_all add: segments_match_def)
  then show "pattern_fits ps ss es"
  proof (induction ps ss arbitrary: es rule: list_all2_induct)
    case Nil
    then show ?case by (simp add: segment_params_def map_filter_simps fits_end)
  next
    case (Cons p ps s ss)
    show ?case
    proof (cases "param_name p")
      case None
      with Cons param_name_None [of p] fits_same [of p ps ss "segment_params ps ss"] show ?thesis
        by (simp add: segment_params_def map_filter_simps)
    next
      case (Some n)
      then obtain name where "p = ''{'' @ name @ ''}''" "n = take 127 name" by (auto simp: param_name_Some)
      with Some Cons fits_param [of ps ss "segment_params ps ss" name s] show ?thesis
        by (simp add: segment_params_def map_filter_simps)
    qed
  qed
qed

lemma find_mapped: "find P (map f xs) = map_option f (find (P \<circ> f) xs)"
  by (induction xs) auto

lemma find_last:
  "case find P (rev xs) of None \<Rightarrow> \<forall>x \<in> set xs. \<not> P x
   | Some x \<Rightarrow> \<exists>before after. xs = before @ x # after \<and> P x \<and> (\<forall>y \<in> set after. \<not> P y)"
proof (induction xs rule: rev_induct)
  case (snoc y xs)
  show ?case
  proof (cases "P y")
    case True
    then have "xs @ [y] = xs @ y # [] \<and> P y \<and> (\<forall>z \<in> set []. \<not> P z)" by simp
    with True show ?thesis unfolding rev_append by (simp, blast)
  next
    case False
    with snoc show ?thesis
      by (auto split: option.splits) (metis Un_iff append.assoc append_Cons empty_iff empty_set insert_iff list.simps(15) set_append)
  qed
qed simp

definition registered :: "string \<times> string \<times> val \<Rightarrow> Route" where
  "registered reg = \<lparr>rt_method = map toupper_c (fst reg), rt_pattern = fst (snd reg), rt_handler = snd (snd reg)\<rparr>"

lemma register_routes:
  "hw_routes (fold (\<lambda>(m, pattern, h). http_server_route m pattern h) regs w) = rev (map registered regs) @ hw_routes w"
  by (induction regs arbitrary: w) (auto simp: http_server_route_def registered_def)

lemma tolower_toupper: "tolower_c (toupper_c c) = tolower_c c"
proof -
  have "code (char_of (code c - 32)) = code c - 32" if "code c \<le> 122"
    using that by (simp add: code_def)
  then show ?thesis by (auto simp: tolower_c_def toupper_c_def) (simp add: code_def)
qed

lemma serves_route:
  "(\<exists>es. serves http_method path reg es) \<longleftrightarrow> route_fits http_method path (registered reg)"
  "serves http_method path reg es \<Longrightarrow> es = segment_params (segments (fst (snd reg))) (segments path)"
  by (auto simp: serves_def route_fits_def registered_def path_of_iff pattern_fits_iff strcasecmp_eq_def
      tolower_toupper o_def)

text \<open>
  C21. Of the routes that a script has registered, in the order \<open>regs\<close>, a request goes to the one that was
  registered last among those that serve it: those with its method, in capitals or not, and with a pattern that
  fits its path, as many segments, empty ones not counted, and each of them a parameter or equal.  The
  parameters that the handler sees are the segments of the path at their places, the last one where a name
  occurs twice; no other object of the script is changed by the search.
\<close>

theorem match_route_spec:
  assumes "params < length (st_datas st)" "data_at st params = []" "hw_routes w = []"
    "match_route (hw_routes (fold (\<lambda>(m, pattern, h). http_server_route m pattern h) regs w)) http_method path params st = (r, st')"
  shows "(case r of
      None \<Rightarrow> (\<forall>reg \<in> set regs. \<forall>es. \<not> serves http_method path reg es) \<and>
        (\<forall>name. value_data_get st' params name = None)
    | Some route \<Rightarrow> \<exists>before m pattern h after es. regs = before @ (m, pattern, h) # after \<and>
        rt_pattern route = pattern \<and> rt_handler route = h \<and> serves http_method path (m, pattern, h) es \<and>
        (\<forall>reg \<in> set after. \<forall>es. \<not> serves http_method path reg es) \<and>
        (\<forall>name. value_data_get st' params name = map_option V_STRING (map_of (rev es) name))) \<and>
    (\<forall>d < length (st_datas st). d \<noteq> params \<longrightarrow> data_at st' d = data_at st d)"
proof -
  note m = match_route_result [OF assms(1,4)]
  have empty: "data_map st params = Map.empty" using assms(2) by (simp add: data_map_def)
  have r: "r = map_option registered (find (route_fits http_method path \<circ> registered) (rev regs))"
    using m by (simp add: register_routes assms(3) rev_map find_mapped)
  note last = find_last [where P = "route_fits http_method path \<circ> registered" and xs = regs]
  show ?thesis
  proof (cases "find (route_fits http_method path \<circ> registered) (rev regs)")
    case None
    with r m empty last show ?thesis
      by (auto simp: value_data_get_def data_map_def [symmetric] serves_route(1) [symmetric])
  next
    case (Some reg)
    obtain before after where split: "regs = before @ reg # after" "route_fits http_method path (registered reg)"
      "\<forall>reg \<in> set after. \<not> route_fits http_method path (registered reg)" using last Some by auto
    from split(2) obtain es where es: "serves http_method path reg es" using serves_route(1) by blast
    have "value_data_get st' params name = map_option V_STRING (map_of (rev es) name)" for name
      using m empty r Some serves_route(2) [OF es]
      by (simp add: value_data_get_def data_map_def [symmetric] map_of_strings registered_def)
    moreover obtain m0 pattern h where reg: "reg = (m0, pattern, h)" by (cases reg)
    moreover have "\<forall>reg \<in> set after. \<forall>es. \<not> serves http_method path reg es"
      using split(3) serves_route(1) by blast
    ultimately have "\<exists>before m pattern h after es. regs = before @ (m, pattern, h) # after \<and>
        rt_pattern (registered reg) = pattern \<and> rt_handler (registered reg) = h \<and>
        serves http_method path (m, pattern, h) es \<and>
        (\<forall>reg \<in> set after. \<forall>es. \<not> serves http_method path reg es) \<and>
        (\<forall>name. value_data_get st' params name = map_option V_STRING (map_of (rev es) name))"
      using split(1) es unfolding registered_def by (intro exI conjI) auto
    with r Some m show ?thesis by simp
  qed
qed

definition no_routes :: http_world where
  "no_routes = \<lparr>hw_routes = [], hw_listen_fd = 3, hw_listening = 1, hw_send = (\<lambda>_. []), hw_sent = (\<lambda>_. []),
     hw_closed_fds = [], hw_stderr = []\<rparr>"

definition two_routes :: "(string \<times> string \<times> val) list" where
  "two_routes = [(''GET'', ''/{kind}/me'', V_FUNC 0), (''get'', ''/users/{id}'', V_FUNC 1)]"

lemma match_route_spec_witness:
  "\<exists>r st'. match_route (hw_routes (fold (\<lambda>(m, pattern, h). http_server_route m pattern h) two_routes no_routes))
       ''GET'' ''//users/me/'' 0 (empty_store\<lparr>st_datas := [[]]\<rparr>) = (Some r, st') \<and>
     rt_handler r = V_FUNC 1 \<and> value_data_get st' 0 ''id'' = Some (V_STRING ''me'')"
proof -
  let ?routes = "hw_routes (fold (\<lambda>(m, pattern, h). http_server_route m pattern h) two_routes no_routes)"
  obtain r st' where run: "match_route ?routes ''GET'' ''//users/me/'' 0 (empty_store\<lparr>st_datas := [[]]\<rparr>) = (r, st')"
    by fastforce
  have f: "map_option rt_handler (fst (match_route ?routes ''GET'' ''//users/me/'' 0 (empty_store\<lparr>st_datas := [[]]\<rparr>))) = Some (V_FUNC 1)"
    "segment_params (segments ''/users/{id}'') (segments ''//users/me/'') = [(''id'', ''me'')]" by code_simp+
  have w: "hw_routes no_routes = []" by (simp add: no_routes_def)
  from f(1) run obtain route where "r = Some route" "rt_handler route = V_FUNC 1" by auto
  with match_route_spec [OF _ _ w run] obtain before m pattern after es where
    split: "two_routes = before @ (m, pattern, V_FUNC 1) # after" "serves ''GET'' ''//users/me/'' (m, pattern, V_FUNC 1) es"
    and get: "\<And>name. value_data_get st' 0 name = map_option V_STRING (map_of (rev es) name)"
    by (auto simp: data_at_def entry_at_def)
  from split(1) have "pattern = ''/users/{id}''" by (cases before) (auto simp: two_routes_def Cons_eq_append_conv)
  with serves_route(2) [OF split(2)] f(2) get [of "''id''"] run \<open>r = Some route\<close> \<open>rt_handler route = V_FUNC 1\<close>
  show ?thesis by auto
qed

lemma http_request_roundtrip_witness:
  "\<exists>header_end b rs'. read_request [Received (take 9 (request_text ''POST'' ''h:1'' ''/a?b=1'' (Some ''[1]''))), Recv_again,
       Received (drop 9 (request_text ''POST'' ''h:1'' ''/a?b=1'' (Some ''[1]'')))] buf_init = Some (header_end, b, rs') \<and>
     rq_body (snd (parse_request (b_data b) header_end)) = ''[1]''"
proof -
  have "request_ok ''POST'' ''h:1'' ''/a?b=1'' (Some ''[1]'')"
    by (simp add: request_ok_def token_ok_def isspace_def code_def header_ok_def request_text_def show_nat.simps digit_char_def)
  from http_request_roundtrip [OF this, of "[Received (take 9 (request_text ''POST'' ''h:1'' ''/a?b=1'' (Some ''[1]''))), Recv_again,
       Received (drop 9 (request_text ''POST'' ''h:1'' ''/a?b=1'' (Some ''[1]'')))]"]
  show ?thesis by (auto simp: request_text_def)
qed

lemma http_response_roundtrip_witness:
  "\<exists>header_end b r. read_response [Received (response_text 404 [(''A'', ''x'')] ''no''), Peer_closed] buf_init = Some (header_end, b) \<and>
     parse_response (b_data b) header_end = Some r \<and> rs_status r = 404 \<and> rs_body r = ''no''"
proof -
  have k: "strcasecmp_eq ''A'' ''Content-Length'' = False" by code_simp
  have "response_ok 404 [(''A'', ''x'')] ''no''"
    by (simp add: response_ok_def header_ok_def to_header_def k response_text_def header_line_def show_int_def show_nat.simps
        status_text_def)
  from http_response_roundtrip [OF this, of "[Received (response_text 404 [(''A'', ''x'')] ''no''), Peer_closed]"]
  show ?thesis by (auto simp: response_text_def)
qed

section \<open>After a runtime error\<close>

text \<open>A call of a handler in a state that has an error leaves the data of the script as they are.\<close>

lemma st_datas_env: "st_datas (env_define e x v fx st) = st_datas st" "st_datas (snd (env_new p st)) = st_datas st"
  by (simp_all add: env_define_def set_entries_def env_new_def)

lemma st_datas_bind_params: "st_datas (bind_params e ps vs st) = st_datas st"
  by (induction e ps vs st rule: bind_params.induct) (simp_all add: st_datas_env)

lemma st_datas_hoist_funs: "st_datas (hoist_funs ss e st) = st_datas st"
proof -
  have "st_datas (hoist_fun e st s) = st_datas st" for s st
    by (cases "(e, st, s)" rule: hoist_fun.cases) (simp_all add: st_datas_env new_func_def)
  then show ?thesis unfolding hoist_funs_def by (induction ss arbitrary: st) simp_all
qed

lemma st_datas_hoist_classes: "st_datas (hoist_classes ss e st) = st_datas st"
proof -
  have "st_datas (hoist_class e st s) = st_datas st" for s st
    by (cases "(e, st, s)" rule: hoist_class.cases) (simp_all add: st_datas_env)
  then have 1: "st_datas (foldl (hoist_class e) st ss) = st_datas st" for st by (induction ss arbitrary: st) simp_all
  have "st_datas (link_parent e st s) = st_datas st" for s st
    by (cases "(e, st, s)" rule: link_parent.cases) (auto split: option.split val.split)
  then have "st_datas (foldl (link_parent e) st ss) = st_datas st" for st by (induction ss arbitrary: st) simp_all
  with 1 show ?thesis by (simp add: hoist_classes_def)
qed

definition same_datas :: "'w interp \<Rightarrow> 'w interp \<Rightarrow> bool" where
  "same_datas it it' \<longleftrightarrow> st_datas (it_store it') = st_datas (it_store it) \<and> it_world it' = it_world it \<and>
     (it_had_runtime_error it \<longrightarrow> it_had_runtime_error it')"

lemma exec_seq_error: "it_had_runtime_error it \<Longrightarrow> exec_seq (exec_stmt (Suc n) sys) ss env it = Some (SIG_NONE, it)"
  by (cases ss) simp_all

lemma invoke_error:
  assumes "it_had_runtime_error it"
  shows "\<exists>v it'. interp_invoke_closure (exec_stmt (Suc n) sys) f vs it = Some (v, it') \<and> same_datas it it'"
  using assms
  by (cases f) (auto simp: interp_invoke_closure_def void_error_def rt_error_def same_datas_def invoke_in_def exec_block_def
      alloc_def on_store_def exec_seq_error st_datas_bind_params st_datas_hoist_funs st_datas_hoist_classes st_datas_env
      case_prod_beta Let_def)

lemma status_200: "dbl_to_llong (value_as_number (V_NUM 200)) = Some 200"
proof -
  have "bitlen 200 = 8" "bitlen 1 = 1" by (simp_all add: bitlen.simps)
  then have "floor_log2 200 1 = 7" by (simp add: floor_log2_def scale2_def)
  moreover have "sint (200 :: llong) = 200" by simp
  ultimately show ?thesis
    by (simp add: llong_to_dbl_def dbl_of_int_def dround_def scale2_def div_rne_def dbl_to_llong_def LLONG_MIN_def
        LLONG_MAX_def Double_Ops.signed_def)
qed

definition empty_answer :: string where
  "empty_answer = ''HTTP/1.1 200 OK'' @ CRLF @ ''Content-Length: 0'' @ CRLF @ ''Connection: close'' @ CRLF @ CRLF"

lemma empty_answer_text: "response_text 200 [] [] = empty_answer"
  by code_simp

lemma make_response_datas:
  "\<exists>es. snd (http_make_response st) = st\<lparr>st_datas := st_datas st @ [es, []]\<rparr> \<and> map_of es ''__status'' = Some (V_NUM 200) \<and>
     map_of es ''__body'' = Some (V_STRING []) \<and> map_of es ''__headers'' = Some (V_DATA (Suc (length (st_datas st))))"
  by (rule exI [of _ "[(''__headers'', V_DATA (Suc (length (st_datas st)))), (''__body'', V_STRING []), (''__status'', V_NUM 200),
      (''__is_response__'', V_BOOL True)]"])
    (simp add: http_make_response_def value_data_empty_def value_data_set_def data_at_def entry_at_def Let_def
      nth_append list_update_append)

lemma answer_fresh:
  assumes "same_datas (it\<lparr>it_store := snd (http_make_response st)\<rparr>) it'"
  shows "\<exists>it''. http_answer n (length (st_datas st)) it' = Some (Some empty_answer, it'') \<and> it_world it'' = it_world it"
proof -
  obtain es where es: "snd (http_make_response st) = st\<lparr>st_datas := st_datas st @ [es, []]\<rparr>"
    "map_of es ''__status'' = Some (V_NUM 200)" "map_of es ''__body'' = Some (V_STRING [])"
    "map_of es ''__headers'' = Some (V_DATA (Suc (length (st_datas st))))"
    using make_response_datas by blast
  have d: "st_datas (it_store it') = st_datas st @ [es, []]" and w: "it_world it' = it_world it"
    using assms es(1) by (simp_all add: same_datas_def)
  have "data_at (it_store it') (length (st_datas st)) = es" "data_at (it_store it') (Suc (length (st_datas st))) = []"
    by (simp_all add: data_at_def entry_at_def d nth_append)
  then show ?thesis
    using es status_200 w by (simp add: http_answer_def value_data_get_def to_llong_def Let_def empty_answer_text safe_str_def)
qed

text \<open>
  C39. One runtime error silences a server.  Once the error flag of the interpreter is set, by the script, a
  timer or an earlier request, a request for any route is answered with status 200 and an empty body, whatever
  its handler does: the flag is never cleared, and no statement is executed while it is set.
\<close>

theorem error_silences_server:
  assumes "it_had_runtime_error it" "find (route_fits (rq_method req) (rq_path req)) (hw_routes (it_world it)) \<noteq> None"
    "hw_send (it_world it) fd = [Sent (length empty_answer)]"
  shows "\<exists>it'. serve_request n (http_invoker (Suc k) net_listen net_connect base) fd req it = Some ((), it') \<and>
    hw_sent (it_world it') fd = hw_sent (it_world it) fd @ empty_answer \<and> it_had_runtime_error it'"
proof -
  define invoke where "invoke = http_invoker (Suc k) net_listen net_connect base"
  let ?params = "length (st_datas (it_store it))"
  let ?it1 = "on_store (\<lambda>st. snd (value_data_empty st)) it"
  obtain route st1 where m: "match_route (hw_routes (it_world it)) (rq_method req) (rq_path req) ?params (it_store ?it1) = (route, st1)"
    by (cases "match_route (hw_routes (it_world it)) (rq_method req) (rq_path req) ?params (it_store ?it1)")
  have "?params < length (st_datas (it_store ?it1))" by (simp add: on_store_def value_data_empty_def)
  from match_route_result [OF this m] assms(2) obtain r where r: "route = Some r" by auto
  obtain rv st2 where q: "request_value req ?params st1 = (rv, st2)" by (cases "request_value req ?params st1")
  let ?it3 = "it\<lparr>it_store := snd (http_make_response st2)\<rparr>"
  have "it_had_runtime_error ?it3" using assms(1) by simp
  from invoke_error [OF this, of k "http_sys (Suc k) net_listen net_connect base" "rt_handler r" "[rv, V_DATA (length (st_datas st2))]"]
  obtain v it4 where i: "invoke (rt_handler r) [rv, V_DATA (length (st_datas st2))] ?it3 = Some (v, it4)" "same_datas ?it3 it4"
    by (auto simp: invoke_def http_invoker_def)
  from answer_fresh [OF i(2)] obtain it5
    where a: "http_answer n (length (st_datas st2)) it4 = Some (Some empty_answer, it5)" "it_world it5 = it_world it" by blast
  have e5: "it_had_runtime_error it5"
    using a(1) i(2) assms(1) by (auto simp: http_answer_def same_datas_def to_llong_def undefined_behaviour_def
        split: option.splits val.splits bind_splits)
  have "net_write_all [Sent (length x)] s x = Some (0, s @ x, [])" if "x \<noteq> []" for x s
    using that by (cases x) simp_all
  moreover have "empty_answer \<noteq> []" by (simp add: empty_answer_def)
  ultimately have w: "net_write_all (hw_send (it_world it) fd) (hw_sent (it_world it) fd) empty_answer =
      Some (0, hw_sent (it_world it) fd @ empty_answer, [])"
    using assms(3) by simp
  have m': "match_route (hw_routes (it_world it)) (rq_method req) (rq_path req) ?params
      (snd (value_data_empty (it_store it))) = (Some r, st1)" using m r by (simp add: on_store_def)
  show ?thesis
    using i a w q e5
    by (simp add: serve_request_def invoke_def [symmetric] alloc_def on_store_def m' Let_def
        http_write_def http_close_def on_world_def)
qed

text \<open>A server with one route, in the state that an error leaves.\<close>

definition failed_server :: "http_world interp" where
  "failed_server = rt_error 7 ''list index out of range'' (interp_init []
     \<lparr>hw_routes = [\<lparr>rt_method = ''GET'', rt_pattern = ''/'', rt_handler = V_FUNC 0\<rparr>], hw_listen_fd = 3, hw_listening = 1,
      hw_send = (\<lambda>_. [Sent (length empty_answer)]), hw_sent = (\<lambda>_. []), hw_closed_fds = [], hw_stderr = []\<rparr>)"

lemma error_silences_server_witness:
  "\<exists>it'. serve_request 3 (http_invoker 4 (\<lambda>_. 3) (\<lambda>_ _. None) offline) 7
      (empty_request\<lparr>rq_method := ''GET'', rq_path := ''/''\<rparr>) failed_server = Some ((), it') \<and>
    hw_sent (it_world it') 7 = empty_answer"
proof -
  have w: "it_had_runtime_error failed_server" "hw_routes (it_world failed_server) = [\<lparr>rt_method = ''GET'', rt_pattern = ''/'', rt_handler = V_FUNC 0\<rparr>]"
    "hw_send (it_world failed_server) 7 = [Sent (length empty_answer)]" "hw_sent (it_world failed_server) 7 = []"
    by (simp_all add: failed_server_def rt_error_def interp_init_def env_new_def)
  have "route_fits ''GET'' ''/'' \<lparr>rt_method = ''GET'', rt_pattern = ''/'', rt_handler = V_FUNC 0\<rparr>" by code_simp
  then have "find (route_fits ''GET'' ''/'') (hw_routes (it_world failed_server)) \<noteq> None" by (simp add: w(2))
  with error_silences_server [OF w(1), of "empty_request\<lparr>rq_method := ''GET'', rq_path := ''/''\<rparr>" 7 3 3] w(3,4)
  show ?thesis by fastforce
qed

end
