(* ===== verification/Driver.thy ===== *)
theory Driver
  imports Parser Typecheck Typecheck_Clean Formatter Linter Big_Step Event_Loop
begin

text \<open>
  The command line: \<^verbatim>\<open>src/main.c\<close>.  The arguments are those after the name of the program.  Files are
  a parameter: what can be read, and what can be opened for writing.  What the program writes is a list of
  outputs, in which the messages of the parser and of the checker are kept as they are.
\<close>

section \<open>The world of the program\<close>

datatype emitted = Out string | Err string | Parse_message "nat \<times> string \<times> string" | Type_message "nat \<times> tc_msg"
  | Wrote string string

datatype outcome = Exits int "emitted list" | Runs_on "emitted list"

record file_system =
  fs_read :: "string \<Rightarrow> string option"
  fs_writable :: "string \<Rightarrow> bool"

text \<open>
  What a script runs with: the bound on the depth of its recursion, the system it calls, its standard
  input, the reactor, and the event loop, for which there is \<open>serve_from\<close> below.
\<close>

record runner =
  rn_fuel :: nat
  rn_sys :: "reactor sys"
  rn_input :: string
  rn_reactor :: reactor
  rn_loop :: "reactor interp \<Rightarrow> reactor interp option"

text \<open>
  The event loop of \<open>Event_Loop\<close> from the end of the script on; the coroutines of the servers that
  the script has started are \<open>es\<close>, each of which waits for its socket first.
\<close>

fun start_coros :: "'t backend \<Rightarrow> 'c co_code \<Rightarrow> nat \<Rightarrow> 'c list \<Rightarrow> ('c, 't) loop_act" where
  "start_coros bk prog n [] s = Inr s"
| "start_coros bk prog n (e # es) s =
     (let (i, s) = coro_create e 0 s
      in case coro_resume bk (run_coro bk prog n) i s of Inl e \<Rightarrow> Inl e | Inr s \<Rightarrow> start_coros bk prog n es s)"

definition serve_from ::
  "'t backend \<Rightarrow> 't \<Rightarrow> 'c co_code \<Rightarrow> reactor_invoker \<Rightarrow> nat \<Rightarrow> 'c list \<Rightarrow> poll_result list \<Rightarrow>
    reactor interp \<Rightarrow> reactor interp option" where
  "serve_from bk t prog invoke n es ps it =
     (case start_coros bk prog n es (loop_start t it) of
        Inl e \<Rightarrow> None
      | Inr s \<Rightarrow> (case reactor_run bk prog invoke n ps s of Inl e \<Rightarrow> None | Inr s \<Rightarrow> Some (lp_interp s)))"

section \<open>Running a source\<close>

definition text_line :: "string \<Rightarrow> string" where
  "text_line s = s @ [NL]"

definition read_file :: "file_system \<Rightarrow> string \<Rightarrow> string option" where
  "read_file fs path = map_option cstr (fs_read fs path)"

definition run_source :: "runner \<Rightarrow> string \<Rightarrow> string \<Rightarrow> bool \<Rightarrow> bool \<Rightarrow> (int \<times> emitted list \<times> runner) option" where
  "run_source rn source filename typecheck_only enter_reactor = do {
     pr \<leftarrow> parse_program source (Some filename);
     let out = map Parse_message (pr_log pr);
     if pr_had_error pr then Some (2, out @ [Err (text_line (filename @ '': parsing failed''))], rn)
     else do {
       (errs, log) \<leftarrow> typecheck_program (pr_stmts pr) (Some filename);
       let out = out @ map Type_message log;
       if 0 < errs then Some (3, out @ [Err (text_line (filename @ '': '' @ show_nat errs @ '' type error(s)''))], rn)
       else if typecheck_only
       then Some (0, out @ [Out (text_line (filename @ '': OK (lex + parse + typecheck passed)''))], rn)
       else do {
         ((rc, msg), it) \<leftarrow> interp_run (rn_fuel rn) (rn_sys rn) (pr_stmts pr) (interp_init (rn_input rn) (rn_reactor rn));
         it' \<leftarrow> (if enter_reactor \<and> reactor_has_work (it_world it) then rn_loop rn it else Some it);
         Some (int rc, out @ [Out (it_out it), Err msg, Out (drop (length (it_out it)) (it_out it'))],
               rn\<lparr>rn_input := it_in it', rn_reactor := it_world it'\<rparr>)
       }
     }
   }"

text \<open>
  \<^verbatim>\<open>run_live\<close> never returns.  What the static variables and the standard input are after one run is
  what the next one starts with.  Each look at the file is the time of its last change, 0 if it cannot be
  found, and its contents.
\<close>

fun run_live :: "runner \<Rightarrow> string \<Rightarrow> (int \<times> string option) list \<Rightarrow> int \<Rightarrow> emitted list option" where
  "run_live rn path [] seen_at = Some []"
| "run_live rn path ((m, found) # looks) seen_at =
     (if m \<noteq> 0 \<and> m \<noteq> seen_at then do {
        (out, rn) \<leftarrow> (case found of
                        None \<Rightarrow> Some ([Err (text_line (''jag: could not read '' @ in_quotes path))], rn)
                      | Some src \<Rightarrow>
                          map_option (\<lambda>(rc, out, rn). (Out (text_line (''--- reload: '' @ path @ '' ---'')) # out, rn))
                            (run_source rn (cstr src) path False False));
        map_option ((@) out) (run_live rn path looks m)
      }
      else run_live rn path looks seen_at)"

section \<open>The commands\<close>

definition JAG_VERSION :: string where "JAG_VERSION = ''1.1.0''"

definition usage :: string where
  "usage = concat (map text_line
     [''jag - Jaguar language toolchain (v'' @ JAG_VERSION @ '')'',
      [],
      ''Usage:'',
      ''  jag <file.jag>            compile+run once (interpreter backend)'',
      ''  jag run <file.jag>        same, explicit'',
      ''  jag init [project_name]   initialize a new Jaguar project'',
      ''  jag check <file.jag>      lex + parse + typecheck only'',
      ''  jag lint [file.jag]       static code linting'',
      ''  jag fmt [file.jag]        format Jaguar source file(s)'',
      ''  jag test                  run test suite'',
      ''  jag clean                 clean build artifacts'',
      ''  jag build <file.jag>      ahead-of-time native compile'',
      ''  jag -live=1 <file.jag>    live-reload mode'',
      ''  jag --version             print version'',
      ''  jag --language-version    print supported language version (1.1)'',
      ''  jag --help                show this help''])"

definition cmd_init :: "file_system \<Rightarrow> string list \<Rightarrow> outcome" where
  "cmd_init fs args =
     (let pname = (case args of a # _ \<Rightarrow> a | [] \<Rightarrow> ''my_jaguar_app'')
      in if fs_writable fs ''jaguar.toml''
         then Exits 0 [Wrote ''jaguar.toml''
                (text_line ''[project]'' @ text_line (''name = '' @ quoted pname) @ text_line (''version = '' @ quoted ''1.1.0'') @
                 text_line (''entry = '' @ quoted ''src/main.jag'') @ text_line (''language = '' @ quoted ''1.1'')),
                Out (text_line (''Initialized Jaguar project '' @ in_quotes pname @ '' (jaguar.toml)''))]
         else Exits 1 [Err (text_line ''jag init: failed to create jaguar.toml'')])"

fun fmt_args :: "string list \<Rightarrow> bool \<Rightarrow> bool \<Rightarrow> string option \<Rightarrow> bool \<times> bool \<times> string option" where
  "fmt_args [] check_only write_in_place fpath = (check_only, write_in_place, fpath)"
| "fmt_args (a # args) check_only write_in_place fpath =
     (if a = ''--check'' then fmt_args args True write_in_place fpath
      else if a = ''--write'' \<or> a = ''-w'' then fmt_args args check_only True fpath
      else fmt_args args check_only write_in_place (Some a))"

definition cmd_fmt :: "file_system \<Rightarrow> string list \<Rightarrow> outcome" where
  "cmd_fmt fs args =
     (case fmt_args args False False None of
        (check_only, write_in_place, None) \<Rightarrow> Exits 1 [Err (text_line ''jag fmt: no input file provided'')]
      | (check_only, write_in_place, Some fpath) \<Rightarrow>
          (let (rc, out, written) = jag_fmt_file fpath (fs_read fs fpath) (fs_writable fs fpath) check_only write_in_place
                 \<lparr>indent_width = 4, use_tabs = False\<rparr>
           in Exits (int rc) ((case written of None \<Rightarrow> [] | Some s \<Rightarrow> [Wrote fpath s]) @ [Out out])))"

fun lint_args :: "string list \<Rightarrow> bool \<Rightarrow> bool \<Rightarrow> string option \<Rightarrow> bool \<times> bool \<times> string option" where
  "lint_args [] json_format fix_flag fpath = (json_format, fix_flag, fpath)"
| "lint_args (a # args) json_format fix_flag fpath =
     (if a = ''--format=json'' then lint_args args True fix_flag fpath
      else if a = ''--fix'' then lint_args args json_format True fpath
      else lint_args args json_format fix_flag (Some a))"

definition cmd_lint :: "file_system \<Rightarrow> string list \<Rightarrow> outcome option" where
  "cmd_lint fs args =
     (case lint_args args False False None of
        (json_format, fix_flag, None) \<Rightarrow> Some (Exits 1 [Err (text_line ''jag lint: no input file provided'')])
      | (json_format, fix_flag, Some fpath) \<Rightarrow>
          (case read_file fs fpath of
             None \<Rightarrow> Some (Exits 1 [Err (text_line (''jag lint: cannot read '' @ in_quotes fpath))])
           | Some src \<Rightarrow> do {
               pr \<leftarrow> parse_program src (Some fpath);
               let out = map Parse_message (pr_log pr);
               if pr_had_error pr then Some (Exits 2 out)
               else (case lint_program (pr_stmts pr) (Some fpath) (Some diag_bag_init, diag_bag_init) fix_flag of
                       (_, Some bag, _) \<Rightarrow>
                         Some (Exits (if 0 < db_error_count bag then 1 else 0)
                           (out @ [if json_format then Out (diag_print_json bag) else Err (diag_print_terminal bag)]))
                     | _ \<Rightarrow> Some (Exits 0 out))
             }))"

definition cmd_build :: outcome where
  "cmd_build = Exits 4
     [Err (text_line ''jag build: the native/AOT C backend is not implemented in this build.'' @
           text_line ''See DESIGN_DECISIONS.md for the planned transpile-to-C99 + libjagrt design;'' @
           text_line (''for now, use '' @ in_quotes ''jag run <file.jag>'' @ '' (interpreter backend).''))]"

text \<open>The words of a command line that runs a script: the last one that is none of these is the file.\<close>

fun file_args :: "string list \<Rightarrow> string option \<Rightarrow> bool \<Rightarrow> bool \<Rightarrow> string option \<times> bool \<times> bool" where
  "file_args [] file is_check is_live = (file, is_check, is_live)"
| "file_args (a # args) file is_check is_live =
     (if a = ''run'' then file_args args file is_check is_live
      else if a = ''check'' then file_args args file True is_live
      else if take 5 a = ''-live'' then file_args args file is_check True
      else file_args args (Some a) is_check is_live)"

definition cmd_run :: "runner \<Rightarrow> file_system \<Rightarrow> (int \<times> string option) list \<Rightarrow> string list \<Rightarrow> outcome option" where
  "cmd_run rn fs looks args =
     (case file_args args None False False of
        (None, is_check, is_live) \<Rightarrow> Some (Exits 1 [Err (text_line ''jag: no input file''), Out usage])
      | (Some file, is_check, is_live) \<Rightarrow>
          (if is_live
           then map_option (\<lambda>out. Runs_on
                  (Out (text_line (''jag: live mode - watching '' @ in_quotes file @ '' for changes (Ctrl+C to stop)'')) # out))
                  (run_live rn file looks 0)
           else (case read_file fs file of
                   None \<Rightarrow> Some (Exits 1 [Err (text_line (''jag: cannot read file '' @ in_quotes file))])
                 | Some src \<Rightarrow> map_option (\<lambda>(rc, out, rn). Exits rc out) (run_source rn src file is_check True))))"

definition jag_main :: "runner \<Rightarrow> file_system \<Rightarrow> (int \<times> string option) list \<Rightarrow> string list \<Rightarrow> outcome option" where
  "jag_main rn fs looks argv =
     (case argv of
        [] \<Rightarrow> Some (Exits 1 [Out usage])
      | cmd # args \<Rightarrow>
          (if cmd = ''--version'' \<or> cmd = ''-v'' then Some (Exits 0 [Out (text_line (''jag '' @ JAG_VERSION))])
           else if cmd = ''--language-version'' then Some (Exits 0 [Out (text_line ''1.1'')])
           else if cmd = ''init'' then Some (cmd_init fs args)
           else if cmd = ''clean'' then Some (Exits 0 [Out (text_line ''Cleaning build artifacts...'')])
           else if cmd = ''fmt'' then Some (cmd_fmt fs args)
           else if cmd = ''lint'' then cmd_lint fs args
           else if cmd = ''--help'' \<or> cmd = ''-h'' then Some (Exits 0 [Out usage])
           else if cmd = ''build'' then Some cmd_build
           else cmd_run rn fs looks argv))"

section \<open>Exit codes\<close>

text \<open>The files of an example: a program that is accepted, one with a type error, one with a syntax error.\<close>

definition example_files :: file_system where
  "example_files = \<lparr>fs_read = (\<lambda>f. if f = ''ok.jag'' then Some ''var x: num = 2;'' else if f = ''bad.jag'' then Some ''fixed x: num;''
     else if f = ''worse.jag'' then Some ''var x: num = ;'' else None), fs_writable = (\<lambda>_. False)\<rparr>"

definition example_runner :: runner where
  "example_runner = \<lparr>rn_fuel = 5, rn_sys = reactor_sys offline, rn_input = [],
     rn_reactor = \<lparr>rc_timers = [], rc_next_id = 1, rc_listening = 0, rc_clock = [0], rc_overflow = False\<rparr>, rn_loop = Some\<rparr>"

text \<open>
  The end of a script, by the rules of the language: its classes and functions are known from the start,
  its statements run in the global scope, and a file that is left open is closed.
\<close>

definition script_ends :: "'w sys \<Rightarrow> stmt list \<Rightarrow> 'w interp \<Rightarrow> 'w interp \<Rightarrow> bool" where
  "script_ends sys ss it it' \<longleftrightarrow>
     (\<exists>r it1. runs_seq sys ss (it_globals it)
        (on_store (hoist_funs ss (it_globals it)) (on_store (hoist_classes ss (it_globals it)) it)) r it1 \<and>
        file_close sys it1 = Some ((), it'))"

lemma interp_run_ends:
  assumes "interp_run n sys ss it = Some ((k, msg), it')"
  obtains it1 where "script_ends sys ss it it1" "k = (if it_had_runtime_error it1 then 1 else 0)"
proof -
  let ?it0 = "on_store (hoist_funs ss (it_globals it)) (on_store (hoist_classes ss (it_globals it)) it)"
  obtain r it1 it2 where s: "exec_seq (exec_stmt n sys) ss (it_globals it) ?it0 = Some (r, it1)"
    and c: "file_close sys it1 = Some ((), it2)" and k: "k = (if it_had_runtime_error it2 then 1 else 0)"
    using assms by (auto simp: interp_run_def on_store_def Let_def split: bind_splits if_splits)
  from tracked.exec_seq_runs [OF recursion_tracked s] c
  have "script_ends sys ss it it2" by (auto simp: script_ends_def)
  from this k show thesis by (rule that)
qed

text \<open>
  C20. Exit codes. Running or checking a source comes to one of four ends.  It is 2 exactly for a source that
  does not parse and 3 exactly for one with type errors; \<^verbatim>\<open>check\<close> ends with 0 otherwise.  A script that is run
  satisfies at every depth what the checker asks for, and comes to an end by the rules of the language; the
  code is 1 exactly if that end is a runtime error, and 0 exactly if it is not, whatever the event loop does
  afterwards.  Nothing of a source that is not clean, and nothing under \<^verbatim>\<open>check\<close>, is executed: the reactor and
  the input stay as they are.
\<close>

theorem run_source_gate:
  assumes "run_source rn source f typecheck_only enter_reactor = Some (rc, out, rn')"
  shows "\<exists>pr. parse_program source (Some f) = Some pr \<and>
    (rc = 2 \<longleftrightarrow> pr_had_error pr) \<and>
    (rc = 3 \<longleftrightarrow> \<not> pr_had_error pr \<and> (\<exists>errs log. typecheck_program (pr_stmts pr) (Some f) = Some (errs, log) \<and> 0 < errs)) \<and>
    (rc = 0 \<or> rc = 1 \<longrightarrow> list_all (wf_stmt (register_classes (pr_stmts pr))) (pr_stmts pr)) \<and>
    (\<not> typecheck_only \<and> (rc = 0 \<or> rc = 1) \<longrightarrow>
       (\<exists>it. script_ends (rn_sys rn) (pr_stmts pr) (interp_init (rn_input rn) (rn_reactor rn)) it \<and>
          (rc = 1 \<longleftrightarrow> it_had_runtime_error it))) \<and>
    rc \<in> {0, 1, 2, 3} \<and> (rc = 1 \<longrightarrow> \<not> typecheck_only) \<and> (rc = 2 \<or> rc = 3 \<or> typecheck_only \<longrightarrow> rn' = rn)"
proof -
  obtain pr where pr: "parse_program source (Some f) = Some pr"
    using assms by (auto simp: run_source_def split: bind_splits)
  show ?thesis
  proof (cases "pr_had_error pr")
    case True
    with assms pr show ?thesis by (auto simp: run_source_def Let_def)
  next
    case False
    then obtain errs log where tc: "typecheck_program (pr_stmts pr) (Some f) = Some (errs, log)"
      using assms pr by (auto simp: run_source_def Let_def split: bind_splits)
    show ?thesis
    proof (cases "0 < errs")
      case True
      with assms pr False tc show ?thesis by (auto simp: run_source_def Let_def)
    next
      case no: False
      then have wf: "list_all (wf_stmt (register_classes (pr_stmts pr))) (pr_stmts pr)"
        using typecheck_ok tc by auto
      show ?thesis
      proof (cases typecheck_only)
        case True
        with assms pr False tc no wf show ?thesis by (auto simp: run_source_def Let_def)
      next
        case run: False
        with assms pr False tc no obtain k msg it where
          i: "interp_run (rn_fuel rn) (rn_sys rn) (pr_stmts pr) (interp_init (rn_input rn) (rn_reactor rn)) = Some ((k, msg), it)"
          and rc: "rc = int k"
          by (auto simp: run_source_def Let_def split: bind_splits if_splits)
        from interp_run_ends [OF i] obtain it1 where
          "script_ends (rn_sys rn) (pr_stmts pr) (interp_init (rn_input rn) (rn_reactor rn)) it1"
          "k = (if it_had_runtime_error it1 then 1 else 0)" .
        with pr False tc no wf run rc show ?thesis by auto
      qed
    qed
  qed
qed

lemma run_source_gate_witness:
  "(\<exists>out rn'. run_source example_runner ''fixed x: num;'' ''bad.jag'' False True = Some (3, out, rn') \<and> rn' = example_runner) \<and>
   (\<exists>pr it. parse_program ''x;'' (Some ''free.jag'') = Some pr \<and>
      script_ends (rn_sys example_runner) (pr_stmts pr) (interp_init (rn_input example_runner) (rn_reactor example_runner)) it \<and>
      it_had_runtime_error it)"
proof
  have "map_option fst (run_source example_runner ''fixed x: num;'' ''bad.jag'' False True) = Some 3" by code_simp
  then obtain out rn' where run: "run_source example_runner ''fixed x: num;'' ''bad.jag'' False True = Some (3, out, rn')" by auto
  from run_source_gate [OF run] run
  show "\<exists>out rn'. run_source example_runner ''fixed x: num;'' ''bad.jag'' False True = Some (3, out, rn') \<and> rn' = example_runner"
    by auto
  have "map_option fst (run_source example_runner ''x;'' ''free.jag'' False True) = Some 1" by code_simp
  then obtain out rn' where "run_source example_runner ''x;'' ''free.jag'' False True = Some (1, out, rn')" by auto
  from run_source_gate [OF this]
  show "\<exists>pr it. parse_program ''x;'' (Some ''free.jag'') = Some pr \<and>
      script_ends (rn_sys example_runner) (pr_stmts pr) (interp_init (rn_input example_runner) (rn_reactor example_runner)) it \<and>
      it_had_runtime_error it" by auto
qed

text \<open>
  \<^verbatim>\<open>jag lint\<close> on a file that parses prints one warning for each declaration of \<^verbatim>\<open>l\<close> that the linter
  reaches, in the order of the file, and exits with 0 whatever it has found: its exit code says nothing of the
  warnings.
\<close>

theorem lint_command:
  assumes "fs_read fs f = Some src" "f \<noteq> ''--format=json''" "f \<noteq> ''--fix''"
    "parse_program (cstr src) (Some f) = Some pr" "\<not> pr_had_error pr"
  shows "jag_main rn fs looks [''lint'', f] =
    Some (Exits 0 (map Parse_message (pr_log pr) @
      [Err (concat (map (\<lambda>l. terminal_line (jag001 (Some f) l)) (concat (map ambiguous (pr_stmts pr)))))]))"
  using assms
  by (simp add: jag_main_def cmd_lint_def read_file_def lint_program_def lint_fold append_fold diag_bag_init_def
      diag_print_terminal_def comp_def Let_def del: map_concat)

lemma lint_command_witness:
  "\<exists>out. jag_main example_runner (example_files\<lparr>fs_read := (\<lambda>_. Some ''var l: num = 1;'')\<rparr>) [] [''lint'', ''a.jag''] =
     Some (Exits 0 [Err out]) \<and> out \<noteq> []"
proof -
  have "map_option (\<lambda>pr. (pr_had_error pr, pr_log pr, concat (map ambiguous (pr_stmts pr))))
      (parse_program (cstr ''var l: num = 1;'') (Some ''a.jag'')) = Some (False, [], [1])" by code_simp
  then obtain pr where pr: "parse_program (cstr ''var l: num = 1;'') (Some ''a.jag'') = Some pr" "\<not> pr_had_error pr"
    "pr_log pr = []" "concat (map ambiguous (pr_stmts pr)) = [1]" by auto
  from lint_command [OF _ _ _ pr(1,2), of "example_files\<lparr>fs_read := (\<lambda>_. Some ''var l: num = 1;'')\<rparr>"] pr(3,4)
  show ?thesis by (simp add: terminal_line_def)
qed

end
