(* ===== verification/Spec2Isabelle.thy ===== *)
theory Spec2Isabelle
  imports Lexer_Words Parser_Total Typecheck_Clean Formatter_Correct Linter List_Methods Interp_Safe Big_Step
    Ws_Correct Worker Event_Loop Http_Correct Driver

begin

text \<open>
  A model of the Jaguar language tools, in the order of the pipeline of \<^verbatim>\<open>src/src/main.c\<close>: the
  scanner hands tokens to the parser, which builds the syntax tree; the checker reads the tree
  and reports type errors; the interpreter runs it.  The formatter and the linter are tools of
  their own, and the diagnostics are what the linter reports with.

  \<^bold>\<open>Theories and the code they model.\<close>
  \<^item> \<open>Prelude\<close>: characters, C strings, \<^verbatim>\<open>long long\<close>, decimal printing and the collections of
    facts the proofs share.  \<open>Double\<close>, \<open>Double_Ops\<close>: the C type \<^verbatim>\<open>double\<close> with correct rounding,
    \<^verbatim>\<open>atof\<close>, arithmetic, comparison, conversion, \<^verbatim>\<open>%g\<close>.
  \<^item> \<open>Lexer\<close> (\<^verbatim>\<open>lexer/lexer.c\<close>): the record \<open>lexer\<close> is the struct with a cursor that is the rest
    of the text.  \<open>Lexer_Correct\<close> shows bounds, progress and tiling; \<open>Lexer_Words\<close> that scanning
    inverts printing.
  \<^item> \<open>Ast\<close> (\<^verbatim>\<open>include/ast.h\<close>), \<open>Parser\<close> (\<^verbatim>\<open>parser/parser.c\<close>): one definition per parsing function,
    over the record \<open>parser\<close> with the scanner in it.  The mutual recursion takes fuel;
    \<open>Parser_Total\<close> shows that \<open>parse_fuel\<close>, which counts the characters, is enough.
  \<^item> \<open>Typecheck\<close> (\<^verbatim>\<open>typecheck/typecheck.c\<close>): scopes, class table, inference and messages.
    \<open>Typecheck_Correct\<close> has the invariants, \<open>Typecheck_Clean\<close> what holds of a program that has
    no errors.  The walk along parent classes is a \<open>partial_function\<close>, because it does not
    return on a cycle.
  \<^item> \<open>Formatter\<close> and \<open>Formatter_Correct\<close> (\<^verbatim>\<open>formatter/formatter.c\<close>): the buffer records writes out
    of bounds and \<^verbatim>\<open>int\<close> overflows.  \<open>Diagnostics\<close> (\<^verbatim>\<open>diagnostics/diagnostics.c\<close>).  \<open>Linter\<close>
    (\<^verbatim>\<open>linter/linter.c\<close>), with the declarations it reaches as paths in the program.
  \<^item> \<open>Value\<close> (\<^verbatim>\<open>interp/value.c\<close>, \<^verbatim>\<open>runtime/native.c\<close>): the store of objects, environments, printing.
    \<open>Json\<close> (\<^verbatim>\<open>runtime/json.c\<close>).  \<open>Interp\<close> (\<^verbatim>\<open>interp/interp.c\<close>): every procedure of the evaluator,
    as a function on the record \<open>interp\<close>; the recursion is an argument and is tied by fuel at
    the end.  What the interpreter calls outside it is the parameter \<open>sys\<close>.
  \<^item> \<open>List_Ops\<close>, \<open>List_Sort\<close>, \<open>List_Methods\<close>: the linked lists of the store are HOL lists, with
    the interface \<open>list_store\<close>.
  \<^item> \<open>Store_Ok\<close>, \<open>Store_Steps\<close>, \<open>Json_Steps\<close>, \<open>Interp_Safe\<close>: no procedure of the interpreter leaves
    a dangling address, loses an object or changes a fixed binding.  The locale \<open>evaluation\<close> is
    the contract between the mutually recursive procedures; it is interpreted on \<open>eval_expr\<close> and
    \<open>exec_stmt\<close> with the system \<open>offline\<close>, in which every call outside the interpreter fails.
  \<^item> \<open>Fuel\<close>, \<open>Interp_Fuel\<close>: more fuel does not change a result of the interpreter, by the locale
    \<open>interp_fuel\<close> of two runs of which one has more.  \<open>Big_Step\<close>: the meaning of statements as an
    inductive relation \<open>runs\<close> without fuel, which the interpreter computes.
  \<^item> \<open>Base64\<close>, \<open>Sha1\<close> (\<^verbatim>\<open>runtime/base64.c\<close>, \<^verbatim>\<open>runtime/sha1.c\<close>): what the handshake of a WebSocket
    needs, checked against RFC 4648 and FIPS 180-4.  \<open>Netutil\<close> (\<^verbatim>\<open>runtime/netutil.c\<close>): buffers, and
    reading and writing on a script of what the socket calls return.
  \<^item> \<open>Ws\<close> (\<^verbatim>\<open>runtime/ws.c\<close>): handshake, frames, methods of a connection and its loop; the static
    variables of the file are the world of the interpreter, which it calls for the handlers.
    \<open>Ws_Correct\<close> has the frames of RFC 6455 and shows that the loop handles them one by one.
  \<^item> \<open>Worker\<close> (\<^verbatim>\<open>runtime/worker.c\<close>): the threads of a pool and the main program as a step relation; a step
    is a critical section, a change without a lock, a call or a statement.  A run has a log of the jobs
    submitted and called.  The locale \<open>job_contract\<close> is what the pool needs of the interpreter, and is
    interpreted on \<open>exec_stmt\<close>.
  \<^item> \<open>Reactor\<close> (\<^verbatim>\<open>runtime/reactor_common.c\<close>): the timers, as the world of the interpreter that their
    callbacks run in, with times as \<^verbatim>\<open>long long\<close> and a record of overflows; the order on worlds says that
    a script adds and clears timers but does not change them.  \<open>Event_Loop\<close> (\<^verbatim>\<open>runtime/coro.c\<close>, \<^verbatim>\<open>runtime/reactor_epoll.c\<close>, \<^verbatim>\<open>runtime/reactor_kqueue.c\<close>):
    coroutines, both watch tables and the loop.  The locale \<open>watch_contract\<close> is what the loop needs of a
    table, and is interpreted on both.
  \<^item> \<open>Http\<close> (\<^verbatim>\<open>runtime/http.c\<close>): requests and responses on the wire, routes, the server side of a
    connection, and the client.  \<open>Http_Correct\<close> shows that each side reads what the other writes, which of
    the registered routes serves a request, and what a runtime error does to a server.
  \<^item> \<open>Driver\<close> (\<^verbatim>\<open>main.c\<close>): the commands, with what they print, write and exit with, composed of the
    parser, the checker, the interpreter and the event loop.

  \<^bold>\<open>Bounds.\<close>  Fuel bounds the depth of the recursion, never the data: a result \<open>None\<close> says
  that the bound was too small or that the C code does not return.  Where a bound is enough,
  that is a theorem.

  \<^bold>\<open>Not modelled.\<close>  Memory allocation never fails, and what is never freed is not tracked but
  for the nodes of lists and for coroutines.  The calls of the operating system that open sockets are not
  modelled; what the others return is a script.
\<close>

end
